(* ===== verification/Prelude.thy ===== *)
theory Prelude
  imports
    "HOL-Library.Char_ord"
    "HOL-Library.List_Lexorder"
    "HOL-Library.Word"
    "HOL-Library.Sublist"
begin

text \<open>
  Shared vocabulary of the development: the exceptions of the daemon as values, a
  result type with sequencing, ordered sets and maps as the C++ standard library has
  them, and the list lemmas that more than one component needs.
\<close>

unbundle bit_operations_syntax

section \<open>Collections of rewrite rules\<close>

named_theorems result_simps \<open>rules that take a sequenced computation apart\<close>
named_theorems oset_simps \<open>rules for ordered sets and maps\<close>

section \<open>Exceptions as values\<close>

text \<open>
  The exception classes of \<^verbatim>\<open>nix/libutil/types.hh\<close>, \<^verbatim>\<open>util.hh\<close>, \<^verbatim>\<open>serialise.hh\<close> and
  \<^verbatim>\<open>store-api.hh\<close>, and one for the exceptions of the standard library. \<open>Throw c m\<close> is a thrown exception of class \<open>c\<close>; of the message only
  the constant text is kept. \<open>Abort\<close> is a failed \<^verbatim>\<open>assert\<close> or a call of \<^verbatim>\<open>abort\<close>, which no
  handler catches; \<open>Diverges\<close> stands for a call that never returns. \<open>OutOfFuel\<close> is not a behaviour of the program: it is the value of a
  bounded recursion whose bound was too small; the theorems about a bounded function either exclude it
  or hold for every bound.
\<close>

datatype exn =
    Error
  | SysError nat
  | EndOfFile
  | SerialisationError
  | FormatError
  | BuildError
  | SubstError
  | PathInUse
  | StdException

datatype error = Throw exn string | Abort string | Diverges | OutOfFuel

type_synonym 'a result = "error + 'a"

definition rbind :: "'a result \<Rightarrow> ('a \<Rightarrow> 'b result) \<Rightarrow> 'b result" where
  "rbind m f = (case m of Inl e \<Rightarrow> Inl e | Inr x \<Rightarrow> f x)"

lemma rbind_simps [simp, result_simps]:
  "rbind (Inl e) f = Inl e" "rbind (Inr x) f = f x"
  by (simp_all add: rbind_def)

lemma rbind_Inr_iff [result_simps]:
  "rbind m f = Inr y \<longleftrightarrow> (\<exists>x. m = Inr x \<and> f x = Inr y)"
  by (cases m) simp_all

lemma rbind_Inl_iff [result_simps]:
  "rbind m f = Inl e \<longleftrightarrow> m = Inl e \<or> (\<exists>x. m = Inr x \<and> f x = Inl e)"
  by (cases m) auto

lemma rbind_cong [fundef_cong]:
  "m = m' \<Longrightarrow> (\<And>x. m' = Inr x \<Longrightarrow> f x = f' x) \<Longrightarrow> rbind m f = rbind m' f'"
  by (cases m') simp_all

lemma rbind_assoc: "rbind (rbind m f) g = rbind m (\<lambda>x. rbind (f x) g)"
  by (cases m) simp_all

text \<open>Running a fallible step over a list, first to last; the first failure stops it.\<close>

fun rfold :: "('a \<Rightarrow> 's \<Rightarrow> 's result) \<Rightarrow> 'a list \<Rightarrow> 's \<Rightarrow> 's result" where
  "rfold f [] s = Inr s"
| "rfold f (x # xs) s = rbind (f x s) (rfold f xs)"

lemma rfold_append:
  "rfold f (xs @ ys) s = rbind (rfold f xs s) (rfold f ys)"
  by (induction xs arbitrary: s) (simp_all add: rbind_assoc [symmetric] rbind_def split: sum.splits)

lemma rfold_invariant:
  assumes "rfold f xs s = Inr t" and "P s"
    and "\<And>x s t. x \<in> set xs \<Longrightarrow> P s \<Longrightarrow> f x s = Inr t \<Longrightarrow> P t"
  shows "P t"
  using assms
proof (induction xs arbitrary: s)
  case Nil
  then show ?case by simp
next
  case (Cons x xs)
  from Cons.prems(1) obtain u where u: "f x s = Inr u" "rfold f xs u = Inr t"
    by (auto simp: rbind_Inr_iff)
  have "P u" using Cons.prems(3) [OF _ Cons.prems(2) u(1)] by simp
  then show ?case using Cons.IH [OF u(2)] Cons.prems(3) by (meson list.set_intros(2))
qed

section \<open>Ordered sets and maps\<close>

text \<open>
  A \<^verbatim>\<open>std::set\<close> is the list of its elements in iteration order, that is, strictly
  ascending; a \<^verbatim>\<open>std::map\<close> is the list of its bindings by ascending key. Strings compare
  byte by byte as unsigned characters, which is the order \<open>List_Lexorder\<close> and \<open>Char_ord\<close>
  give to \<open>string\<close>.
\<close>

type_synonym 'a oset = "'a list"
type_synonym ('k, 'v) omap = "('k \<times> 'v) list"

fun oinsert :: "'a::linorder \<Rightarrow> 'a oset \<Rightarrow> 'a oset" where
  "oinsert x [] = [x]"
| "oinsert x (y # ys) =
     (if x < y then x # y # ys else if x = y then y # ys else y # oinsert x ys)"

abbreviation is_oset :: "'a::linorder oset \<Rightarrow> bool" where
  "is_oset xs \<equiv> sorted_wrt (<) xs"

definition oinsert_all :: "'a::linorder list \<Rightarrow> 'a oset \<Rightarrow> 'a oset" where
  "oinsert_all xs s = fold oinsert xs s"

definition oerase :: "'a::linorder \<Rightarrow> 'a oset \<Rightarrow> 'a oset" where
  "oerase x s = filter (\<lambda>y. y \<noteq> x) s"

lemma set_oinsert [simp, oset_simps]: "set (oinsert x xs) = insert x (set xs)"
  by (induction xs) auto

lemma is_oset_oinsert [simp, intro]: "is_oset xs \<Longrightarrow> is_oset (oinsert x xs)"
  by (induction xs) auto

lemma set_oinsert_all [simp, oset_simps]: "set (oinsert_all xs s) = set xs \<union> set s"
  by (induction xs arbitrary: s) (auto simp: oinsert_all_def)

lemma is_oset_oinsert_all [simp, intro]: "is_oset s \<Longrightarrow> is_oset (oinsert_all xs s)"
  by (induction xs arbitrary: s) (auto simp: oinsert_all_def)

lemma set_oerase [simp, oset_simps]: "set (oerase x s) = set s - {x}"
  by (auto simp: oerase_def)

lemma is_oset_oerase [simp, intro]: "is_oset s \<Longrightarrow> is_oset (oerase x s)"
  by (simp add: oerase_def sorted_wrt_filter)

lemma oset_eqI: "is_oset xs \<Longrightarrow> is_oset ys \<Longrightarrow> set xs = set ys \<Longrightarrow> xs = ys"
  by (rule strict_sorted_equal)

lemma oinsert_all_oset: "is_oset xs \<Longrightarrow> oinsert_all xs [] = xs"
  by (rule oset_eqI) simp_all

fun oput :: "'k::linorder \<Rightarrow> 'v \<Rightarrow> ('k, 'v) omap \<Rightarrow> ('k, 'v) omap" where
  "oput k v [] = [(k, v)]"
| "oput k v ((l, w) # m) =
     (if k < l then (k, v) # (l, w) # m
      else if k = l then (l, v) # m
      else (l, w) # oput k v m)"

abbreviation is_omap :: "('k::linorder, 'v) omap \<Rightarrow> bool" where
  "is_omap m \<equiv> sorted_wrt (<) (map fst m)"

lemma map_of_oput [simp, oset_simps]: "map_of (oput k v m) = (map_of m)(k \<mapsto> v)"
  by (induction k v m rule: oput.induct) (auto simp: fun_eq_iff)

lemma keys_oput [simp, oset_simps]: "map fst (oput k v m) = oinsert k (map fst m)"
  by (induction k v m rule: oput.induct) auto

lemma is_omap_oput [simp, intro]: "is_omap m \<Longrightarrow> is_omap (oput k v m)"
  by simp

lemma is_omap_distinct: "is_omap m \<Longrightarrow> distinct (map fst m)"
  using strict_sorted_iff by blast

lemma omap_eqI:
  assumes "is_omap m" "is_omap n" "map_of m = map_of n"
  shows "m = n"
proof (rule map_sorted_distinct_set_unique [of fst])
  show "set m = set n"
    using assms(3) is_omap_distinct [OF assms(1)] is_omap_distinct [OF assms(2)]
    by (metis map_of_inject_set)
  show "distinct (map fst m)" "distinct (map fst n)"
    using assms is_omap_distinct by auto
  show "sorted (map fst m)" "sorted (map fst n)"
    using assms strict_sorted_iff by auto
  show "inj_on fst (set m \<union> set n)"
    using \<open>set m = set n\<close> is_omap_distinct [OF assms(1)] by (simp add: distinct_map)
qed

section \<open>State and exceptions\<close>

text \<open>
  Code that changes state and may throw: the state reached is kept when an exception is thrown, as in
  the program.
\<close>

type_synonym ('a, 's) action = "'s \<Rightarrow> 'a result \<times> 's"

named_theorems action_simps \<open>running an action step by step\<close>

definition areturn :: "'a \<Rightarrow> ('a, 's) action" where
  "areturn x s = (Inr x, s)"

definition athrow :: "error \<Rightarrow> ('a, 's) action" where
  "athrow e s = (Inl e, s)"

definition abind :: "('a, 's) action \<Rightarrow> ('a \<Rightarrow> ('b, 's) action) \<Rightarrow> ('b, 's) action" where
  "abind m f s = (case m s of (Inl e, s') \<Rightarrow> (Inl e, s') | (Inr x, s') \<Rightarrow> f x s')"

text \<open>A computation without effect, the reading of the state, and a pure update.\<close>

definition alift :: "'a result \<Rightarrow> ('a, 's) action" where
  "alift r s = (r, s)"

definition aget :: "('s \<Rightarrow> 'a) \<Rightarrow> ('a, 's) action" where
  "aget f s = (Inr (f s), s)"

definition amodify :: "('s \<Rightarrow> 's) \<Rightarrow> (unit, 's) action" where
  "amodify f s = (Inr (), f s)"

fun aforeach :: "'a list \<Rightarrow> ('a \<Rightarrow> (unit, 's) action) \<Rightarrow> (unit, 's) action" where
  "aforeach [] f = areturn ()"
| "aforeach (x # xs) f = abind (f x) (\<lambda>_. aforeach xs f)"

lemmas action_defs = areturn_def athrow_def abind_def alift_def aget_def amodify_def

lemma action_run [action_simps]:
  "areturn x s = (Inr x, s)" "athrow e s = (Inl e, s)" "alift r s = (r, s)"
  "aget f s = (Inr (f s), s)" "amodify g s = (Inr (), g s)"
  by (simp_all add: action_defs)

lemma abind_run [action_simps]:
  "m s = (Inl e, s') \<Longrightarrow> abind m f s = (Inl e, s')"
  "m s = (Inr x, s') \<Longrightarrow> abind m f s = f x s'"
  by (simp_all add: abind_def)

lemma abind_simps [simp]:
  "abind (areturn x) f = f x" "abind (athrow e) f = athrow e" "abind (alift (Inr x)) f = f x"
  "abind (alift (Inl e)) f = athrow e" "abind (aget g) f s = f (g s) s" "abind (amodify h) f' s = f' () (h s)"
  by (auto simp: action_defs)

lemma abind_assoc: "abind (abind m f) g = abind m (\<lambda>x. abind (f x) g)"
  by (rule ext) (auto simp: abind_def split: prod.splits sum.splits)

lemma abind_return [simp]: "abind m areturn = m"
  by (rule ext) (auto simp: action_defs split: prod.splits sum.splits)

lemma abind_cong [fundef_cong]:
  assumes "m s = m' s'" "\<And>x t. m' s' = (Inr x, t) \<Longrightarrow> f x t = f' x t"
  shows "abind m f s = abind m' f' s'"
  using assms by (auto simp: abind_def split: prod.splits sum.splits)

lemma aforeach_append: "aforeach (xs @ ys) f = abind (aforeach xs f) (\<lambda>_. aforeach ys f)"
  by (induction xs) (simp_all add: abind_assoc)

text \<open>An action keeps a relation between the state before and after, however it ends.\<close>

definition keeps :: "('s \<Rightarrow> 's \<Rightarrow> bool) \<Rightarrow> ('a, 's) action \<Rightarrow> bool" where
  "keeps R m \<longleftrightarrow> (\<forall>s. R s (snd (m s)))"

named_theorems keeps_intros \<open>what keeps a relation on states\<close>

lemma keepsI [intro?]: "(\<And>s. R s (snd (m s))) \<Longrightarrow> keeps R m"
  by (simp add: keeps_def)

lemma keepsD: "keeps R m \<Longrightarrow> R s (snd (m s))"
  by (simp add: keeps_def)

lemma keeps_pure [keeps_intros]:
  assumes "reflp R"
  shows "keeps R (areturn x)" "keeps R (athrow e)" "keeps R (alift r)" "keeps R (aget f)"
  using assms by (simp_all add: keeps_def reflpD action_run)

lemma keeps_abind [keeps_intros]:
  assumes "transp R" "keeps R m" "\<And>x. keeps R (f x)"
  shows "keeps R (abind m f)"
proof
  fix s
  obtain r s' where m: "m s = (r, s')" by (cases "m s") auto
  have "R s s'" using assms(2) m by (metis keepsD snd_conv)
  moreover have "R s' (snd (f x s'))" for x using assms(3) by (rule keepsD)
  ultimately show "R s (snd (abind m f s))"
    using m transpD [OF assms(1)] by (cases r) (auto simp: abind_def)
qed

lemma keeps_aforeach [keeps_intros]:
  assumes "reflp R" "transp R" "\<And>x. x \<in> set xs \<Longrightarrow> keeps R (f x)"
  shows "keeps R (aforeach xs f)"
  using assms(3) by (induction xs) (simp_all add: keeps_pure keeps_abind assms(1,2))

lemma keeps_if [keeps_intros]: "(c \<Longrightarrow> keeps R m) \<Longrightarrow> (\<not> c \<Longrightarrow> keeps R n) \<Longrightarrow> keeps R (if c then m else n)"
  by simp

end
