(* ===== verification/Serialise.thy ===== *)
theory Serialise
  imports Prelude
begin

text \<open>
  The wire format of \<^verbatim>\<open>nix/libutil/serialise.cc\<close>: integers and strings padded to eight
  bytes, buffered sinks and sources, and the loops that read from a descriptor.

  A sink is modelled by the byte strings it is called with, in order (\<open>sink_calls\<close>), so that
  a client sees the chunks of the source; the stream is their concatenation. A source
  is modelled by the bytes it has left. That this is what \<^verbatim>\<open>Source::operator()\<close> provides on
  top of any \<^verbatim>\<open>read\<close> method is the locale \<open>byte_source\<close>, interpreted below for a
  \<^verbatim>\<open>StringSource\<close> and for a \<^verbatim>\<open>BufferedSource\<close> over a descriptor.
\<close>

type_synonym sink_calls = "string list"
type_synonym source = string

abbreviation bytes_of :: "sink_calls \<Rightarrow> string" where
  "bytes_of \<equiv> concat"

section \<open>Writing\<close>

definition writePadding :: "nat \<Rightarrow> sink_calls" where
  "writePadding len =
     (if len mod 8 \<noteq> 0 then [replicate (8 - len mod 8) (CHR 0x00)] else [])"

text \<open>Assignment of a word to an \<^verbatim>\<open>unsigned char\<close> keeps its low byte.\<close>

definition to_byte :: "'a::len word \<Rightarrow> char" where
  "to_byte w = char_of (unat w)"

definition writeInt :: "32 word \<Rightarrow> sink_calls" where
  "writeInt n =
     [[to_byte (n AND 0xff),
       to_byte (drop_bit 8 n AND 0xff),
       to_byte (drop_bit 16 n AND 0xff),
       to_byte (drop_bit 24 n AND 0xff),
       CHR 0x00, CHR 0x00, CHR 0x00, CHR 0x00]]"

definition writeLongLong :: "64 word \<Rightarrow> sink_calls" where
  "writeLongLong n =
     [[to_byte (n AND 0xff),
       to_byte (drop_bit 8 n AND 0xff),
       to_byte (drop_bit 16 n AND 0xff),
       to_byte (drop_bit 24 n AND 0xff),
       to_byte (drop_bit 32 n AND 0xff),
       to_byte (drop_bit 40 n AND 0xff),
       to_byte (drop_bit 48 n AND 0xff),
       to_byte (drop_bit 56 n AND 0xff)]]"

text \<open>The length, a \<^verbatim>\<open>size_t\<close>, is converted to the \<^verbatim>\<open>unsigned int\<close> that \<^verbatim>\<open>writeInt\<close> takes.\<close>

definition writeString :: "string \<Rightarrow> sink_calls" where
  "writeString s =
     writeInt (word_of_nat (length s)) @ [s] @ writePadding (length s)"

definition writeStrings :: "string list \<Rightarrow> sink_calls" where
  "writeStrings ss =
     writeInt (word_of_nat (length ss)) @ concat (map writeString ss)"

section \<open>Reading\<close>

definition source_read :: "nat \<Rightarrow> source \<Rightarrow> (string \<times> source) result" where
  "source_read len src =
     (if len \<le> length src then Inr (take len src, drop len src)
      else Inl (Throw EndOfFile ''end of string reached''))"

definition readPadding :: "nat \<Rightarrow> source \<Rightarrow> (unit \<times> source) result" where
  "readPadding len src =
     (if len mod 8 \<noteq> 0 then
        rbind (source_read (8 - len mod 8) src) (\<lambda>(zero, src).
          if list_all (\<lambda>c. c = CHR 0x00) zero then Inr ((), src)
          else Inl (Throw SerialisationError ''non-zero padding''))
      else Inr ((), src))"

definition readInt :: "source \<Rightarrow> (32 word \<times> source) result" where
  "readInt src =
     rbind (source_read 8 src) (\<lambda>(buf, src).
       if buf ! 4 \<noteq> CHR 0x00 \<or> buf ! 5 \<noteq> CHR 0x00 \<or> buf ! 6 \<noteq> CHR 0x00 \<or> buf ! 7 \<noteq> CHR 0x00
       then Inl (Throw SerialisationError ''implementation cannot deal with > 32-bit integers'')
       else Inr (of_char (buf ! 0) OR
                 push_bit 8 (of_char (buf ! 1)) OR
                 push_bit 16 (of_char (buf ! 2)) OR
                 push_bit 24 (of_char (buf ! 3)), src))"

definition readLongLong :: "source \<Rightarrow> (64 word \<times> source) result" where
  "readLongLong src =
     rbind (source_read 8 src) (\<lambda>(buf, src).
       Inr (of_char (buf ! 0) OR
            push_bit 8 (of_char (buf ! 1)) OR
            push_bit 16 (of_char (buf ! 2)) OR
            push_bit 24 (of_char (buf ! 3)) OR
            push_bit 32 (of_char (buf ! 4)) OR
            push_bit 40 (of_char (buf ! 5)) OR
            push_bit 48 (of_char (buf ! 6)) OR
            push_bit 56 (of_char (buf ! 7)), src))"

text \<open>The overload with a caller's buffer of \<open>limit\<close> bytes, and the allocating one.\<close>

definition readString_max :: "nat \<Rightarrow> source \<Rightarrow> (string \<times> source) result" where
  "readString_max limit src =
     rbind (readInt src) (\<lambda>(n, src).
       let len = unat n in
       if len > limit then Inl (Throw Error ''string is too long'')
       else rbind (source_read len src) (\<lambda>(buf, src).
              rbind (readPadding len src) (\<lambda>(_, src). Inr (buf, src))))"

definition readString :: "source \<Rightarrow> (string \<times> source) result" where
  "readString src =
     rbind (readInt src) (\<lambda>(n, src).
       let len = unat n in
       rbind (source_read len src) (\<lambda>(buf, src).
         rbind (readPadding len src) (\<lambda>(_, src). Inr (buf, src))))"

text \<open>
  \<^verbatim>\<open>readStrings\<close> inserts at the end of a container: a list keeps order and duplicates,
  a set does not (the hint position does not matter).
\<close>

fun readStrings_loop :: "nat \<Rightarrow> source \<Rightarrow> (string list \<times> source) result" where
  "readStrings_loop 0 src = Inr ([], src)"
| "readStrings_loop (Suc count) src =
     rbind (readString src) (\<lambda>(s, src).
       rbind (readStrings_loop count src) (\<lambda>(ss, src). Inr (s # ss, src)))"

definition readStrings :: "source \<Rightarrow> (string list \<times> source) result" where
  "readStrings src =
     rbind (readInt src) (\<lambda>(count, src). readStrings_loop (unat count) src)"

definition readStringSet :: "source \<Rightarrow> (string oset \<times> source) result" where
  "readStringSet src =
     rbind (readStrings src) (\<lambda>(ss, src). Inr (oinsert_all ss [], src))"

section \<open>Little-endian words\<close>

text \<open>
  Both integer formats are one scheme, little-endian base 256, at two widths. The lemmas
  are proved once for the scheme.
\<close>

fun le_bytes :: "nat \<Rightarrow> 'a::len word \<Rightarrow> string" where
  "le_bytes 0 w = []"
| "le_bytes (Suc k) w = to_byte (take_bit 8 w) # le_bytes k (drop_bit 8 w)"

fun le_word :: "string \<Rightarrow> 'a::len word" where
  "le_word [] = 0"
| "le_word (c # cs) = of_char c OR push_bit 8 (le_word cs)"

lemma length_le_bytes [simp]: "length (le_bytes k w) = k"
  by (induction k arbitrary: w) simp_all

lemma and_ff: "w AND 0xff = take_bit 8 (w :: 'a::len word)"
  by (simp add: take_bit_eq_mask mask_eq_exp_minus_1)

lemma of_char_to_byte:
  "of_char (to_byte (take_bit 8 w :: 'a::len word)) = take_bit 8 w"
proof -
  have "unat (take_bit 8 w) < 2 ^ 8"
    by (metis unsigned_take_bit_eq take_bit_nat_less_exp)
  then have "of_nat (unat (take_bit 8 w) mod 256) = take_bit 8 w"
    by simp
  then show ?thesis
    unfolding to_byte_def by (metis of_char_of of_nat_of_char)
qed

lemma take_bit_join:
  "take_bit m w OR push_bit m (take_bit k (drop_bit m w)) = take_bit (m + k) (w :: 'a::len word)"
  by (rule bit_word_eqI) (auto simp: bit_simps)

lemma le_word_le_bytes: "le_word (le_bytes k w) = take_bit (8 * k) w"
  by (induction k arbitrary: w) (simp_all add: of_char_to_byte take_bit_join)

lemma bit_of_char_word:
  "bit (of_char c :: 'a::len word) i \<longleftrightarrow> i < LENGTH('a) \<and> bit (of_char c :: nat) i"
proof -
  have "bit (of_nat (of_char c) :: 'a word) i \<longleftrightarrow> i < LENGTH('a) \<and> bit (of_char c :: nat) i"
    by (simp only: bit_of_nat_iff possible_bit_word)
  then show ?thesis
    by (simp only: of_nat_of_char)
qed

lemma not_bit_of_char: "8 \<le> i \<Longrightarrow> \<not> bit (of_char c :: nat) i"
proof -
  assume "8 \<le> i"
  moreover have "take_bit 8 (of_char c :: nat) = of_char c"
    by (simp add: take_bit_nat_eq_self)
  ultimately show ?thesis
    by (metis bit_take_bit_iff not_le)
qed

lemma bit_of_char_less: "bit (of_char c :: nat) i \<Longrightarrow> i < 8"
  using not_bit_of_char not_le by blast

lemma to_byte_of_char_or:
  assumes "8 \<le> LENGTH('a)"
  shows "to_byte (take_bit 8 (of_char c OR push_bit 8 w :: 'a::len word)) = c"
proof -
  have "take_bit 8 (of_char c OR push_bit 8 w :: 'a word) = of_char c"
    by (rule bit_word_eqI)
      (use assms not_bit_of_char in \<open>auto simp: bit_simps bit_of_char_word not_less\<close>)
  moreover have "unat (of_char c :: 'a word) = of_char c"
  proof -
    have "(2::nat) ^ 8 \<le> 2 ^ LENGTH('a)"
      using assms by (intro power_increasing) simp_all
    then have "(of_char c :: nat) < 2 ^ LENGTH('a)"
      using less_le_trans [OF nat_of_char_less_256] by simp
    then show ?thesis
      by (metis of_nat_of_char unat_of_nat mod_less)
  qed
  ultimately show ?thesis
    by (simp add: to_byte_def)
qed

lemma drop_bit_of_char_or:
  assumes "take_bit k w = w" and "8 + k \<le> LENGTH('a)"
  shows "drop_bit 8 (of_char c OR push_bit 8 w :: 'a::len word) = w"
proof (rule bit_word_eqI)
  fix i
  have "bit w i \<longleftrightarrow> bit w i \<and> i < k"
    by (metis assms(1) bit_take_bit_iff)
  then show "bit (drop_bit 8 (of_char c OR push_bit 8 w)) i = bit w i"
    using assms(2) not_bit_of_char [of "8 + i" c] by (auto simp: bit_simps bit_of_char_word)
qed

lemma take_bit_le_word: "take_bit (8 * length cs) (le_word cs :: 'a::len word) = le_word cs"
proof (induction cs)
  case (Cons c cs)
  have "take_bit (8 + 8 * length cs) (of_char c :: 'a word) = of_char c"
    by (rule bit_word_eqI)
      (auto simp: bit_take_bit_iff bit_of_char_word intro: trans_less_add1 dest: bit_of_char_less)
  then show ?case
    by (simp add: take_bit_or take_bit_push_bit Cons.IH)
qed simp

lemma le_bytes_le_word:
  "8 * length cs \<le> LENGTH('a) \<Longrightarrow> le_bytes (length cs) (le_word cs :: 'a::len word) = cs"
proof (induction cs)
  case (Cons c cs)
  then show ?case
    by (simp add: to_byte_of_char_or del: take_bit_or drop_bit_or)
      (simp add: drop_bit_of_char_or [OF take_bit_le_word] del: drop_bit_or)
qed simp

section \<open>Round trips\<close>

text \<open>A length that an \<^verbatim>\<open>unsigned int\<close> can hold.\<close>

definition fits_u32 :: "nat \<Rightarrow> bool" where
  "fits_u32 n \<longleftrightarrow> n < 2 ^ 32"

lemma unat_u32: "fits_u32 n \<Longrightarrow> unat (word_of_nat n :: 32 word) = n"
  by (simp add: fits_u32_def unat_of_nat)

lemma fits_u32_unat: "fits_u32 (unat (w :: 32 word))"
  using unsigned_less [of w] by (simp add: fits_u32_def)

named_theorems read_write \<open>a reader applied to the output of its writer\<close>

lemma list_of_length_8:
  assumes "length buf = 8"
  obtains b0 b1 b2 b3 b4 b5 b6 b7 where "buf = [b0, b1, b2, b3, b4, b5, b6, b7]"
  using assms by (auto simp: eval_nat_numeral length_Suc_conv)

lemma writeInt_le: "bytes_of (writeInt n) = le_bytes 4 n @ replicate 4 (CHR 0x00)"
  by (simp add: writeInt_def and_ff eval_nat_numeral)

lemma writeLongLong_le: "bytes_of (writeLongLong n) = le_bytes 8 n"
  by (simp add: writeLongLong_def and_ff eval_nat_numeral)

lemma source_read_append [read_write, simp]:
  "length xs = n \<Longrightarrow> source_read n (xs @ ys) = Inr (xs, ys)"
  by (simp add: source_read_def)

lemma source_read_Inr:
  "source_read n src = Inr (xs, rest) \<longleftrightarrow> src = xs @ rest \<and> length xs = n"
  by (auto simp: source_read_def)

lemma readInt_iff:
  "readInt src = Inr (n, rest) \<longleftrightarrow>
     (\<exists>buf. length buf = 4 \<and> src = buf @ replicate 4 (CHR 0x00) @ rest \<and> n = le_word buf)"
proof
  assume "readInt src = Inr (n, rest)"
  then obtain buf where buf: "src = buf @ rest" "length buf = 8"
    and z: "buf ! 4 = CHR 0x00" "buf ! 5 = CHR 0x00" "buf ! 6 = CHR 0x00" "buf ! 7 = CHR 0x00"
    and n: "n = of_char (buf ! 0) OR push_bit 8 (of_char (buf ! 1)) OR
      push_bit 16 (of_char (buf ! 2)) OR push_bit 24 (of_char (buf ! 3))"
    by (auto simp: readInt_def rbind_Inr_iff source_read_Inr split: if_splits)
  from buf(2) obtain b0 b1 b2 b3 b4 b5 b6 b7 where "buf = [b0, b1, b2, b3, b4, b5, b6, b7]"
    by (rule list_of_length_8)
  with buf z n show "\<exists>buf. length buf = 4 \<and> src = buf @ replicate 4 (CHR 0x00) @ rest \<and> n = le_word buf"
    by (intro exI [of _ "[b0, b1, b2, b3]"]) (simp add: push_bit_or push_bit_push_bit eval_nat_numeral)
next
  assume "\<exists>buf. length buf = 4 \<and> src = buf @ replicate 4 (CHR 0x00) @ rest \<and> n = le_word buf"
  then obtain b0 b1 b2 b3 where "src = [b0, b1, b2, b3] @ replicate 4 (CHR 0x00) @ rest"
    "n = le_word [b0, b1, b2, b3]"
    by (auto simp: eval_nat_numeral length_Suc_conv)
  then show "readInt src = Inr (n, rest)"
    by (simp add: readInt_def source_read_def push_bit_or push_bit_push_bit eval_nat_numeral)
qed

lemma readInt_eq_writeInt:
  "readInt src = Inr (n, rest) \<longleftrightarrow> src = bytes_of (writeInt n) @ rest"
proof -
  have "le_bytes 4 (le_word buf :: 32 word) = buf" if "length buf = 4" for buf
    using le_bytes_le_word [of buf, where 'a = 32] that by simp
  moreover have "le_word (le_bytes 4 n) = n"
    by (simp add: le_word_le_bytes take_bit_word_eq_self)
  ultimately show ?thesis
    by (auto simp: readInt_iff writeInt_le intro!: exI [of _ "le_bytes 4 n"])
qed

lemma readInt_writeInt [read_write, simp]:
  "readInt (bytes_of (writeInt n) @ rest) = Inr (n, rest)"
  by (simp only: readInt_eq_writeInt)

lemma length_writeInt [simp]: "length (bytes_of (writeInt n)) = 8"
  by (simp add: writeInt_def)

lemma length_writeLongLong [simp]: "length (bytes_of (writeLongLong n)) = 8"
  by (simp add: writeLongLong_def)

lemma readLongLong_le:
  "readLongLong src = rbind (source_read 8 src) (\<lambda>(buf, src). Inr (le_word buf, src))"
proof -
  have "of_char (buf ! 0) OR push_bit 8 (of_char (buf ! 1)) OR
            push_bit 16 (of_char (buf ! 2)) OR push_bit 24 (of_char (buf ! 3)) OR
            push_bit 32 (of_char (buf ! 4)) OR push_bit 40 (of_char (buf ! 5)) OR
            push_bit 48 (of_char (buf ! 6)) OR push_bit 56 (of_char (buf ! 7))
        = (le_word buf :: 64 word)" if "length buf = 8" for buf
    using that by (rule list_of_length_8) (simp add: push_bit_or push_bit_push_bit)
  then show ?thesis
    by (cases "source_read 8 src") (auto simp: readLongLong_def source_read_Inr)
qed

lemma readLongLong_eq_writeLongLong:
  "readLongLong src = Inr (n, rest) \<longleftrightarrow> src = bytes_of (writeLongLong n) @ rest"
proof -
  have "le_bytes 8 (le_word buf :: 64 word) = buf" if "length buf = 8" for buf
    using le_bytes_le_word [of buf, where 'a = 64] that by simp
  moreover have "le_word (le_bytes 8 n) = n"
    by (simp add: le_word_le_bytes take_bit_word_eq_self)
  ultimately show ?thesis
    by (auto simp: readLongLong_le rbind_Inr_iff source_read_Inr writeLongLong_le
        intro!: exI [of _ "le_bytes 8 n"])
qed

lemma readLongLong_writeLongLong [read_write, simp]:
  "readLongLong (bytes_of (writeLongLong n) @ rest) = Inr (n, rest)"
  by (simp only: readLongLong_eq_writeLongLong)

lemma list_all_eq_replicate: "list_all (\<lambda>c. c = a) xs \<longleftrightarrow> xs = replicate (length xs) a"
  by (induction xs) auto

lemma readPadding_Inr:
  "readPadding len src = Inr (u, rest) \<longleftrightarrow> src = bytes_of (writePadding len) @ rest"
proof (cases "len mod 8 = 0")
  case True
  then show ?thesis by (auto simp: readPadding_def writePadding_def)
next
  case False
  then have "readPadding len src = Inr (u, rest) \<longleftrightarrow>
      (\<exists>xs. src = xs @ rest \<and> length xs = 8 - len mod 8 \<and> xs = replicate (length xs) (CHR 0x00))"
    by (auto simp: readPadding_def rbind_Inr_iff source_read_Inr list_all_eq_replicate
        simp del: replicate_eq_replicate split: if_splits)
  also have "\<dots> \<longleftrightarrow> src = replicate (8 - len mod 8) (CHR 0x00) @ rest"
    by (metis length_replicate)
  finally show ?thesis
    using False by (simp add: writePadding_def)
qed

lemma readPadding_writePadding [read_write, simp]:
  "readPadding n (bytes_of (writePadding n) @ rest) = Inr ((), rest)"
  by (simp only: readPadding_Inr)

lemma readString_iff:
  "readString src = Inr (s, rest) \<longleftrightarrow>
     fits_u32 (length s) \<and> src = bytes_of (writeString s) @ rest"
proof
  assume "readString src = Inr (s, rest)"
  then obtain n where "src = bytes_of (writeInt n) @ s @ bytes_of (writePadding (unat n)) @ rest"
    and "unat n = length s"
    by (auto simp: readString_def Let_def rbind_Inr_iff readInt_eq_writeInt source_read_Inr
        readPadding_Inr)
  moreover have "fits_u32 (unat n)"
    by (rule fits_u32_unat)
  moreover have "word_of_nat (unat n) = n"
    by simp
  ultimately show "fits_u32 (length s) \<and> src = bytes_of (writeString s) @ rest"
    by (simp add: writeString_def)
next
  assume "fits_u32 (length s) \<and> src = bytes_of (writeString s) @ rest"
  then show "readString src = Inr (s, rest)"
    by (simp add: readString_def Let_def writeString_def unat_u32)
qed

lemma readString_writeString [read_write]:
  assumes "fits_u32 (length s)"
  shows "readString (bytes_of (writeString s) @ rest) = Inr (s, rest)"
  using assms by (simp only: readString_iff)

lemma readStrings_loop_Suc:
  "readStrings_loop (Suc k) src = Inr (ss, rest) \<longleftrightarrow>
     (\<exists>s ss' src'. ss = s # ss' \<and> readString src = Inr (s, src') \<and>
        readStrings_loop k src' = Inr (ss', rest))"
  by (auto simp: rbind_Inr_iff)

lemma readStrings_loop_iff:
  "readStrings_loop k src = Inr (ss, rest) \<longleftrightarrow>
     length ss = k \<and> (\<forall>s \<in> set ss. fits_u32 (length s)) \<and>
     src = bytes_of (concat (map writeString ss)) @ rest"
proof (induction k arbitrary: src ss)
  case 0
  then show ?case by auto
next
  case (Suc k)
  show ?case
    unfolding readStrings_loop_Suc readString_iff Suc.IH by (cases ss) (simp_all, blast)
qed

lemma readStrings_iff:
  "readStrings src = Inr (ss, rest) \<longleftrightarrow>
     fits_u32 (length ss) \<and> (\<forall>s \<in> set ss. fits_u32 (length s)) \<and>
     src = bytes_of (writeStrings ss) @ rest"
proof
  assume "readStrings src = Inr (ss, rest)"
  then obtain n where n: "src = bytes_of (writeInt n) @ bytes_of (concat (map writeString ss)) @ rest"
    "length ss = unat n" "\<forall>s \<in> set ss. fits_u32 (length s)"
    by (auto simp: readStrings_def rbind_Inr_iff readInt_eq_writeInt readStrings_loop_iff)
  moreover have "fits_u32 (unat n)"
    by (rule fits_u32_unat)
  moreover have "word_of_nat (unat n) = n"
    by simp
  ultimately show "fits_u32 (length ss) \<and> (\<forall>s \<in> set ss. fits_u32 (length s)) \<and>
     src = bytes_of (writeStrings ss) @ rest"
    by (simp add: writeStrings_def)
next
  assume "fits_u32 (length ss) \<and> (\<forall>s \<in> set ss. fits_u32 (length s)) \<and>
     src = bytes_of (writeStrings ss) @ rest"
  then show "readStrings src = Inr (ss, rest)"
    by (simp add: readStrings_def writeStrings_def unat_u32 readStrings_loop_iff)
qed

lemma readStrings_writeStrings [read_write]:
  assumes "fits_u32 (length ss)" and "\<forall>s \<in> set ss. fits_u32 (length s)"
  shows "readStrings (bytes_of (writeStrings ss) @ rest) = Inr (ss, rest)"
  using assms by (simp only: readStrings_iff)

section \<open>Sinks\<close>

text \<open>
  What a client relies on when it calls a sink: nothing is lost, nothing is reordered,
  and the boundaries between calls do not matter.
\<close>

locale byte_sink =
  fixes put :: "string \<Rightarrow> 'k \<Rightarrow> 'k"
    and out :: "'k \<Rightarrow> string"
    and invar :: "'k \<Rightarrow> bool"
  assumes out_put: "invar k \<Longrightarrow> out (put d k) = out k @ d"
    and invar_put: "invar k \<Longrightarrow> invar (put d k)"
begin

lemma invar_fold_put: "invar k \<Longrightarrow> invar (fold put calls k)"
  by (induction calls arbitrary: k) (simp_all add: invar_put)

lemma out_fold_put: "invar k \<Longrightarrow> out (fold put calls k) = out k @ bytes_of calls"
  by (induction calls arbitrary: k) (simp_all add: out_put invar_put)

lemma out_rechunk:
  "invar k \<Longrightarrow> bytes_of calls = bytes_of calls' \<Longrightarrow>
     out (fold put calls k) = out (fold put calls' k)"
  by (simp add: out_fold_put)

end

text \<open>\<^verbatim>\<open>StringSink\<close> appends to its string (the warning about very large dumps is output only).\<close>

definition StringSink_call :: "string \<Rightarrow> string \<Rightarrow> string" where
  "StringSink_call data s = s @ data"

interpretation string_sink: byte_sink StringSink_call "\<lambda>s. s" "\<lambda>_. True"
  by unfold_locales (simp_all add: StringSink_call_def)

text \<open>
  \<^verbatim>\<open>BufferedSink\<close>. \<open>buffer = []\<close> is the null pointer; \<open>written\<close> records the calls of the
  virtual method \<^verbatim>\<open>write\<close>.
\<close>

record buffered_sink =
  bufSize :: nat
  bufPos :: nat
  buffer :: string
  written :: sink_calls

definition new_BufferedSink :: "nat \<Rightarrow> buffered_sink" where
  "new_BufferedSink sz = \<lparr>bufSize = sz, bufPos = 0, buffer = [], written = []\<rparr>"

definition BufferedSink_flush :: "buffered_sink \<Rightarrow> buffered_sink" where
  "BufferedSink_flush k =
     (if bufPos k = 0 then k
      else let n = bufPos k; k = k\<lparr>bufPos := 0\<rparr>
           in k\<lparr>written := written k @ [take n (buffer k)]\<rparr>)"

function BufferedSink_loop :: "string \<Rightarrow> buffered_sink \<Rightarrow> buffered_sink" where
  "BufferedSink_loop data k =
     (if length data = 0 then k
      else if bufPos k + length data \<ge> bufSize k then
        (let k = BufferedSink_flush k in k\<lparr>written := written k @ [data]\<rparr>)
      else
        (let n = (if bufPos k + length data > bufSize k then bufSize k - bufPos k
                  else length data);
             k = k\<lparr>buffer := take (bufPos k) (buffer k) @ take n data @ drop (bufPos k + n) (buffer k),
                    bufPos := bufPos k + n\<rparr>;
             k = (if bufPos k = bufSize k then BufferedSink_flush k else k)
         in BufferedSink_loop (drop n data) k))"
  by pat_completeness auto
termination
  by (relation "measure (\<lambda>(data, k). length data)") auto

declare BufferedSink_loop.simps [simp del]

lemma BufferedSink_loop_Nil [simp]: "BufferedSink_loop [] k = k"
  by (simp add: BufferedSink_loop.simps)

definition BufferedSink_call :: "string \<Rightarrow> buffered_sink \<Rightarrow> buffered_sink" where
  "BufferedSink_call data k =
     BufferedSink_loop data
       (if buffer k = [] then k\<lparr>buffer := replicate (bufSize k) (CHR 0x00)\<rparr> else k)"

definition sink_invar :: "buffered_sink \<Rightarrow> bool" where
  "sink_invar k \<longleftrightarrow>
     (if buffer k = [] then bufPos k = 0 else length (buffer k) = bufSize k \<and> bufPos k \<le> bufSize k)"

definition sink_content :: "buffered_sink \<Rightarrow> string" where
  "sink_content k = bytes_of (written k) @ take (bufPos k) (buffer k)"

lemma sink_flush:
  "sink_invar k \<Longrightarrow> sink_content (BufferedSink_flush k) = sink_content k"
  "sink_invar k \<Longrightarrow> sink_invar (BufferedSink_flush k)"
  "bufPos (BufferedSink_flush k) = 0"
  "buffer (BufferedSink_flush k) = buffer k"
  "bufSize (BufferedSink_flush k) = bufSize k"
  by (auto simp: BufferedSink_flush_def sink_content_def sink_invar_def Let_def)

lemma sink_loop:
  assumes "sink_invar k" and "length (buffer k) = bufSize k"
  shows "sink_content (BufferedSink_loop data k) = sink_content k @ data \<and>
         sink_invar (BufferedSink_loop data k)"
proof (cases "length data = 0")
  case True
  then show ?thesis
    using assms by simp
next
  case ne: False
  show ?thesis
  proof (cases "bufPos k + length data \<ge> bufSize k")
    case True
    then show ?thesis
      using ne assms sink_flush [of k]
      by (simp add: BufferedSink_loop.simps [of data] Let_def sink_content_def sink_invar_def)
  next
    case False
    then show ?thesis
      using ne assms
      by (auto simp: BufferedSink_loop.simps [of data] sink_content_def sink_invar_def Let_def)
  qed
qed

lemma sink_call:
  assumes "sink_invar k"
  shows "sink_content (BufferedSink_call data k) = sink_content k @ data"
    and "sink_invar (BufferedSink_call data k)"
proof -
  let ?k = "if buffer k = [] then k\<lparr>buffer := replicate (bufSize k) (CHR 0x00)\<rparr> else k"
  have "sink_invar ?k" "length (buffer ?k) = bufSize ?k" "sink_content ?k = sink_content k"
    using assms by (auto simp: sink_invar_def sink_content_def)
  then show "sink_content (BufferedSink_call data k) = sink_content k @ data"
    "sink_invar (BufferedSink_call data k)"
    using sink_loop [of ?k data] by (simp_all add: BufferedSink_call_def)
qed

interpretation buffered_sink: byte_sink BufferedSink_call sink_content sink_invar
  by unfold_locales (simp_all add: sink_call)

section \<open>Descriptors and sources\<close>

text \<open>
  What \<^verbatim>\<open>read(2)\<close> on a descriptor will deliver, call by call: data (at most the requested
  count; an empty delivery is end of file), an interrupted call, or an error number.
\<close>

datatype rd_event = RdData string | RdEINTR | RdFail nat

type_synonym fd_in = "rd_event list"

fun sys_read :: "nat \<Rightarrow> fd_in \<Rightarrow> rd_event \<times> fd_in" where
  "sys_read n [] = (RdData [], [])"
| "sys_read n (RdData d # es) =
     (if length d \<le> n then (RdData d, es)
      else (RdData (take n d), RdData (drop n d) # es))"
| "sys_read n (e # es) = (e, es)"

text \<open>The bytes that arrive before end of file or failure.\<close>

fun fd_bytes :: "fd_in \<Rightarrow> string" where
  "fd_bytes [] = []"
| "fd_bytes (RdData d # es) = (if d = [] then [] else d @ fd_bytes es)"
| "fd_bytes (RdEINTR # es) = fd_bytes es"
| "fd_bytes (RdFail e # es) = []"

function FdSource_readUnbuffered :: "nat \<Rightarrow> fd_in \<Rightarrow> (string \<times> fd_in) result" where
  "FdSource_readUnbuffered n fd =
     (case sys_read n fd of
        (RdEINTR, fd') \<Rightarrow> FdSource_readUnbuffered n fd'
      | (RdFail e, fd') \<Rightarrow> Inl (Throw (SysError e) ''reading from file'')
      | (RdData d, fd') \<Rightarrow>
          if d = [] then Inl (Throw EndOfFile ''unexpected end-of-file'') else Inr (d, fd'))"
  by pat_completeness auto

lemma sys_read_EINTR: "sys_read n fd = (RdEINTR, fd') \<Longrightarrow> fd = RdEINTR # fd'"
  by (induction n fd rule: sys_read.induct) (auto split: if_splits)

fun rd_weight :: "rd_event \<Rightarrow> nat" where
  "rd_weight (RdData d) = Suc (length d)"
| "rd_weight _ = 1"

lemma sys_read_weight:
  "sys_read n fd = (ev, fd') \<Longrightarrow> ev \<noteq> RdData [] \<Longrightarrow>
     sum_list (map rd_weight fd') < sum_list (map rd_weight fd)"
  by (induction n fd rule: sys_read.induct) (auto split: if_splits)

termination FdSource_readUnbuffered
  by (relation "measure (\<lambda>(n, fd). length fd)") (auto dest!: sys_read_EINTR [OF sym])

declare FdSource_readUnbuffered.simps [simp del]

lemma FdSource_readUnbuffered_Inr:
  "FdSource_readUnbuffered n fd = Inr (d, fd') \<Longrightarrow>
     d \<noteq> [] \<and> length d \<le> n \<and> fd_bytes fd = d @ fd_bytes fd'"
proof (induction n fd rule: FdSource_readUnbuffered.induct)
  case (1 n fd)
  then show ?case
    by (cases fd rule: fd_bytes.cases)
      (auto simp: FdSource_readUnbuffered.simps [of n "_ # _"] FdSource_readUnbuffered.simps [of n "[]"]
        split: if_splits)
qed

lemma FdSource_readUnbuffered_eof:
  "0 < n \<Longrightarrow> (\<exists>e. FdSource_readUnbuffered n fd = Inl e) \<longleftrightarrow> fd_bytes fd = []"
proof (induction n fd rule: FdSource_readUnbuffered.induct)
  case (1 n fd)
  then show ?case
    by (cases fd rule: fd_bytes.cases)
      (auto simp: FdSource_readUnbuffered.simps [of n "_ # _"] FdSource_readUnbuffered.simps [of n "[]"])
qed

partial_function (option) Source_call ::
  "(nat \<Rightarrow> 's \<Rightarrow> (string \<times> 's) result) \<Rightarrow> nat \<Rightarrow> 's \<Rightarrow> (string \<times> 's) result option" where
  [code]: "Source_call rd len s =
     (if len = 0 then Some (Inr ([], s))
      else case rd len s of
          Inl e \<Rightarrow> Some (Inl e)
        | Inr (d, s') \<Rightarrow>
            Option.bind (Source_call rd (len - length d) s')
              (\<lambda>r. Some (rbind r (\<lambda>(ds, s''). Inr (d @ ds, s'')))))"

record string_source =
  ss_s :: string
  ss_pos :: nat

definition StringSource_read :: "nat \<Rightarrow> string_source \<Rightarrow> (string \<times> string_source) result" where
  "StringSource_read len k =
     (if ss_pos k = length (ss_s k) then Inl (Throw EndOfFile ''end of string reached'')
      else let d = take len (drop (ss_pos k) (ss_s k))
           in Inr (d, k\<lparr>ss_pos := ss_pos k + length d\<rparr>))"

text \<open>The input buffer is allocated at the first read; an unallocated one is empty here.\<close>

record 'u buffered_source =
  srcBufSize :: nat
  bufPosIn :: nat
  bufPosOut :: nat
  srcBuffer :: string
  upstream :: 'u

definition new_BufferedSource :: "nat \<Rightarrow> 'u \<Rightarrow> 'u buffered_source" where
  "new_BufferedSource sz u =
     \<lparr>srcBufSize = sz, bufPosIn = 0, bufPosOut = 0, srcBuffer = [], upstream = u\<rparr>"

definition BufferedSource_fill ::
  "(nat \<Rightarrow> 'u \<Rightarrow> (string \<times> 'u) result) \<Rightarrow> 'u buffered_source \<Rightarrow> 'u buffered_source result" where
  "BufferedSource_fill readUnbuffered k =
     (let k = (if srcBuffer k = [] then k\<lparr>srcBuffer := replicate (srcBufSize k) (CHR 0x00)\<rparr> else k)
      in if bufPosIn k = 0 then
           rbind (readUnbuffered (srcBufSize k) (upstream k)) (\<lambda>(d, u).
           Inr (k\<lparr>srcBuffer := d @ drop (length d) (srcBuffer k), bufPosIn := length d, upstream := u\<rparr>))
         else Inr k)"

definition BufferedSource_read ::
  "(nat \<Rightarrow> 'u \<Rightarrow> (string \<times> 'u) result) \<Rightarrow> nat \<Rightarrow> 'u buffered_source
     \<Rightarrow> (string \<times> 'u buffered_source) result" where
  "BufferedSource_read readUnbuffered len k =
     rbind (BufferedSource_fill readUnbuffered k) (\<lambda>k.
     let n = (if len > bufPosIn k - bufPosOut k then bufPosIn k - bufPosOut k else len);
         d = take n (drop (bufPosOut k) (srcBuffer k));
         k = k\<lparr>bufPosOut := bufPosOut k + n\<rparr>;
         k = (if bufPosIn k = bufPosOut k then k\<lparr>bufPosIn := 0, bufPosOut := 0\<rparr> else k)
     in Inr (d, k))"

definition BufferedSource_hasData :: "'u buffered_source \<Rightarrow> bool" where
  "BufferedSource_hasData k \<longleftrightarrow> bufPosOut k < bufPosIn k"

text \<open>
  The contract of a byte source: as long as bytes remain a read delivers a non-empty prefix of them,
  and it fails once they are used up.  Under it the loop of \<^verbatim>\<open>Source::operator ()\<close> ends, and is
  \<^const>\<open>source_read\<close> on the remaining bytes.
\<close>

locale byte_source =
  fixes rd :: "nat \<Rightarrow> 's \<Rightarrow> (string \<times> 's) result"
    and content :: "'s \<Rightarrow> string"
    and invar :: "'s \<Rightarrow> bool"
  assumes rd_data: "invar s \<Longrightarrow> 0 < n \<Longrightarrow> content s \<noteq> [] \<Longrightarrow>
      \<exists>d s'. rd n s = Inr (d, s') \<and> d \<noteq> [] \<and> length d \<le> n \<and> content s = d @ content s' \<and> invar s'"
    and rd_end: "invar s \<Longrightarrow> 0 < n \<Longrightarrow> content s = [] \<Longrightarrow> \<exists>e. rd n s = Inl e"
begin

lemma call_data:
  "invar s \<Longrightarrow> n \<le> length (content s) \<Longrightarrow>
     \<exists>s'. Source_call rd n s = Some (Inr (take n (content s), s')) \<and>
          content s' = drop n (content s) \<and> invar s'"
proof (induction n arbitrary: s rule: less_induct)
  case (less n)
  show ?case
  proof (cases "n = 0")
    case True
    then show ?thesis using less.prems by (simp add: Source_call.simps)
  next
    case False
    with less.prems have "content s \<noteq> []" by auto
    with False rd_data [of s n] less.prems obtain d s' where d: "rd n s = Inr (d, s')" "d \<noteq> []"
      "length d \<le> n" "content s = d @ content s'" "invar s'" by auto
    with less.IH [of "n - length d" s'] less.prems False obtain s'' where
      "Source_call rd (n - length d) s' = Some (Inr (take (n - length d) (content s'), s''))"
      "content s'' = drop (n - length d) (content s')" "invar s''"
      by fastforce
    with d False show ?thesis by (simp add: Source_call.simps [of rd n])
  qed
qed

lemma call_end:
  "invar s \<Longrightarrow> length (content s) < n \<Longrightarrow> \<exists>e. Source_call rd n s = Some (Inl e)"
proof (induction n arbitrary: s rule: less_induct)
  case (less n)
  show ?case
  proof (cases "content s = []")
    case True
    then show ?thesis
      using rd_end [of s n] less.prems by (auto simp: Source_call.simps [of rd n])
  next
    case False
    with rd_data [of s n] less.prems obtain d s' where d: "rd n s = Inr (d, s')" "d \<noteq> []"
      "length d \<le> n" "content s = d @ content s'" "invar s'" by auto
    with less.IH [of "n - length d" s'] less.prems obtain e where
      "Source_call rd (n - length d) s' = Some (Inl e)" by fastforce
    with d less.prems show ?thesis by (simp add: Source_call.simps [of rd n])
  qed
qed

lemma call_refines_source_read:
  "invar s \<Longrightarrow>
     \<exists>r. Source_call rd n s = Some r \<and>
       (case source_read n (content s) of
          Inl _ \<Rightarrow> \<exists>e. r = Inl e
        | Inr (d, rest) \<Rightarrow> \<exists>s'. r = Inr (d, s') \<and> content s' = rest \<and> invar s')"
  using call_data [of s n] call_end [of s n] by (auto simp: source_read_def not_le)

end

interpretation string_source: byte_source StringSource_read
  "\<lambda>k. drop (ss_pos k) (ss_s k)" "\<lambda>k. ss_pos k \<le> length (ss_s k)"
proof unfold_locales
  fix k :: string_source and n :: nat
  have "drop (ss_pos k) (ss_s k) = take n (drop (ss_pos k) (ss_s k)) @ drop (ss_pos k + n) (ss_s k)"
    by (metis add.commute append_take_drop_id drop_drop)
  then show "ss_pos k \<le> length (ss_s k) \<Longrightarrow> 0 < n \<Longrightarrow> drop (ss_pos k) (ss_s k) \<noteq> [] \<Longrightarrow>
      \<exists>d k'. StringSource_read n k = Inr (d, k') \<and> d \<noteq> [] \<and> length d \<le> n \<and>
        drop (ss_pos k) (ss_s k) = d @ drop (ss_pos k') (ss_s k') \<and> ss_pos k' \<le> length (ss_s k')"
    by (auto simp: StringSource_read_def Let_def min_def)
qed (auto simp: StringSource_read_def)

interpretation fd_source: byte_source FdSource_readUnbuffered fd_bytes "\<lambda>_. True"
proof unfold_locales
  fix fd :: fd_in and n :: nat
  assume "0 < n"
  then show "fd_bytes fd = [] \<Longrightarrow> \<exists>e. FdSource_readUnbuffered n fd = Inl e"
    by (simp add: FdSource_readUnbuffered_eof)
  assume "fd_bytes fd \<noteq> []"
  with \<open>0 < n\<close> FdSource_readUnbuffered_eof [of n fd] obtain p where
    "FdSource_readUnbuffered n fd = Inr p" by (cases "FdSource_readUnbuffered n fd") auto
  then show "\<exists>d fd'. FdSource_readUnbuffered n fd = Inr (d, fd') \<and> d \<noteq> [] \<and> length d \<le> n \<and>
      fd_bytes fd = d @ fd_bytes fd' \<and> True"
    using FdSource_readUnbuffered_Inr [of n fd] by (cases p) auto
qed

text \<open>Buffering keeps the contract: a buffered source over any source is a source again.\<close>

locale buffered_over = byte_source rd content invar
  for rd :: "nat \<Rightarrow> 's \<Rightarrow> (string \<times> 's) result" and content and invar
begin

definition buf_content :: "'s buffered_source \<Rightarrow> string" where
  "buf_content k = drop (bufPosOut k) (take (bufPosIn k) (srcBuffer k)) @ content (upstream k)"

definition buf_invar :: "'s buffered_source \<Rightarrow> bool" where
  "buf_invar k \<longleftrightarrow> 0 < srcBufSize k \<and> bufPosIn k \<le> length (srcBuffer k) \<and>
     (bufPosIn k = 0 \<longrightarrow> bufPosOut k = 0) \<and> (0 < bufPosIn k \<longrightarrow> bufPosOut k < bufPosIn k) \<and>
     invar (upstream k)"

lemma fill_data:
  assumes "buf_invar k" "buf_content k \<noteq> []"
  shows "\<exists>k'. BufferedSource_fill rd k = Inr k' \<and> buf_invar k' \<and> buf_content k' = buf_content k \<and>
    bufPosOut k' < bufPosIn k'"
proof (cases "bufPosIn k = 0")
  case True
  with assms rd_data [of "upstream k" "srcBufSize k"] obtain d u where
    "rd (srcBufSize k) (upstream k) = Inr (d, u)" "d \<noteq> []" "content (upstream k) = d @ content u"
    "invar u" by (auto simp: buf_invar_def buf_content_def)
  with True assms show ?thesis
    by (auto simp: BufferedSource_fill_def buf_invar_def buf_content_def Let_def)
next
  case False
  with assms show ?thesis
    by (auto simp: BufferedSource_fill_def buf_invar_def buf_content_def Let_def)
qed

lemma fill_end:
  "buf_invar k \<Longrightarrow> buf_content k = [] \<Longrightarrow> \<exists>e. BufferedSource_fill rd k = Inl e"
  using rd_end [of "upstream k" "srcBufSize k"]
  by (auto simp: BufferedSource_fill_def buf_invar_def buf_content_def Let_def)

lemma take_filled:
  assumes "buf_invar k" "bufPosOut k < bufPosIn k" "0 < n" "n \<le> bufPosIn k - bufPosOut k"
  shows "buf_content k = take n (drop (bufPosOut k) (srcBuffer k)) @
      drop (bufPosOut k + n) (take (bufPosIn k) (srcBuffer k)) @ content (upstream k)"
proof -
  have "drop (bufPosOut k) (take (bufPosIn k) (srcBuffer k)) =
      take n (drop (bufPosOut k) (take (bufPosIn k) (srcBuffer k))) @
      drop (bufPosOut k + n) (take (bufPosIn k) (srcBuffer k))"
    by (metis add.commute append_take_drop_id drop_drop)
  also have "take n (drop (bufPosOut k) (take (bufPosIn k) (srcBuffer k))) =
      take n (drop (bufPosOut k) (srcBuffer k))"
    using assms by (simp add: drop_take min_def)
  finally show ?thesis by (simp add: buf_content_def)
qed

lemma buf_rd_data:
  assumes "buf_invar k" "0 < n" "buf_content k \<noteq> []"
  shows "\<exists>d k'. BufferedSource_read rd n k = Inr (d, k') \<and> d \<noteq> [] \<and> length d \<le> n \<and>
      buf_content k = d @ buf_content k' \<and> buf_invar k'"
proof -
  obtain k' where k': "BufferedSource_fill rd k = Inr k'" "buf_invar k'"
    "buf_content k' = buf_content k" "bufPosOut k' < bufPosIn k'"
    using fill_data assms by blast
  let ?n = "if n > bufPosIn k' - bufPosOut k' then bufPosIn k' - bufPosOut k' else n"
  have "0 < ?n" "?n \<le> bufPosIn k' - bufPosOut k'" using assms k' by auto
  with take_filled [of k' ?n] k' show ?thesis
    by (auto simp: BufferedSource_read_def Let_def buf_invar_def buf_content_def)
qed

end

sublocale buffered_over \<subseteq> buf: byte_source "BufferedSource_read rd" buf_content buf_invar
proof unfold_locales
  fix k :: "'s buffered_source" and n :: nat
  assume k: "buf_invar k" "0 < n"
  then show "buf_content k \<noteq> [] \<Longrightarrow> \<exists>d k'. BufferedSource_read rd n k = Inr (d, k') \<and> d \<noteq> [] \<and>
      length d \<le> n \<and> buf_content k = d @ buf_content k' \<and> buf_invar k'"
    by (rule buf_rd_data)
  show "buf_content k = [] \<Longrightarrow> \<exists>e. BufferedSource_read rd n k = Inl e"
    using fill_end [of k] k by (auto simp: BufferedSource_read_def)
qed

interpretation fd_buffered: buffered_over FdSource_readUnbuffered fd_bytes "\<lambda>_. True" ..

section \<open>Properties\<close>


text \<open>
  A sorted set of strings survives serialisation: reading a set back gives the same set.
\<close>

theorem readStringSet_writeStrings:
  assumes "is_oset ss" and "length ss < 2 ^ 32" and "\<forall>s \<in> set ss. length s < 2 ^ 32"
  shows "readStringSet (bytes_of (writeStrings ss) @ rest) = Inr (ss, rest)"
  using assms by (simp add: readStringSet_def readStrings_writeStrings fits_u32_def oinsert_all_oset)

theorem readStringSet_writeStrings_witness:
  "readStringSet (bytes_of (writeStrings [''a'', ''bc'']) @ ''rest'') = Inr ([''a'', ''bc''], ''rest'')"
  using readStringSet_writeStrings [of "[''a'', ''bc'']" "''rest''"] by simp

text \<open>
  C24: Buffering loses, repeats and reorders nothing: after any calls and a flush the bytes written to
  the descriptor are the bytes passed in, in order, and the buffer is empty, which is what the
  destructor asserts.
\<close>

theorem BufferedSink_flushes_all:
  "let k = BufferedSink_flush (fold BufferedSink_call calls (new_BufferedSink sz))
   in concat (written k) = concat calls \<and> bufPos k = 0"
proof -
  have "sink_invar (new_BufferedSink sz)" "sink_content (new_BufferedSink sz) = []"
    by (simp_all add: sink_invar_def sink_content_def new_BufferedSink_def)
  then have "sink_invar (fold BufferedSink_call calls (new_BufferedSink sz))"
    "sink_content (fold BufferedSink_call calls (new_BufferedSink sz)) = bytes_of calls"
    by (simp_all add: buffered_sink.invar_fold_put buffered_sink.out_fold_put)
  then have "sink_content (BufferedSink_flush (fold BufferedSink_call calls (new_BufferedSink sz))) =
      bytes_of calls"
    by (simp add: sink_flush)
  then show ?thesis by (simp add: Let_def sink_content_def sink_flush)
qed

text \<open>
  C25: Reading through a buffered descriptor always ends, whatever sizes the system delivers the data
  in and however often a call is interrupted: a request for \<open>n\<close> bytes returns the next \<open>n\<close> bytes that
  arrive on the descriptor if there are that many, and an error otherwise.
\<close>

theorem buffered_read_exact:
  assumes "0 < sz"
  shows "\<exists>r. Source_call (BufferedSource_read FdSource_readUnbuffered) n (new_BufferedSource sz fd) = Some r \<and>
     (if n \<le> length (fd_bytes fd) then \<exists>k. r = Inr (take n (fd_bytes fd), k) else \<exists>e. r = Inl e)"
proof -
  let ?k = "new_BufferedSource sz fd"
  have "fd_buffered.buf_invar ?k" "fd_buffered.buf_content ?k = fd_bytes fd"
    using assms by (simp_all add: fd_buffered.buf_invar_def fd_buffered.buf_content_def new_BufferedSource_def)
  then show ?thesis
    using fd_buffered.buf.call_refines_source_read [of ?k n] by (auto simp: source_read_def split: if_splits)
qed

theorem buffered_read_exact_witness:
  "\<exists>k. Source_call (BufferedSource_read FdSource_readUnbuffered) 5
     (new_BufferedSource 4 [RdData ''ab'', RdEINTR, RdData ''cdefgh'']) = Some (Inr (''abcde'', k))"
  using buffered_read_exact [of 4 5 "[RdData ''ab'', RdEINTR, RdData ''cdefgh'']"] by auto

end
