(* ===== verification/Hash.thy ===== *)
theory Hash
  imports Serialise
begin

text \<open>
  Cryptographic hashes, after \<^verbatim>\<open>src/nix/libutil/hash.cc\<close>: the fixed-size byte array of
  \<^verbatim>\<open>struct Hash\<close>, its comparison operators, the base-16 and base-32 printers and parsers, the
  folding of a hash to fewer bytes, and the hash sink.

  The digest algorithms are libgcrypt's and appear as the parameter \<open>gcrypt\<close>; what the code
  relies on is \<open>gcrypt_ok\<close>.  A digest context is the sequence of bytes written to it so far.
\<close>

section \<open>Definitions\<close>

datatype HashType =
  htUnknown | htMD5 | htSHA1 | htSHA256 | htSHA512 | htSHA3_256 | htSHA3_512 | htBLAKE2s_256

text \<open>The functions of libgcrypt that the code calls.\<close>

record gcrypt =
  algo_dlen :: "HashType \<Rightarrow> nat"
  algo_name :: "HashType \<Rightarrow> string"
  md_read :: "HashType \<Rightarrow> string \<Rightarrow> 8 word list"

definition maxHashSize :: nat where
  "maxHashSize = 64"

text \<open>Documented behaviour: a digest has its algorithm's length, 16 (MD5) to 64 bytes; algorithm 0 has length 0.\<close>

definition gcrypt_ok :: "gcrypt \<Rightarrow> bool" where
  "gcrypt_ok g \<longleftrightarrow>
     algo_dlen g htUnknown = 0 \<and>
     (\<forall>ht. ht \<noteq> htUnknown \<longrightarrow> 16 \<le> algo_dlen g ht \<and> algo_dlen g ht \<le> maxHashSize) \<and>
     (\<forall>ht s. length (md_read g ht s) = algo_dlen g ht)"

record Hash =
  hashSize :: nat
  hash :: "8 word list"
  htype :: HashType

definition Hash_null :: Hash where
  "Hash_null = \<lparr>hashSize = 0, hash = replicate maxHashSize 0, htype = htUnknown\<rparr>"

definition Hash_new :: "gcrypt \<Rightarrow> HashType \<Rightarrow> Hash result" where
  "Hash_new g ht =
     (let sz = algo_dlen g ht
      in if sz = 0 then Inl (Throw Error ''unknown hash type'')
         else if \<not> sz \<le> maxHashSize then Inl (Abort ''hashSize <= maxHashSize'')
         else Inr \<lparr>hashSize = sz, hash = replicate maxHashSize 0, htype = ht\<rparr>)"

fun Hash_eq_from :: "nat \<Rightarrow> Hash \<Rightarrow> Hash \<Rightarrow> nat \<Rightarrow> bool" where
  "Hash_eq_from 0 h1 h2 i = True"
| "Hash_eq_from (Suc k) h1 h2 i =
     (if hash h1 ! i \<noteq> hash h2 ! i then False else Hash_eq_from k h1 h2 (Suc i))"

definition Hash_eq :: "Hash \<Rightarrow> Hash \<Rightarrow> bool" where
  "Hash_eq h1 h2 = (if hashSize h1 \<noteq> hashSize h2 then False else Hash_eq_from (hashSize h1) h1 h2 0)"

definition Hash_neq :: "Hash \<Rightarrow> Hash \<Rightarrow> bool" where
  "Hash_neq h1 h2 = (\<not> Hash_eq h1 h2)"

fun Hash_less_from :: "nat \<Rightarrow> Hash \<Rightarrow> Hash \<Rightarrow> nat \<Rightarrow> bool" where
  "Hash_less_from 0 h1 h2 i = False"
| "Hash_less_from (Suc k) h1 h2 i =
     (if hash h1 ! i < hash h2 ! i then True
      else if hash h1 ! i > hash h2 ! i then False
      else Hash_less_from k h1 h2 (Suc i))"

definition Hash_less :: "Hash \<Rightarrow> Hash \<Rightarrow> bool" where
  "Hash_less h1 h2 = Hash_less_from (hashSize h1) h1 h2 0"

definition base16Chars :: string where
  "base16Chars = ''0123456789abcdef''"

definition printHash :: "Hash \<Rightarrow> string" where
  "printHash h =
     concat (map (\<lambda>i. [base16Chars ! unat (drop_bit 4 (hash h ! i)),
                       base16Chars ! unat (hash h ! i AND 0x0f)]) [0..<hashSize h])"

text \<open>\<^verbatim>\<open>isxdigit\<close> in the C locale, and the value a hexadecimal extraction gives a digit.\<close>

definition isxdigit :: "char \<Rightarrow> bool" where
  "isxdigit c \<longleftrightarrow>
     (CHR ''0'' \<le> c \<and> c \<le> CHR ''9'') \<or> (CHR ''a'' \<le> c \<and> c \<le> CHR ''f'') \<or> (CHR ''A'' \<le> c \<and> c \<le> CHR ''F'')"

definition xdigit :: "char \<Rightarrow> nat" where
  "xdigit c =
     (if c \<le> CHR ''9'' then of_char c - 48
      else if c \<le> CHR ''F'' then of_char c - 55
      else of_char c - 87)"

fun parseHash_from :: "nat \<Rightarrow> nat \<Rightarrow> string \<Rightarrow> Hash \<Rightarrow> Hash result" where
  "parseHash_from 0 i s h = Inr h"
| "parseHash_from (Suc k) i s h =
     (let c0 = s ! (i * 2); c1 = s ! (i * 2 + 1)
      in if \<not> isxdigit c0 \<or> \<not> isxdigit c1 then Inl (Throw Error (''invalid hash `'' @ s @ [CHR 0x27]))
         else parseHash_from k (Suc i) s
                (h\<lparr>hash := (hash h)[i := word_of_nat (16 * xdigit c0 + xdigit c1)]\<rparr>))"

definition parseHash :: "gcrypt \<Rightarrow> HashType \<Rightarrow> string \<Rightarrow> Hash result" where
  "parseHash g ht s =
     rbind (Hash_new g ht) (\<lambda>h.
     if length s \<noteq> hashSize h * 2
     then Inl (Throw Error (''invalid '' @ algo_name g ht @ '' hash''))
     else parseHash_from (hashSize h) 0 s h)"

definition hashLength32 :: "Hash \<Rightarrow> nat" where
  "hashLength32 h = (hashSize h * 8 - 1) div 5 + 1"

definition base32Chars :: string where
  "base32Chars = ''0123456789abcdfghijklmnpqrsvwxyz''"

text \<open>
  The shifts are done on \<^verbatim>\<open>int\<close> and cut to \<^verbatim>\<open>unsigned char\<close>; on 8-bit words the same low eight
  bits result, a shift by 8 giving 0.
\<close>

definition digit32 :: "Hash \<Rightarrow> nat \<Rightarrow> 8 word" where
  "digit32 h n =
     (let b = n * 5; i = b div 8; j = b mod 8;
          c = drop_bit j (hash h ! i) OR
              (if i \<ge> hashSize h - 1 then 0 else push_bit (8 - j) (hash h ! (i + 1)))
      in c AND 0x1f)"

definition printHash32 :: "Hash \<Rightarrow> string" where
  "printHash32 h = map (\<lambda>n. base32Chars ! unat (digit32 h n)) (rev [0..<hashLength32 h])"

definition printHash16or32 :: "Hash \<Rightarrow> string" where
  "printHash16or32 h = (if htype h = htMD5 then printHash h else printHash32 h)"

text \<open>The search loop for a digit: the length of the alphabet when it is not found.\<close>

fun find_digit :: "char \<Rightarrow> string \<Rightarrow> nat" where
  "find_digit c [] = 0"
| "find_digit c (x # xs) = (if x = c then 0 else Suc (find_digit c xs))"

definition set_digit32 :: "nat \<Rightarrow> 8 word \<Rightarrow> Hash \<Rightarrow> Hash" where
  "set_digit32 n digit h =
     (let b = n * 5; i = b div 8; j = b mod 8;
          h = h\<lparr>hash := (hash h)[i := hash h ! i OR push_bit j digit]\<rparr>
      in if i < hashSize h - 1
         then h\<lparr>hash := (hash h)[i + 1 := hash h ! (i + 1) OR drop_bit (8 - j) digit]\<rparr>
         else h)"

fun parseHash32_from :: "nat \<Rightarrow> nat \<Rightarrow> string \<Rightarrow> Hash \<Rightarrow> Hash result" where
  "parseHash32_from 0 n s h = Inr h"
| "parseHash32_from (Suc k) n s h =
     (let d = find_digit (s ! (length s - n - 1)) base32Chars
      in if d \<ge> 32 then Inl (Throw Error (''invalid base-32 hash '' @ s))
         else parseHash32_from k (Suc n) s (set_digit32 n (word_of_nat d) h))"

definition parseHash32 :: "gcrypt \<Rightarrow> HashType \<Rightarrow> string \<Rightarrow> Hash result" where
  "parseHash32 g ht s =
     rbind (Hash_new g ht) (\<lambda>h.
     let len = hashLength32 h
     in if length s \<noteq> len then Inl (Abort ''s.size() == len'')
        else parseHash32_from len 0 s h)"

fun printHashType :: "HashType \<Rightarrow> string result" where
  "printHashType htMD5 = Inr ''md5''"
| "printHashType htSHA1 = Inr ''sha1''"
| "printHashType htSHA256 = Inr ''sha256''"
| "printHashType htSHA512 = Inr ''sha512''"
| "printHashType htSHA3_256 = Inr ''sha3-256''"
| "printHashType htSHA3_512 = Inr ''sha3-512''"
| "printHashType htBLAKE2s_256 = Inr ''blake2s-256''"
| "printHashType htUnknown = Inl (Throw Error ''cannot print unknown hash type'')"

definition parseHashType :: "string \<Rightarrow> HashType" where
  "parseHashType s =
     (if s = ''md5'' then htMD5
      else if s = ''sha1'' then htSHA1
      else if s = ''sha256'' then htSHA256
      else if s = ''sha512'' then htSHA512
      else if s = ''sha3-256'' then htSHA3_256
      else if s = ''sha3-512'' then htSHA3_512
      else if s = ''blake2s-256'' then htBLAKE2s_256
      else htUnknown)"

definition parseHash16or32 :: "gcrypt \<Rightarrow> HashType \<Rightarrow> string \<Rightarrow> Hash result" where
  "parseHash16or32 g ht s =
     rbind (Hash_new g ht) (\<lambda>h.
     if length s = hashSize h * 2 then parseHash g ht s
     else if length s = hashLength32 h then parseHash32 g ht s
     else rbind (printHashType ht) (\<lambda>t.
       Inl (Throw Error (''hash has wrong length for hash type '' @ t))))"

definition isHash :: "string \<Rightarrow> bool" where
  "isHash s \<longleftrightarrow> length s = 32 \<and>
     list_all (\<lambda>c. (CHR ''0'' \<le> c \<and> c \<le> CHR ''9'') \<or> (CHR ''a'' \<le> c \<and> c \<le> CHR ''f'')) s"

fun compressHash_from :: "nat \<Rightarrow> nat \<Rightarrow> Hash \<Rightarrow> nat \<Rightarrow> Hash \<Rightarrow> Hash" where
  "compressHash_from 0 i h newSize r = r"
| "compressHash_from (Suc k) i h newSize r =
     compressHash_from k (Suc i) h newSize
       (r\<lparr>hash := (hash r)[i mod newSize := hash r ! (i mod newSize) XOR hash h ! i]\<rparr>)"

definition compressHash :: "Hash \<Rightarrow> nat \<Rightarrow> Hash" where
  "compressHash h newSize =
     compressHash_from (hashSize h) 0 h newSize (Hash_null\<lparr>hashSize := newSize\<rparr>)"

text \<open>
  A digest context holds the bytes written to it; \<^verbatim>\<open>finish\<close> copies the digest over the first
  bytes of the array.
\<close>

definition hash_finish :: "gcrypt \<Rightarrow> HashType \<Rightarrow> string \<Rightarrow> Hash \<Rightarrow> Hash" where
  "hash_finish g ht ctx h =
     (let d = md_read g ht ctx in h\<lparr>hash := d @ drop (length d) (hash h)\<rparr>)"

definition hashString :: "gcrypt \<Rightarrow> HashType \<Rightarrow> string \<Rightarrow> Hash result" where
  "hashString g ht s = rbind (Hash_new g ht) (\<lambda>h. Inr (hash_finish g ht s h))"

text \<open>Reading a file to its end; here an interrupted \<^verbatim>\<open>read\<close> is an error like any other.\<close>

function hashFile_loop :: "string \<Rightarrow> string \<Rightarrow> fd_in \<Rightarrow> string result" where
  "hashFile_loop path ctx fd =
     (case sys_read 8192 fd of
        (RdData d, fd') \<Rightarrow> if d = [] then Inr ctx else hashFile_loop path (ctx @ d) fd'
      | (RdEINTR, fd') \<Rightarrow> Inl (Throw (SysError 4) (''reading file '' @ path))
      | (RdFail e, fd') \<Rightarrow> Inl (Throw (SysError e) (''reading file '' @ path)))"
  by pat_completeness auto
termination
  by (relation "measure (\<lambda>(path, ctx, fd). sum_list (map rd_weight fd))")
    (auto dest: sys_read_weight [OF sym])

declare hashFile_loop.simps [simp del]

definition hashFile :: "gcrypt \<Rightarrow> HashType \<Rightarrow> string \<Rightarrow> (nat + fd_in) \<Rightarrow> Hash result" where
  "hashFile g ht path opened =
     rbind (Hash_new g ht) (\<lambda>h.
     case opened of
       Inl e \<Rightarrow> Inl (Throw (SysError e) (''computing hash of file '' @ path))
     | Inr fd \<Rightarrow> rbind (hashFile_loop path [] fd) (\<lambda>ctx. Inr (hash_finish g ht ctx h)))"

text \<open>
  A hash sink is a buffered sink whose \<^verbatim>\<open>write\<close> counts the bytes (in 64 bits) and feeds the
  digest context; the writes happen in the order of \<^const>\<open>written\<close>.
\<close>

record hash_ctx =
  ctx_md :: string
  ctx_bytes :: "64 word"

definition HashSink_write :: "string \<Rightarrow> hash_ctx \<Rightarrow> hash_ctx" where
  "HashSink_write data c =
     c\<lparr>ctx_bytes := ctx_bytes c + word_of_nat (length data), ctx_md := ctx_md c @ data\<rparr>"

definition HashSink_ctx :: "buffered_sink \<Rightarrow> hash_ctx" where
  "HashSink_ctx k = fold HashSink_write (written k) \<lparr>ctx_md = [], ctx_bytes = 0\<rparr>"

definition HashSink_currentHash ::
  "gcrypt \<Rightarrow> HashType \<Rightarrow> buffered_sink \<Rightarrow> ((Hash \<times> 64 word) \<times> buffered_sink) result" where
  "HashSink_currentHash g ht k =
     (let k = BufferedSink_flush k; c = HashSink_ctx k
      in rbind (Hash_new g ht) (\<lambda>h. Inr ((hash_finish g ht (ctx_md c) h, ctx_bytes c), k)))"

definition HashSink_finish :: "gcrypt \<Rightarrow> HashType \<Rightarrow> buffered_sink \<Rightarrow> (Hash \<times> 64 word) result" where
  "HashSink_finish g ht k =
     (let k = BufferedSink_flush k; c = HashSink_ctx k
      in rbind (Hash_new g ht) (\<lambda>h. Inr (hash_finish g ht (ctx_md c) h, ctx_bytes c)))"

section \<open>Well-formed hashes\<close>

definition wf_hash :: "gcrypt \<Rightarrow> Hash \<Rightarrow> bool" where
  "wf_hash g h \<longleftrightarrow>
     hashSize h = algo_dlen g (htype h) \<and> 0 < hashSize h \<and> hashSize h \<le> maxHashSize \<and>
     length (hash h) = maxHashSize \<and>
     drop (hashSize h) (hash h) = replicate (maxHashSize - hashSize h) 0"

lemma wf_hash_tail:
  "wf_hash g h \<Longrightarrow> drop (hashSize h) (hash h) = replicate (maxHashSize - hashSize h) 0"
  unfolding wf_hash_def by (elim conjE)

lemma Hash_eqI:
  assumes "wf_hash g h1" "wf_hash g h2" "htype h1 = htype h2"
    and "\<And>i. i < hashSize h1 \<Longrightarrow> hash h1 ! i = hash h2 ! i"
  shows "h1 = h2"
proof -
  have "take (hashSize h1) (hash h1) = take (hashSize h1) (hash h2)"
    using assms by (intro nth_equalityI) (auto simp: wf_hash_def)
  moreover have "hashSize h2 = hashSize h1" using assms by (simp add: wf_hash_def)
  then have "drop (hashSize h1) (hash h1) = drop (hashSize h1) (hash h2)"
    using assms(1,2) unfolding wf_hash_def by metis
  ultimately have "hash h1 = hash h2" by (metis append_take_drop_id)
  then show ?thesis using assms by (cases h1; cases h2) (simp add: wf_hash_def)
qed

lemma Hash_new_Inr:
  "Hash_new g ht = Inr h \<Longrightarrow>
     wf_hash g h \<and> htype h = ht \<and> hash h = replicate maxHashSize 0"
  by (auto simp: Hash_new_def wf_hash_def Let_def split: if_splits)

lemma Hash_new_wf:
  "wf_hash g h \<Longrightarrow> Hash_new g (htype h) =
     Inr \<lparr>hashSize = hashSize h, hash = replicate maxHashSize 0, htype = htype h\<rparr>"
  by (auto simp: Hash_new_def wf_hash_def Let_def)

lemma Hash_new_ok:
  "gcrypt_ok g \<Longrightarrow> (\<exists>h. Hash_new g ht = Inr h) \<longleftrightarrow> ht \<noteq> htUnknown"
  by (cases "ht = htUnknown") (auto simp: Hash_new_def gcrypt_ok_def Let_def)

lemma wf_hash_finish:
  "gcrypt_ok g \<Longrightarrow> Hash_new g ht = Inr h \<Longrightarrow>
     wf_hash g (hash_finish g ht s h) \<and> htype (hash_finish g ht s h) = ht \<and>
     take (algo_dlen g ht) (hash (hash_finish g ht s h)) = md_read g ht s"
  using Hash_new_Inr [of g ht h]
  by (auto simp: wf_hash_def hash_finish_def gcrypt_ok_def Let_def)

lemma hashString_ok:
  assumes "gcrypt_ok g" "ht \<noteq> htUnknown"
  obtains h where "hashString g ht s = Inr h" "wf_hash g h" "htype h = ht"
    "take (algo_dlen g ht) (hash h) = md_read g ht s"
proof -
  obtain h0 where "Hash_new g ht = Inr h0"
    using Hash_new_ok assms by blast
  with that wf_hash_finish [OF assms(1) this] show ?thesis
    by (auto simp: hashString_def)
qed

section \<open>Comparison\<close>

lemma Hash_eq_from_iff:
  "Hash_eq_from k h1 h2 i \<longleftrightarrow> (\<forall>j < k. hash h1 ! (i + j) = hash h2 ! (i + j))"
proof (induction k arbitrary: i)
  case (Suc k)
  show ?case
    by (auto simp: Suc.IH less_Suc_eq_0_disj)
qed simp

lemma Hash_eq_iff:
  "wf_hash g h1 \<Longrightarrow> wf_hash g h2 \<Longrightarrow> htype h1 = htype h2 \<Longrightarrow> Hash_eq h1 h2 \<longleftrightarrow> h1 = h2"
  using Hash_eqI [of g h1 h2] by (auto simp: Hash_eq_def Hash_eq_from_iff wf_hash_def)

lemma Hash_less_from_iff:
  "i + k \<le> length (hash h1) \<Longrightarrow> i + k \<le> length (hash h2) \<Longrightarrow>
   Hash_less_from k h1 h2 i \<longleftrightarrow> take k (drop i (hash h1)) < take k (drop i (hash h2))"
proof (induction k arbitrary: i)
  case (Suc k)
  then have "drop i (hash h1) = hash h1 ! i # drop (Suc i) (hash h1)"
    "drop i (hash h2) = hash h2 ! i # drop (Suc i) (hash h2)"
    by (simp_all add: Cons_nth_drop_Suc)
  with Suc show ?case by auto
qed simp

lemma less_append_same:
  "length xs = length ys \<Longrightarrow> xs @ zs < ys @ zs \<longleftrightarrow> xs < (ys :: 'a::linorder list)"
  by (induction xs ys rule: list_induct2) auto

lemma Hash_less_iff:
  "wf_hash g h1 \<Longrightarrow> wf_hash g h2 \<Longrightarrow> htype h1 = htype h2 \<Longrightarrow>
     Hash_less h1 h2 \<longleftrightarrow> hash h1 < hash h2"
proof -
  assume a: "wf_hash g h1" "wf_hash g h2" "htype h1 = htype h2"
  let ?n = "hashSize h1"
  have n: "hashSize h2 = ?n" using a by (simp add: wf_hash_def)
  have "hash h1 = take ?n (hash h1) @ replicate (maxHashSize - ?n) 0"
    "hash h2 = take ?n (hash h2) @ replicate (maxHashSize - ?n) 0"
    using a n by (metis append_take_drop_id wf_hash_def)+
  moreover have "length (take ?n (hash h1)) = length (take ?n (hash h2))"
    using a by (simp add: wf_hash_def)
  then have "take ?n (hash h1) @ zs < take ?n (hash h2) @ zs \<longleftrightarrow> take ?n (hash h1) < take ?n (hash h2)" for zs
    by (rule less_append_same)
  ultimately have "hash h1 < hash h2 \<longleftrightarrow> take ?n (hash h1) < take ?n (hash h2)" by metis
  with a show ?thesis by (simp add: Hash_less_def Hash_less_from_iff wf_hash_def)
qed
section \<open>Base 16\<close>

lemma base16_digit:
  assumes "n < 16"
  shows "isxdigit (base16Chars ! n)" and "xdigit (base16Chars ! n) = n"
proof -
  have "list_all (\<lambda>n. isxdigit (base16Chars ! n) \<and> xdigit (base16Chars ! n) = n) [0..<16]"
    by (simp add: upt_rec base16Chars_def isxdigit_def xdigit_def less_eq_char_def)
  with assms show "isxdigit (base16Chars ! n)" and "xdigit (base16Chars ! n) = n"
    unfolding list_all_iff by auto
qed

lemma unat_byte_less: "unat (w :: 8 word) < 256"
  using unsigned_less [of w] by simp

lemma unat_high_nibble: "unat (drop_bit 4 (w :: 8 word)) = unat w div 16"
  by (simp only: unsigned_drop_bit_eq)
    (simp add: take_bit_nat_eq_self unat_byte_less drop_bit_eq_div)

lemma and_0f: "w AND 0x0f = take_bit 4 (w :: 'a::len word)"
  by (simp add: take_bit_eq_mask mask_eq_exp_minus_1)

lemma and_1f: "w AND 0x1f = take_bit 5 (w :: 'a::len word)"
  by (simp add: take_bit_eq_mask mask_eq_exp_minus_1)

lemma unat_low_nibble: "unat (w AND 0x0f :: 8 word) = unat w mod 16"
proof -
  have "unat (w AND 0x0f) = take_bit 4 (unat w)" by (simp only: and_0f unsigned_take_bit_eq)
  then show ?thesis by (simp only: take_bit_eq_mod) simp
qed

lemma unat_nibbles:
  "unat (drop_bit 4 (w :: 8 word)) < 16" "unat (w AND 0x0f) < 16"
  "word_of_nat (16 * unat (drop_bit 4 w) + unat (w AND 0x0f)) = w"
  unfolding unat_high_nibble unat_low_nibble mult_div_mod_eq
  using unat_byte_less [of w] by simp_all

lemma nth_concat_pairs:
  "i < n \<Longrightarrow> concat (map (\<lambda>i. [f i, g i]) [0..<n]) ! (i * 2) = f i \<and>
     concat (map (\<lambda>i. [f i, g i]) [0..<n]) ! Suc (i * 2) = g i"
proof (induction n)
  case (Suc n)
  have len: "length (concat (map (\<lambda>i. [f i, g i]) [0..<n])) = n * 2" for n
    by (induction n) simp_all
  from Suc show ?case
    by (cases "i = n") (auto simp: nth_append len)
qed simp

lemma length_printHash [simp]: "length (printHash h) = hashSize h * 2"
  unfolding printHash_def by (simp add: length_concat comp_def sum_list_triv)

lemma nth_printHash:
  "i < hashSize h \<Longrightarrow> printHash h ! (i * 2) = base16Chars ! unat (drop_bit 4 (hash h ! i))"
  "i < hashSize h \<Longrightarrow> printHash h ! Suc (i * 2) = base16Chars ! unat (hash h ! i AND 0x0f)"
  unfolding printHash_def
  using nth_concat_pairs [of i "hashSize h" "\<lambda>i. base16Chars ! unat (drop_bit 4 (hash h ! i))"
      "\<lambda>i. base16Chars ! unat (hash h ! i AND 0x0f)"] by simp_all

lemma parseHash_from_print:
  assumes "i + k = hashSize h" "length (hash r) = length (hash h)" "hashSize h \<le> length (hash h)"
    "take i (hash r) = take i (hash h)"
  shows "\<exists>bs. parseHash_from k i (printHash h) r = Inr (r\<lparr>hash := bs\<rparr>) \<and> length bs = length (hash h) \<and>
     take (hashSize h) bs = take (hashSize h) (hash h) \<and>
     drop (hashSize h) bs = drop (hashSize h) (hash r)"
  using assms
proof (induction k arbitrary: i r)
  case (Suc k)
  let ?r = "r\<lparr>hash := (hash r)[i := hash h ! i]\<rparr>"
  have "parseHash_from (Suc k) i (printHash h) r = parseHash_from k (Suc i) (printHash h) ?r"
    using Suc.prems by (simp add: nth_printHash base16_digit unat_nibbles del: of_nat_add of_nat_mult)
  moreover have "take (Suc i) (hash ?r) = take (Suc i) (hash h)"
    using Suc.prems by (simp add: take_Suc_conv_app_nth)
  with Suc.prems Suc.IH [of "Suc i" ?r] obtain bs where
    "parseHash_from k (Suc i) (printHash h) ?r = Inr (?r\<lparr>hash := bs\<rparr>) \<and> length bs = length (hash h) \<and>
     take (hashSize h) bs = take (hashSize h) (hash h) \<and>
     drop (hashSize h) bs = drop (hashSize h) (hash ?r)" by auto
  ultimately show ?case using Suc.prems by auto
next
  case 0
  then show ?case by (intro exI [of _ "hash r"]) simp
qed

lemma parseHash_printHash:
  assumes "wf_hash g h"
  shows "parseHash g (htype h) (printHash h) = Inr h"
proof -
  let ?r = "\<lparr>hashSize = hashSize h, hash = replicate maxHashSize 0, htype = htype h\<rparr>"
  obtain bs where bs: "parseHash_from (hashSize h) 0 (printHash h) ?r = Inr (?r\<lparr>hash := bs\<rparr>)"
    "take (hashSize h) bs = take (hashSize h) (hash h)"
    "drop (hashSize h) bs = drop (hashSize h) (hash ?r)"
    using parseHash_from_print [of 0 "hashSize h" h ?r] assms by (auto simp: wf_hash_def)
  then have "take (hashSize h) bs = take (hashSize h) (hash h)" "drop (hashSize h) bs = drop (hashSize h) (hash h)"
    using wf_hash_tail [OF assms] by simp_all
  then have "bs = hash h" by (metis append_take_drop_id)
  with bs assms show ?thesis by (simp add: parseHash_def Hash_new_wf)
qed

section \<open>Base 32\<close>

text \<open>
  Both directions are read bit by bit: bit \<open>p\<close> of the hash, counted from the low end of the first
  byte, is bit \<open>p mod 5\<close> of digit \<open>p div 5\<close>.
\<close>

definition hash_bit :: "Hash \<Rightarrow> nat \<Rightarrow> bool" where
  "hash_bit h p \<longleftrightarrow> p < 8 * hashSize h \<and> bit (hash h ! (p div 8)) (p mod 8)"

lemma bit_8_word: "bit (w :: 8 word) i \<Longrightarrow> i < 8"
  using bit_imp_le_length [of w i] by simp

lemma bit_push_bit_byte: "t < 8 \<Longrightarrow> bit (push_bit m (w :: 8 word)) t \<longleftrightarrow> m \<le> t \<and> bit w (t - m)"
  by (simp add: bit_simps)

lemma bit_and_1f: "bit (w AND 0x1f :: 8 word) t \<longleftrightarrow> t < 5 \<and> bit w t"
  by (simp only: and_1f bit_take_bit_iff)

lemma div_mod_add: "x < d \<Longrightarrow> (d * i + x) div d = i \<and> (d * i + x) mod d = (x :: nat)"
  by simp

lemma less_mult_div: "0 < d \<Longrightarrow> p < d * m \<longleftrightarrow> p div d < (m :: nat)"
  by (simp add: div_less_iff_less_mult mult.commute)

text \<open>The position of digit \<open>n\<close> in the bytes: byte \<open>i\<close>, bit \<open>j\<close>.\<close>

lemma digit32_pos:
  assumes "n < hashLength32 h" "0 < hashSize h"
  obtains i j where "n * 5 div 8 = i" "n * 5 mod 8 = j" "5 * n = 8 * i + j" "j < 8" "i < hashSize h"
proof -
  have "n \<le> (hashSize h * 8 - 1) div 5" using assms(1) by (simp add: hashLength32_def)
  then have "n * 5 \<le> hashSize h * 8 - 1" by linarith
  then have "n * 5 div 8 < hashSize h" using assms(2) by linarith
  then show thesis using that [of "n * 5 div 8" "n * 5 mod 8"] by (simp add: mult.commute)
qed

lemma bit_digit32_word:
  assumes "n * 5 div 8 = i" "n * 5 mod 8 = j" "j < 8" "t < 5"
  shows "bit (digit32 h n) t \<longleftrightarrow> bit (hash h ! i) (j + t) \<or>
      i < hashSize h - 1 \<and> 8 \<le> j + t \<and> bit (hash h ! Suc i) (j + t - 8)"
proof -
  have e: "8 - j \<le> t \<longleftrightarrow> 8 \<le> j + t" "t - (8 - j) = j + t - 8" using assms(3,4) by linarith+
  show ?thesis
    unfolding digit32_def Let_def assms(1,2) bit_and_1f
    by (cases "i \<ge> hashSize h - 1")
      (simp_all only: bit_or_iff bit_drop_bit_eq not_le not_less if_True if_False assms(4),
        use assms(4) in \<open>simp_all add: comp_def bit_push_bit_byte e\<close>)
qed

lemma bit_digit32:
  assumes "t < 5" "n < hashLength32 h" "0 < hashSize h"
  shows "bit (digit32 h n) t \<longleftrightarrow> hash_bit h (5 * n + t)"
proof -
  obtain i j where ij: "n * 5 div 8 = i" "n * 5 mod 8 = j" "5 * n = 8 * i + j" "j < 8" "i < hashSize h"
    using digit32_pos assms by blast
  note bit = bit_digit32_word [OF ij(1,2,4) assms(1), of h]
  show ?thesis
  proof (cases "j + t < 8")
    case True
    then have "(5 * n + t) div 8 = i" "(5 * n + t) mod 8 = j + t" "5 * n + t < 8 * hashSize h"
      using div_mod_add [of "j + t" 8 i] ij(5) by (simp_all add: ij(3) add.assoc less_mult_div)
    with True show ?thesis by (simp add: bit hash_bit_def)
  next
    case False
    then have "5 * n + t = 8 * Suc i + (j + t - 8)" "j + t - 8 < 8"
      using ij(3,4) assms(1) by simp_all
    then have "(5 * n + t) div 8 = Suc i" "(5 * n + t) mod 8 = j + t - 8"
      and "5 * n + t < 8 * hashSize h \<longleftrightarrow> Suc i < hashSize h"
      using div_mod_add [of "j + t - 8" 8 "Suc i"] by (simp_all add: less_mult_div)
    with False bit_8_word [of "hash h ! i" "j + t"] show ?thesis
      by (auto simp: bit hash_bit_def)
  qed
qed

lemma find_digit_less: "find_digit c xs < length xs \<longleftrightarrow> c \<in> set xs"
  by (induction xs) auto

lemma nth_find_digit: "c \<in> set xs \<Longrightarrow> xs ! find_digit c xs = c"
  by (induction xs) auto

lemma find_digit_nth: "distinct xs \<Longrightarrow> n < length xs \<Longrightarrow> find_digit (xs ! n) xs = n"
proof (induction xs arbitrary: n)
  case (Cons x xs)
  then show ?case by (cases n) auto
qed simp

lemma base32Chars_wf: "distinct base32Chars" "length base32Chars = 32"
  by (simp_all add: base32Chars_def)

lemma set_digit32_sel [simp]:
  "hashSize (set_digit32 n d h) = hashSize h" "htype (set_digit32 n d h) = htype h"
  "length (hash (set_digit32 n d h)) = length (hash h)"
  by (simp_all add: set_digit32_def Let_def)

lemma drop_set_digit32:
  assumes "n < hashLength32 h" "0 < hashSize h"
  shows "drop (hashSize h) (hash (set_digit32 n d h)) = drop (hashSize h) (hash h)"
proof -
  obtain i j where "n * 5 div 8 = i" "n * 5 mod 8 = j" "i < hashSize h"
    using digit32_pos assms by blast
  then show ?thesis by (simp add: set_digit32_def Let_def)
qed

lemma nth_set_digit32:
  assumes "n * 5 div 8 = i" "n * 5 mod 8 = j" "i < hashSize h" "hashSize h \<le> length (hash h)" "q < hashSize h"
  shows "hash (set_digit32 n d h) ! q =
     (if q = i then hash h ! q OR push_bit j d
      else if q = Suc i then hash h ! q OR drop_bit (8 - j) d else hash h ! q)"
  using assms(3-) unfolding set_digit32_def Let_def assms(1,2) by (auto simp: nth_list_update)

lemma bit_set_digit32:
  assumes "n < hashLength32 h" "0 < hashSize h" "hashSize h \<le> length (hash h)"
    and d5: "\<And>t. bit d t \<Longrightarrow> t < 5"
  shows "hash_bit (set_digit32 n d h) p \<longleftrightarrow>
     hash_bit h p \<or> p < 8 * hashSize h \<and> 5 * n \<le> p \<and> bit d (p - 5 * n)"
proof (cases "p div 8 < hashSize h")
  case True
  obtain i j where ij: "n * 5 div 8 = i" "n * 5 mod 8 = j" "5 * n = 8 * i + j" "j < 8" "i < hashSize h"
    using digit32_pos assms by blast
  define q where "q = p div 8"
  define t where "t = p mod 8"
  have p: "p = 8 * q + t" "t < 8" by (simp_all add: q_def t_def)
  note nth = nth_set_digit32 [OF ij(1,2,5) assms(3) True, of d, folded q_def]
  consider "q = i" | "q = Suc i" | "q < i" | "Suc i < q" by linarith
  then have "bit (hash (set_digit32 n d h) ! q) t \<longleftrightarrow> bit (hash h ! q) t \<or> 5 * n \<le> p \<and> bit d (p - 5 * n)"
  proof cases
    case 1
    then have "p - 5 * n = t - j" "5 * n \<le> p \<longleftrightarrow> j \<le> t" using p ij(3) by simp_all
    with 1 p(2) show ?thesis unfolding nth by (simp add: bit_or_iff bit_push_bit_byte)
  next
    case 2
    then have "p - 5 * n = (8 - j) + t" "5 * n \<le> p" using p ij(3,4) by simp_all
    with 2 show ?thesis unfolding nth by (simp add: bit_or_iff bit_drop_bit_eq)
  next
    case 3
    then have "\<not> 5 * n \<le> p" using p ij(3) by simp
    with 3 show ?thesis unfolding nth by simp
  next
    case 4
    then have "\<not> p - 5 * n < 5" using p ij(3,4) by simp
    with 4 d5 [of "p - 5 * n"] show ?thesis unfolding nth by auto
  qed
  with True show ?thesis by (auto simp: hash_bit_def less_mult_div q_def t_def)
next
  case False
  then show ?thesis by (simp add: hash_bit_def less_mult_div)
qed

lemma bit_small_word: "bit (word_of_nat m :: 8 word) t \<Longrightarrow> m < 32 \<Longrightarrow> t < 5"
proof (rule ccontr)
  assume b: "bit (word_of_nat m :: 8 word) t" "m < 32" "\<not> t < 5"
  then have "take_bit 5 m = m" by (simp add: take_bit_nat_eq_self)
  then have "\<not> bit m t" using b(3) by (metis bit_take_bit_iff)
  with b(1) show False by (simp add: bit_of_nat_iff)
qed

lemma unat_digit32: "unat (digit32 h n) < 32"
proof -
  have "digit32 h n = take_bit 5 (digit32 h n)" by (simp add: digit32_def Let_def and_1f)
  then have "unat (digit32 h n) = take_bit 5 (unat (digit32 h n))"
    by (metis unsigned_take_bit_eq)
  then show ?thesis using take_bit_nat_less_exp [of 5 "unat (digit32 h n)"] by simp
qed

lemma length_printHash32 [simp]: "length (printHash32 h) = hashLength32 h"
  by (simp add: printHash32_def)

lemma nth_printHash32:
  "n < hashLength32 h \<Longrightarrow>
     find_digit (printHash32 h ! (hashLength32 h - Suc n)) base32Chars = unat (digit32 h n)"
  using unat_digit32 [of h n] base32Chars_wf
  by (simp add: printHash32_def rev_map [symmetric] rev_nth find_digit_nth)

lemma ceil_div_5: "m \<le> 5 * ((m - 1) div 5 + (1 :: nat))"
  by presburger

lemma parseHash32_from_print:
  assumes "n + k = hashLength32 h" "hashSize r = hashSize h" "hashSize h \<le> length (hash r)" "0 < hashSize h"
    "\<And>p. hash_bit r p \<longleftrightarrow> p < 5 * n \<and> hash_bit h p"
  shows "\<exists>r'. parseHash32_from k n (printHash32 h) r = Inr r' \<and> hashSize r' = hashSize r \<and>
     htype r' = htype r \<and> length (hash r') = length (hash r) \<and>
     drop (hashSize r) (hash r') = drop (hashSize r) (hash r) \<and> (\<forall>p. hash_bit r' p \<longleftrightarrow> hash_bit h p)"
  using assms
proof (induction k arbitrary: n r)
  case 0
  have "8 * hashSize h \<le> 5 * hashLength32 h"
    unfolding hashLength32_def mult.commute [of "hashSize h"] by (rule ceil_div_5)
  then have "hash_bit h p \<Longrightarrow> p < 5 * n" for p
    using 0 unfolding hash_bit_def by linarith
  with 0(5) have "hash_bit r p \<longleftrightarrow> hash_bit h p" for p by blast
  then show ?case by simp
next
  case (Suc k)
  let ?r = "set_digit32 n (digit32 h n) r"
  have n: "n < hashLength32 h" "n < hashLength32 r" using Suc.prems by (simp_all add: hashLength32_def)
  have r: "0 < hashSize r" "hashSize r \<le> length (hash r)" using Suc.prems(2-4) by simp_all
  have d5: "bit (digit32 h n) t \<Longrightarrow> t < 5" for t
    using bit_small_word [of "unat (digit32 h n)" t] unat_digit32 [of h n] by simp
  have "hash_bit ?r p \<longleftrightarrow> p < 5 * Suc n \<and> hash_bit h p" for p
  proof -
    have bit: "hash_bit ?r p \<longleftrightarrow>
        (p < 5 * n \<and> hash_bit h p) \<or> p < 8 * hashSize h \<and> 5 * n \<le> p \<and> bit (digit32 h n) (p - 5 * n)"
      using bit_set_digit32 [of n r "digit32 h n" p, OF n(2) r d5] unfolding Suc.prems(2,5) .
    have lt: "hash_bit h p \<Longrightarrow> p < 8 * hashSize h" by (simp add: hash_bit_def)
    consider "p < 5 * n" | "5 * n \<le> p" "p < 5 * Suc n" | "5 * n \<le> p" "5 * Suc n \<le> p" by arith
    then show ?thesis
    proof cases
      case 1
      then show ?thesis unfolding bit by simp
    next
      case 2
      then have p: "5 * n + (p - 5 * n) = p" "p - 5 * n < 5" by arith+
      from bit_digit32 [OF p(2) n(1) Suc.prems(4)] 2 lt show ?thesis unfolding bit p(1) by auto
    next
      case 3
      then have "\<not> p - 5 * n < 5" by arith
      then have "\<not> bit (digit32 h n) (p - 5 * n)" using d5 by blast
      with 3 show ?thesis unfolding bit by auto
    qed
  qed
  moreover have "parseHash32_from (Suc k) n (printHash32 h) r = parseHash32_from k (Suc n) (printHash32 h) ?r"
    using n(1) unat_digit32 [of h n] by (simp add: nth_printHash32)
  moreover have "drop (hashSize r) (hash ?r) = drop (hashSize r) (hash r)"
    using n(2) Suc.prems(2,4) by (intro drop_set_digit32) simp_all
  moreover have "Suc n + k = hashLength32 h" "hashSize ?r = hashSize h" "hashSize h \<le> length (hash ?r)"
    using Suc.prems by simp_all
  ultimately show ?case
    using Suc.IH [of "Suc n" ?r, OF _ _ _ Suc.prems(4)] by (simp only: set_digit32_sel) 
qed

lemma hash_bit_eqD:
  assumes "\<And>p. hash_bit h1 p \<longleftrightarrow> hash_bit h2 p" "hashSize h1 = hashSize h2" "i < hashSize h1"
  shows "hash h1 ! i = hash h2 ! i"
proof (rule bit_word_eqI)
  fix t assume "t < LENGTH(8)"
  with assms show "bit (hash h1 ! i) t \<longleftrightarrow> bit (hash h2 ! i) t"
    using assms(1) [of "8 * i + t"] by (simp add: hash_bit_def less_mult_div)
qed

lemma parseHash32_printHash32:
  assumes "wf_hash g h"
  shows "parseHash32 g (htype h) (printHash32 h) = Inr h"
proof -
  let ?r = "\<lparr>hashSize = hashSize h, hash = replicate maxHashSize 0, htype = htype h\<rparr>"
  have sz: "0 < hashSize h" "hashSize h \<le> maxHashSize" using assms by (auto simp: wf_hash_def)
  have "\<not> hash_bit ?r p" for p using sz by (auto simp: hash_bit_def less_mult_div)
  then obtain r where r: "parseHash32_from (hashLength32 h) 0 (printHash32 h) ?r = Inr r"
    "hashSize r = hashSize h" "htype r = htype h" "length (hash r) = maxHashSize"
    "drop (hashSize h) (hash r) = replicate (maxHashSize - hashSize h) 0" "\<And>p. hash_bit r p \<longleftrightarrow> hash_bit h p"
    using parseHash32_from_print [of 0 "hashLength32 h" h ?r] sz by auto
  moreover have "wf_hash g r" using assms r by (auto simp: wf_hash_def)
  ultimately have "r = h" using assms hash_bit_eqD [of r h] by (intro Hash_eqI [of g]) auto
  moreover have "hashLength32 ?r = hashLength32 h" by (simp add: hashLength32_def)
  ultimately show ?thesis using r(1) assms by (simp add: parseHash32_def Hash_new_wf)
qed

lemma parseHash32_from_error:
  "n + k = length s \<Longrightarrow>
     (\<exists>r'. parseHash32_from k n s r = Inr r') \<longleftrightarrow> set (take k s) \<subseteq> set base32Chars"
proof (induction k arbitrary: n r)
  case (Suc k)
  let ?c = "s ! (length s - n - 1)"
  have k: "length s - n - 1 = k" "k < length s" using Suc.prems by simp_all
  have "find_digit ?c base32Chars \<ge> 32 \<longleftrightarrow> ?c \<notin> set base32Chars"
    using find_digit_less [of ?c base32Chars] base32Chars_wf by linarith
  with Suc.IH [of "Suc n"] Suc.prems k show ?case
    by (auto simp: take_Suc_conv_app_nth Let_def)
qed simp

lemma parseHash32_succeeds_iff:
  assumes "gcrypt_ok g" "ht \<noteq> htUnknown"
  shows "(\<exists>h. parseHash32 g ht s = Inr h) \<longleftrightarrow>
     length s = (algo_dlen g ht * 8 - 1) div 5 + 1 \<and> set s \<subseteq> set base32Chars"
proof -
  obtain h where h: "Hash_new g ht = Inr h" using Hash_new_ok assms by blast
  then have "hashLength32 h = (algo_dlen g ht * 8 - 1) div 5 + 1"
    using Hash_new_Inr [OF h] by (simp add: hashLength32_def wf_hash_def)
  then show ?thesis
    using parseHash32_from_error [of 0 "length s" s h] by (auto simp: parseHash32_def h Let_def)
qed

lemma printHash32_chars: "set (printHash32 h) \<subseteq> set base32Chars"
proof -
  have "base32Chars ! unat (digit32 h n) \<in> set base32Chars" for n
    using unat_digit32 [of h n] base32Chars_wf by (intro nth_mem) simp
  then show ?thesis by (auto simp: printHash32_def)
qed

lemma hashLength32_less: "2 < hashSize h \<Longrightarrow> hashLength32 h < hashSize h * 2"
  unfolding hashLength32_def by arith

lemma parseHash16or32_print:
  assumes "wf_hash g h" "2 < hashSize h"
  shows "parseHash16or32 g (htype h) (printHash16or32 h) = Inr h"
  using assms hashLength32_less [OF assms(2)] parseHash_printHash [OF assms(1)]
    parseHash32_printHash32 [OF assms(1)]
  by (auto simp: parseHash16or32_def printHash16or32_def Hash_new_wf hashLength32_def)

lemma parseHashType_printHashType:
  "ht \<noteq> htUnknown \<Longrightarrow> \<exists>s. printHashType ht = Inr s \<and> parseHashType s = ht"
  by (cases ht) (simp_all add: parseHashType_def)

lemma printHashType_parseHashType:
  "parseHashType s \<noteq> htUnknown \<Longrightarrow> printHashType (parseHashType s) = Inr s"
  by (simp add: parseHashType_def split: if_splits)

section \<open>Folding a hash\<close>

text \<open>The exclusive or of the bytes whose positions are congruent to \<open>j\<close>.\<close>

definition xor_class :: "Hash \<Rightarrow> nat \<Rightarrow> nat \<Rightarrow> nat list \<Rightarrow> 8 word" where
  "xor_class h m j is = fold (\<lambda>i b. b XOR hash h ! i) (filter (\<lambda>i. i mod m = j) is) 0"

lemma fold_xor_acc:
  "fold (\<lambda>i b. b XOR f i) is a = a XOR fold (\<lambda>i b. b XOR f i) is (0 :: 'a::len word)"
proof (induction "is" arbitrary: a)
  case (Cons i "is")
  show ?case by (simp add: Cons.IH [of "a XOR f i"] Cons.IH [of "f i"] xor.assoc)
qed simp

lemma compressHash_from_sel:
  "hashSize (compressHash_from k i h m r) = hashSize r"
  "htype (compressHash_from k i h m r) = htype r"
  "length (hash (compressHash_from k i h m r)) = length (hash r)"
  by (induction k arbitrary: i r) simp_all

lemma nth_compressHash_from:
  assumes "0 < m" "m \<le> length (hash r)" "j < m"
  shows "hash (compressHash_from k i h m r) ! j = hash r ! j XOR xor_class h m j [i..<i + k]"
  using assms
proof (induction k arbitrary: i r)
  case (Suc k)
  have up: "[i..<i + Suc k] = i # [Suc i..<Suc i + k]" by (simp add: upt_conv_Cons)
  have "xor_class h m j [i..<i + Suc k] =
      (if i mod m = j then hash h ! i else 0) XOR xor_class h m j [Suc i..<Suc i + k]"
    unfolding up by (simp add: xor_class_def fold_xor_acc [of _ _ "hash h ! i"])
  with Suc show ?case by (simp add: nth_list_update xor.assoc)
qed (simp add: xor_class_def)

lemma nth_compressHash:
  assumes "0 < m" "m \<le> maxHashSize" "j < m"
  shows "hash (compressHash h m) ! j = xor_class h m j [0..<hashSize h]"
  using assms nth_compressHash_from [of m "Hash_null\<lparr>hashSize := m\<rparr>" j "hashSize h" 0 h]
  by (simp add: compressHash_def Hash_null_def)

lemma compressHash_sel:
  "hashSize (compressHash h m) = m" "length (hash (compressHash h m)) = maxHashSize"
  "htype (compressHash h m) = htUnknown"
  by (simp_all add: compressHash_def compressHash_from_sel Hash_null_def)

section \<open>Hashing streams\<close>

lemma HashSink_ctx_eq:
  "fold HashSink_write cs c =
     \<lparr>ctx_md = ctx_md c @ bytes_of cs, ctx_bytes = ctx_bytes c + word_of_nat (length (bytes_of cs))\<rparr>"
  by (induction cs arbitrary: c) (simp_all add: HashSink_write_def)

lemma HashSink_finish_eq:
  assumes "sink_invar k"
  shows "HashSink_finish g ht k =
     rbind (hashString g ht (sink_content k))
       (\<lambda>h. Inr (h, word_of_nat (length (sink_content k))))"
proof -
  have "bytes_of (written (BufferedSink_flush k)) = sink_content k"
    using sink_flush(1) [OF assms] sink_flush(3) [of k] by (simp add: sink_content_def)
  then show ?thesis
    by (cases "Hash_new g ht")
      (simp_all add: HashSink_finish_def HashSink_ctx_def HashSink_ctx_eq hashString_def Let_def)
qed

lemma HashSink_chunks:
  "HashSink_finish g ht (fold BufferedSink_call cs (new_BufferedSink sz)) =
     rbind (hashString g ht (bytes_of cs)) (\<lambda>h. Inr (h, word_of_nat (length (bytes_of cs))))"
proof -
  have "sink_invar (new_BufferedSink sz)" "sink_content (new_BufferedSink sz) = []"
    by (simp_all add: sink_invar_def sink_content_def new_BufferedSink_def)
  then show ?thesis
    using buffered_sink.invar_fold_put [of "new_BufferedSink sz" cs]
      buffered_sink.out_fold_put [of "new_BufferedSink sz" cs]
    by (simp add: HashSink_finish_eq)
qed

lemma hashFile_loop_Inr:
  "hashFile_loop path ctx fd = Inr ctx' \<Longrightarrow> ctx' = ctx @ fd_bytes fd"
proof (induction path ctx fd rule: hashFile_loop.induct)
  case (1 path ctx fd)
  show ?case
    using 1 by (cases fd rule: fd_bytes.cases)
      (auto simp: hashFile_loop.simps [of path ctx "_ # _"] hashFile_loop.simps [of path ctx "[]"]
        split: if_splits)
qed

lemma hashFile_Inr:
  "hashFile g ht path (Inr fd) = Inr h \<Longrightarrow> hashString g ht (fd_bytes fd) = Inr h"
  by (auto simp: hashFile_def hashString_def rbind_Inr_iff dest: hashFile_loop_Inr)

section \<open>Properties\<close>

text \<open>A stand-in for libgcrypt with the documented digest lengths.\<close>

definition sample_dlen :: "HashType \<Rightarrow> nat" where
  "sample_dlen ht = (case ht of htUnknown \<Rightarrow> 0 | htMD5 \<Rightarrow> 16 | htSHA1 \<Rightarrow> 20 | htSHA512 \<Rightarrow> 64
     | htSHA3_512 \<Rightarrow> 64 | _ \<Rightarrow> 32)"

definition sample_gcrypt :: gcrypt where
  "sample_gcrypt = \<lparr>algo_dlen = sample_dlen, algo_name = (\<lambda>_. ''sample''),
     md_read = (\<lambda>ht s. map (\<lambda>i. word_of_nat (i + length s)) [0..<sample_dlen ht])\<rparr>"

lemma sample_gcrypt_ok: "gcrypt_ok sample_gcrypt"
proof -
  have "16 \<le> sample_dlen ht \<and> sample_dlen ht \<le> maxHashSize" if "ht \<noteq> htUnknown" for ht
    using that by (cases ht) (simp_all add: sample_dlen_def maxHashSize_def)
  then show ?thesis by (simp add: gcrypt_ok_def sample_gcrypt_def sample_dlen_def)
qed

definition sample_hash :: "HashType \<Rightarrow> string \<Rightarrow> Hash" where
  "sample_hash ht s = \<lparr>hashSize = sample_dlen ht,
     hash = md_read sample_gcrypt ht s @ replicate (maxHashSize - sample_dlen ht) 0, htype = ht\<rparr>"

lemma wf_sample_hash: "ht \<noteq> htUnknown \<Longrightarrow> wf_hash sample_gcrypt (sample_hash ht s)"
  using sample_gcrypt_ok by (auto simp: wf_hash_def sample_hash_def gcrypt_ok_def sample_gcrypt_def)

text \<open>
  C26: Printing a hash and parsing the result gives the hash back, in base 16, in base 32, and in the
  notation chosen by type; the base-32 text has the announced length and uses only the alphabet.
\<close>

theorem hash_print_parse:
  assumes "gcrypt_ok g" and "wf_hash g h"
  shows "parseHash g (htype h) (printHash h) = Inr h \<and>
     parseHash32 g (htype h) (printHash32 h) = Inr h \<and>
     parseHash16or32 g (htype h) (printHash16or32 h) = Inr h \<and>
     length (printHash32 h) = hashLength32 h \<and> set (printHash32 h) \<subseteq> set base32Chars"
proof -
  have "2 < hashSize h"
    using assms by (cases "htype h = htUnknown") (fastforce simp: gcrypt_ok_def wf_hash_def)+
  with assms show ?thesis
    by (simp add: parseHash_printHash parseHash32_printHash32 parseHash16or32_print printHash32_chars)
qed

theorem hash_print_parse_witness:
  "parseHash32 sample_gcrypt htSHA256 (printHash32 (sample_hash htSHA256 ''abc'')) =
     Inr (sample_hash htSHA256 ''abc'')"
  using hash_print_parse [OF sample_gcrypt_ok wf_sample_hash [of htSHA256 "''abc''"]]
  by (simp add: sample_hash_def)

text \<open>
  C27: The base-32 parser accepts exactly the strings of the right length over the alphabet; everything
  else is an error.
\<close>

theorem parseHash32_accepts:
  assumes "gcrypt_ok g" and "ht \<noteq> htUnknown"
  shows "(\<exists>h. parseHash32 g ht s = Inr h) \<longleftrightarrow>
     length s = (algo_dlen g ht * 8 - 1) div 5 + 1 \<and> set s \<subseteq> set base32Chars"
  using assms by (rule parseHash32_succeeds_iff)

theorem parseHash32_accepts_witness:
  "\<nexists>h. parseHash32 sample_gcrypt htMD5 ''e'' = Inr h"
  using parseHash32_accepts [OF sample_gcrypt_ok, of htMD5 "''e''"]
  by (simp add: sample_gcrypt_def sample_dlen_def)

text \<open>
  A hash folded to \<open>m\<close> bytes has size \<open>m\<close>, and its byte \<open>j\<close> is the exclusive or of exactly the
  bytes of the original at the positions congruent to \<open>j\<close> modulo \<open>m\<close>.
\<close>

theorem compressHash_folds:
  assumes "0 < m" and "m \<le> maxHashSize" and "j < m"
  shows "hashSize (compressHash h m) = m \<and> length (hash (compressHash h m)) = maxHashSize \<and>
     hash (compressHash h m) ! j =
       fold (\<lambda>i b. b XOR hash h ! i) (filter (\<lambda>i. i mod m = j) [0..<hashSize h]) 0"
  using assms by (simp add: compressHash_sel nth_compressHash xor_class_def)

theorem compressHash_folds_witness:
  "hashSize (compressHash (sample_hash htSHA256 ''abc'') 20) = 20 \<and>
   hash (compressHash (sample_hash htSHA256 ''abc'') 20) ! 1 = 0x1c"
  using compressHash_folds [of 20 1 "sample_hash htSHA256 ''abc''"]
  by (simp add: maxHashSize_def sample_hash_def sample_dlen_def sample_gcrypt_def upt_rec)

text \<open>
  The comparison operators of hashes of one type are those of their bytes: equality is equality of
  the objects, the order is lexicographic, and exactly one of less, equal, greater holds.
\<close>

theorem Hash_order:
  assumes "wf_hash g h1" and "wf_hash g h2" and "htype h1 = htype h2"
  shows "(Hash_eq h1 h2 \<longleftrightarrow> h1 = h2) \<and> (Hash_neq h1 h2 \<longleftrightarrow> h1 \<noteq> h2) \<and>
     (Hash_less h1 h2 \<longleftrightarrow> hash h1 < hash h2) \<and>
     (Hash_less h1 h2 \<or> Hash_eq h1 h2 \<or> Hash_less h2 h1) \<and> (Hash_less h1 h2 \<longrightarrow> \<not> Hash_less h2 h1)"
proof -
  have "hash h1 = hash h2 \<Longrightarrow> h1 = h2" using Hash_eqI [OF assms] by simp
  moreover have "hash h1 < hash h2 \<or> hash h1 = hash h2 \<or> hash h2 < hash h1" by auto
  ultimately show ?thesis
    using Hash_eq_iff [OF assms] Hash_less_iff [OF assms] Hash_less_iff [OF assms(2,1)] assms(3)
    by (auto simp: Hash_neq_def)
qed

theorem Hash_order_witness:
  "Hash_less (sample_hash htSHA1 ''a'') (sample_hash htSHA1 ''ab'') \<longleftrightarrow>
   hash (sample_hash htSHA1 ''a'') < hash (sample_hash htSHA1 ''ab'')"
  using Hash_order [OF wf_sample_hash wf_sample_hash, of htSHA1 htSHA1 "''a''" "''ab''"]
  by (simp add: sample_hash_def)


end
