(* ===== verification/Util.thy ===== *)
theory Util
  imports Serialise
begin

text \<open>
  The pure and descriptor-level parts of \<^verbatim>\<open>src/nix/libutil/util.cc\<close>: path manipulation, reading
  and writing whole buffers through interrupted and partial system calls, string splitting and
  joining, exit statuses, and the parsing helpers for the derivation format.
\<close>

section \<open>Paths\<close>

type_synonym Path = string

text \<open>\<^verbatim>\<open>std::string::rfind\<close> of one character, \<^verbatim>\<open>None\<close> for \<^verbatim>\<open>npos\<close>.\<close>

fun rfind :: "char \<Rightarrow> string \<Rightarrow> nat option" where
  "rfind c [] = None"
| "rfind c (x # xs) = (case rfind c xs of Some i \<Rightarrow> Some (Suc i) | None \<Rightarrow> if x = c then Some 0 else None)"

definition dirOf :: "Path \<Rightarrow> Path result" where
  "dirOf path =
     (case rfind (CHR ''/'') path of
        None \<Rightarrow> Inl (Throw Error (''invalid file name '' @ path))
      | Some pos \<Rightarrow> Inr (if pos = 0 then ''/'' else take pos path))"

definition baseNameOf :: "Path \<Rightarrow> string result" where
  "baseNameOf path =
     (case rfind (CHR ''/'') path of
        None \<Rightarrow> Inl (Throw Error (''invalid file name '' @ path))
      | Some pos \<Rightarrow> Inr (drop (pos + 1) path))"

definition isInDir :: "Path \<Rightarrow> Path \<Rightarrow> bool" where
  "isInDir path dir \<longleftrightarrow>
     path \<noteq> [] \<and> hd path = CHR ''/'' \<and>
     take (length dir) path = dir \<and>
     length path \<ge> length dir + 2 \<and>
     path ! length dir = CHR ''/''"

definition is_absolute :: "Path \<Rightarrow> bool" where
  "is_absolute path \<longleftrightarrow> path \<noteq> [] \<and> hd path = CHR ''/''"

definition not_slash :: "char \<Rightarrow> bool" where
  "not_slash c \<longleftrightarrow> c \<noteq> CHR ''/''"

definition skip_slashes :: "string \<Rightarrow> string" where
  "skip_slashes i = dropWhile (\<lambda>c. c = CHR ''/'') i"

definition at_dot :: "string \<Rightarrow> bool" where
  "at_dot i \<longleftrightarrow> hd i = CHR ''.'' \<and> (tl i = [] \<or> hd (tl i) = CHR ''/'')"

definition at_dotdot :: "string \<Rightarrow> bool" where
  "at_dotdot i \<longleftrightarrow> hd i = CHR ''.'' \<and> tl i \<noteq> [] \<and> hd (tl i) = CHR ''.'' \<and>
     (tl (tl i) = [] \<or> hd (tl (tl i)) = CHR ''/'')"

definition erase_last :: "string \<Rightarrow> string" where
  "erase_last s = (if s = [] then s else case rfind (CHR ''/'') s of None \<Rightarrow> s | Some pos \<Rightarrow> take pos s)"

lemma length_skip_slashes: "length (skip_slashes i) \<le> length i"
  by (simp add: skip_slashes_def length_dropWhile_le)

lemma hd_skip_slashes: "skip_slashes i \<noteq> [] \<Longrightarrow> not_slash (hd (skip_slashes i))"
  using hd_dropWhile [of "\<lambda>c. c = CHR ''/''" i] by (simp add: skip_slashes_def not_slash_def)

lemma canon_decreases:
  assumes "skip_slashes i \<noteq> []"
  shows "length (tl (skip_slashes i)) < length i"
    and "length (tl (tl (skip_slashes i))) < length i"
    and "length (dropWhile not_slash (skip_slashes i)) < length i"
proof -
  obtain c cs where c: "skip_slashes i = c # cs" using assms by (cases "skip_slashes i") auto
  then have "not_slash c" using hd_skip_slashes [OF assms] by simp
  then show "length (tl (skip_slashes i)) < length i"
    "length (tl (tl (skip_slashes i))) < length i"
    "length (dropWhile not_slash (skip_slashes i)) < length i"
    using length_skip_slashes [of i] c length_dropWhile_le [of not_slash cs] by simp_all
qed

text \<open>
  The loop of \<^verbatim>\<open>canonPath\<close> without symlinks: \<open>s\<close> is the output so far, \<open>i\<close> the rest of the input.
\<close>

function canonPath_lex :: "string \<Rightarrow> string \<Rightarrow> string" where
  "canonPath_lex s i =
     (if skip_slashes i = [] then s
      else if at_dot (skip_slashes i) then canonPath_lex s (tl (skip_slashes i))
      else if at_dotdot (skip_slashes i) then canonPath_lex (erase_last s) (tl (tl (skip_slashes i)))
      else canonPath_lex (s @ CHR ''/'' # takeWhile not_slash (skip_slashes i))
             (dropWhile not_slash (skip_slashes i)))"
  by pat_completeness auto
termination
  by (relation "measure (\<lambda>(s, i). length i)") (simp_all add: canon_decreases del: length_tl)

declare canonPath_lex.simps [simp del]

definition canonPath :: "Path \<Rightarrow> Path result" where
  "canonPath path =
     (if \<not> is_absolute path then Inl (Throw Error (''not an absolute path: '' @ path))
      else let s = canonPath_lex [] path in Inr (if s = [] then ''/'' else s))"

text \<open>\<^verbatim>\<open>absPath\<close>; \<open>cwd\<close> is what \<^verbatim>\<open>getcwd\<close> gives.\<close>

definition absPath :: "Path result \<Rightarrow> Path \<Rightarrow> Path \<Rightarrow> Path result" where
  "absPath cwd path dir =
     (if is_absolute path then canonPath path
      else rbind (if dir = [] then cwd else Inr dir) (\<lambda>dir. canonPath (dir @ ''/'' @ path)))"

text \<open>
  \<^verbatim>\<open>canonPath\<close> with \<^verbatim>\<open>resolveSymlinks\<close>, over the file system's answers: whether a path is a symlink,
  and a symlink's target.  \<open>n\<close> is the number of links that may still be followed.
\<close>

definition maxFollow :: nat where
  "maxFollow = 1024"

function canonPath_links ::
  "(Path \<Rightarrow> bool result) \<Rightarrow> (Path \<Rightarrow> string result) \<Rightarrow> nat \<Rightarrow> string \<Rightarrow> string \<Rightarrow> string result" where
  "canonPath_links isLink readLink n s i =
     (if skip_slashes i = [] then Inr s
      else if at_dot (skip_slashes i) then canonPath_links isLink readLink n s (tl (skip_slashes i))
      else if at_dotdot (skip_slashes i)
      then canonPath_links isLink readLink n (erase_last s) (tl (tl (skip_slashes i)))
      else let s = s @ CHR ''/'' # takeWhile not_slash (skip_slashes i);
               j = dropWhile not_slash (skip_slashes i)
           in case isLink s of
                Inl e \<Rightarrow> Inl e
              | Inr False \<Rightarrow> canonPath_links isLink readLink n s j
              | Inr True \<Rightarrow>
                  if n \<le> 1 then Inl (Throw Error ''infinite symlink recursion in path'')
                  else rbind (readLink s) (\<lambda>target.
                       rbind (dirOf s) (\<lambda>dir.
                       rbind (absPath (Inl (Abort ''cwd'')) target dir) (\<lambda>abs.
                       canonPath_links isLink readLink (n - 1) [] (abs @ j)))))"
  by pat_completeness auto
termination
  by (relation "measures [\<lambda>(isLink, readLink, n, s, i). n, \<lambda>(isLink, readLink, n, s, i). length i]")
    (auto simp: canon_decreases simp del: length_tl)

declare canonPath_links.simps [simp del]

definition canonPath_resolve ::
  "(Path \<Rightarrow> bool result) \<Rightarrow> (Path \<Rightarrow> string result) \<Rightarrow> Path \<Rightarrow> Path result" where
  "canonPath_resolve isLink readLink path =
     (if \<not> is_absolute path then Inl (Throw Error (''not an absolute path: '' @ path))
      else rbind (canonPath_links isLink readLink maxFollow [] path) (\<lambda>s.
           Inr (if s = [] then ''/'' else s)))"

subsection \<open>Specification by components\<close>

text \<open>
  The components of a path, and the stack of components that is left when \<^verbatim>\<open>.\<close> and \<^verbatim>\<open>..\<close> are
  resolved from left to right.
\<close>

function path_components :: "string \<Rightarrow> string list" where
  "path_components i =
     (if skip_slashes i = [] then []
      else takeWhile not_slash (skip_slashes i) # path_components (dropWhile not_slash (skip_slashes i)))"
  by pat_completeness auto
termination
  by (relation "measure length") (simp_all add: canon_decreases)

declare path_components.simps [simp del]

definition push_component :: "string \<Rightarrow> string list \<Rightarrow> string list" where
  "push_component c st = (if c = ''.'' then st else if c = ''..'' then butlast st else st @ [c])"

definition render_path :: "string list \<Rightarrow> string" where
  "render_path cs = concat (map (\<lambda>c. CHR ''/'' # c) cs)"

definition canonical_component :: "string \<Rightarrow> bool" where
  "canonical_component c \<longleftrightarrow> c \<noteq> [] \<and> c \<noteq> ''.'' \<and> c \<noteq> ''..'' \<and> CHR ''/'' \<notin> set c"

lemma render_path_simps [simp]:
  "render_path [] = []" "render_path (c # cs) = CHR ''/'' # c @ render_path cs"
  "render_path (xs @ ys) = render_path xs @ render_path ys" "render_path cs = [] \<longleftrightarrow> cs = []"
  by (auto simp: render_path_def)

lemma component_no_slash: "CHR ''/'' \<notin> set (takeWhile not_slash i)"
  by (auto simp: not_slash_def dest: set_takeWhileD)

lemma takeWhile_skip_nonempty: "skip_slashes i \<noteq> [] \<Longrightarrow> takeWhile not_slash (skip_slashes i) \<noteq> []"
  using hd_skip_slashes [of i] by (cases "skip_slashes i") auto

lemma at_dot_iff:
  assumes "skip_slashes i \<noteq> []"
  shows "at_dot (skip_slashes i) \<longleftrightarrow> takeWhile not_slash (skip_slashes i) = ''.''"
    and "at_dot (skip_slashes i) \<Longrightarrow> tl (skip_slashes i) = dropWhile not_slash (skip_slashes i)"
proof -
  obtain c cs where c: "skip_slashes i = c # cs" using assms by (cases "skip_slashes i") auto
  show "at_dot (skip_slashes i) \<longleftrightarrow> takeWhile not_slash (skip_slashes i) = ''.''"
    "at_dot (skip_slashes i) \<Longrightarrow> tl (skip_slashes i) = dropWhile not_slash (skip_slashes i)"
    unfolding c using hd_skip_slashes [OF assms] unfolding c
    by (cases cs; auto simp: at_dot_def not_slash_def)+
qed

lemma at_dotdot_iff:
  assumes "skip_slashes i \<noteq> []"
  shows "at_dotdot (skip_slashes i) \<longleftrightarrow> takeWhile not_slash (skip_slashes i) = ''..''"
    and "at_dotdot (skip_slashes i) \<Longrightarrow> tl (tl (skip_slashes i)) = dropWhile not_slash (skip_slashes i)"
proof -
  obtain c cs where c: "skip_slashes i = c # cs" using assms by (cases "skip_slashes i") auto
  have sl: "not_slash c" using hd_skip_slashes [OF assms] c by simp
  show "at_dotdot (skip_slashes i) \<longleftrightarrow> takeWhile not_slash (skip_slashes i) = ''..''"
  proof (cases cs)
    case (Cons d ds)
    then show ?thesis unfolding c using sl by (cases ds) (auto simp: at_dotdot_def not_slash_def)
  qed (auto simp: c at_dotdot_def)
  show "at_dotdot (skip_slashes i) \<Longrightarrow> tl (tl (skip_slashes i)) = dropWhile not_slash (skip_slashes i)"
  proof (cases cs)
    case (Cons d ds)
    then show "at_dotdot (skip_slashes i) \<Longrightarrow> ?thesis"
      unfolding c by (cases ds) (auto simp: at_dotdot_def not_slash_def)
  qed (auto simp: c at_dotdot_def)
qed

lemma rfind_append: "c \<notin> set ys \<Longrightarrow> rfind c (xs @ c # ys) = Some (length xs)"
proof (induction xs)
  case Nil
  have "rfind c ys = None" using Nil by (induction ys) auto
  then show ?case by simp
qed simp

lemma rfind_None: "rfind c xs = None \<longleftrightarrow> c \<notin> set xs"
  by (induction xs) (auto split: option.splits)

lemma rfind_Some: "rfind c xs = Some n \<Longrightarrow> n < length xs \<and> xs ! n = c \<and> c \<notin> set (drop (Suc n) xs)"
  by (induction xs arbitrary: n) (auto simp: rfind_None split: option.splits if_splits)

lemma erase_last_render:
  assumes "list_all (\<lambda>c. CHR ''/'' \<notin> set c) st"
  shows "erase_last (render_path st) = render_path (butlast st)"
proof (cases st rule: rev_cases)
  case (snoc xs c)
  with assms show ?thesis by (simp add: erase_last_def rfind_append)
qed (simp add: erase_last_def)

lemma push_component_no_slash:
  "list_all (\<lambda>c. CHR ''/'' \<notin> set c) st \<Longrightarrow> CHR ''/'' \<notin> set c \<Longrightarrow>
     list_all (\<lambda>c. CHR ''/'' \<notin> set c) (push_component c st)"
  by (auto simp: push_component_def list_all_iff dest: in_set_butlastD)

lemma canonPath_lex_eq:
  "list_all (\<lambda>c. CHR ''/'' \<notin> set c) st \<Longrightarrow>
     canonPath_lex (render_path st) i = render_path (fold push_component (path_components i) st)"
proof (induction i arbitrary: st rule: path_components.induct)
  case (1 i)
  show ?case
  proof (cases "skip_slashes i = []")
    case True
    then show ?thesis by (simp add: canonPath_lex.simps [of _ i] path_components.simps [of i])
  next
    case False
    let ?c = "takeWhile not_slash (skip_slashes i)" and ?j = "dropWhile not_slash (skip_slashes i)"
    have "canonPath_lex (render_path st) i = canonPath_lex (render_path (push_component ?c st)) ?j"
      using False 1 at_dot_iff [OF False] at_dotdot_iff [OF False]
      by (simp add: canonPath_lex.simps [of _ i] push_component_def erase_last_render)
    also have "\<dots> = render_path (fold push_component (path_components ?j) (push_component ?c st))"
      using 1 False by (intro "1.IH") (simp_all add: push_component_no_slash component_no_slash)
    finally show ?thesis using False by (simp add: path_components.simps [of i])
  qed
qed

lemma canonPath_eq:
  "canonPath path =
     (if is_absolute path
      then let cs = fold push_component (path_components path) [] in Inr (if cs = [] then ''/'' else render_path cs)
      else Inl (Throw Error (''not an absolute path: '' @ path)))"
  using canonPath_lex_eq [of "[]" path] by (simp add: canonPath_def Let_def)

lemma path_components_valid: "c \<in> set (path_components i) \<Longrightarrow> c \<noteq> [] \<and> CHR ''/'' \<notin> set c"
proof (induction i rule: path_components.induct)
  case (1 i)
  show ?case
  proof (cases "skip_slashes i = []")
    case False
    with 1 show ?thesis
      by (auto simp: path_components.simps [of i] takeWhile_skip_nonempty component_no_slash)
  qed (use 1 in \<open>simp add: path_components.simps [of i]\<close>)
qed

lemma fold_push_canonical:
  "list_all canonical_component st \<Longrightarrow> \<forall>c \<in> set cs. c \<noteq> [] \<and> CHR ''/'' \<notin> set c \<Longrightarrow>
     list_all canonical_component (fold push_component cs st)"
proof (induction cs arbitrary: st)
  case (Cons c cs)
  have "list_all canonical_component (push_component c st)"
    using Cons.prems by (auto simp: push_component_def canonical_component_def list_all_iff dest: in_set_butlastD)
  with Cons show ?case by simp
qed simp

lemma fold_push_id: "list_all canonical_component cs \<Longrightarrow> fold push_component cs st = st @ cs"
  by (induction cs arbitrary: st) (auto simp: push_component_def canonical_component_def)

lemma path_components_render:
  "list_all canonical_component cs \<Longrightarrow> path_components (render_path cs) = cs"
proof (induction cs)
  case Nil
  then show ?case by (simp add: path_components.simps skip_slashes_def)
next
  case (Cons c cs)
  then obtain x xs where c: "c = x # xs" "not_slash x" "CHR ''/'' \<notin> set c"
    by (cases c) (auto simp: canonical_component_def not_slash_def)
  have skip: "skip_slashes (CHR ''/'' # c @ r) = c @ r" for r
    using c by (simp add: skip_slashes_def not_slash_def)
  have "\<forall>x \<in> set c. not_slash x" using c(3) by (auto simp: not_slash_def)
  then have "takeWhile not_slash (c @ render_path cs) = c" "dropWhile not_slash (c @ render_path cs) = render_path cs"
    by (cases cs; simp add: not_slash_def)+
  moreover have "c \<noteq> []" using c by simp
  ultimately show ?case
    using Cons by (simp add: path_components.simps [of "_ # _"] skip)
qed

lemma canonPath_render:
  "list_all canonical_component cs \<Longrightarrow> cs \<noteq> [] \<Longrightarrow> canonPath (render_path cs) = Inr (render_path cs)"
proof -
  assume a: "list_all canonical_component cs" "cs \<noteq> []"
  then have "is_absolute (render_path cs)" by (cases cs) (simp_all add: is_absolute_def)
  with a show ?thesis by (simp add: canonPath_eq path_components_render fold_push_id)
qed

lemma canonPath_cases:
  assumes "canonPath path = Inr p"
  obtains cs where "list_all canonical_component cs" "p = (if cs = [] then ''/'' else render_path cs)"
proof -
  have "list_all canonical_component (fold push_component (path_components path) [])"
    by (rule fold_push_canonical) (auto dest: path_components_valid)
  with that assms show ?thesis by (auto simp: canonPath_eq Let_def split: if_splits)
qed

lemma canonPath_root: "canonPath ''/'' = Inr ''/''"
  by (simp add: canonPath_eq is_absolute_def path_components.simps skip_slashes_def)

subsection \<open>Resolving symlinks\<close>

definition link_free :: "(Path \<Rightarrow> bool result) \<Rightarrow> string list \<Rightarrow> bool" where
  "link_free isLink cs \<longleftrightarrow> (\<forall>k < length cs. isLink (render_path (take (Suc k) cs)) = Inr False)"

lemma link_free_butlast: "link_free isLink cs \<Longrightarrow> link_free isLink (butlast cs)"
  by (auto simp: link_free_def take_butlast)

lemma link_free_snoc:
  "link_free isLink (cs @ [c]) \<longleftrightarrow> link_free isLink cs \<and> isLink (render_path (cs @ [c])) = Inr False"
  by (auto simp: link_free_def less_Suc_eq)

lemma canonPath_links_result:
  "list_all canonical_component st \<Longrightarrow> link_free isLink st \<Longrightarrow>
   canonPath_links isLink readLink n (render_path st) i = Inr s \<Longrightarrow>
   \<exists>cs. s = render_path cs \<and> list_all canonical_component cs \<and> link_free isLink cs"
proof (induction isLink readLink n "render_path st" i arbitrary: st s rule: canonPath_links.induct)
  case (1 isLink readLink n i)
  let ?c = "takeWhile not_slash (skip_slashes i)" and ?j = "dropWhile not_slash (skip_slashes i)"
  note un = canonPath_links.simps [of isLink readLink n _ i]
  show ?case
  proof (cases "skip_slashes i = []")
    case True
    then show ?thesis using "1.prems" by (auto simp: un)
  next
    case ne: False
    have canon: "list_all canonical_component (butlast st)"
      using "1.prems" by (auto simp: list_all_iff dest: in_set_butlastD)
    have erase: "erase_last (render_path st) = render_path (butlast st)"
      using "1.prems" by (intro erase_last_render) (auto simp: list_all_iff canonical_component_def)
    consider "at_dot (skip_slashes i)" | "\<not> at_dot (skip_slashes i)" "at_dotdot (skip_slashes i)"
      | "\<not> at_dot (skip_slashes i)" "\<not> at_dotdot (skip_slashes i)" by blast
    then show ?thesis
    proof cases
      case 1
      then show ?thesis using "1.hyps"(1) [OF ne 1, of st] "1.prems" ne by (simp add: un)
    next
      case 2
      then show ?thesis
        using "1.hyps"(2) [OF ne 2, of "butlast st"] "1.prems" ne canon
        by (simp add: un erase link_free_butlast)
    next
      case 3
      have c: "canonical_component ?c"
        using 3 ne at_dot_iff [OF ne] at_dotdot_iff [OF ne]
        by (simp add: canonical_component_def takeWhile_skip_nonempty component_no_slash)
      show ?thesis
      proof (cases "isLink (render_path (st @ [?c])) = Inr False")
        case True
        then show ?thesis
          using "1.hyps"(4) [OF ne 3 _ refl, of "st @ [?c]" False s] "1.prems" ne 3 c
          by (simp add: un link_free_snoc Let_def)
      next
        case False
        then obtain target dir abs where
          t: "isLink (render_path (st @ [?c])) = Inr True" "\<not> n \<le> 1"
          "readLink (render_path (st @ [?c])) = Inr target" "dirOf (render_path (st @ [?c])) = Inr dir"
          "absPath (Inl (Abort ''cwd'')) target dir = Inr abs"
          "canonPath_links isLink readLink (n - 1) [] (abs @ ?j) = Inr s"
          using "1.prems" ne 3
          by (auto simp: un rbind_Inr_iff Let_def split: sum.splits bool.splits if_splits)
        then show ?thesis
          using "1.hyps"(3) [OF ne 3 refl refl, of True target dir abs "[]" s]
          by (simp add: link_free_def [of _ "[]"])
      qed
    qed
  qed
qed

section \<open>Strings\<close>

text \<open>
  \<^verbatim>\<open>tokenizeString\<close>: the search for the first non-separator, then the token up to the next separator.
\<close>

function tokenizeString :: "string \<Rightarrow> string \<Rightarrow> string list" where
  "tokenizeString s separators =
     (let rest = dropWhile (\<lambda>c. c \<in> set separators) s
      in if rest = [] then []
         else let token = hd rest # takeWhile (\<lambda>c. c \<notin> set separators) (tl rest)
              in token # tokenizeString (drop (length token) rest) separators)"
  by pat_completeness auto

lemma length_drop_dropWhile_less:
  "dropWhile P s \<noteq> [] \<Longrightarrow> length (drop (Suc n) (dropWhile P s)) < length s"
  using length_dropWhile_le [of P s] by (cases "dropWhile P s") auto

termination tokenizeString
proof (relation "measure (\<lambda>(s, separators). length s)", simp)
  fix s separators :: string and rest token
  assume "rest = dropWhile (\<lambda>c. c \<in> set separators) s" "rest \<noteq> []"
    "token = hd rest # takeWhile (\<lambda>c. c \<notin> set separators) (tl rest)"
  then show "((drop (length token) rest, separators), s, separators) \<in> measure (\<lambda>(s, separators). length s)"
    using length_drop_dropWhile_less [of "\<lambda>c. c \<in> set separators" s] by simp
qed

declare tokenizeString.simps [simp del]

fun concatStringsSep_from :: "string \<Rightarrow> string list \<Rightarrow> string \<Rightarrow> string" where
  "concatStringsSep_from sep [] s = s"
| "concatStringsSep_from sep (x # xs) s =
     concatStringsSep_from sep xs ((if length s \<noteq> 0 then s @ sep else s) @ x)"

definition concatStringsSep :: "string \<Rightarrow> string list \<Rightarrow> string" where
  "concatStringsSep sep ss = concatStringsSep_from sep ss []"

definition chomp :: "string \<Rightarrow> string" where
  "chomp s = rev (dropWhile (\<lambda>c. c \<in> {CHR '' '', CHR 0x0A, CHR 0x0D, CHR 0x09}) (rev s))"

text \<open>The wait status of a child, as the C library encodes it.\<close>

definition WIFEXITED :: "32 word \<Rightarrow> bool" where
  "WIFEXITED status \<longleftrightarrow> status AND 0x7f = 0"

definition WEXITSTATUS :: "32 word \<Rightarrow> nat" where
  "WEXITSTATUS status = unat (drop_bit 8 (status AND 0xff00))"

definition WIFSIGNALED :: "32 word \<Rightarrow> bool" where
  "WIFSIGNALED status \<longleftrightarrow> status AND 0x7f \<noteq> 0 \<and> status AND 0x7f \<noteq> 0x7f"

definition WTERMSIG :: "32 word \<Rightarrow> nat" where
  "WTERMSIG status = unat (status AND 0x7f)"

fun show_nat :: "nat \<Rightarrow> string" where
  "show_nat n = (if n < 10 then [char_of (48 + n)] else show_nat (n div 10) @ [char_of (48 + n mod 10)])"

declare show_nat.simps [simp del]

text \<open>\<open>strsignal\<close> is the C library's description of a signal.\<close>

definition statusToString :: "(nat \<Rightarrow> string) \<Rightarrow> 32 word \<Rightarrow> string" where
  "statusToString strsignal status =
     (if \<not> WIFEXITED status \<or> WEXITSTATUS status \<noteq> 0 then
        if WIFEXITED status then ''failed with exit code '' @ show_nat (WEXITSTATUS status)
        else if WIFSIGNALED status then
          ''failed due to signal '' @ show_nat (WTERMSIG status) @ '' ('' @ strsignal (WTERMSIG status) @ '')''
        else ''died abnormally''
      else ''succeeded'')"

definition statusOk :: "32 word \<Rightarrow> bool" where
  "statusOk status \<longleftrightarrow> WIFEXITED status \<and> WEXITSTATUS status = 0"

definition hasSuffix :: "string \<Rightarrow> string \<Rightarrow> bool" where
  "hasSuffix s suff \<longleftrightarrow>
     length s \<ge> length suff \<and> drop (length s - length suff) s = suff"

section \<open>Parsing streams\<close>

text \<open>
  A stream is the characters still to be read.  \<^verbatim>\<open>get\<close> at the end gives \<^verbatim>\<open>EOF\<close> (-1) and leaves the
  stream there.  A short \<^verbatim>\<open>read\<close> leaves the end of the buffer unset, which never equals the expected
  text here.
\<close>

definition expect :: "string \<Rightarrow> string \<Rightarrow> string result" where
  "expect s str =
     (if take (length s) str = s then Inr (drop (length s) str)
      else Inl (Throw FormatError (''expected string '' @ s)))"

fun stream_get :: "string \<Rightarrow> char option \<times> string" where
  "stream_get [] = (None, [])"
| "stream_get (c # cs) = (Some c, cs)"

text \<open>Appending the \<^verbatim>\<open>int\<close> \<^verbatim>\<open>EOF\<close> to a string appends the character 0xFF.\<close>

definition got_char :: "char option \<Rightarrow> char" where
  "got_char c = (case c of None \<Rightarrow> CHR 0xFF | Some c \<Rightarrow> c)"

definition unescape :: "char option \<Rightarrow> char" where
  "unescape c =
     (if c = Some (CHR ''n'') then CHR 0x0A
      else if c = Some (CHR ''r'') then CHR 0x0D
      else if c = Some (CHR ''t'') then CHR 0x09
      else got_char c)"

partial_function (option) parseString_loop :: "string \<Rightarrow> string \<Rightarrow> (string \<times> string) option" where
  [code]: "parseString_loop res str =
     (case stream_get str of (c, str1) \<Rightarrow>
        if c = Some (CHR 0x22) then Some (res, str1)
        else if c = Some (CHR 0x5C) then
          (case stream_get str1 of (c, str2) \<Rightarrow> parseString_loop (res @ [unescape c]) str2)
        else parseString_loop (res @ [got_char c]) str1)"

definition parseString :: "string \<Rightarrow> (string \<times> string) result option" where
  "parseString str =
     (case expect [CHR 0x22] str of
        Inl e \<Rightarrow> Some (Inl e)
      | Inr str \<Rightarrow> map_option Inr (parseString_loop [] str))"

definition endOfList :: "string \<Rightarrow> bool \<times> string" where
  "endOfList str =
     (if str \<noteq> [] \<and> hd str = CHR '','' then (False, tl str)
      else if str \<noteq> [] \<and> hd str = CHR '']'' then (True, tl str)
      else (False, str))"

section \<open>Whole reads and writes\<close>

function readFull :: "nat \<Rightarrow> fd_in \<Rightarrow> (string \<times> fd_in) result" where
  "readFull count fd =
     (if count = 0 then Inr ([], fd)
      else case sys_read count fd of
          (RdEINTR, fd') \<Rightarrow> readFull count fd'
        | (RdFail e, fd') \<Rightarrow> Inl (Throw (SysError e) ''reading from file'')
        | (RdData d, fd') \<Rightarrow>
            if d = [] then Inl (Throw EndOfFile ''unexpected end-of-file'')
            else rbind (readFull (count - length d) fd') (\<lambda>(ds, fd''). Inr (d @ ds, fd'')))"
  by pat_completeness auto
termination
  by (relation "measure (\<lambda>(n, fd). sum_list (map rd_weight fd))")
    (auto dest: sys_read_weight [OF sym])

declare readFull.simps [simp del]

function drainFD :: "string \<Rightarrow> fd_in \<Rightarrow> string result" where
  "drainFD result fd =
     (case sys_read 4096 fd of
        (RdEINTR, fd') \<Rightarrow> drainFD result fd'
      | (RdFail e, fd') \<Rightarrow> Inl (Throw (SysError e) ''reading from file'')
      | (RdData d, fd') \<Rightarrow> if d = [] then Inr result else drainFD (result @ d) fd')"
  by pat_completeness auto
termination
  by (relation "measure (\<lambda>(r, fd). sum_list (map rd_weight fd))")
    (auto dest: sys_read_weight [OF sym])

declare drainFD.simps [simp del]

function readLine :: "string \<Rightarrow> fd_in \<Rightarrow> (string \<times> fd_in) result" where
  "readLine s fd =
     (case sys_read 1 fd of
        (RdEINTR, fd') \<Rightarrow> readLine s fd'
      | (RdFail e, fd') \<Rightarrow> Inl (Throw (SysError e) ''reading a line'')
      | (RdData d, fd') \<Rightarrow>
          if d = [] then Inl (Throw EndOfFile ''unexpected EOF reading a line'')
          else if hd d = CHR 0x0A then Inr (s, fd')
          else readLine (s @ [hd d]) fd')"
  by pat_completeness auto
termination
  by (relation "measure (\<lambda>(r, fd). sum_list (map rd_weight fd))")
    (auto dest: sys_read_weight [OF sym])

declare readLine.simps [simp del]

text \<open>
  What \<^verbatim>\<open>write(2)\<close> will do, call by call: accept a number of bytes (at least one of those offered), be
  interrupted, or fail; once the list is used up every write is accepted whole.
\<close>

datatype wr_event = WrAccept nat | WrEINTR | WrFail nat

fun sys_write :: "string \<Rightarrow> wr_event list \<Rightarrow> (nat + nat) option \<times> wr_event list" where
  "sys_write d [] = (Some (Inr (length d)), [])"
| "sys_write d (WrAccept n # es) = (Some (Inr (min (Suc n) (length d))), es)"
| "sys_write d (WrEINTR # es) = (None, es)"
| "sys_write d (WrFail e # es) = (Some (Inl e), es)"

text \<open>\<^verbatim>\<open>writeFull\<close> returns the bytes that reached the descriptor and how it ended.\<close>

function writeFull :: "string \<Rightarrow> wr_event list \<Rightarrow> string \<times> unit result" where
  "writeFull buf es =
     (if buf = [] then ([], Inr ())
      else case sys_write buf es of
          (None, es') \<Rightarrow> writeFull buf es'
        | (Some (Inl e), es') \<Rightarrow> ([], Inl (Throw (SysError e) ''writing to file''))
        | (Some (Inr n), es') \<Rightarrow>
            (let (out, r) = writeFull (drop n buf) es' in (take n buf @ out, r)))"
  by pat_completeness auto

lemma sys_write_progress:
  "sys_write d es = (None, es') \<Longrightarrow> length es' < length es"
  "d \<noteq> [] \<Longrightarrow> sys_write d es = (Some (Inr n), es') \<Longrightarrow> 0 < n"
  by (cases "(d, es)" rule: sys_write.cases; auto)+

termination writeFull
  by (relation "measures [\<lambda>(buf, es). length buf, \<lambda>(buf, es). length es]")
    (auto dest: sys_write_progress(2) [OF _ sym, rotated] sys_write_progress(1) [OF sym])

declare writeFull.simps [simp del]

section \<open>Lemmas\<close>

subsection \<open>Splitting and joining\<close>

lemma tokenizeString_step:
  assumes "s = seps @ token @ rest" "set seps \<subseteq> set separators" "token \<noteq> []"
    "set token \<inter> set separators = {}" "rest = [] \<or> hd rest \<in> set separators"
  shows "tokenizeString s separators = token # tokenizeString rest separators"
proof -
  obtain c cs where t: "token = c # cs" using assms(3) by (cases token) auto
  have c: "c \<notin> set separators" "\<forall>x \<in> set cs. x \<notin> set separators" using assms(4) t by auto
  have d: "dropWhile (\<lambda>c. c \<in> set separators) s = c # cs @ rest"
    using assms(2) c t unfolding assms(1) by (subst dropWhile_append2) auto
  have "takeWhile (\<lambda>c. c \<notin> set separators) (cs @ rest) = cs"
    using c(2) assms(5) by (cases rest) (auto simp: takeWhile_append2)
  then show ?thesis by (simp add: tokenizeString.simps [of s] d t)
qed

lemma tokenizeString_seps: "set s \<subseteq> set separators \<Longrightarrow> tokenizeString s separators = []"
  by (simp add: tokenizeString.simps [of s] dropWhile_eq_Nil_conv subset_iff)

lemma concatStringsSep_from_nonempty:
  "s \<noteq> [] \<Longrightarrow> concatStringsSep_from sep ss s = s @ concat (map (\<lambda>x. sep @ x) ss)"
  by (induction ss arbitrary: s) auto

lemma concatStringsSep_Cons:
  "x \<noteq> [] \<Longrightarrow> concatStringsSep sep (x # xs) = x @ concat (map (\<lambda>x. sep @ x) xs)"
  by (simp add: concatStringsSep_def concatStringsSep_from_nonempty)

lemma tokenizeString_concat:
  assumes "sep \<noteq> []" "set sep \<subseteq> set separators"
    "\<forall>x \<in> set xs. x \<noteq> [] \<and> set x \<inter> set separators = {}"
  shows "tokenizeString (concat (map (\<lambda>x. sep @ x) xs)) separators = xs"
  using assms(3)
proof (induction xs)
  case (Cons x xs)
  have "concat (map (\<lambda>x. sep @ x) xs) = [] \<or> hd (concat (map (\<lambda>x. sep @ x) xs)) \<in> set separators"
    using assms(1,2) by (cases xs; cases sep) auto
  with Cons assms(2) show ?case
    by (subst tokenizeString_step [of _ sep x "concat (map (\<lambda>x. sep @ x) xs)"]) auto
qed (simp add: tokenizeString_seps)

lemma tokenizeString_concatStringsSep:
  assumes "sep \<noteq> []" "set sep \<subseteq> set separators"
    "\<forall>x \<in> set ss. x \<noteq> [] \<and> set x \<inter> set separators = {}"
  shows "tokenizeString (concatStringsSep sep ss) separators = ss"
proof (cases ss)
  case (Cons x xs)
  have "concat (map (\<lambda>x. sep @ x) xs) = [] \<or> hd (concat (map (\<lambda>x. sep @ x) xs)) \<in> set separators"
    using assms(1,2) by (cases xs; cases sep) auto
  with Cons assms show ?thesis
    by (subst tokenizeString_step [of _ "[]" x "concat (map (\<lambda>x. sep @ x) xs)"])
      (auto simp: concatStringsSep_Cons tokenizeString_concat)
qed (simp add: concatStringsSep_def tokenizeString_seps)

lemma tokenizeString_tokens:
  "t \<in> set (tokenizeString s separators) \<Longrightarrow> t \<noteq> [] \<and> set t \<inter> set separators = {}"
proof (induction s separators rule: tokenizeString.induct)
  case (1 s separators)
  show ?case
  proof (cases "dropWhile (\<lambda>c. c \<in> set separators) s")
    case Nil
    with 1 show ?thesis by (simp add: tokenizeString.simps [of s])
  next
    case (Cons c cs)
    then have "c \<notin> set separators" using hd_dropWhile [of "\<lambda>c. c \<in> set separators" s] by simp
    with 1 Cons show ?thesis
      by (auto simp: tokenizeString.simps [of s] Let_def dest: set_takeWhileD)
  qed
qed

subsection \<open>Parsing strings\<close>

text \<open>What the loop of \<^verbatim>\<open>parseString\<close> computes: it ends exactly when there is a closing quote.\<close>

fun scan_string :: "string \<Rightarrow> (string \<times> string) option" where
  "scan_string [] = None"
| "scan_string (c # cs) =
     (if c = CHR 0x22 then Some ([], cs)
      else if c = CHR 0x5C then
        (case cs of [] \<Rightarrow> None
         | d # ds \<Rightarrow> map_option (\<lambda>(r, rest). (unescape (Some d) # r, rest)) (scan_string ds))
      else map_option (\<lambda>(r, rest). (c # r, rest)) (scan_string cs))"

lemma parseString_loop_EOF: "parseString_loop res [] = None"
proof -
  have "str \<noteq> []" if "parseString_loop res str = Some y" for res str y
    by (rule parseString_loop.raw_induct [OF _ that, of "\<lambda>res str y. str \<noteq> []"]) (auto split: if_splits, blast)
  then show ?thesis by (cases "parseString_loop res []") auto
qed

lemma parseString_loop_eq:
  "parseString_loop res str = map_option (\<lambda>(r, rest). (res @ r, rest)) (scan_string str)"
proof (induction str arbitrary: res rule: length_induct)
  case (1 str)
  show ?case
  proof (cases str)
    case (Cons c cs)
    with 1 show ?thesis
      by (cases cs) (auto simp: parseString_loop.simps [of res "_ # _"] parseString_loop_EOF got_char_def
          option.map_comp comp_def case_prod_unfold)
  qed (simp add: parseString_loop_EOF)
qed

lemma parseString_eq:
  "parseString str =
     (case expect [CHR 0x22] str of Inl e \<Rightarrow> Some (Inl e) | Inr str \<Rightarrow> map_option Inr (scan_string str))"
  by (simp add: parseString_def parseString_loop_eq option.map_id split: sum.split)

lemma scan_string_None: "CHR 0x22 \<notin> set str \<Longrightarrow> scan_string str = None"
  by (induction str rule: scan_string.induct) (auto split: list.splits)

lemma scan_string_rest: "scan_string str = Some (r, rest) \<Longrightarrow> length rest < length str"
  by (induction str arbitrary: r rule: scan_string.induct)
    (auto split: if_splits list.splits, fastforce+)

lemma expect_append [simp]: "expect s (s @ rest) = Inr rest"
  by (simp add: expect_def)

lemma expect_Inr: "expect s str = Inr rest \<longleftrightarrow> str = s @ rest"
  by (auto simp: expect_def) (metis append_take_drop_id)

lemma expect_Cons [simp]: "expect [c] (c # rest) = Inr rest"
  by (simp add: expect_def)

subsection \<open>Descriptors\<close>

lemma sys_read_cases:
  assumes "0 < n"
  obtains (eof) fd' where "sys_read n fd = (RdData [], fd')" "fd_bytes fd = []"
  | (data) d fd' where "sys_read n fd = (RdData d, fd')" "d \<noteq> []" "length d \<le> n"
      "fd_bytes fd = d @ fd_bytes fd'"
  | (intr) fd' where "sys_read n fd = (RdEINTR, fd')" "fd_bytes fd = fd_bytes fd'"
  | (fail) e fd' where "sys_read n fd = (RdFail e, fd')" "fd_bytes fd = []"
proof (cases "(n, fd)" rule: sys_read.cases)
  case (2 n' d es)
  then show thesis using eof [of es] data [of d es] data [of "take n d" "RdData (drop n d) # es"] assms
    by (cases "d = []"; cases "length d \<le> n") auto
qed (use eof intr fail in auto)

lemma readFull_result:
  "(case readFull n fd of
      Inl e \<Rightarrow> length (fd_bytes fd) < n
    | Inr (d, fd') \<Rightarrow> length d = n \<and> fd_bytes fd = d @ fd_bytes fd')"
proof (induction n fd rule: readFull.induct)
  case (1 n fd)
  show ?case
  proof (cases "n = 0")
    case False
    then have "0 < n" by simp
    then show ?thesis
    proof (cases rule: sys_read_cases [of n fd])
      case (data d fd')
      note IH = "1.IH"(1) [OF False data(1) [symmetric] refl data(2)]
      show ?thesis
      proof (cases "readFull (n - length d) fd'")
        case (Inl e)
        with IH data False show ?thesis by (simp add: readFull.simps [of n fd])
      next
        case (Inr p)
        with IH data False show ?thesis by (cases p) (simp add: readFull.simps [of n fd])
      qed
    next
      case (intr fd')
      note IH = "1.IH"(2) [OF False intr(1) [symmetric] refl]
      with intr False show ?thesis
        by (cases "readFull n fd'") (auto simp: readFull.simps [of n fd])
    qed (use False in \<open>simp_all add: readFull.simps [of n fd]\<close>)
  qed (simp add: readFull.simps)
qed

lemma drainFD_ok: "drainFD r fd = Inr s \<Longrightarrow> s = r @ fd_bytes fd"
proof (induction r fd rule: drainFD.induct)
  case (1 r fd)
  have "0 < (4096 :: nat)" by simp
  then show ?case
  proof (cases rule: sys_read_cases [of 4096 fd])
    case (data d fd')
    with "1.IH"(1) [OF data(1) [symmetric] refl data(2)] "1.prems" show ?thesis
      by (simp add: drainFD.simps [of r fd])
  next
    case (intr fd')
    with "1.IH"(2) [OF intr(1) [symmetric] refl] "1.prems" show ?thesis
      by (simp add: drainFD.simps [of r fd])
  qed (use "1.prems" in \<open>simp_all add: drainFD.simps [of r fd]\<close>)
qed

lemma readLine_ok:
  "readLine s fd = Inr (l, fd') \<Longrightarrow>
     \<exists>d. l = s @ d \<and> CHR 0x0A \<notin> set d \<and> fd_bytes fd = d @ CHR 0x0A # fd_bytes fd'"
proof (induction s fd rule: readLine.induct)
  case (1 s fd)
  have "0 < (1 :: nat)" by simp
  then show ?case
  proof (cases rule: sys_read_cases [of 1 fd])
    case (data d fd1)
    then obtain c where c: "d = [c]" by (cases d) auto
    show ?thesis
    proof (cases "c = CHR 0x0A")
      case True
      with c data "1.prems" show ?thesis by (auto simp: readLine.simps [of s fd])
    next
      case False
      with c have "hd d \<noteq> CHR 0x0A" by simp
      with c data "1.prems" "1.IH"(1) [OF data(1) [symmetric] refl data(2)] obtain d' where
        "l = (s @ [c]) @ d'" "CHR 0x0A \<notin> set d'" "fd_bytes fd1 = d' @ CHR 0x0A # fd_bytes fd'"
        by (auto simp: readLine.simps [of s fd])
      with c data False show ?thesis by (intro exI [of _ "c # d'"]) auto
    qed
  next
    case (intr fd1)
    with "1.prems" "1.IH"(2) [OF intr(1) [symmetric] refl] show ?thesis
      by (simp add: readLine.simps [of s fd])
  qed (use "1.prems" in \<open>simp_all add: readLine.simps [of s fd]\<close>)
qed

lemma sys_write_accept: "sys_write d es = (Some (Inr n), es') \<Longrightarrow> n \<le> length d"
  by (cases "(d, es)" rule: sys_write.cases) auto

lemma writeFull_prefix:
  "writeFull buf es = (out, r) \<Longrightarrow>
     (case r of Inr _ \<Rightarrow> out = buf | Inl _ \<Rightarrow> \<exists>rest. rest \<noteq> [] \<and> buf = out @ rest)"
proof (induction buf es arbitrary: out r rule: writeFull.induct)
  case (1 buf es)
  obtain w es1 where w: "sys_write buf es = (w, es1)" by (cases "sys_write buf es") auto
  show ?case
  proof (cases "buf = []")
    case True
    with "1.prems" show ?thesis by (auto simp: writeFull.simps [of "[]"])
  next
    case ne: False
    show ?thesis
    proof (cases w)
      case None
      with "1.IH"(1) [OF ne w [symmetric]] "1.prems" ne w show ?thesis
        by (simp add: writeFull.simps [of buf es])
    next
      case (Some a)
      show ?thesis
      proof (cases a)
        case (Inl e)
        with Some "1.prems" ne w show ?thesis by (auto simp: writeFull.simps [of buf es])
      next
        case (Inr n)
        obtain out' r' where rec: "writeFull (drop n buf) es1 = (out', r')"
          by (cases "writeFull (drop n buf) es1") auto
        with "1.prems" ne w Some Inr have eq: "out = take n buf @ out'" "r = r'"
          by (auto simp: writeFull.simps [of buf es])
        note IH = "1.IH"(2) [OF ne w [symmetric] Some Inr rec]
        show ?thesis
        proof (cases r')
          case (Inl e)
          with IH obtain rest where "rest \<noteq> []" "drop n buf = out' @ rest" by auto
          then have "buf = out @ rest" using append_take_drop_id [of n buf] eq(1) by simp
          with \<open>rest \<noteq> []\<close> Inl eq(2) show ?thesis by auto
        next
          case (Inr u)
          with IH eq append_take_drop_id [of n buf] show ?thesis by simp
        qed
      qed
    qed
  qed
qed

lemma isInDir_iff:
  "isInDir path dir \<longleftrightarrow> is_absolute path \<and> (\<exists>rest. rest \<noteq> [] \<and> path = dir @ CHR ''/'' # rest)"
proof
  assume a: "isInDir path dir"
  then have n: "length dir < length path" "drop (Suc (length dir)) path \<noteq> []"
    by (simp_all add: isInDir_def)
  have "path = dir @ CHR ''/'' # drop (Suc (length dir)) path"
    using id_take_nth_drop [OF n(1)] a by (simp only: isInDir_def)
  with a n(2) show "is_absolute path \<and> (\<exists>rest. rest \<noteq> [] \<and> path = dir @ CHR ''/'' # rest)"
    unfolding isInDir_def is_absolute_def by blast
next
  assume "is_absolute path \<and> (\<exists>rest. rest \<noteq> [] \<and> path = dir @ CHR ''/'' # rest)"
  then show "isInDir path dir"
    by (auto simp: isInDir_def is_absolute_def nth_append Suc_le_eq)
qed

lemma dirOf_baseNameOf:
  assumes "CHR ''/'' \<notin> set base"
  shows "dirOf (dir @ CHR ''/'' # base) = Inr (if dir = [] then ''/'' else dir)"
    and "baseNameOf (dir @ CHR ''/'' # base) = Inr base"
  using assms by (simp_all add: dirOf_def baseNameOf_def rfind_append)

section \<open>Properties\<close>

text \<open>
  C29: An absolute path is brought to canonical form: the result is the path whose components are those
  of the input with \<^verbatim>\<open>.\<close> dropped and \<^verbatim>\<open>..\<close> removing its predecessor, none of them empty, \<^verbatim>\<open>.\<close> or
  \<^verbatim>\<open>..\<close>, and canonicalising it again changes nothing.
\<close>

theorem canonPath_canonical:
  assumes "is_absolute path"
  shows "\<exists>p cs. canonPath path = Inr p \<and> cs = fold push_component (path_components path) [] \<and>
     p = (if cs = [] then ''/'' else render_path cs) \<and> list_all canonical_component cs \<and>
     canonPath p = Inr p"
proof -
  let ?cs = "fold push_component (path_components path) []"
  have "list_all canonical_component ?cs"
    by (rule fold_push_canonical) (auto dest: path_components_valid)
  then show ?thesis
    using assms canonPath_render [of ?cs] canonPath_root by (auto simp: canonPath_eq [of path] Let_def)
qed

theorem canonPath_canonical_witness:
  "canonPath ''/gnu//store/./x/../y/'' = Inr ''/gnu/store/y''"
  using canonPath_canonical [of "''/gnu//store/./x/../y/''"]
  by (simp add: is_absolute_def path_components.simps skip_slashes_def not_slash_def push_component_def)

text \<open>
  C30: Canonicalisation that follows symlinks ends for every file system, and when it succeeds the
  result is canonical and neither it nor any directory on the way to it is a symlink.
\<close>

theorem canonPath_resolve_no_links:
  assumes "canonPath_resolve isLink readLink path = Inr p"
  shows "\<exists>cs. p = (if cs = [] then ''/'' else render_path cs) \<and> list_all canonical_component cs \<and>
     (\<forall>k < length cs. isLink (render_path (take (Suc k) cs)) = Inr False)"
proof -
  have "is_absolute path" using assms by (cases "is_absolute path") (simp_all add: canonPath_resolve_def)
  with assms have "rbind (canonPath_links isLink readLink maxFollow [] path)
      (\<lambda>s. Inr (if s = [] then ''/'' else s)) = Inr p"
    by (simp add: canonPath_resolve_def)
  then obtain s where s: "canonPath_links isLink readLink maxFollow (render_path []) path = Inr s"
    "p = (if s = [] then ''/'' else s)"
    unfolding rbind_Inr_iff by auto
  then show ?thesis
    using canonPath_links_result [of "[]" isLink readLink maxFollow path s]
    by (auto simp: link_free_def)
qed

theorem canonPath_resolve_no_links_witness:
  "\<exists>cs. ''/y'' = (if cs = [] then ''/'' else render_path cs) \<and> list_all canonical_component cs \<and>
     (\<forall>k < length cs. (if render_path (take (Suc k) cs) = ''/x'' then Inr True else Inr False) = (Inr False :: bool result))"
proof -
  have "canonPath_resolve (\<lambda>p. if p = ''/x'' then Inr True else Inr False) (\<lambda>_. Inr ''y'') ''/x'' = Inr ''/y''"
    by (simp add: canonPath_resolve_def is_absolute_def canonPath_links.simps skip_slashes_def not_slash_def
        at_dot_def at_dotdot_def maxFollow_def dirOf_def absPath_def canonPath_def canonPath_lex.simps Let_def)
  then show ?thesis by (rule canonPath_resolve_no_links)
qed

text \<open>
  C31: Splitting undoes joining: strings that are non-empty and free of separators are recovered, in
  order, from their concatenation with a separator string.
\<close>

theorem tokenizeString_joins:
  assumes "sep \<noteq> []" and "set sep \<subseteq> set separators"
    and "\<forall>x \<in> set ss. x \<noteq> [] \<and> set x \<inter> set separators = {}"
  shows "tokenizeString (concatStringsSep sep ss) separators = ss"
  using assms by (rule tokenizeString_concatStringsSep)

theorem tokenizeString_joins_witness:
  "tokenizeString (concatStringsSep '', '' [''a'', ''bc'']) '', '' = [''a'', ''bc'']"
  using tokenizeString_joins [of "'', ''" "'', ''" "[''a'', ''bc'']"] by simp

text \<open>
  C32: A full read returns exactly the requested number of bytes, the next ones on the descriptor, and
  fails only when fewer than that arrive; a full write either sends everything or fails having sent a
  proper prefix.  Interrupted and partial system calls make no difference.
\<close>

theorem readFull_writeFull:
  "(case readFull n fd of
      Inl _ \<Rightarrow> length (fd_bytes fd) < n
    | Inr (d, fd') \<Rightarrow> length d = n \<and> fd_bytes fd = d @ fd_bytes fd') \<and>
   (case writeFull buf es of
      (out, Inr _) \<Rightarrow> out = buf
    | (out, Inl _) \<Rightarrow> strict_prefix out buf)"
proof
  obtain out r where w: "writeFull buf es = (out, r)" by (cases "writeFull buf es") auto
  show "case writeFull buf es of (out, Inr _) \<Rightarrow> out = buf | (out, Inl _) \<Rightarrow> strict_prefix out buf"
    using writeFull_prefix [OF w] w by (auto simp: strict_prefix_def split: sum.splits)
qed (rule readFull_result)



end
