(* ===== verification/Archive.thy ===== *)
theory Archive
  imports Hash Util
begin

text \<open>
  Nix archives, after \<^verbatim>\<open>src/nix/libutil/archive.cc\<close>: dumping a file tree to a sink, parsing an
  archive from a source into a parse sink, and the parse sink that recreates the tree on disk.

  A file tree is a \<open>node\<close>; the order in which \<^verbatim>\<open>readDirectory\<close> lists a directory is the order of its
  entries.  What an exception leaves in the sink of a dump is not kept.  The recursion of the parser
  is bounded by fuel; every round reads at least one string, so the length of the source is enough.
\<close>

section \<open>Dumping\<close>

datatype node =
    Regular bool string
  | Directory "(string \<times> node) list"
  | Symlink string
  | Special

definition archiveVersion1 :: string where
  "archiveVersion1 = ''nix-archive-1''"

function dump_chunks :: "string \<Rightarrow> sink_calls" where
  "dump_chunks left =
     (if left = [] then [] else take 65536 left # dump_chunks (drop 65536 left))"
  by pat_completeness auto
termination
  by (relation "measure length") auto

declare dump_chunks.simps [simp del]

definition dumpContents :: "string \<Rightarrow> sink_calls" where
  "dumpContents contents =
     writeString ''contents'' @ writeLongLong (word_of_nat (length contents)) @
     dump_chunks contents @ writePadding (length contents)"

text \<open>\<^verbatim>\<open>std::map\<close> from the names \<^verbatim>\<open>readDirectory\<close> gives to what they denote.\<close>

definition unhacked :: "(string \<times> node) list \<Rightarrow> (string, node) omap" where
  "unhacked es = fold (\<lambda>(name, n). oput name n) es []"

fun node_weight :: "node \<Rightarrow> nat" where
  "node_weight (Directory es) = Suc (sum_list (map (node_weight \<circ> snd) es))"
| "node_weight n = 1"

lemma weight_unhacked:
  "sum_list (map (node_weight \<circ> snd) (unhacked es)) \<le> sum_list (map (node_weight \<circ> snd) es)"
proof -
  have oput: "sum_list (map (node_weight \<circ> snd) (oput k v m)) \<le> node_weight v + sum_list (map (node_weight \<circ> snd) m)"
    for k v and m :: "(string, node) omap" by (induction k v m rule: oput.induct) auto
  have "sum_list (map (node_weight \<circ> snd) (fold (\<lambda>(name, n). oput name n) es m)) \<le>
      sum_list (map (node_weight \<circ> snd) es) + sum_list (map (node_weight \<circ> snd) m)" for m
  proof (induction es arbitrary: m)
    case (Cons e es)
    show ?case
      using Cons.IH [of "oput (fst e) (snd e) m"] oput [of "fst e" "snd e" m]
      unfolding comp_def by (simp add: case_prod_unfold)
  qed simp
  from this [of "[]"] show ?thesis by (simp add: unhacked_def)
qed

lemma node_weight_pos: "0 < node_weight n"
  by (cases n) simp_all

function dump :: "(Path \<Rightarrow> bool) \<Rightarrow> Path \<Rightarrow> node \<Rightarrow> sink_calls result"
  and dump_entries :: "(Path \<Rightarrow> bool) \<Rightarrow> Path \<Rightarrow> (string \<times> node) list \<Rightarrow> sink_calls result" where
  "dump flt path (Regular exec contents) =
     Inr (writeString ''('' @ writeString ''type'' @ writeString ''regular'' @
          (if exec then writeString ''executable'' @ writeString [] else []) @
          dumpContents contents @ writeString '')'')"
| "dump flt path (Directory es) =
     rbind (dump_entries flt path (unhacked es)) (\<lambda>out.
     Inr (writeString ''('' @ writeString ''type'' @ writeString ''directory'' @ out @ writeString '')''))"
| "dump flt path (Symlink target) =
     Inr (writeString ''('' @ writeString ''type'' @ writeString ''symlink'' @
          writeString ''target'' @ writeString target @ writeString '')'')"
| "dump flt path Special = Inl (Throw Error ''file has an unsupported type'')"
| "dump_entries flt path [] = Inr []"
| "dump_entries flt path ((name, n) # es) =
     rbind (if flt (path @ ''/'' @ name) then
              rbind (dump flt (path @ ''/'' @ name) n) (\<lambda>out.
              Inr (writeString ''entry'' @ writeString ''('' @ writeString ''name'' @ writeString name @
                   writeString ''node'' @ out @ writeString '')''))
            else Inr []) (\<lambda>out.
     rbind (dump_entries flt path es) (\<lambda>outs. Inr (out @ outs)))"
  by pat_completeness auto
termination
  by (relation "measure (\<lambda>x. case x of Inl (f, p, n) \<Rightarrow> 2 * node_weight n
      | Inr (f, p, es) \<Rightarrow> Suc (2 * sum_list (map (node_weight \<circ> snd) es)))")
    (auto simp: node_weight_pos Suc_le_eq less_Suc_eq_le weight_unhacked)

definition dumpPath :: "(Path \<Rightarrow> bool) \<Rightarrow> Path \<Rightarrow> node \<Rightarrow> sink_calls result" where
  "dumpPath flt path n =
     rbind (dump flt path n) (\<lambda>out. Inr (writeString archiveVersion1 @ out))"

definition defaultPathFilter :: "Path \<Rightarrow> bool" where
  "defaultPathFilter path = True"

definition hashPath ::
  "gcrypt \<Rightarrow> HashType \<Rightarrow> (Path \<Rightarrow> bool) \<Rightarrow> Path \<Rightarrow> node \<Rightarrow> (Hash \<times> 64 word) result" where
  "hashPath g ht flt path n =
     rbind (dumpPath flt path n) (\<lambda>calls.
     HashSink_finish g ht (fold BufferedSink_call calls (new_BufferedSink (32 * 1024))))"

section \<open>Parsing\<close>

text \<open>The operations of a \<^verbatim>\<open>ParseSink\<close> over a state of its own.\<close>

record 's parse_sink =
  createDirectory :: "Path \<Rightarrow> (unit, 's) action"
  createRegularFile :: "Path \<Rightarrow> (unit, 's) action"
  isExecutable :: "(unit, 's) action"
  preallocateContents :: "64 word \<Rightarrow> (unit, 's) action"
  receiveContents :: "string \<Rightarrow> (unit, 's) action"
  createSymlink :: "Path \<Rightarrow> string \<Rightarrow> (unit, 's) action"

definition badArchive :: "string \<Rightarrow> error" where
  "badArchive s = Throw SerialisationError (''bad archive: '' @ s)"

text \<open>\<open>left\<close> bytes still to be copied, in pieces of at most 65536.\<close>

function parse_chunks :: "'s parse_sink \<Rightarrow> nat \<Rightarrow> source \<Rightarrow> (source, 's) action" where
  "parse_chunks sink left src =
     (if left = 0 then areturn src
      else abind (alift (source_read (min 65536 left) src)) (\<lambda>(buf, src).
           abind (receiveContents sink buf) (\<lambda>_.
           parse_chunks sink (left - min 65536 left) src)))"
  by pat_completeness auto
termination
  by (relation "measure (\<lambda>(sink, left, src). left)") auto

declare parse_chunks.simps [simp del]

definition parseContents :: "'s parse_sink \<Rightarrow> source \<Rightarrow> (source, 's) action" where
  "parseContents sink src =
     abind (alift (readLongLong src)) (\<lambda>(sz, src).
     abind (preallocateContents sink sz) (\<lambda>_.
     abind (parse_chunks sink (unat sz) src) (\<lambda>src.
     abind (alift (readPadding (unat sz) src)) (\<lambda>(_, src).
     areturn src))))"

datatype file_type = tpUnknown | tpRegular | tpDirectory | tpSymlink

definition invalid_name :: "string \<Rightarrow> bool" where
  "invalid_name name \<longleftrightarrow>
     name = [] \<or> name = ''.'' \<or> name = ''..'' \<or> CHR ''/'' \<in> set name \<or> CHR 0x00 \<in> set name"

text \<open>
  One round of the loop over the fields of a node, and of the loop over the fields of a directory
  entry.  \<open>again\<close> is the next round, \<open>entry\<close> and \<open>node\<close> the nested loops.  The check \<^verbatim>\<open>s.empty()\<close> of a
  \<^verbatim>\<open>node\<close> field is on the field name just read, which is \<^verbatim>\<open>node\<close>; \<^verbatim>\<open>name\<close> and \<^verbatim>\<open>prevName\<close> are local
  to one entry.
\<close>

definition parse_type ::
  "'s parse_sink \<Rightarrow> Path \<Rightarrow> (file_type \<Rightarrow> source \<Rightarrow> (source, 's) action) \<Rightarrow> file_type \<Rightarrow> source \<Rightarrow> (source, 's) action" where
  "parse_type sink path again tp src =
     (if tp \<noteq> tpUnknown then athrow (badArchive ''multiple type fields'')
      else abind (alift (readString src)) (\<lambda>(t, src).
        if t = ''regular'' then abind (createRegularFile sink path) (\<lambda>_. again tpRegular src)
        else if t = ''directory'' then abind (createDirectory sink path) (\<lambda>_. again tpDirectory src)
        else if t = ''symlink'' then again tpSymlink src
        else athrow (badArchive (''unknown file type '' @ t))))"

definition parse_field ::
  "'s parse_sink \<Rightarrow> Path \<Rightarrow> (file_type \<Rightarrow> source \<Rightarrow> (source, 's) action) \<Rightarrow> (source \<Rightarrow> (source, 's) action)
     \<Rightarrow> file_type \<Rightarrow> source \<Rightarrow> (source, 's) action" where
  "parse_field sink path again entry tp src =
     abind (alift (readString src)) (\<lambda>(s, src).
     if s = '')'' then areturn src
     else if s = ''type'' then parse_type sink path again tp src
     else if s = ''contents'' \<and> tp = tpRegular then
       abind (parseContents sink src) (\<lambda>src. again tp src)
     else if s = ''executable'' \<and> tp = tpRegular then
       abind (alift (readString src)) (\<lambda>(_, src).
       abind (isExecutable sink) (\<lambda>_. again tp src))
     else if s = ''entry'' \<and> tp = tpDirectory then
       abind (alift (readString src)) (\<lambda>(s, src).
       if s \<noteq> ''('' then athrow (badArchive ''expected open tag'')
       else abind (entry src) (\<lambda>src. again tp src))
     else if s = ''target'' \<and> tp = tpSymlink then
       abind (alift (readString src)) (\<lambda>(target, src).
       abind (createSymlink sink path target) (\<lambda>_. again tp src))
     else athrow (badArchive (''unknown field '' @ s)))"

definition parse_entry_field ::
  "(string \<Rightarrow> string \<Rightarrow> source \<Rightarrow> (source, 's) action) \<Rightarrow> (source \<Rightarrow> (source, 's) action)
     \<Rightarrow> string \<Rightarrow> string \<Rightarrow> source \<Rightarrow> (source, 's) action" where
  "parse_entry_field again node name prevName src =
     abind (alift (readString src)) (\<lambda>(s, src).
     if s = '')'' then areturn src
     else if s = ''name'' then
       abind (alift (readString src)) (\<lambda>(name, src).
       if invalid_name name then athrow (Throw Error ''NAR contains invalid file name'')
       else if name \<le> prevName then athrow (Throw Error ''NAR directory is not sorted'')
       else again name name src)
     else if s = ''node'' then
       if s = [] then athrow (badArchive ''entry name missing'')
       else abind (node src) (\<lambda>src. again name prevName src)
     else athrow (badArchive (''unknown field '' @ s)))"

fun parse :: "nat \<Rightarrow> 's parse_sink \<Rightarrow> source \<Rightarrow> Path \<Rightarrow> (source, 's) action"
  and parse_fields :: "nat \<Rightarrow> 's parse_sink \<Rightarrow> Path \<Rightarrow> file_type \<Rightarrow> source \<Rightarrow> (source, 's) action"
  and parse_entry :: "nat \<Rightarrow> 's parse_sink \<Rightarrow> Path \<Rightarrow> string \<Rightarrow> string \<Rightarrow> source \<Rightarrow> (source, 's) action" where
  "parse 0 sink src path = athrow OutOfFuel"
| "parse (Suc k) sink src path =
     abind (alift (readString src)) (\<lambda>(s, src).
     if s \<noteq> ''('' then athrow (badArchive ''expected open tag'')
     else parse_fields k sink path tpUnknown src)"
| "parse_fields 0 sink path tp src = athrow OutOfFuel"
| "parse_fields (Suc k) sink path tp src =
     parse_field sink path (parse_fields k sink path) (parse_entry k sink path [] []) tp src"
| "parse_entry 0 sink path name prevName src = athrow OutOfFuel"
| "parse_entry (Suc k) sink path name prevName src =
     parse_entry_field (parse_entry k sink path) (\<lambda>src. parse k sink src (path @ ''/'' @ name))
       name prevName src"

text \<open>
  A \<^verbatim>\<open>SerialisationError\<close> while the version is read is swallowed, and the empty version then refused.
\<close>

definition parseDump :: "'s parse_sink \<Rightarrow> source \<Rightarrow> (source, 's) action" where
  "parseDump sink src =
     (let r = (case readString src of
                 Inl (Throw SerialisationError _) \<Rightarrow> Inr ([], src)
               | r \<Rightarrow> r)
      in abind (alift r) (\<lambda>(version, src).
         if version \<noteq> archiveVersion1 then athrow (badArchive ''input doesn't look like a normalized archive'')
         else parse (Suc (length src)) sink src []))"

section \<open>Restoring\<close>

text \<open>
  The file system a restore works on: what each path, as its list of components, denotes.  The root is
  always a directory.  Permissions other than the executable bit, and running out of space, are left
  out; a symlink in the middle of a path counts as not a directory.
\<close>

datatype inode = IDir | IReg bool string | ILnk string

type_synonym disk = "string list \<Rightarrow> inode option"

record restore_state =
  rs_disk :: disk
  rs_fd :: "string list option"

definition ENOENT :: nat where "ENOENT = 2"
definition EBADF :: nat where "EBADF = 9"
definition EEXIST :: nat where "EEXIST = 17"
definition ENOTDIR :: nat where "ENOTDIR = 20"

text \<open>Adding a new entry: the name must be free and the parent a directory.\<close>

definition disk_create :: "Path \<Rightarrow> inode \<Rightarrow> disk \<Rightarrow> nat + disk" where
  "disk_create p i d =
     (let k = path_components p
      in if k = [] \<or> d k \<noteq> None then Inl EEXIST
         else if butlast k \<noteq> [] \<and> d (butlast k) = None then Inl ENOENT
         else if butlast k \<noteq> [] \<and> d (butlast k) \<noteq> Some IDir then Inl ENOTDIR
         else Inr (d(k \<mapsto> i)))"

definition restore_create :: "string \<Rightarrow> Path \<Rightarrow> inode \<Rightarrow> (unit, restore_state) action" where
  "restore_create what p i st =
     (case disk_create p i (rs_disk st) of
        Inl e \<Rightarrow> (Inl (Throw (SysError e) (what @ p)), st)
      | Inr d \<Rightarrow> (Inr (), st\<lparr>rs_disk := d\<rparr>))"

definition restore_fd :: "(bool \<Rightarrow> string \<Rightarrow> inode) \<Rightarrow> (unit, restore_state) action" where
  "restore_fd f st =
     (case rs_fd st of
        None \<Rightarrow> (Inl (Throw (SysError EBADF) ''file descriptor''), st)
      | Some k \<Rightarrow>
          (case rs_disk st k of
             Some (IReg exec contents) \<Rightarrow>
               (Inr (), st\<lparr>rs_disk := (rs_disk st)(k \<mapsto> f exec contents)\<rparr>)
           | _ \<Rightarrow> (Inl (Throw (SysError EBADF) ''file descriptor''), st)))"

definition RestoreSink :: "Path \<Rightarrow> restore_state parse_sink" where
  "RestoreSink dstPath =
     \<lparr>createDirectory = (\<lambda>path. restore_create ''creating directory '' (dstPath @ path) IDir),
      createRegularFile = (\<lambda>path.
        abind (amodify (rs_fd_update (\<lambda>_. None))) (\<lambda>_.
        abind (restore_create ''creating file '' (dstPath @ path) (IReg False [])) (\<lambda>_.
        amodify (rs_fd_update (\<lambda>_. Some (path_components (dstPath @ path))))))),
      isExecutable = restore_fd (\<lambda>exec contents. IReg True contents),
      preallocateContents = (\<lambda>len. areturn ()),
      receiveContents = (\<lambda>data. restore_fd (\<lambda>exec contents. IReg exec (contents @ data))),
      createSymlink = (\<lambda>path target. restore_create ''creating symlink '' (dstPath @ path) (ILnk target))\<rparr>"

definition restorePath :: "Path \<Rightarrow> source \<Rightarrow> (source, restore_state) action" where
  "restorePath path src = parseDump (RestoreSink path) src"

section \<open>Archives of trees\<close>

text \<open>
  What can be archived: valid distinct names, sizes that the format can express, no special files.  A
  tree is sorted when every directory is.
\<close>

definition fits_u64 :: "nat \<Rightarrow> bool" where
  "fits_u64 n \<longleftrightarrow> n < 2 ^ 64"

lemma unat_u64: "fits_u64 n \<Longrightarrow> unat (word_of_nat n :: 64 word) = n"
  by (simp add: fits_u64_def unat_of_nat)

fun wf_node :: "node \<Rightarrow> bool" where
  "wf_node (Regular exec contents) = fits_u64 (length contents)"
| "wf_node (Directory es) =
     (distinct (map fst es) \<and>
      list_all (\<lambda>(name, n). \<not> invalid_name name \<and> fits_u32 (length name) \<and> wf_node n) es)"
| "wf_node (Symlink target) = fits_u32 (length target)"
| "wf_node Special = False"

fun sorted_node :: "node \<Rightarrow> bool" where
  "sorted_node (Directory es) = (is_omap es \<and> list_all (\<lambda>(name, n). sorted_node n) es)"
| "sorted_node n = True"

fun sort_node :: "node \<Rightarrow> node" where
  "sort_node (Directory es) = Directory (unhacked (map (\<lambda>(name, n). (name, sort_node n)) es))"
| "sort_node n = n"

text \<open>What lies at a path below a node.\<close>

fun node_lookup :: "node \<Rightarrow> string list \<Rightarrow> inode option" where
  "node_lookup (Regular exec contents) [] = Some (IReg exec contents)"
| "node_lookup (Symlink target) [] = Some (ILnk target)"
| "node_lookup (Directory es) [] = Some IDir"
| "node_lookup (Directory es) (x # xs) =
     (case map_of es x of None \<Rightarrow> None | Some n \<Rightarrow> node_lookup n xs)"
| "node_lookup _ _ = None"

text \<open>The calls an archive of a sorted tree stands for.\<close>

fun emit :: "'s parse_sink \<Rightarrow> Path \<Rightarrow> node \<Rightarrow> (unit, 's) action"
  and emit_entries :: "'s parse_sink \<Rightarrow> Path \<Rightarrow> (string \<times> node) list \<Rightarrow> (unit, 's) action" where
  "emit sink path (Regular exec contents) =
     abind (createRegularFile sink path) (\<lambda>_.
     abind (if exec then isExecutable sink else areturn ()) (\<lambda>_.
     abind (preallocateContents sink (word_of_nat (length contents))) (\<lambda>_.
     aforeach (dump_chunks contents) (receiveContents sink))))"
| "emit sink path (Directory es) =
     abind (createDirectory sink path) (\<lambda>_. emit_entries sink path es)"
| "emit sink path (Symlink target) = createSymlink sink path target"
| "emit sink path Special = areturn ()"
| "emit_entries sink path [] = areturn ()"
| "emit_entries sink path ((name, n) # es) =
     abind (emit sink (path @ ''/'' @ name) n) (\<lambda>_. emit_entries sink path es)"

subsection \<open>Sorting\<close>

lemma oput_map: "oput k (f v) (map (\<lambda>(k, v). (k, f v)) m) = map (\<lambda>(k, v). (k, f v)) (oput k v m)"
  by (induction k v m rule: oput.induct) auto

lemma fold_oput_map:
  "fold (\<lambda>(k, v). oput k v) (map (\<lambda>(k, v). (k, f v)) es) (map (\<lambda>(k, v). (k, f v)) m) =
     map (\<lambda>(k, v). (k, f v)) (fold (\<lambda>(k, v). oput k v) es m)"
  by (induction es arbitrary: m) (auto simp: oput_map)

lemma unhacked_map: "unhacked (map (\<lambda>(k, v). (k, f v)) es) = map (\<lambda>(k, v). (k, f v)) (unhacked es)"
  using fold_oput_map [of f es "[]"] by (simp add: unhacked_def)

lemma is_omap_fold_oput: "is_omap m \<Longrightarrow> is_omap (fold (\<lambda>(k, v). oput k v) es m)"
  by (induction es arbitrary: m) (auto simp: is_omap_oput)

lemma is_omap_unhacked: "is_omap (unhacked es)"
  using is_omap_fold_oput [of "[]"] by (simp add: unhacked_def)

lemma map_of_fold_oput:
  "distinct (map fst es) \<Longrightarrow>
     map_of (fold (\<lambda>(k, v). oput k v) es m) = map_of m ++ map_of es"
proof (induction es arbitrary: m)
  case (Cons e es)
  obtain k v where e: "e = (k, v)" by (cases e)
  have "map_of es k = None" using Cons.prems e by (simp add: map_of_eq_None_iff)
  with Cons e show ?case
    by (auto simp: map_of_oput map_add_def fun_eq_iff split: option.splits)
qed simp

lemma map_of_unhacked: "distinct (map fst es) \<Longrightarrow> map_of (unhacked es) = map_of es"
  using map_of_fold_oput [of es "[]"] by (simp add: unhacked_def)

lemma unhacked_id: "is_omap es \<Longrightarrow> unhacked es = es"
  by (rule omap_eqI) (auto simp: is_omap_unhacked map_of_unhacked is_omap_distinct)

end
