(* ===== verification/Archive_Correct.thy ===== *)
theory Archive_Correct
  imports Archive
begin

text \<open>
  Correctness of the archive code: parsing an archive makes exactly the calls its tree stands for,
  restoring recreates the tree, archives are equal exactly when the trees are, and no input makes the
  restorer touch anything outside its destination.
\<close>

section \<open>Parsing what was dumped\<close>

lemma readString_short [simp]:
  assumes "length s < 100"
  shows "readString (bytes_of (writeString s) @ rest) = Inr (s, rest)"
  using assms by (intro readString_writeString) (simp add: fits_u32_def)

lemma length_writeString: "length (bytes_of (writeString s)) \<ge> 8"
  by (simp add: writeString_def)

lemma dump_chunks_simps [simp]:
  "dump_chunks [] = []" "c \<noteq> [] \<Longrightarrow> dump_chunks c = take 65536 c # dump_chunks (drop 65536 c)"
  by (simp_all add: dump_chunks.simps)

lemma bytes_of_dump_chunks [simp]: "bytes_of (dump_chunks c) = c"
proof (induction c rule: dump_chunks.induct)
  case (1 c)
  then show ?case by (cases "c = []") simp_all
qed

lemma parse_chunks_dump:
  "parse_chunks sink (length c) (c @ rest) =
     abind (aforeach (dump_chunks c) (receiveContents sink)) (\<lambda>_. areturn rest)"
proof (induction c rule: dump_chunks.induct)
  case (1 c)
  show ?case
  proof (cases "c = []")
    case True
    then show ?thesis by (simp add: parse_chunks.simps)
  next
    case False
    have "source_read (min 65536 (length c)) (c @ rest) = Inr (take 65536 c, drop 65536 c @ rest)"
      by (cases "length c \<le> 65536") (simp_all add: source_read_def)
    moreover have "length c - min 65536 (length c) = length (drop 65536 c)" by simp
    ultimately show ?thesis
      using 1 False
      by (simp add: parse_chunks.simps [of sink "length c"] abind_assoc del: length_drop)
  qed
qed

lemma parseContents_dump:
  assumes "fits_u64 (length c)"
  shows "parseContents sink (bytes_of (writeLongLong (word_of_nat (length c))) @ c @
      bytes_of (writePadding (length c)) @ rest) =
    abind (preallocateContents sink (word_of_nat (length c))) (\<lambda>_.
    abind (aforeach (dump_chunks c) (receiveContents sink)) (\<lambda>_. areturn rest))"
  using assms by (simp add: parseContents_def unat_u64 parse_chunks_dump abind_assoc)

text \<open>With the default filter the dump does not depend on where the tree is.\<close>

fun dump_bytes :: "node \<Rightarrow> string" and dump_bytes_entries :: "(string \<times> node) list \<Rightarrow> string" where
  "dump_bytes (Regular exec contents) =
     bytes_of (writeString ''('' @ writeString ''type'' @ writeString ''regular'' @
       (if exec then writeString ''executable'' @ writeString [] else []) @
       dumpContents contents @ writeString '')'')"
| "dump_bytes (Directory es) =
     bytes_of (writeString ''('' @ writeString ''type'' @ writeString ''directory'') @
     dump_bytes_entries es @ bytes_of (writeString '')'')"
| "dump_bytes (Symlink target) =
     bytes_of (writeString ''('' @ writeString ''type'' @ writeString ''symlink'' @
       writeString ''target'' @ writeString target @ writeString '')'')"
| "dump_bytes Special = []"
| "dump_bytes_entries [] = []"
| "dump_bytes_entries ((name, n) # es) =
     bytes_of (writeString ''entry'' @ writeString ''('' @ writeString ''name'' @ writeString name @
       writeString ''node'') @ dump_bytes n @ bytes_of (writeString '')'') @ dump_bytes_entries es"

lemma dump_sorted_bytes:
  "sorted_node n \<Longrightarrow> wf_node n \<Longrightarrow> \<exists>out. dump defaultPathFilter p n = Inr out \<and> bytes_of out = dump_bytes n"
  "list_all (\<lambda>(name, n). sorted_node n \<and> wf_node n) es \<Longrightarrow>
     \<exists>out. dump_entries defaultPathFilter p es = Inr out \<and> bytes_of out = dump_bytes_entries es"
proof (induction n and es arbitrary: p and p rule: dump_bytes_dump_bytes_entries.induct)
  case (2 es)
  then have "list_all (\<lambda>(name, n). sorted_node n \<and> wf_node n) es" by (auto simp: list_all_iff)
  with 2 obtain out where "dump_entries defaultPathFilter p es = Inr out" "bytes_of out = dump_bytes_entries es"
    by blast
  with 2 show ?case by (simp add: unhacked_id)
next
  case (6 name n es)
  then obtain out outs where "dump defaultPathFilter (p @ ''/'' @ name) n = Inr out" "bytes_of out = dump_bytes n"
    "dump_entries defaultPathFilter p es = Inr outs" "bytes_of outs = dump_bytes_entries es"
    by fastforce
  then show ?case by (simp add: defaultPathFilter_def [abs_def])
qed auto

lemma unhacked_sort:
  "unhacked (map (\<lambda>(name, n). (name, sort_node n)) es) = map (\<lambda>(name, n). (name, sort_node n)) (unhacked es)"
  by (rule unhacked_map)

lemma set_unhacked: "distinct (map fst es) \<Longrightarrow> set (unhacked es) = set es"
  by (metis is_omap_distinct is_omap_unhacked map_of_inject_set map_of_unhacked)

lemma dump_sort:
  "dump flt p (sort_node n) = dump flt p n"
  "dump_entries flt p (map (\<lambda>(name, n). (name, sort_node n)) es) = dump_entries flt p es"
proof (induction flt p n and flt p es rule: dump_dump_entries.induct)
  case (2 flt path es)
  have "unhacked (unhacked (map (\<lambda>(name, n). (name, sort_node n)) es)) =
      map (\<lambda>(name, n). (name, sort_node n)) (unhacked es)"
    by (simp only: unhacked_id [OF is_omap_unhacked] unhacked_sort)
  with 2 show ?case by simp
next
  case (6 flt path name n es)
  show ?case
  proof (cases "flt (path @ ''/'' @ name)")
    case True
    then show ?thesis using 6 by (cases "dump flt (path @ ''/'' @ name) n") simp_all
  next
    case False
    then show ?thesis using 6 by simp
  qed
qed simp_all

lemma sorted_sort_node: "sorted_node (sort_node n)"
proof (induction n)
  case (Directory es)
  have "set (unhacked xs) \<subseteq> set xs" for xs :: "(string \<times> node) list"
  proof -
    have oput: "set (oput k v m) \<subseteq> insert (k, v) (set m)" for k v and m :: "(string, node) omap"
      by (induction k v m rule: oput.induct) auto
    have "set (fold (\<lambda>(k, v). oput k v) xs m) \<subseteq> set xs \<union> set m" for m
    proof (induction xs arbitrary: m)
      case (Cons x xs)
      show ?case using Cons.IH [of "oput (fst x) (snd x) m"] oput [of "fst x" "snd x" m]
        by (auto simp: case_prod_unfold)
    qed simp
    from this [of "[]"] show ?thesis by (simp add: unhacked_def)
  qed
  from this [of "map (\<lambda>(name, n). (name, sort_node n)) es"] Directory show ?case
    by (fastforce simp: is_omap_unhacked list_all_iff)
qed simp_all

lemma wf_sort_node: "wf_node n \<Longrightarrow> wf_node (sort_node n)"
proof (induction n)
  case (Directory es)
  have d: "distinct (map fst (map (\<lambda>(name, n). (name, sort_node n)) es))"
    using Directory.prems by (simp add: comp_def case_prod_unfold)
  show ?case
    using Directory set_unhacked [OF d] is_omap_distinct [OF is_omap_unhacked]
    by (fastforce simp: list_all_iff)
qed simp_all

lemma name_not_less: "\<not> invalid_name name \<Longrightarrow> \<not> name \<le> []"
  by (cases name) (auto simp: invalid_name_def)

lemmas parse_steps = parse_field_def parse_type_def parse_entry_field_def abind_assoc

lemma fuel_6: "6 \<le> k \<Longrightarrow> \<exists>m. k = Suc (Suc (Suc (Suc (Suc (Suc m)))))"
  by (rule exI [of _ "k - 6"]) simp

lemma length_dump_bytes: "wf_node n \<Longrightarrow> 6 \<le> length (dump_bytes n)"
  using length_writeString [of "''(''"] by (cases n) simp_all

lemma parse_entry_close:
  "0 < k \<Longrightarrow> parse_entry k sink path name prevName (bytes_of (writeString '')'') @ rest) = areturn rest"
  by (cases k) (simp_all add: parse_entry_field_def)

lemma parse_entry_dump:
  assumes "\<And>rest. parse k sink (dump_bytes n @ rest) (path @ ''/'' @ name) =
      abind (emit sink (path @ ''/'' @ name) n) (\<lambda>_. areturn rest)"
    and "\<not> invalid_name name" "fits_u32 (length name)" "0 < k"
  shows "parse_entry (Suc (Suc k)) sink path [] []
      (bytes_of (writeString ''name'') @ bytes_of (writeString name) @ bytes_of (writeString ''node'') @
       dump_bytes n @ bytes_of (writeString '')'') @ rest) =
    abind (emit sink (path @ ''/'' @ name) n) (\<lambda>_. areturn rest)"
  using assms name_not_less [OF assms(2)]
  by (simp add: parse_entry_field_def abind_assoc readString_writeString parse_entry_close)

lemma parse_dump_bytes:
  "wf_node n \<Longrightarrow> length (dump_bytes n) \<le> k \<Longrightarrow>
     parse k sink (dump_bytes n @ rest) path = abind (emit sink path n) (\<lambda>_. areturn rest)"
  "list_all (\<lambda>(name, n). \<not> invalid_name name \<and> fits_u32 (length name) \<and> wf_node n) es \<Longrightarrow>
   length (dump_bytes_entries es) < k \<Longrightarrow>
     parse_fields k sink path tpDirectory (dump_bytes_entries es @ bytes_of (writeString '')'') @ rest) =
     abind (emit_entries sink path es) (\<lambda>_. areturn rest)"
proof (induction n and es arbitrary: k path rest and k path rest rule: dump_bytes_dump_bytes_entries.induct)
  case (1 exec contents)
  obtain m where "k = Suc (Suc (Suc (Suc (Suc (Suc m)))))"
    using fuel_6 length_dump_bytes [OF 1(1)] 1(2) le_trans by blast
  with 1 show ?case by (simp add: parse_steps dumpContents_def parseContents_dump)
next
  case (2 es)
  have "length (dump_bytes_entries es) + 16 \<le> k"
    using 2(3) length_writeString [of "''(''"] length_writeString [of "''type''"] by simp
  then obtain m where k: "k = Suc (Suc m)" "length (dump_bytes_entries es) < m"
    using that [of "k - 2"] by simp
  with 2 show ?case by (simp add: k parse_steps)
next
  case (3 target)
  obtain m where "k = Suc (Suc (Suc (Suc (Suc (Suc m)))))"
    using fuel_6 length_dump_bytes [OF 3(1)] 3(2) le_trans by blast
  with 3 show ?case by (simp add: parse_steps readString_writeString)
next
  case 4
  then show ?case by simp
next
  case 5
  then show ?case by (cases k) (simp_all add: parse_field_def)
next
  case (6 name n es)
  have wf: "\<not> invalid_name name" "fits_u32 (length name)" "wf_node n"
    "list_all (\<lambda>(name, n). \<not> invalid_name name \<and> fits_u32 (length name) \<and> wf_node n) es"
    using "6.prems"(1) by simp_all
  have len: "length (dump_bytes n) + length (dump_bytes_entries es) + 16 < k"
    using "6.prems"(2) length_writeString [of "''entry''"] length_writeString [of "''(''"] by simp
  then obtain m where k: "k = Suc (Suc (Suc m))" "0 < m" "length (dump_bytes n) \<le> m"
      "length (dump_bytes_entries es) < Suc (Suc m)"
    using that [of "k - 3"] by simp
  have n: "parse m sink (dump_bytes n @ rest) p = abind (emit sink p n) (\<lambda>_. areturn rest)" for rest p
    using "6.IH"(1) [OF wf(3) k(3)] .
  show ?case
    using parse_entry_dump [OF n wf(1,2) k(2)] "6.IH"(2) [OF wf(4) k(4)]
    by (simp add: k(1) parse_field_def abind_assoc)
qed

lemma parse_dumpPath:
  assumes "wf_node n"
  obtains out where "dumpPath defaultPathFilter p n = Inr out"
    "\<And>(sink :: 's parse_sink) rest. parseDump sink (bytes_of out @ rest) = abind (emit sink [] (sort_node n)) (\<lambda>_. areturn rest)"
proof -
  obtain out where "dump defaultPathFilter p n = Inr out" "bytes_of out = dump_bytes (sort_node n)"
    using dump_sorted_bytes(1) [OF sorted_sort_node wf_sort_node [OF assms], of p] dump_sort(1) by metis
  moreover from this have "parseDump sink (bytes_of (writeString archiveVersion1 @ out) @ rest) =
      abind (emit sink [] (sort_node n)) (\<lambda>_. areturn rest)" for sink :: "'s parse_sink" and rest
    using parse_dump_bytes(1) [OF wf_sort_node [OF assms], of "Suc (length (bytes_of out @ rest))" sink rest "[]"]
    by (simp add: parseDump_def archiveVersion1_def del: parse.simps)
  ultimately show ?thesis using that [of "writeString archiveVersion1 @ out"] by (simp add: dumpPath_def)
qed

section \<open>Restoring recreates the tree\<close>

lemma path_components_append:
  "path_components (p @ CHR ''/'' # q) = path_components p @ path_components q"
proof (induction p rule: path_components.induct)
  case (1 p)
  show ?case
  proof (cases "skip_slashes p = []")
    case True
    then have "skip_slashes (p @ CHR ''/'' # q) = skip_slashes q"
      by (simp add: skip_slashes_def dropWhile_append2 dropWhile_eq_Nil_conv)
    then have "path_components (p @ CHR ''/'' # q) = path_components q"
      by (simp add: path_components.simps [of "p @ _"] path_components.simps [of q])
    with True show ?thesis by (simp add: path_components.simps [of p])
  next
    case False
    then obtain c where c: "c \<in> set p" "c \<noteq> CHR ''/''" by (auto simp: skip_slashes_def dropWhile_eq_Nil_conv)
    have skip: "skip_slashes (p @ CHR ''/'' # q) = skip_slashes p @ CHR ''/'' # q"
      using c unfolding skip_slashes_def by (subst dropWhile_append1) auto
    have tw: "takeWhile not_slash (xs @ CHR ''/'' # q) = takeWhile not_slash xs"
      "dropWhile not_slash (xs @ CHR ''/'' # q) = dropWhile not_slash xs @ CHR ''/'' # q" for xs
      by (induction xs) (auto simp: not_slash_def)
    from 1 False show ?thesis
      by (simp add: path_components.simps [of "p @ _"] path_components.simps [of p] skip tw)
  qed
qed

lemma path_components_name:
  assumes "\<not> invalid_name name"
  shows "path_components name = [name]"
proof -
  have n: "name \<noteq> []" "\<forall>x \<in> set name. not_slash x"
    using assms by (auto simp: invalid_name_def not_slash_def)
  then have "skip_slashes name = name" by (cases name) (auto simp: skip_slashes_def not_slash_def)
  moreover have "takeWhile not_slash name = name" and dw: "dropWhile not_slash name = []"
    using n(2) by (simp_all add: dropWhile_eq_Nil_conv takeWhile_eq_all_conv)
  moreover have "path_components [] = []" by (simp add: path_components.simps skip_slashes_def)
  ultimately show ?thesis
    using n(1) unfolding path_components.simps [of name] by (simp only: dw) simp
qed

definition graft :: "disk \<Rightarrow> string list \<Rightarrow> node \<Rightarrow> disk" where
  "graft d k n = (\<lambda>p. if prefix k p then node_lookup n (drop (length k) p) else d p)"

definition graft_entries :: "disk \<Rightarrow> string list \<Rightarrow> (string \<times> node) list \<Rightarrow> disk" where
  "graft_entries d k es = fold (\<lambda>(name, n) d. graft d (k @ [name]) n) es d"

definition parent_ok :: "disk \<Rightarrow> string list \<Rightarrow> bool" where
  "parent_ok d k \<longleftrightarrow> k \<noteq> [] \<and> (butlast k = [] \<or> d (butlast k) = Some IDir)"

definition vacant :: "disk \<Rightarrow> string list \<Rightarrow> bool" where
  "vacant d k \<longleftrightarrow> (\<forall>q. d (k @ q) = None)"

lemma disk_create_vacant:
  "vacant d (path_components p) \<Longrightarrow> parent_ok d (path_components p) \<Longrightarrow>
     disk_create p i d = Inr (d(path_components p \<mapsto> i))"
  unfolding vacant_def parent_ok_def disk_create_def Let_def
  by (metis append_Nil2 option.distinct(1))

lemma graft_leaf:
  assumes "vacant d k" "\<And>q. q \<noteq> [] \<Longrightarrow> node_lookup n q = None"
  shows "graft d k n = d(k := node_lookup n [])"
proof
  fix p
  show "graft d k n p = (d(k := node_lookup n [])) p"
  proof (cases "prefix k p")
    case True
    then obtain q where "p = k @ q" by (auto simp: prefix_def)
    with assms show ?thesis by (cases "q = []") (simp_all add: graft_def vacant_def)
  qed (auto simp: graft_def)
qed

lemma restore_receive:
  assumes "rs_fd st = Some k" "rs_disk st k = Some (IReg e c)"
  shows "aforeach cs (receiveContents (RestoreSink dst)) st =
     (Inr (), st\<lparr>rs_disk := (rs_disk st)(k \<mapsto> IReg e (c @ bytes_of cs))\<rparr>)"
  using assms
proof (induction cs arbitrary: st c)
  case Nil
  then show ?case by (cases st) (simp add: action_run fun_upd_idem)
next
  case (Cons d cs)
  have "restore_fd (\<lambda>exec contents. IReg exec (contents @ d)) st =
      (Inr (), st\<lparr>rs_disk := (rs_disk st)(k \<mapsto> IReg e (c @ d))\<rparr>)"
    using Cons.prems by (simp add: restore_fd_def)
  then show ?case using Cons.IH [of "st\<lparr>rs_disk := (rs_disk st)(k \<mapsto> IReg e (c @ d))\<rparr>" "c @ d"] Cons.prems
    by (simp add: abind_run(2) RestoreSink_def cong: if_cong)
qed

lemma emit_leaf:
  assumes "vacant (rs_disk st) k" "parent_ok (rs_disk st) k" "k = path_components (dst @ path)"
  shows "\<exists>st'. emit (RestoreSink dst) path (Regular e c) st = (Inr (), st') \<and> rs_disk st' = (rs_disk st)(k \<mapsto> IReg e c)"
    and "\<exists>st'. emit (RestoreSink dst) path (Symlink t) st = (Inr (), st') \<and> rs_disk st' = (rs_disk st)(k \<mapsto> ILnk t)"
    and "\<exists>st'. createDirectory (RestoreSink dst) path st = (Inr (), st') \<and> rs_disk st' = (rs_disk st)(k \<mapsto> IDir)"
proof -
  have create: "restore_create w (dst @ path) i st' = (Inr (), st'\<lparr>rs_disk := (rs_disk st)(k \<mapsto> i)\<rparr>)"
    if "rs_disk st' = rs_disk st" for w i st'
    using assms that by (simp add: restore_create_def disk_create_vacant)
  show "\<exists>st'. emit (RestoreSink dst) path (Symlink t) st = (Inr (), st') \<and> rs_disk st' = (rs_disk st)(k \<mapsto> ILnk t)"
    "\<exists>st'. createDirectory (RestoreSink dst) path st = (Inr (), st') \<and> rs_disk st' = (rs_disk st)(k \<mapsto> IDir)"
    by (simp_all add: create RestoreSink_def)
  let ?st1 = "st\<lparr>rs_disk := (rs_disk st)(k \<mapsto> IReg False []), rs_fd := Some k\<rparr>"
  have 1: "createRegularFile (RestoreSink dst) path st = (Inr (), ?st1)"
    by (simp add: RestoreSink_def action_simps create assms(3) [symmetric])
  let ?st2 = "?st1\<lparr>rs_disk := (rs_disk st)(k \<mapsto> IReg e [])\<rparr>"
  have 2: "(if e then isExecutable (RestoreSink dst) else areturn ()) ?st1 = (Inr (), ?st2)"
    by (simp add: RestoreSink_def restore_fd_def action_simps)
  have 3: "preallocateContents (RestoreSink dst) n ?st2 = (Inr (), ?st2)" for n
    by (simp add: RestoreSink_def action_simps)
  have 4: "aforeach (dump_chunks c) (receiveContents (RestoreSink dst)) ?st2 =
      (Inr (), ?st2\<lparr>rs_disk := (rs_disk st)(k \<mapsto> IReg e c)\<rparr>)"
    using restore_receive [of ?st2 k e "[]" "dump_chunks c" dst] by simp
  show "\<exists>st'. emit (RestoreSink dst) path (Regular e c) st = (Inr (), st') \<and> rs_disk st' = (rs_disk st)(k \<mapsto> IReg e c)"
    unfolding emit.simps
    by (simp only: abind_run(2) [where m = "createRegularFile (RestoreSink dst) path", OF 1]
        abind_run(2) [where m = "if e then isExecutable (RestoreSink dst) else areturn ()", OF 2]
        abind_run(2) [where m = "preallocateContents (RestoreSink dst) n" for n, OF 3] 4) simp
qed

lemma graft_leaves:
  assumes "vacant d k"
  shows "graft d k (Regular e c) = d(k \<mapsto> IReg e c)" "graft d k (Symlink t) = d(k \<mapsto> ILnk t)"
proof -
  have "q \<noteq> [] \<Longrightarrow> node_lookup (Regular e c) q = None" "q \<noteq> [] \<Longrightarrow> node_lookup (Symlink t) q = None" for q
    by (cases q; simp)+
  then show "graft d k (Regular e c) = d(k \<mapsto> IReg e c)" "graft d k (Symlink t) = d(k \<mapsto> ILnk t)"
    using graft_leaf [OF assms, of "Regular e c"] graft_leaf [OF assms, of "Symlink t"] by simp_all
qed

lemma graft_vacant_other:
  "x \<noteq> y \<Longrightarrow> vacant d (k @ [y]) \<Longrightarrow> vacant (graft d (k @ [x]) n) (k @ [y])"
  by (auto simp: vacant_def graft_def prefix_def)

lemma graft_same_level: "graft d (k @ [x]) n k = d k"
  by (auto simp: graft_def prefix_def)

lemma graft_directory:
  assumes "distinct (map fst es)" "vacant d k"
  shows "graft_entries (d(k \<mapsto> IDir)) k es = graft d k (Directory es)"
proof -
  have step: "graft_entries d k es p =
      (case drop (length k) p of
         x # q \<Rightarrow> if prefix k p \<and> map_of es x \<noteq> None then node_lookup (the (map_of es x)) q else d p
       | [] \<Rightarrow> d p)" if "distinct (map fst es)" for d :: disk and es p
    using that
  proof (induction es arbitrary: d)
    case Nil
    then show ?case by (simp add: graft_entries_def split: list.split)
  next
    case (Cons e es)
    obtain x n where e: "e = (x, n)" by (cases e)
    have x: "map_of es x = None" using Cons.prems e by (simp add: map_of_eq_None_iff)
    have "graft_entries d k (e # es) p = graft_entries (graft d (k @ [x]) n) k es p"
      by (simp add: graft_entries_def e)
    also have "\<dots> = (case drop (length k) p of
         y # q \<Rightarrow> if prefix k p \<and> map_of es y \<noteq> None then node_lookup (the (map_of es y)) q
                  else graft d (k @ [x]) n p
       | [] \<Rightarrow> graft d (k @ [x]) n p)"
      using Cons by simp
    finally show ?case
      using x by (auto simp: e graft_def prefix_def split: list.splits)
  qed
  show ?thesis
  proof
    fix p
    show "graft_entries (d(k \<mapsto> IDir)) k es p = graft d k (Directory es) p"
    proof (cases "prefix k p")
      case True
      then obtain q where "p = k @ q" by (auto simp: prefix_def)
      then show ?thesis
        using assms(2) by (cases q) (auto simp: step [OF assms(1)] graft_def vacant_def split: option.split)
    next
      case False
      then show ?thesis by (auto simp: step [OF assms(1)] graft_def split: list.split)
    qed
  qed
qed

lemma emit_restore:
  "wf_node n \<Longrightarrow> k = path_components (dst @ path) \<Longrightarrow> vacant (rs_disk st) k \<Longrightarrow> parent_ok (rs_disk st) k \<Longrightarrow>
     \<exists>st'. emit (RestoreSink dst) path n st = (Inr (), st') \<and> rs_disk st' = graft (rs_disk st) k n"
  "list_all (\<lambda>(name, n). \<not> invalid_name name \<and> wf_node n) es \<Longrightarrow> distinct (map fst es) \<Longrightarrow>
     k = path_components (dst @ path) \<Longrightarrow> rs_disk st k = Some IDir \<Longrightarrow> k \<noteq> [] \<Longrightarrow>
     (\<forall>name \<in> fst ` set es. vacant (rs_disk st) (k @ [name])) \<Longrightarrow>
     \<exists>st'. emit_entries (RestoreSink dst) path es st = (Inr (), st') \<and> rs_disk st' = graft_entries (rs_disk st) k es"
proof (induction n and es arbitrary: path k st and path k st rule: dump_bytes_dump_bytes_entries.induct)
  case (1 exec contents)
  then show ?case using emit_leaf(1) [of st k dst path exec contents] by (simp only: graft_leaves)
next
  case (2 es)
  obtain st1 where st1: "createDirectory (RestoreSink dst) path st = (Inr (), st1)"
    "rs_disk st1 = (rs_disk st)(k \<mapsto> IDir)"
    using emit_leaf(3) [of st k dst path] 2 by blast
  have es: "list_all (\<lambda>(name, n). \<not> invalid_name name \<and> wf_node n) es" "distinct (map fst es)" "k \<noteq> []"
    using 2 by (auto simp: list_all_iff parent_ok_def)
  moreover have "\<forall>x \<in> fst ` set es. vacant (rs_disk st1) (k @ [x])"
    using 2 st1(2) by (auto simp: vacant_def)
  moreover have "rs_disk st1 k = Some IDir" using st1(2) by simp
  ultimately obtain st2 where st2: "emit_entries (RestoreSink dst) path es st1 = (Inr (), st2)"
    "rs_disk st2 = graft_entries (rs_disk st1) k es"
    using "2.IH" [of k path st1] "2.prems"(2) by blast
  have "emit (RestoreSink dst) path (Directory es) st = (Inr (), st2)"
    using st1(1) st2(1) by (simp add: abind_run(2))
  moreover have "rs_disk st2 = graft (rs_disk st) k (Directory es)"
    using graft_directory [OF es(2) "2.prems"(3)] by (simp only: st2(2) st1(2))
  ultimately show ?case by blast
next
  case (3 target)
  then show ?case using emit_leaf(2) [of st k dst path target] by (simp only: graft_leaves)
next
  case (6 name n es)
  have comp: "path_components (dst @ path @ ''/'' @ name) = k @ [name]"
    using path_components_append [of "dst @ path" name] path_components_name [of name] "6.prems" by simp
  have ok: "parent_ok (rs_disk st) (k @ [name])" "wf_node n" "vacant (rs_disk st) (k @ [name])"
    using "6.prems" by (simp_all add: parent_ok_def)
  from "6.IH"(1) [OF ok(2) comp [symmetric] ok(3,1)] obtain st1 where
    st1: "emit (RestoreSink dst) (path @ ''/'' @ name) n st = (Inr (), st1)"
    "rs_disk st1 = graft (rs_disk st) (k @ [name]) n" by blast
  have "\<forall>x \<in> fst ` set es. vacant (rs_disk st1) (k @ [x])"
  proof
    fix x assume "x \<in> fst ` set es"
    then have "name \<noteq> x" "vacant (rs_disk st) (k @ [x])" using "6.prems"(2,6) by auto
    then show "vacant (rs_disk st1) (k @ [x])" unfolding st1(2) by (rule graft_vacant_other)
  qed
  moreover have "rs_disk st1 k = Some IDir" using "6.prems"(4) by (simp only: st1(2) graft_same_level)
  ultimately obtain st2 where "emit_entries (RestoreSink dst) path es st1 = (Inr (), st2)"
    "rs_disk st2 = graft_entries (rs_disk st1) k es"
    using "6.IH"(2) [of k path st1] "6.prems" by auto
  with st1 show ?case by (simp add: abind_run(2) graft_entries_def)
qed (auto simp: graft_entries_def action_simps)

section \<open>Equal archives, equal trees\<close>

lemma node_lookup_root: "wf_node n \<Longrightarrow> node_lookup n [] \<noteq> None"
  by (cases n) simp_all

lemma node_ext:
  "wf_node n1 \<Longrightarrow> sorted_node n1 \<Longrightarrow> wf_node n2 \<Longrightarrow> sorted_node n2 \<Longrightarrow>
     (\<And>q. node_lookup n1 q = node_lookup n2 q) \<Longrightarrow> n1 = n2"
proof (induction n1 arbitrary: n2)
  case (Regular e c)
  from Regular(5) [of "[]"] Regular(3) show ?case by (cases n2) simp_all
next
  case (Symlink t)
  from Symlink(5) [of "[]"] Symlink(3) show ?case by (cases n2) simp_all
next
  case (Directory es1)
  obtain es2 where n2: "n2 = Directory es2"
    using Directory.prems(5) [of "[]"] Directory.prems(3) by (cases n2) simp_all
  have wf: "m \<in> snd ` set es1 \<Longrightarrow> wf_node m \<and> sorted_node m" "m \<in> snd ` set es2 \<Longrightarrow> wf_node m \<and> sorted_node m" for m
    using Directory.prems n2 by (auto simp: list_all_iff)
  have "map_of es1 x = map_of es2 x" for x
  proof (cases "map_of es1 x")
    case None
    have "map_of es2 x = Some m \<Longrightarrow> False" for m
      using Directory.prems(5) [of "[x]"] None n2 wf(2) [of m] node_lookup_root [of m]
      by (force dest: map_of_SomeD)
    with None show ?thesis by (cases "map_of es2 x") auto
  next
    case (Some m1)
    then have m1: "(x, m1) \<in> set es1" by (rule map_of_SomeD)
    obtain m2 where m2: "map_of es2 x = Some m2"
      using Directory.prems(5) [of "[x]"] Some n2 wf(1) [of m1] m1 node_lookup_root [of m1]
      by (cases "map_of es2 x") force+
    have "node_lookup m1 q = node_lookup m2 q" for q
      using Directory.prems(5) [of "x # q"] Some m2 n2 by simp
    then have "m1 = m2"
      using Directory.IH [of "(x, m1)" m1 m2] m1 wf(1) [of m1] wf(2) [of m2] map_of_SomeD [OF m2]
      by (force simp: snds.simps)
    with Some m2 show ?thesis by simp
  qed
  then show ?case
    using Directory.prems n2 by (auto intro!: omap_eqI)
next
  case Special
  then show ?case by simp
qed

lemma node_lookup_sort: "wf_node n \<Longrightarrow> node_lookup (sort_node n) q = node_lookup n q"
proof (induction n q rule: node_lookup.induct)
  case (4 es x xs)
  have d: "distinct (map fst (map (\<lambda>(name, n). (name, sort_node n)) es))"
    using 4(2) by (simp add: comp_def case_prod_unfold)
  have "map_of (map (\<lambda>(name, n). (name, sort_node n)) es) x = map_option sort_node (map_of es x)"
    by (induction es) auto
  then have "map_of (unhacked (map (\<lambda>(name, n). (name, sort_node n)) es)) x = map_option sort_node (map_of es x)"
    by (simp only: map_of_unhacked [OF d])
  moreover have "map_of es x = Some n \<Longrightarrow> wf_node n" for n
    using 4(2) by (auto simp: list_all_iff dest: map_of_SomeD)
  ultimately show ?case using 4(1) by (simp split: option.split)
qed simp_all

text \<open>A vacant place on a small disk, for reading a tree back off an archive.\<close>

lemma restore_dump:
  assumes "wf_node n" "k = path_components dst" "vacant (rs_disk st) k" "parent_ok (rs_disk st) k"
    "dumpPath defaultPathFilter p n = Inr out"
  obtains st' where "restorePath dst (bytes_of out @ rest) st = (Inr rest, st')"
    "rs_disk st' = graft (rs_disk st) k n"
proof -
  obtain out' where out': "dumpPath defaultPathFilter p n = Inr out'"
    "\<And>(sink :: restore_state parse_sink) rest.
       parseDump sink (bytes_of out' @ rest) = abind (emit sink [] (sort_node n)) (\<lambda>_. areturn rest)"
    using parse_dumpPath [OF assms(1), of p] by blast
  obtain st' where st': "emit (RestoreSink dst) [] (sort_node n) st = (Inr (), st')"
    "rs_disk st' = graft (rs_disk st) k (sort_node n)"
    using emit_restore(1) [of "sort_node n" k dst "[]" st] wf_sort_node [OF assms(1)] assms(2-4) by auto
  have "graft (rs_disk st) k (sort_node n) = graft (rs_disk st) k n"
    by (simp add: graft_def fun_eq_iff node_lookup_sort [OF assms(1)])
  with that st' out' assms(5) show ?thesis
    by (simp add: restorePath_def abind_run(2) action_run)
qed

lemma dump_eq_iff:
  assumes "wf_node n1" "wf_node n2" "dumpPath defaultPathFilter p1 n1 = Inr out1"
    "dumpPath defaultPathFilter p2 n2 = Inr out2"
  shows "bytes_of out1 = bytes_of out2 \<longleftrightarrow> (\<forall>q. node_lookup n1 q = node_lookup n2 q)"
proof
  assume eq: "bytes_of out1 = bytes_of out2"
  let ?st = "\<lparr>rs_disk = (\<lambda>_. None), rs_fd = None\<rparr>" and ?k = "path_components ''/x''"
  have k: "?k = [''x'']" by (simp add: path_components.simps skip_slashes_def not_slash_def)
  have ok: "vacant (rs_disk ?st) ?k" "parent_ok (rs_disk ?st) ?k" by (simp_all add: vacant_def parent_ok_def k)
  obtain st1 where "restorePath ''/x'' (bytes_of out1 @ []) ?st = (Inr [], st1)" "rs_disk st1 = graft (rs_disk ?st) ?k n1"
    using restore_dump [OF assms(1) refl ok assms(3)] by metis
  moreover obtain st2 where "restorePath ''/x'' (bytes_of out2 @ []) ?st = (Inr [], st2)" "rs_disk st2 = graft (rs_disk ?st) ?k n2"
    using restore_dump [OF assms(2) refl ok assms(4)] by metis
  ultimately have "graft (rs_disk ?st) ?k n1 = graft (rs_disk ?st) ?k n2" using eq by simp
  then have "graft (rs_disk ?st) ?k n1 (?k @ q) = graft (rs_disk ?st) ?k n2 (?k @ q)" for q by simp
  then show "\<forall>q. node_lookup n1 q = node_lookup n2 q" by (simp add: graft_def)
next
  assume "\<forall>q. node_lookup n1 q = node_lookup n2 q"
  then have "sort_node n1 = sort_node n2"
    by (intro node_ext) (simp_all add: assms wf_sort_node sorted_sort_node node_lookup_sort)
  moreover have "bytes_of out = bytes_of (writeString archiveVersion1) @ dump_bytes (sort_node n)"
    if n: "wf_node n" "dumpPath defaultPathFilter p n = Inr out" for p n out
  proof -
    obtain o' where "dump defaultPathFilter p (sort_node n) = Inr o'" "bytes_of o' = dump_bytes (sort_node n)"
      using dump_sorted_bytes(1) [OF sorted_sort_node wf_sort_node [OF n(1)], of p] by blast
    with n show ?thesis by (auto simp: dumpPath_def dump_sort)
  qed
  ultimately show "bytes_of out1 = bytes_of out2" using assms by metis
qed

section \<open>Any input\<close>

text \<open>
  The contract a parse sink can rely on: every path it is given satisfies \<open>ok\<close>, if the first does and
  going down keeps it.  Then what its operations keep is kept by the parser, whatever the input and
  however the parse ends.
\<close>

locale sink_contract =
  fixes sink :: "'s parse_sink" and R :: "'s \<Rightarrow> 's \<Rightarrow> bool" and ok :: "Path \<Rightarrow> bool"
  assumes R_refl: "reflp R" and R_trans: "transp R"
    and ok_down: "ok path \<Longrightarrow> name = [] \<or> \<not> invalid_name name \<Longrightarrow> ok (path @ ''/'' @ name)"
    and keeps_directory: "ok path \<Longrightarrow> keeps R (createDirectory sink path)"
    and keeps_file: "ok path \<Longrightarrow> keeps R (createRegularFile sink path)"
    and keeps_exec: "keeps R (isExecutable sink)"
    and keeps_preallocate: "keeps R (preallocateContents sink sz)"
    and keeps_receive: "keeps R (receiveContents sink data)"
    and keeps_link: "ok path \<Longrightarrow> keeps R (createSymlink sink path target)"
begin

lemma bindI: "keeps R m \<Longrightarrow> (\<And>x. keeps R (f x)) \<Longrightarrow> keeps R (abind m f)"
  using R_trans by (rule keeps_abind)

lemma liftI: "(\<And>x y. r = Inr (x, y) \<Longrightarrow> keeps R (f (x, y))) \<Longrightarrow> keeps R (abind (alift r) f)"
  using keeps_pure [OF R_refl] by (cases r) auto

lemmas stopI = keeps_pure [OF R_refl]

lemma chunks_keep: "keeps R (parse_chunks sink left src)"
proof (induction left arbitrary: src rule: less_induct)
  case (less left)
  show ?case
  proof (cases "left = 0")
    case False
    with less show ?thesis
      by (simp add: parse_chunks.simps [of sink left src] liftI bindI keeps_receive)
  qed (simp add: parse_chunks.simps stopI)
qed

lemma contents_keep: "keeps R (parseContents sink src)"
  unfolding parseContents_def
  by (intro liftI, simp, intro bindI keeps_preallocate chunks_keep liftI, simp add: stopI)

lemma field_keeps:
  assumes "ok path" "\<And>tp src. keeps R (again tp src)" "\<And>src. keeps R (entry src)"
  shows "keeps R (parse_field sink path again entry tp src)"
proof -
  have ty: "keeps R (parse_type sink path again tp src)" for tp src
    unfolding parse_type_def
    by (assumption | simp only: prod.case | rule liftI keeps_if bindI stopI keeps_directory keeps_file assms)+
  show ?thesis
    unfolding parse_field_def
    by (assumption | simp only: prod.case
        | rule liftI keeps_if bindI stopI ty contents_keep keeps_exec keeps_link assms)+
qed

lemma entry_field_keeps:
  assumes "\<And>name src. name = [] \<or> \<not> invalid_name name \<Longrightarrow> keeps R (again name prevName src)"
    "\<And>name src. \<not> invalid_name name \<Longrightarrow> keeps R (again name name src)" "\<And>src. keeps R (node src)"
    "name = [] \<or> \<not> invalid_name name"
  shows "keeps R (parse_entry_field again node name prevName src)"
  unfolding parse_entry_field_def
  by (assumption | simp only: prod.case | rule liftI keeps_if bindI stopI assms)+

lemma parse_keeps:
  "ok path \<Longrightarrow> keeps R (parse k sink src path)"
  "ok path \<Longrightarrow> keeps R (parse_fields k sink path tp src)"
  "ok path \<Longrightarrow> name = [] \<or> \<not> invalid_name name \<Longrightarrow> keeps R (parse_entry k sink path name prevName src)"
proof (induction k arbitrary: path src tp name prevName)
  case 0
  show "keeps R (parse 0 sink src path)" "keeps R (parse_fields 0 sink path tp src)"
    "keeps R (parse_entry 0 sink path name prevName src)" for path src tp name prevName
    by (simp_all add: stopI)
next
  case (Suc k)
  show "keeps R (parse (Suc k) sink src path)" if "ok path" for path src
    unfolding parse.simps
    by (assumption | simp only: prod.case | rule liftI keeps_if stopI Suc(2) that)+
  show "keeps R (parse_fields (Suc k) sink path tp src)" if "ok path" for path tp src
    unfolding parse_fields.simps
    by (rule field_keeps) (rule that, rule Suc(2) [OF that], rule Suc(3) [OF that disjI1 [OF refl]])
  show "keeps R (parse_entry (Suc k) sink path name prevName src)"
    if a: "ok path" "name = [] \<or> \<not> invalid_name name" for path name prevName src
    unfolding parse_entry.simps
  proof (rule entry_field_keeps)
    show "name = [] \<or> \<not> invalid_name name" by (rule a(2))
    show "keeps R (parse k sink src (path @ ''/'' @ name))" for src
      by (rule Suc(1) [OF ok_down [OF a]])
    show "keeps R (parse_entry k sink path x prevName src)" if "x = [] \<or> \<not> invalid_name x" for x src
      by (rule Suc(3) [OF a(1) that])
    show "keeps R (parse_entry k sink path x x src)" if "\<not> invalid_name x" for x src
      by (rule Suc(3) [OF a(1)]) (simp add: that)
  qed
qed

lemma parseDump_keeps: "ok [] \<Longrightarrow> keeps R (parseDump sink src)"
  unfolding parseDump_def Let_def
  by (assumption | simp only: prod.case | rule liftI keeps_if stopI parse_keeps(1))+

end

text \<open>Restoring below \<open>dst\<close> changes nothing elsewhere.\<close>

definition fd_below :: "string list \<Rightarrow> restore_state \<Rightarrow> bool" where
  "fd_below k st \<longleftrightarrow> (\<forall>j. rs_fd st = Some j \<longrightarrow> prefix k j)"

definition same_outside :: "string list \<Rightarrow> restore_state \<Rightarrow> restore_state \<Rightarrow> bool" where
  "same_outside k st st' \<longleftrightarrow> (\<forall>p. \<not> prefix k p \<longrightarrow> rs_disk st' p = rs_disk st p)"

definition only_below :: "string list \<Rightarrow> restore_state \<Rightarrow> restore_state \<Rightarrow> bool" where
  "only_below k st st' \<longleftrightarrow> (fd_below k st \<longrightarrow> fd_below k st' \<and> same_outside k st st')"

lemma only_below_order: "reflp (only_below k)" "transp (only_below k)"
proof -
  have "same_outside k s t \<Longrightarrow> same_outside k t u \<Longrightarrow> same_outside k s u" for s t u
    by (simp add: same_outside_def)
  then show "transp (only_below k)" unfolding only_below_def by (intro transpI) blast
  show "reflp (only_below k)" by (intro reflpI) (simp add: only_below_def same_outside_def)
qed

lemma disk_create_Inr: "disk_create p i d = Inr d' \<Longrightarrow> d' = d(path_components p \<mapsto> i)"
  by (simp add: disk_create_def Let_def split: if_split_asm)

lemma keeps_restore_create:
  assumes "prefix k (path_components p)"
  shows "keeps (only_below k) (restore_create w p i)"
proof (rule keepsI)
  fix st
  show "only_below k st (snd (restore_create w p i st))"
  proof (cases "disk_create p i (rs_disk st)")
    case (Inl e)
    then show ?thesis by (simp add: restore_create_def only_below_def same_outside_def)
  next
    case (Inr d)
    then have "snd (restore_create w p i st) = st\<lparr>rs_disk := (rs_disk st)(path_components p \<mapsto> i)\<rparr>"
      using disk_create_Inr [OF Inr] by (simp add: restore_create_def)
    with assms show ?thesis by (auto simp: only_below_def fd_below_def same_outside_def)
  qed
qed

lemma keeps_restore_fd: "keeps (only_below k) (restore_fd f)"
  by (rule keepsI) (auto simp: restore_fd_def only_below_def fd_below_def same_outside_def split: option.splits inode.splits)

lemma keeps_set_fd:
  "(\<And>j. x = Some j \<Longrightarrow> prefix k j) \<Longrightarrow> keeps (only_below k) (amodify (rs_fd_update (\<lambda>_. x)))"
  by (rule keepsI) (auto simp: only_below_def fd_below_def same_outside_def action_run)

lemma keeps_restore_file:
  assumes "prefix k (path_components (dst @ path))"
  shows "keeps (only_below k) (createRegularFile (RestoreSink dst) path)"
proof -
  have "keeps (only_below k)
      (abind (amodify (rs_fd_update (\<lambda>_. None))) (\<lambda>_.
       abind (restore_create ''creating file '' (dst @ path) (IReg False [])) (\<lambda>_.
       amodify (rs_fd_update (\<lambda>_. Some (path_components (dst @ path)))))))"
    using assms
    by (intro keeps_abind keeps_set_fd keeps_restore_create only_below_order) auto
  then show ?thesis by (simp add: RestoreSink_def)
qed

interpretation restore: sink_contract "RestoreSink dst" "only_below (path_components dst)"
  "\<lambda>path. prefix (path_components dst) (path_components (dst @ path))" for dst
proof
  fix path name
  assume "prefix (path_components dst) (path_components (dst @ path))"
  then show "prefix (path_components dst) (path_components (dst @ path @ ''/'' @ name))"
    using path_components_append [of "dst @ path" name] by simp
qed (simp_all add: keeps_restore_file only_below_order, simp_all add: RestoreSink_def keeps_restore_create
    keeps_restore_fd keeps_pure only_below_order)

text \<open>
  The fuel is enough: over a sink whose own operations end, the parser ends for every input, having
  read at least part of it.
\<close>

definition ends_within :: "nat \<Rightarrow> (source, 's) action \<Rightarrow> bool" where
  "ends_within n m \<longleftrightarrow> (\<forall>st. case fst (m st) of Inl e \<Rightarrow> e \<noteq> OutOfFuel | Inr src \<Rightarrow> length src < n)"

definition never_out :: "('a, 's) action \<Rightarrow> bool" where
  "never_out m \<longleftrightarrow> (\<forall>st. fst (m st) \<noteq> Inl OutOfFuel)"

lemma ends_within_stop:
  "length src < n \<Longrightarrow> ends_within n (areturn src)" "e \<noteq> OutOfFuel \<Longrightarrow> ends_within n (athrow e)"
  by (simp_all add: ends_within_def action_run)

lemma ends_within_mono: "ends_within m a \<Longrightarrow> m \<le> n \<Longrightarrow> ends_within n a"
  unfolding ends_within_def by (auto split: sum.splits) (meson less_le_trans)

lemma ends_within_if: "(c \<Longrightarrow> ends_within n a) \<Longrightarrow> (\<not> c \<Longrightarrow> ends_within n b) \<Longrightarrow> ends_within n (if c then a else b)"
  by simp

lemma ends_within_lift:
  "r \<noteq> Inl OutOfFuel \<Longrightarrow> (\<And>x src. r = Inr (x, src) \<Longrightarrow> ends_within n (f (x, src))) \<Longrightarrow>
     ends_within n (abind (alift r) f)"
  by (cases r) (auto simp: ends_within_stop)

lemma ends_within_op:
  "never_out m \<Longrightarrow> (\<And>x. ends_within n (f x)) \<Longrightarrow> ends_within n (abind m f)"
proof -
  assume m: "never_out m" and f: "\<And>x. ends_within n (f x)"
  have "case fst (abind m f st) of Inl e \<Rightarrow> e \<noteq> OutOfFuel | Inr src \<Rightarrow> length src < n" for st
  proof (cases "m st")
    case (Pair r st')
    have "r \<noteq> Inl OutOfFuel" using m Pair by (metis never_out_def fst_conv)
    moreover have "case fst (f x st') of Inl e \<Rightarrow> e \<noteq> OutOfFuel | Inr src \<Rightarrow> length src < n" for x
      using f [of x] by (simp only: ends_within_def)
    ultimately show ?thesis using Pair by (cases r) (simp_all add: abind_def)
  qed
  then show ?thesis by (simp add: ends_within_def)
qed

lemma ends_within_bind:
  assumes "ends_within n m" "\<And>src. length src < n \<Longrightarrow> ends_within n (f src)"
  shows "ends_within n (abind m f)"
  unfolding ends_within_def
proof
  fix st
  obtain r st' where r: "m st = (r, st')" by (cases "m st") auto
  have *: "case r of Inl e \<Rightarrow> e \<noteq> OutOfFuel | Inr src \<Rightarrow> length src < n"
    using assms(1) r by (metis ends_within_def fst_conv)
  show "case fst (abind m f st) of Inl e \<Rightarrow> e \<noteq> OutOfFuel | Inr src \<Rightarrow> length src < n"
  proof (cases r)
    case (Inr src)
    then have "ends_within n (f src)" using * assms(2) by simp
    then show ?thesis using r Inr unfolding ends_within_def by (simp add: abind_def)
  qed (use r * in \<open>simp add: abind_def\<close>)
qed

lemma read_no_fuel:
  "source_read k src \<noteq> Inl OutOfFuel" "readPadding k src \<noteq> Inl OutOfFuel" "readString src \<noteq> Inl OutOfFuel"
  "readLongLong src \<noteq> Inl OutOfFuel"
proof -
  show s: "source_read k src \<noteq> Inl OutOfFuel" for k src by (simp add: source_read_def)
  show p: "readPadding k src \<noteq> Inl OutOfFuel" for k src
    using s by (auto simp: readPadding_def rbind_Inl_iff split: if_splits)
  have "readInt src \<noteq> Inl OutOfFuel" for src
    using s by (auto simp: readInt_def rbind_Inl_iff split: if_splits)
  then show "readString src \<noteq> Inl OutOfFuel"
    using s p by (auto simp: readString_def rbind_Inl_iff Let_def)
  show "readLongLong src \<noteq> Inl OutOfFuel"
    using s by (auto simp: readLongLong_def rbind_Inl_iff)
qed

lemma readString_shorter: "readString src = Inr (s, rest) \<Longrightarrow> length rest < length src"
proof -
  assume "readString src = Inr (s, rest)"
  then have "length src = length (bytes_of (writeString s)) + length rest"
    by (simp only: readString_iff length_append)
  then show ?thesis using length_writeString [of s] by linarith
qed

locale total_sink =
  fixes sink :: "'s parse_sink"
  assumes total_ops: "never_out (createDirectory sink path)" "never_out (createRegularFile sink path)"
    "never_out (isExecutable sink)" "never_out (preallocateContents sink sz)"
    "never_out (receiveContents sink data)" "never_out (createSymlink sink path target)"
begin

lemma chunks_end: "length src < n \<Longrightarrow> ends_within n (parse_chunks sink left src)"
proof (induction left arbitrary: src rule: less_induct)
  case (less left)
  show ?case
  proof (cases "left = 0")
    case False
    have "ends_within n (parse_chunks sink (left - min 65536 left) src')"
      if "source_read (min 65536 left) src = Inr (d, src')" for d src'
      using less False that by (auto simp: source_read_Inr)
    with False show ?thesis
      by (simp add: parse_chunks.simps [of sink left src] ends_within_lift ends_within_op read_no_fuel total_ops)
  qed (use less in \<open>simp add: parse_chunks.simps ends_within_stop\<close>)
qed

lemma contents_end: "length src \<le> n \<Longrightarrow> ends_within n (parseContents sink src)"
proof -
  assume n: "length src \<le> n"
  have "ends_within n (abind (preallocateContents sink sz) (\<lambda>_.
      abind (parse_chunks sink (unat sz) src') (\<lambda>src.
      abind (alift (readPadding (unat sz) src)) (\<lambda>(_, src). areturn src))))"
    if "readLongLong src = Inr (sz, src')" for sz src'
  proof -
    have "length src' < n" using that n by (auto simp: readLongLong_eq_writeLongLong)
    moreover have "ends_within n (abind (alift (readPadding (unat sz) s)) (\<lambda>(_, src). areturn src))"
      if "length s < n" for s
      using that by (intro ends_within_lift read_no_fuel) (auto simp: readPadding_Inr intro: ends_within_stop)
    ultimately show ?thesis
      by (intro ends_within_op [OF total_ops(4)] ends_within_bind chunks_end)
  qed
  then show ?thesis unfolding parseContents_def by (intro ends_within_lift read_no_fuel) simp_all
qed

lemma type_ends:
  assumes "\<And>tp src. length src < n \<Longrightarrow> ends_within n (again tp src)" "length src < n"
  shows "ends_within n (parse_type sink path again tp src)"
proof -
  have "length src' < n" if "readString src = Inr (s, src')" for s src'
    using readString_shorter [OF that] assms(2) by simp
  then show ?thesis
    unfolding parse_type_def badArchive_def
    by (intro ends_within_if ends_within_lift read_no_fuel ends_within_stop)
      (auto intro!: ends_within_op total_ops assms(1) ends_within_stop)
qed

lemma field_ends:
  assumes again: "\<And>tp src'. length src' < length src \<Longrightarrow> ends_within (length src) (again tp src')"
    and entry: "\<And>src'. length src' < length src \<Longrightarrow> ends_within (length src) (entry src')"
  shows "ends_within (length src) (parse_field sink path again entry tp src)"
proof -
  have sh: "readString src = Inr (s, src') \<Longrightarrow> length src' < length src" for s src'
    by (rule readString_shorter)
  have sh2: "length src'' < length src" if "readString src' = Inr (s, src'')" "length src' < length src" for s src' src''
    using readString_shorter [OF that(1)] that(2) by simp
  show ?thesis
    unfolding parse_field_def badArchive_def
    by (rule ends_within_lift, rule read_no_fuel, drule sh, simp only: prod.case,
        intro ends_within_if ends_within_stop type_ends again ends_within_bind contents_end ends_within_lift
          read_no_fuel; (simp only: prod.case)?;
        (auto intro!: ends_within_if ends_within_stop ends_within_op ends_within_bind total_ops again entry dest: sh2)?)
qed

lemma entry_field_ends:
  assumes again: "\<And>name prevName src'. length src' < length src \<Longrightarrow> ends_within (length src) (again name prevName src')"
    and node: "\<And>src'. length src' < length src \<Longrightarrow> ends_within (length src) (node src')"
  shows "ends_within (length src) (parse_entry_field again node name prevName src)"
proof -
  have sh: "readString src = Inr (s, src') \<Longrightarrow> length src' < length src" for s src'
    by (rule readString_shorter)
  have sh2: "length src'' < length src" if "readString src' = Inr (s, src'')" "length src' < length src" for s src' src''
    using readString_shorter [OF that(1)] that(2) by simp
  show ?thesis
    unfolding parse_entry_field_def badArchive_def
    by (rule ends_within_lift, rule read_no_fuel, drule sh, simp only: prod.case,
        intro ends_within_if ends_within_stop again node ends_within_bind ends_within_lift read_no_fuel;
        (simp only: prod.case)?;
        (auto intro!: ends_within_if ends_within_stop again dest: sh2)?)
qed

lemma parse_ends:
  "length src < k \<Longrightarrow> ends_within (length src) (parse k sink src path)"
  "length src < k \<Longrightarrow> ends_within (length src) (parse_fields k sink path tp src)"
  "length src < k \<Longrightarrow> ends_within (length src) (parse_entry k sink path name prevName src)"
proof (induction k arbitrary: src path tp name prevName)
  case 0
  {
    case 1
    then show ?case by simp
  next
    case 2
    then show ?case by simp
  next
    case 3
    then show ?case by simp
  }
next
  case (Suc k)
  {
    case 1
    have "ends_within (length src) (parse_fields k sink path tpUnknown src')"
      if "readString src = Inr (s, src')" for s src'
      using Suc(2) [of src' path tpUnknown] readString_shorter [OF that] 1 ends_within_mono by force
    then show ?case
      unfolding parse.simps badArchive_def
      by (intro ends_within_lift read_no_fuel) (auto intro: ends_within_stop)
  next
    case 2
    have "ends_within (length src) (parse_fields k sink path tp src')"
      "ends_within (length src) (parse_entry k sink path [] [] src')" if "length src' < length src" for tp src'
      using that 2 by (auto intro!: ends_within_mono [OF Suc(2)] ends_within_mono [OF Suc(3)])
    then show ?case unfolding parse_fields.simps by (intro field_ends)
  next
    case 3
    have "ends_within (length src) (parse_entry k sink path x y src')"
      "ends_within (length src) (parse k sink src' (path @ ''/'' @ name))" if "length src' < length src" for x y src'
      using that 3 by (auto intro!: ends_within_mono [OF Suc(3)] ends_within_mono [OF Suc(1)])
    then show ?case unfolding parse_entry.simps by (intro entry_field_ends)
  }
qed

lemma parseDump_ends: "never_out (parseDump sink src)"
proof -
  have "fst (m st) \<noteq> Inl OutOfFuel" if "ends_within n m" for n m and st :: 's
    using that by (auto simp: ends_within_def dest: spec [of _ st])
  moreover have "ends_within (Suc (length src)) (parseDump sink src)"
  proof -
    let ?r = "case readString src of Inl (Throw SerialisationError _) \<Rightarrow> Inr ([], src) | r \<Rightarrow> r"
    have r: "?r \<noteq> Inl OutOfFuel" using read_no_fuel(3) [of src] by (auto split: sum.split error.split exn.split)
    have "ends_within (Suc (length src)) (parse (Suc (length src')) sink src' [])"
      if "?r = Inr (v, src')" for v src'
    proof -
      have "length src' \<le> length src"
        using that readString_shorter [of src v src'] by (auto split: sum.splits error.splits exn.splits)
      then show ?thesis by (intro ends_within_mono [OF parse_ends(1)]) simp_all
    qed
    with r show ?thesis
      unfolding parseDump_def Let_def badArchive_def
      by (intro ends_within_lift) (auto intro: ends_within_stop simp del: parse.simps)
  qed
  ultimately show ?thesis by (simp add: never_out_def)
qed

end

lemma never_out_simps:
  "never_out (areturn x)" "never_out (amodify g)" "never_out (restore_create w p i)" "never_out (restore_fd f)"
  by (auto simp: never_out_def action_run restore_create_def restore_fd_def split: sum.split option.split inode.split)

lemma never_out_bind: "never_out m \<Longrightarrow> (\<And>x. never_out (f x)) \<Longrightarrow> never_out (abind m f)"
  unfolding never_out_def by (simp add: abind_def split: prod.split sum.split) (metis fst_conv)

interpretation restore_total: total_sink "RestoreSink dst" for dst
  by unfold_locales (simp_all add: RestoreSink_def never_out_simps never_out_bind)

section \<open>Properties\<close>

text \<open>A small tree whose directory listing is not sorted, and its archive.\<close>

definition sample_tree :: node where
  "sample_tree = Directory [(''b'', Symlink ''a''), (''a'', Regular True ''xyz'')]"

lemma wf_sample_tree: "wf_node sample_tree"
  by (simp add: sample_tree_def invalid_name_def fits_u32_def fits_u64_def)

text \<open>
  Parsing the archive of a tree, in any parse sink, makes exactly the calls that describe the tree
  with its directories in sorted order, and leaves the rest of the stream.  In particular the parser
  accepts every archive the dumper writes.
\<close>

theorem parse_of_dump:
  assumes "wf_node n"
  shows "\<exists>out. dumpPath defaultPathFilter p n = Inr out \<and>
     (\<forall>sink rest. parseDump sink (bytes_of out @ rest) =
        abind (emit sink [] (sort_node n)) (\<lambda>_. areturn rest))"
  using parse_dumpPath [OF assms, of p] by metis

theorem parse_of_dump_witness:
  "\<exists>out. dumpPath defaultPathFilter ''/x'' sample_tree = Inr out \<and>
     (\<forall>(sink :: nat parse_sink) rest. parseDump sink (bytes_of out @ rest) =
        abind (emit sink [] (sort_node sample_tree)) (\<lambda>_. areturn rest))"
  by (rule parse_of_dump [OF wf_sample_tree])

text \<open>
  C7: Restoring the archive of a tree at a free place whose parent is a directory succeeds and grafts
  exactly that tree there: every path below the destination denotes what it denotes in the tree, and
  every other path is untouched.
\<close>

theorem restore_of_dump:
  assumes "wf_node n" and "dumpPath defaultPathFilter p n = Inr out"
    and "vacant (rs_disk st) (path_components dst)" and "parent_ok (rs_disk st) (path_components dst)"
  shows "\<exists>st'. restorePath dst (bytes_of out @ rest) st = (Inr rest, st') \<and>
     (\<forall>q. rs_disk st' (path_components dst @ q) = node_lookup n q) \<and>
     (\<forall>p. \<not> prefix (path_components dst) p \<longrightarrow> rs_disk st' p = rs_disk st p)"
proof -
  obtain st' where "restorePath dst (bytes_of out @ rest) st = (Inr rest, st')"
    "rs_disk st' = graft (rs_disk st) (path_components dst) n"
    using restore_dump [OF assms(1) refl assms(3,4,2)] by metis
  then show ?thesis by (auto simp: graft_def)
qed

theorem restore_of_dump_witness:
  "\<exists>out st'. dumpPath defaultPathFilter ''/x'' sample_tree = Inr out \<and>
     restorePath ''/y'' (bytes_of out) \<lparr>rs_disk = Map.empty, rs_fd = None\<rparr> = (Inr [], st') \<and>
     rs_disk st' [''y'', ''a''] = Some (IReg True ''xyz'')"
proof -
  obtain out where out: "dumpPath defaultPathFilter ''/x'' sample_tree = Inr out"
    using parse_dumpPath [OF wf_sample_tree, of "''/x''"] by metis
  have y: "path_components ''/y'' = [''y'']"
    by (simp add: path_components.simps skip_slashes_def not_slash_def)
  show ?thesis
    using restore_of_dump [OF wf_sample_tree out, of "\<lparr>rs_disk = Map.empty, rs_fd = None\<rparr>" "''/y''" "[]"] out
    unfolding y by (force simp: vacant_def parent_ok_def sample_tree_def)
qed

text \<open>
  C11: Two trees have the same archive exactly when they are the same tree: the same paths denote
  directories, the same regular files with the same contents and executable bit, and the same symlinks.
  The order in which a directory is listed, and the place of the tree, do not matter.
\<close>

theorem dump_injective:
  assumes "wf_node n1" and "wf_node n2" and "dumpPath defaultPathFilter p1 n1 = Inr out1"
    and "dumpPath defaultPathFilter p2 n2 = Inr out2"
  shows "bytes_of out1 = bytes_of out2 \<longleftrightarrow> (\<forall>q. node_lookup n1 q = node_lookup n2 q)"
  using assms by (rule dump_eq_iff)

theorem dump_injective_witness:
  "\<exists>out1 out2. dumpPath defaultPathFilter ''/x'' sample_tree = Inr out1 \<and>
     dumpPath defaultPathFilter ''/x'' (Symlink ''a'') = Inr out2 \<and> bytes_of out1 \<noteq> bytes_of out2"
proof -
  have wf: "wf_node (Symlink ''a'')" by (simp add: fits_u32_def)
  obtain out1 where 1: "dumpPath defaultPathFilter ''/x'' sample_tree = Inr out1"
    using parse_dumpPath [OF wf_sample_tree, of "''/x''"] by metis
  obtain out2 where 2: "dumpPath defaultPathFilter ''/x'' (Symlink ''a'') = Inr out2"
    using parse_dumpPath [OF wf, of "''/x''"] by metis
  have "node_lookup sample_tree [] \<noteq> node_lookup (Symlink ''a'') []" by (simp add: sample_tree_def)
  then have "bytes_of out1 \<noteq> bytes_of out2"
    using dump_injective [OF wf_sample_tree wf 1 2] by metis
  with 1 2 show ?thesis by blast
qed



text \<open>
  C22: Parsing ends on every input: the bound on the recursion is never reached when restoring.
\<close>

theorem restore_terminates: "fst (restorePath dst src st) \<noteq> Inl OutOfFuel"
  using restore_total.parseDump_ends [of dst src] by (simp add: restorePath_def never_out_def)

text \<open>
  The hash of a path is the hash of its archive, and the size reported with it is the length of
  the archive modulo 2 to the 64.
\<close>

theorem hashPath_is_hash_of_dump:
  "hashPath g ht flt path n =
     rbind (dumpPath flt path n) (\<lambda>out.
     rbind (hashString g ht (bytes_of out)) (\<lambda>h. Inr (h, word_of_nat (length (bytes_of out)))))"
  by (simp add: hashPath_def HashSink_chunks)

text \<open>
  C34: The order of directory entries is not checked: an archive whose entries come in any order, even
  one that the code means to refuse as not sorted, is parsed like a sorted one, entry by entry.
\<close>

theorem parse_accepts_unsorted:
  assumes "wf_node n"
  shows "parseDump sink (bytes_of (writeString archiveVersion1) @ dump_bytes n @ rest) =
     abind (emit sink [] n) (\<lambda>_. areturn rest)"
  using parse_dump_bytes(1) [OF assms, of "Suc (length (dump_bytes n @ rest))" sink rest "[]"]
  by (simp add: parseDump_def archiveVersion1_def del: parse.simps)

theorem parse_accepts_unsorted_witness:
  "\<not> sorted_node sample_tree \<and>
   parseDump (RestoreSink []) (bytes_of (writeString archiveVersion1) @ dump_bytes sample_tree) =
     abind (emit (RestoreSink []) [] sample_tree) (\<lambda>_. areturn [])"
  using parse_accepts_unsorted [OF wf_sample_tree, of "RestoreSink []" "[]"] by (simp add: sample_tree_def)

end
