(* ===== verification/Globals.thy ===== *)
theory Globals
  imports Util
begin

text \<open>
  The settings of the daemon (\<^verbatim>\<open>nix/libstore/globals.cc\<close>): the record of options with its
  defaults, the map of named options a client or the command line provides, and the
  procedures that carry named options over into the record. The configured directories and the
  environment are arguments.
\<close>

section \<open>Reading numbers\<close>

text \<open>
  \<open>string2Int\<close> of \<^verbatim>\<open>util.hh\<close> extracts a decimal number from a string stream and then requires
  the end of the stream. The extraction skips white space, takes an optional sign and the
  digits, and fails without digits or when the number does not fit. It assigns the target
  also when it fails (zero without digits, the nearest bound on overflow), except when
  nothing but white space is left. A negative number read into an unsigned type wraps
  around.
\<close>

datatype num_type = S32 | U32 | S64 | U64

fun num_signed :: "num_type \<Rightarrow> bool" where
  "num_signed S32 = True"
| "num_signed S64 = True"
| "num_signed U32 = False"
| "num_signed U64 = False"

fun num_bits :: "num_type \<Rightarrow> nat" where
  "num_bits S32 = 32"
| "num_bits U32 = 32"
| "num_bits S64 = 64"
| "num_bits U64 = 64"

definition num_min :: "num_type \<Rightarrow> int" where
  "num_min t = (if num_signed t then - (2 ^ (num_bits t - 1)) else 0)"

definition num_max :: "num_type \<Rightarrow> int" where
  "num_max t = (if num_signed t then 2 ^ (num_bits t - 1) - 1 else 2 ^ num_bits t - 1)"

definition is_digit :: "char \<Rightarrow> bool" where
  "is_digit c \<longleftrightarrow> CHR ''0'' \<le> c \<and> c \<le> CHR ''9''"

definition is_space :: "char \<Rightarrow> bool" where
  "is_space c \<longleftrightarrow> c = CHR '' '' \<or> CHR 0x09 \<le> c \<and> c \<le> CHR 0x0D"

definition digits_value :: "string \<Rightarrow> int" where
  "digits_value ds = foldl (\<lambda>n c. 10 * n + (of_char c - 48)) 0 ds"

definition stored_number :: "num_type \<Rightarrow> bool \<Rightarrow> int \<Rightarrow> bool \<times> int" where
  "stored_number t neg v =
     (if num_signed t then
        (if neg then (if num_min t \<le> - v then (True, - v) else (False, num_min t))
         else if v \<le> num_max t then (True, v) else (False, num_max t))
      else
        (if v \<le> num_max t then (True, if neg then (- v) mod (2 ^ num_bits t) else v)
         else (False, num_max t)))"

definition string2Int :: "num_type \<Rightarrow> string \<Rightarrow> int \<Rightarrow> bool \<times> int" where
  "string2Int t s n =
     (let s1 = dropWhile is_space s in
      if s1 = [] then (False, n)
      else
        (let neg = (hd s1 = CHR ''-'');
             s2 = (if hd s1 = CHR ''-'' \<or> hd s1 = CHR ''+'' then tl s1 else s1);
             ds = takeWhile is_digit s2
         in
         if ds = [] then (False, 0)
         else
           (let (fits, v) = stored_number t neg (digits_value ds)
            in (fits \<and> dropWhile is_digit s2 = [], v))))"

definition num_ok :: "num_type \<Rightarrow> int \<Rightarrow> bool" where
  "num_ok t n \<longleftrightarrow> num_min t \<le> n \<and> n \<le> num_max t"

lemma digits_value_nonneg:
  assumes "list_all is_digit ds"
  shows "0 \<le> digits_value ds"
proof -
  have "0 \<le> m \<Longrightarrow> 0 \<le> foldl (\<lambda>n c. 10 * n + (of_char c - 48)) m ds" if "list_all is_digit ds"
    for m :: int and ds
    using that
  proof (induction ds arbitrary: m)
    case (Cons c ds)
    have "(48 :: nat) \<le> of_char c"
      using Cons.prems(2) by (simp add: is_digit_def less_eq_char_def)
    then have "(48 :: int) \<le> of_char c"
      by (metis of_nat_le_iff of_nat_numeral of_nat_of_char)
    then show ?case using Cons by simp
  qed simp
  from this [of ds 0] assms show ?thesis by (simp add: digits_value_def)
qed

lemma num_range: "num_min t \<le> 0" "0 \<le> num_max t"
  by (simp_all add: num_min_def num_max_def)

lemma stored_number_ok:
  assumes "0 \<le> v"
  shows "num_ok t (snd (stored_number t neg v))"
proof (cases "num_signed t")
  case True
  then show ?thesis
    using assms num_range [of t] by (auto simp: stored_number_def num_ok_def)
next
  case False
  then have "num_min t = 0" "num_max t = 2 ^ num_bits t - 1"
    by (simp_all only: num_min_def num_max_def if_False)
  moreover have "0 \<le> (- v) mod 2 ^ num_bits t" "(- v) mod 2 ^ num_bits t < 2 ^ num_bits t" by simp_all
  ultimately have "num_ok t ((- v) mod 2 ^ num_bits t)" unfolding num_ok_def by linarith
  with False assms num_range [of t] show ?thesis
    by (simp add: stored_number_def) (simp add: num_ok_def \<open>num_min t = 0\<close>)
qed

lemma string2Int_ok:
  assumes "num_ok t n"
  shows "num_ok t (snd (string2Int t s n))"
proof -
  have zero: "num_ok t 0" using num_range by (simp add: num_ok_def)
  have digits: "num_ok t (snd (stored_number t neg (digits_value (takeWhile is_digit s'))))" for neg s'
    by (intro stored_number_ok digits_value_nonneg) (auto simp: list_all_iff dest: set_takeWhileD)
  define s1 where "s1 = dropWhile is_space s"
  define s2 where "s2 = (if hd s1 = CHR ''-'' \<or> hd s1 = CHR ''+'' then tl s1 else s1)"
  have eq: "snd (string2Int t s n) =
      (if s1 = [] then n else if takeWhile is_digit s2 = [] then 0
       else snd (stored_number t (hd s1 = CHR ''-'') (digits_value (takeWhile is_digit s2))))"
    unfolding string2Int_def Let_def s1_def [symmetric] s2_def [symmetric] by (simp only: case_prod_beta if_distrib [of snd] snd_conv)
  show ?thesis unfolding eq using assms zero digits by presburger
qed

section \<open>The settings\<close>

datatype CompressionType = COMPRESSION_NONE | COMPRESSION_GZIP | COMPRESSION_BZIP2

type_synonym SettingsMap = "(string, string) omap"

record Settings_dirs =
  nixStore :: Path
  nixLogDir :: Path
  nixStateDir :: Path
  nixDBPath :: Path
  nixConfDir :: Path
  nixBinDir :: Path
  nixDaemonSocketFile :: Path
  guixProgram :: Path

record Settings_client = Settings_dirs +
  keepFailed :: bool
  keepGoing :: bool
  clientUid :: int
  clientGid :: int
  tryFallback :: bool
  buildVerbosity :: nat

record Settings_build = Settings_client +
  maxBuildJobs :: int
  buildCores :: int
  readOnlyMode :: bool
  thisSystem :: string
  maxSilentTime :: int
  buildTimeout :: int
  useBuildHook :: bool
  printBuildTrace :: bool
  multiplexedBuildOutput :: bool

record Settings_db = Settings_build +
  reservedSize :: int
  fsyncMetadata :: bool
  useSQLiteWAL :: bool
  syncBeforeRegistering :: bool
  useSubstitutes :: bool
  buildUsersGroup :: string
  useChroot :: bool
  impersonateLinux26 :: bool
  keepLog :: bool
  logCompression :: CompressionType

record Settings_store = Settings_db +
  maxLogSize :: int
  cacheFailure :: bool
  pollInterval :: int
  checkRootReachability :: bool
  gcKeepOutputs :: bool
  gcKeepDerivations :: bool
  autoOptimiseStore :: bool
  envKeepDerivations :: bool
  lockCPU :: bool
  showTrace :: bool

record Settings = Settings_store +
  settings_map :: SettingsMap
  overrides :: SettingsMap

text \<open>
  The constructor, given the system type the program is configured for and the environment.
  The object has static storage duration, so what the constructor leaves out is zero or
  empty. \<open>lvlError\<close>, the first level of verbosity, is 0.
\<close>

definition getEnv :: "(string \<Rightarrow> string option) \<Rightarrow> string \<Rightarrow> string \<Rightarrow> string" where
  "getEnv env key d = (case env key of Some v \<Rightarrow> v | None \<Rightarrow> d)"

definition Settings_init :: "string \<Rightarrow> (string \<Rightarrow> string option) \<Rightarrow> Settings" where
  "Settings_init SYSTEM env =
     \<lparr> nixStore = [], nixLogDir = [], nixStateDir = [], nixDBPath = [], nixConfDir = [],
       nixBinDir = [], nixDaemonSocketFile = [], guixProgram = [],
       keepFailed = False, keepGoing = False, clientUid = 0, clientGid = 0,
       tryFallback = False, buildVerbosity = 0, maxBuildJobs = 1, buildCores = 1,
       readOnlyMode = False, thisSystem = SYSTEM, maxSilentTime = 3600,
       buildTimeout = 3600 * 24, useBuildHook = True, printBuildTrace = False,
       multiplexedBuildOutput = False, reservedSize = 8 * 1024 * 1024,
       fsyncMetadata = True, useSQLiteWAL = True, syncBeforeRegistering = False,
       useSubstitutes = True, buildUsersGroup = [], useChroot = False,
       impersonateLinux26 = False, keepLog = True, logCompression = COMPRESSION_GZIP,
       maxLogSize = 0, cacheFailure = False, pollInterval = 5,
       checkRootReachability = False, gcKeepOutputs = False, gcKeepDerivations = True,
       autoOptimiseStore = False, envKeepDerivations = False,
       lockCPU = (getEnv env ''NIX_AFFINITY_HACK'' ''1'' = ''1''), showTrace = False,
       settings_map = [], overrides = [] \<rparr>"

text \<open>The directories fixed when the program is configured.\<close>

record configured_dirs =
  NIX_STORE_DIR :: Path
  NIX_LOG_DIR :: Path
  NIX_STATE_DIR :: Path
  GUIX_CONFIGURATION_DIRECTORY :: Path
  NIX_BIN_DIR :: Path

definition set_canonical ::
  "((Path \<Rightarrow> Path) \<Rightarrow> Settings \<Rightarrow> Settings) \<Rightarrow> Path \<Rightarrow> (unit, Settings) action" where
  "set_canonical upd p = abind (alift (canonPath p)) (\<lambda>q. amodify (upd (\<lambda>_. q)))"

definition processEnvironment ::
  "configured_dirs \<Rightarrow> (string \<Rightarrow> string option) \<Rightarrow> (unit, Settings) action" where
  "processEnvironment cfg env =
     abind (set_canonical nixStore_update
       (getEnv env ''NIX_STORE_DIR'' (getEnv env ''NIX_STORE'' (NIX_STORE_DIR cfg)))) (\<lambda>_.
     abind (set_canonical nixLogDir_update (getEnv env ''GUIX_LOG_DIRECTORY'' (NIX_LOG_DIR cfg))) (\<lambda>_.
     abind (set_canonical nixStateDir_update (getEnv env ''GUIX_STATE_DIRECTORY'' (NIX_STATE_DIR cfg))) (\<lambda>_.
     abind (amodify (\<lambda>s. s \<lparr> nixDBPath :=
       getEnv env ''GUIX_DATABASE_DIRECTORY'' (nixStateDir s @ ''/db'') \<rparr>)) (\<lambda>_.
     abind (set_canonical nixConfDir_update
       (getEnv env ''GUIX_CONFIGURATION_DIRECTORY'' (GUIX_CONFIGURATION_DIRECTORY cfg))) (\<lambda>_.
     abind (set_canonical nixBinDir_update (getEnv env ''NIX_BIN_DIR'' (NIX_BIN_DIR cfg))) (\<lambda>_.
     abind (aget nixStateDir) (\<lambda>d.
     abind (set_canonical nixDaemonSocketFile_update (d @ ''/daemon-socket/socket'')) (\<lambda>_.
     abind (aget nixBinDir) (\<lambda>b.
     set_canonical guixProgram_update (getEnv env ''GUIX'' (b @ ''/guix'')))))))))))"

definition Settings_set :: "string \<Rightarrow> string \<Rightarrow> Settings \<Rightarrow> Settings" where
  "Settings_set name v s =
     s \<lparr> settings_map := oput name v (settings_map s), overrides := oput name v (overrides s) \<rparr>"

text \<open>
  The private readers \<^verbatim>\<open>_get\<close>: what becomes of the target, and whether the reader throws.
\<close>

type_synonym 'a reader = "SettingsMap \<Rightarrow> string \<Rightarrow> 'a \<Rightarrow> unit result \<times> 'a"

definition white_space :: string where
  "white_space = [CHR '' '', CHR 0x09, CHR 0x0A, CHR 0x0D]"

definition read_string :: "string reader" where
  "read_string m name res = (case map_of m name of None \<Rightarrow> (Inr (), res) | Some v \<Rightarrow> (Inr (), v))"

definition read_bool :: "bool reader" where
  "read_bool m name res =
     (case map_of m name of
        None \<Rightarrow> (Inr (), res)
      | Some v \<Rightarrow>
          if v = ''true'' then (Inr (), True)
          else if v = ''false'' then (Inr (), False)
          else (Inl (Throw Error ''configuration option should be either true or false''), res))"

definition read_StringSet :: "string oset reader" where
  "read_StringSet m name res =
     (case map_of m name of
        None \<Rightarrow> (Inr (), res)
      | Some v \<Rightarrow> (Inr (), oinsert_all (tokenizeString v white_space) []))"

definition read_Strings :: "string list reader" where
  "read_Strings m name res =
     (case map_of m name of
        None \<Rightarrow> (Inr (), res)
      | Some v \<Rightarrow> (Inr (), tokenizeString v white_space))"

definition read_number :: "num_type \<Rightarrow> int reader" where
  "read_number t m name res =
     (case map_of m name of
        None \<Rightarrow> (Inr (), res)
      | Some v \<Rightarrow>
          let (ok, n) = string2Int t v res in
          (if ok then Inr () else Inl (Throw Error ''configuration setting should have an integer value''), n))"

definition Settings_get_string :: "string \<Rightarrow> string \<Rightarrow> Settings \<Rightarrow> string" where
  "Settings_get_string name d s = (case map_of (settings_map s) name of None \<Rightarrow> d | Some v \<Rightarrow> v)"

definition Settings_get_Strings :: "string \<Rightarrow> string list \<Rightarrow> Settings \<Rightarrow> string list" where
  "Settings_get_Strings name d s =
     (case map_of (settings_map s) name of None \<Rightarrow> d | Some v \<Rightarrow> tokenizeString v white_space)"

definition Settings_get_bool :: "string \<Rightarrow> bool \<Rightarrow> Settings \<Rightarrow> bool result" where
  "Settings_get_bool name d s =
     (let (r, v) = read_bool (settings_map s) name d in rbind r (\<lambda>_. Inr v))"

definition Settings_get_int :: "string \<Rightarrow> int \<Rightarrow> Settings \<Rightarrow> int result" where
  "Settings_get_int name d s =
     (let (r, v) = read_number S32 (settings_map s) name d in rbind r (\<lambda>_. Inr v))"

definition assign ::
  "'a reader \<Rightarrow> (Settings \<Rightarrow> 'a) \<Rightarrow> (('a \<Rightarrow> 'a) \<Rightarrow> Settings \<Rightarrow> Settings) \<Rightarrow> string \<Rightarrow> (unit, Settings) action"
where
  "assign rd sel upd name s =
     (let (r, v) = rd (settings_map s) name (sel s) in (r, upd (\<lambda>_. v) s))"

definition update_steps :: "(unit, Settings) action list" where
  "update_steps =
    [assign read_bool tryFallback tryFallback_update ''build-fallback'',
     assign (read_number U32) maxBuildJobs maxBuildJobs_update ''build-max-jobs'',
     assign (read_number U32) buildCores buildCores_update ''build-cores'',
     assign read_string thisSystem thisSystem_update ''system'',
     assign read_bool multiplexedBuildOutput multiplexedBuildOutput_update ''multiplexed-build-output'',
     assign (read_number S64) maxSilentTime maxSilentTime_update ''build-max-silent-time'',
     assign (read_number S64) buildTimeout buildTimeout_update ''build-timeout'',
     assign (read_number S64) reservedSize reservedSize_update ''gc-reserved-space'',
     assign read_bool fsyncMetadata fsyncMetadata_update ''fsync-metadata'',
     assign read_bool useSQLiteWAL useSQLiteWAL_update ''use-sqlite-wal'',
     assign read_bool syncBeforeRegistering syncBeforeRegistering_update ''sync-before-registering'',
     assign read_bool useSubstitutes useSubstitutes_update ''build-use-substitutes'',
     assign read_string buildUsersGroup buildUsersGroup_update ''build-users-group'',
     assign read_bool useChroot useChroot_update ''build-use-chroot'',
     assign read_bool impersonateLinux26 impersonateLinux26_update ''build-impersonate-linux-26'',
     assign read_bool keepLog keepLog_update ''build-keep-log'',
     assign (read_number U64) maxLogSize maxLogSize_update ''build-max-log-size'',
     assign read_bool cacheFailure cacheFailure_update ''build-cache-failure'',
     assign (read_number U32) pollInterval pollInterval_update ''build-poll-interval'',
     assign read_bool checkRootReachability checkRootReachability_update ''gc-check-reachability'',
     assign read_bool gcKeepOutputs gcKeepOutputs_update ''gc-keep-outputs'',
     assign read_bool gcKeepDerivations gcKeepDerivations_update ''gc-keep-derivations'',
     assign read_bool autoOptimiseStore autoOptimiseStore_update ''auto-optimise-store'',
     assign read_bool envKeepDerivations envKeepDerivations_update ''env-keep-derivations'']"

definition Settings_update :: "(unit, Settings) action" where
  "Settings_update = aforeach update_steps (\<lambda>step. step)"

definition pack_entry :: "string \<times> string \<Rightarrow> string" where
  "pack_entry kv = fst kv @ ''='' @ snd kv @ [CHR 0x0A]"

fun pack_from :: "SettingsMap \<Rightarrow> string \<Rightarrow> string result" where
  "pack_from [] s = Inr s"
| "pack_from ((k, v) # m) s =
     (if CHR 0x0A \<in> set k \<or> CHR ''='' \<in> set k \<or> CHR 0x0A \<in> set v
      then Inl (Throw Error ''invalid option name/value'')
      else pack_from m (s @ pack_entry (k, v)))"

definition Settings_pack :: "Settings \<Rightarrow> string result" where
  "Settings_pack s = pack_from (settings_map s) []"

definition getOverrides :: "Settings \<Rightarrow> SettingsMap" where
  "getOverrides s = overrides s"

section \<open>Which options are accepted\<close>

text \<open>
  The numeric settings stay within the range of their C types, and reading the options
  leaves the options themselves and the directories alone.
\<close>

definition settings_ok :: "Settings \<Rightarrow> bool" where
  "settings_ok s \<longleftrightarrow>
     num_ok U32 (maxBuildJobs s) \<and> num_ok U32 (buildCores s) \<and> num_ok U32 (pollInterval s) \<and>
     num_ok S64 (maxSilentTime s) \<and> num_ok S64 (buildTimeout s) \<and> num_ok S64 (reservedSize s) \<and>
     num_ok U64 (maxLogSize s)"

definition update_keeps :: "Settings \<Rightarrow> Settings \<Rightarrow> bool" where
  "update_keeps s t \<longleftrightarrow>
     (settings_ok s \<longrightarrow> settings_ok t) \<and> settings_map t = settings_map s \<and> overrides t = overrides s \<and>
     nixStore t = nixStore s \<and> nixStateDir t = nixStateDir s \<and> nixDBPath t = nixDBPath s \<and>
     readOnlyMode t = readOnlyMode s \<and> clientUid t = clientUid s"

lemma update_keeps_reflp: "reflp update_keeps"
  by (rule reflpI) (simp add: update_keeps_def)

lemma update_keeps_transp: "transp update_keeps"
  by (rule transpI) (simp add: update_keeps_def)

lemma read_number_ok: "num_ok t res \<Longrightarrow> num_ok t (snd (read_number t m name res))"
  using string2Int_ok by (auto simp: read_number_def Let_def case_prod_beta split: option.splits)

lemma assign_snd: "snd (assign rd sel upd name s) = upd (\<lambda>_. snd (rd (settings_map s) name (sel s))) s"
  by (simp add: assign_def case_prod_beta)

lemma assign_fst: "fst (assign rd sel upd name s) = fst (rd (settings_map s) name (sel s))"
  by (simp add: assign_def case_prod_beta)

lemma update_steps_keep: "list_all (keeps update_keeps) update_steps"
  unfolding update_steps_def list.pred_inject
  by (intro conjI TrueI; simp add: keeps_def assign_snd update_keeps_def settings_ok_def read_number_ok)

lemma Settings_update_keeps: "update_keeps s (snd (Settings_update s))"
proof -
  have "keeps update_keeps Settings_update"
    unfolding Settings_update_def
    by (rule keeps_aforeach [OF update_keeps_reflp update_keeps_transp]) (use update_steps_keep in \<open>simp add: list_all_iff\<close>)
  then show ?thesis by (rule keepsD)
qed

text \<open>Which values an option of each kind accepts.\<close>

definition bool_format :: "string \<Rightarrow> bool" where
  "bool_format v \<longleftrightarrow> v = ''true'' \<or> v = ''false''"

definition number_format :: "num_type \<Rightarrow> string \<Rightarrow> bool" where
  "number_format t v \<longleftrightarrow> fst (string2Int t v 0)"

definition accepts :: "(string \<Rightarrow> bool) \<Rightarrow> string \<Rightarrow> SettingsMap \<Rightarrow> bool" where
  "accepts fmt name m \<longleftrightarrow> (case map_of m name of None \<Rightarrow> True | Some v \<Rightarrow> fmt v)"

definition bool_options :: "string list" where
  "bool_options =
    [''build-fallback'', ''multiplexed-build-output'', ''fsync-metadata'', ''use-sqlite-wal'',
     ''sync-before-registering'', ''build-use-substitutes'', ''build-use-chroot'',
     ''build-impersonate-linux-26'', ''build-keep-log'', ''build-cache-failure'',
     ''gc-check-reachability'', ''gc-keep-outputs'', ''gc-keep-derivations'',
     ''auto-optimise-store'', ''env-keep-derivations'']"

definition number_options :: "(num_type \<times> string) list" where
  "number_options =
    [(U32, ''build-max-jobs''), (U32, ''build-cores''), (S64, ''build-max-silent-time''),
     (S64, ''build-timeout''), (S64, ''gc-reserved-space''), (U64, ''build-max-log-size''),
     (U32, ''build-poll-interval'')]"

lemma string2Int_fst: "fst (string2Int t s n) = fst (string2Int t s m)"
  by (simp add: string2Int_def Let_def case_prod_beta if_distrib [of fst])

lemma read_bool_ok: "fst (read_bool m name res) = Inr () \<longleftrightarrow> accepts bool_format name m"
  by (simp add: read_bool_def accepts_def bool_format_def split: option.splits)

lemma read_number_accepts: "fst (read_number t m name res) = Inr () \<longleftrightarrow> accepts (number_format t) name m"
  using string2Int_fst [of t _ res 0]
  by (simp add: read_number_def accepts_def number_format_def Let_def case_prod_beta split: option.splits)

lemma read_string_ok: "fst (read_string m name res) = Inr ()"
  by (simp add: read_string_def split: option.splits)

definition decided_by :: "(unit, Settings) action \<Rightarrow> (SettingsMap \<Rightarrow> bool) \<Rightarrow> bool" where
  "decided_by step ok \<longleftrightarrow>
     (\<forall>s. settings_map (snd (step s)) = settings_map s \<and> (fst (step s) = Inr () \<longleftrightarrow> ok (settings_map s)))"

lemma decided_by_aforeach:
  assumes "list_all2 decided_by steps oks"
  shows "fst (aforeach steps (\<lambda>step. step) s) = Inr () \<longleftrightarrow> list_all (\<lambda>ok. ok (settings_map s)) oks"
  using assms
proof (induction arbitrary: s rule: list_all2_induct)
  case Nil
  then show ?case by (simp add: action_run)
next
  case (Cons step steps ok oks)
  obtain r t where st: "step s = (r, t)" by (cases "step s")
  have t: "settings_map t = settings_map s" "r = Inr () \<longleftrightarrow> ok (settings_map s)"
    using Cons.hyps(1) st unfolding decided_by_def by (metis fst_conv snd_conv)+
  show ?case
  proof (cases r)
    case Inl
    then show ?thesis using t st by (simp add: abind_def)
  next
    case Inr
    then show ?thesis using Cons.IH [of t] t st by (simp add: abind_def)
  qed
qed

definition update_conditions :: "(SettingsMap \<Rightarrow> bool) list" where
  "update_conditions =
    [accepts bool_format ''build-fallback'', accepts (number_format U32) ''build-max-jobs'',
     accepts (number_format U32) ''build-cores'', (\<lambda>_. True),
     accepts bool_format ''multiplexed-build-output'', accepts (number_format S64) ''build-max-silent-time'',
     accepts (number_format S64) ''build-timeout'', accepts (number_format S64) ''gc-reserved-space'',
     accepts bool_format ''fsync-metadata'', accepts bool_format ''use-sqlite-wal'',
     accepts bool_format ''sync-before-registering'', accepts bool_format ''build-use-substitutes'', (\<lambda>_. True),
     accepts bool_format ''build-use-chroot'', accepts bool_format ''build-impersonate-linux-26'',
     accepts bool_format ''build-keep-log'', accepts (number_format U64) ''build-max-log-size'',
     accepts bool_format ''build-cache-failure'', accepts (number_format U32) ''build-poll-interval'',
     accepts bool_format ''gc-check-reachability'', accepts bool_format ''gc-keep-outputs'',
     accepts bool_format ''gc-keep-derivations'', accepts bool_format ''auto-optimise-store'',
     accepts bool_format ''env-keep-derivations'']"

lemma update_steps_decided: "list_all2 decided_by update_steps update_conditions"
  unfolding update_steps_def update_conditions_def
  by (intro list.rel_intros; simp add: decided_by_def assign_fst assign_snd read_bool_ok read_number_accepts read_string_ok)

section \<open>Properties\<close>


lemma pack_from_eq:
  "pack_from m s = Inr t \<longleftrightarrow>
     (\<forall>(k, v) \<in> set m. CHR 0x0A \<notin> set k \<and> CHR ''='' \<notin> set k \<and> CHR 0x0A \<notin> set v) \<and>
     t = s @ concat (map pack_entry m)"
  by (induction m s rule: pack_from.induct) auto

lemma append_Cons_unique:
  "c \<notin> set xs \<Longrightarrow> c \<notin> set xs' \<Longrightarrow> xs @ c # ys = xs' @ c # ys' \<longleftrightarrow> xs = xs' \<and> ys = ys'"
proof (induction xs arbitrary: xs')
  case (Cons a xs)
  then show ?case by (cases xs') auto
qed (auto simp: Cons_eq_append_conv)

lemma pack_from_inject:
  assumes "\<forall>(k, v) \<in> set m. CHR 0x0A \<notin> set k \<and> CHR ''='' \<notin> set k \<and> CHR 0x0A \<notin> set v"
    and "\<forall>(k, v) \<in> set m'. CHR 0x0A \<notin> set k \<and> CHR ''='' \<notin> set k \<and> CHR 0x0A \<notin> set v"
    and "concat (map pack_entry m) = concat (map pack_entry m')"
  shows "m = m'"
  using assms
proof (induction m arbitrary: m')
  case Nil
  then show ?case by (cases m') (auto simp: pack_entry_def)
next
  case (Cons e m)
  then obtain e' n where m': "m' = e' # n" by (cases m') (auto simp: pack_entry_def)
  have eq: "fst e @ CHR ''='' # (snd e @ CHR 0x0A # concat (map pack_entry m)) =
      fst e' @ CHR ''='' # (snd e' @ CHR 0x0A # concat (map pack_entry n))"
    using Cons.prems(3) m' by (simp add: pack_entry_def [of e] pack_entry_def [of e'])
  have free: "CHR ''='' \<notin> set (fst e)" "CHR ''='' \<notin> set (fst e')" "CHR 0x0A \<notin> set (snd e)" "CHR 0x0A \<notin> set (snd e')"
    using Cons.prems(1,2) m' by (auto simp: case_prod_beta)
  have "fst e = fst e'" "snd e = snd e'" "concat (map pack_entry m) = concat (map pack_entry n)"
    using eq unfolding append_Cons_unique [OF free(1,2)] append_Cons_unique [OF free(3,4)] by simp_all
  moreover have "m = n"
    using Cons.IH [of n] Cons.prems(1,2) m' \<open>concat (map pack_entry m) = concat (map pack_entry n)\<close> by simp
  ultimately show ?case using m' by (simp add: prod_eq_iff)
qed

text \<open>
  C36: The packed form of the options determines the options, and only a newline, or an equals
  sign in a name, keeps options from being packed.
\<close>

theorem pack_faithful:
  assumes "Settings_pack s = Inr t"
  shows "Settings_pack s' = Inr t \<longleftrightarrow> settings_map s' = settings_map s"
proof
  assume "Settings_pack s' = Inr t"
  with assms show "settings_map s' = settings_map s"
    unfolding Settings_pack_def pack_from_eq by (intro pack_from_inject) simp_all
next
  assume "settings_map s' = settings_map s"
  with assms show "Settings_pack s' = Inr t" by (simp add: Settings_pack_def)
qed

theorem pack_faithful_witness:
  "Settings_pack (Settings_set ''a'' ''b=c'' (Settings_init ''i686-linux'' (\<lambda>_. None))) = Inr (''a=b=c'' @ [CHR 0x0A]) \<and>
   Settings_pack (Settings_set ''a'' ''d'' (Settings_init ''i686-linux'' (\<lambda>_. None))) \<noteq> Inr (''a=b=c'' @ [CHR 0x0A])"
proof -
  have pk: "Settings_pack (Settings_set ''a'' ''b=c'' (Settings_init ''i686-linux'' (\<lambda>_. None))) = Inr (''a=b=c'' @ [CHR 0x0A])"
    by (simp add: Settings_pack_def Settings_set_def Settings_init_def pack_entry_def)
  show ?thesis
    using pack_faithful [OF pk] pk by (simp add: Settings_set_def Settings_init_def)
qed

end
