(* ===== verification/StoreApi.thy ===== *)
theory StoreApi
  imports Globals Archive
begin

text \<open>
  Names and addresses of store objects (\<^verbatim>\<open>nix/libstore/store-api.cc\<close>) and the data types of
  \<^verbatim>\<open>store-api.hh\<close>. The directory of the store, \<^verbatim>\<open>settings.nixStore\<close>, is the argument \<open>store\<close>;
  the digest algorithms are those of the \<open>gcrypt\<close> argument.
\<close>

section \<open>Data types\<close>

datatype GCAction = gcReturnLive | gcReturnDead | gcDeleteDead | gcDeleteSpecific

record GCOptions =
  gc_action :: GCAction
  ignoreLiveness :: bool
  pathsToDelete :: "Path oset"
  maxFreed :: "64 word"

definition GCOptions_init :: GCOptions where
  "GCOptions_init =
     \<lparr> gc_action = gcDeleteDead, ignoreLiveness = False, pathsToDelete = [], maxFreed = - 1 \<rparr>"

record GCResults =
  gc_paths :: "Path oset"
  bytesFreed :: "64 word"

definition GCResults_init :: GCResults where
  "GCResults_init = \<lparr> gc_paths = [], bytesFreed = 0 \<rparr>"

record SubstitutablePathInfo =
  sub_deriver :: Path
  sub_references :: "Path oset"
  sub_downloadSize :: "64 word"
  sub_narSize :: "64 word"

record ValidPathInfo =
  vpi_path :: Path
  vpi_deriver :: Path
  vpi_hash :: Hash
  vpi_references :: "Path oset"
  vpi_registrationTime :: int
  vpi_narSize :: "64 word"
  vpi_id :: "64 word"

definition ValidPathInfo_eq :: "ValidPathInfo \<Rightarrow> ValidPathInfo \<Rightarrow> bool" where
  "ValidPathInfo_eq i j \<longleftrightarrow>
     vpi_path i = vpi_path j \<and> Hash_eq (vpi_hash i) (vpi_hash j) \<and> vpi_references i = vpi_references j"

datatype BuildMode = bmNormal | bmRepair | bmCheck

datatype BuildStatus =
    Built | Substituted | AlreadyValid | PermanentFailure | InputRejected | OutputRejected
  | TransientFailure | CachedFailure | TimedOut | MiscFailure | DependencyFailed
  | LogLimitExceeded | NotDeterministic

record BuildResult =
  br_status :: BuildStatus
  br_errorMsg :: string

definition BuildResult_success :: "BuildResult \<Rightarrow> bool" where
  "BuildResult_success r \<longleftrightarrow>
     br_status r = Built \<or> br_status r = Substituted \<or> br_status r = AlreadyValid"

section \<open>Paths in the store\<close>

definition isInStore :: "Path \<Rightarrow> Path \<Rightarrow> bool" where
  "isInStore store path \<longleftrightarrow> isInDir path store"

definition isStorePath :: "Path \<Rightarrow> Path \<Rightarrow> bool" where
  "isStorePath store path \<longleftrightarrow>
     isInStore store path \<and> CHR ''/'' \<notin> set (drop (length store + 1) path)"

definition assertStorePath :: "Path \<Rightarrow> Path \<Rightarrow> unit result" where
  "assertStorePath store path =
     (if \<not> isStorePath store path then Inl (Throw Error ''path is not in the store'') else Inr ())"

definition toStorePath :: "Path \<Rightarrow> Path \<Rightarrow> Path result" where
  "toStorePath store path =
     (if \<not> isInStore store path then Inl (Throw Error ''path is not in the store'')
      else
        (let n = length store + 1; slash = n + length (takeWhile not_slash (drop n path)) in
         if slash = length path then Inr path else Inr (take slash path)))"

definition storePathToName :: "Path \<Rightarrow> Path \<Rightarrow> string result" where
  "storePathToName store path =
     rbind (assertStorePath store path) (\<lambda>_.
       if length store + 34 \<le> length path then Inr (drop (length store + 34) path)
       else Inl (Throw StdException ''out_of_range''))"

definition valid_name_char :: "char \<Rightarrow> bool" where
  "valid_name_char c \<longleftrightarrow>
     CHR ''A'' \<le> c \<and> c \<le> CHR ''Z'' \<or> CHR ''a'' \<le> c \<and> c \<le> CHR ''z'' \<or>
     CHR ''0'' \<le> c \<and> c \<le> CHR ''9'' \<or> c \<in> set ''+-._?=''"

definition checkStoreName :: "string \<Rightarrow> unit result" where
  "checkStoreName name =
     (if take 1 name = ''.'' then Inl (Throw Error ''invalid name (can not begin with dot)'')
      else if \<not> list_all valid_name_char name then Inl (Throw Error ''invalid character in name'')
      else Inr ())"

section \<open>Making store paths\<close>

text \<open>The text whose digest becomes the hash part of a store path.\<close>

definition store_fingerprint :: "Path \<Rightarrow> string \<Rightarrow> Hash \<Rightarrow> string \<Rightarrow> string" where
  "store_fingerprint store type h name =
     type @ '':sha256:'' @ printHash h @ '':'' @ store @ '':'' @ name"

definition makeStorePath :: "gcrypt \<Rightarrow> Path \<Rightarrow> string \<Rightarrow> Hash \<Rightarrow> string \<Rightarrow> Path result" where
  "makeStorePath g store type h name =
     (let s = store_fingerprint store type h name in
      rbind (checkStoreName name) (\<lambda>_.
      rbind (hashString g htSHA256 s) (\<lambda>d.
      Inr (store @ ''/'' @ printHash32 (compressHash d 20) @ ''-'' @ name))))"

definition makeOutputPath :: "gcrypt \<Rightarrow> Path \<Rightarrow> string \<Rightarrow> Hash \<Rightarrow> string \<Rightarrow> Path result" where
  "makeOutputPath g store oid h name =
     makeStorePath g store (''output:'' @ oid) h (name @ (if oid = ''out'' then [] else ''-'' @ oid))"

definition makeFixedOutputPath ::
  "gcrypt \<Rightarrow> Path \<Rightarrow> bool \<Rightarrow> HashType \<Rightarrow> Hash \<Rightarrow> string \<Rightarrow> Path result" where
  "makeFixedOutputPath g store recursive hashAlgo h name =
     (if hashAlgo = htSHA256 \<and> recursive then makeStorePath g store ''source'' h name
      else
        rbind (printHashType hashAlgo) (\<lambda>algo.
        rbind (hashString g htSHA256
          (''fixed:out:'' @ (if recursive then ''r:'' else []) @ algo @ '':'' @ printHash h @ '':'')) (\<lambda>d.
        makeStorePath g store ''output:out'' d name)))"

definition text_type :: "Path oset \<Rightarrow> string" where
  "text_type references = foldl (\<lambda>type r. type @ '':'' @ r) ''text'' references"

definition computeStorePathForText ::
  "gcrypt \<Rightarrow> Path \<Rightarrow> string \<Rightarrow> string \<Rightarrow> Path oset \<Rightarrow> Path result" where
  "computeStorePathForText g store name s references =
     rbind (hashString g htSHA256 s) (\<lambda>h. makeStorePath g store (text_type references) h name)"

section \<open>Printing and reading sets of paths\<close>

fun validity_entry :: "bool \<Rightarrow> bool \<Rightarrow> Path \<Rightarrow> ValidPathInfo \<Rightarrow> string" where
  "validity_entry showDerivers showHash p info =
     p @ [CHR 0x0A] @
     (if showHash then printHash (vpi_hash info) @ [CHR 0x0A] @ show_nat (unat (vpi_narSize info)) @ [CHR 0x0A] else []) @
     (if showDerivers then vpi_deriver info else []) @ [CHR 0x0A] @
     show_nat (length (vpi_references info)) @ [CHR 0x0A] @
     concat (map (\<lambda>r. r @ [CHR 0x0A]) (vpi_references info))"

definition makeValidityRegistration ::
  "(Path \<Rightarrow> ValidPathInfo result) \<Rightarrow> Path oset \<Rightarrow> bool \<Rightarrow> bool \<Rightarrow> string result" where
  "makeValidityRegistration queryPathInfo paths showDerivers showHash =
     rfold (\<lambda>p s. rbind (queryPathInfo p) (\<lambda>info. Inr (s @ validity_entry showDerivers showHash p info))) paths []"

definition showPaths :: "Path oset \<Rightarrow> string" where
  "showPaths paths =
     foldl (\<lambda>s p. s @ (if s \<noteq> [] then '', '' else []) @ ''`'' @ p @ [CHR 0x27]) [] paths"

definition readStorePath :: "Path \<Rightarrow> source \<Rightarrow> (Path \<times> source) result" where
  "readStorePath store from =
     rbind (readString from) (\<lambda>(path, from). rbind (assertStorePath store path) (\<lambda>_. Inr (path, from)))"

definition readStorePaths :: "Path \<Rightarrow> source \<Rightarrow> (Path oset \<times> source) result" where
  "readStorePaths store from =
     rbind (readStringSet from) (\<lambda>(paths, from).
     rbind (rfold (\<lambda>p _. assertStorePath store p) paths ()) (\<lambda>_. Inr (paths, from)))"

section \<open>What a store path looks like\<close>

lemma isStorePath_iff:
  "isStorePath store p \<longleftrightarrow>
     is_absolute p \<and> (\<exists>base. base \<noteq> [] \<and> CHR ''/'' \<notin> set base \<and> p = store @ CHR ''/'' # base)"
  by (auto simp: isStorePath_def isInStore_def isInDir_iff)

lemma assertStorePath_Inr [simp]: "assertStorePath store p = Inr u \<longleftrightarrow> isStorePath store p"
  by (simp add: assertStorePath_def)

lemma checkStoreName_Inr [simp]:
  "checkStoreName name = Inr u \<longleftrightarrow> take 1 name \<noteq> ''.'' \<and> list_all valid_name_char name"
  by (simp add: checkStoreName_def)

lemma valid_name_char_sep: "valid_name_char c \<Longrightarrow> c \<noteq> CHR ''/'' \<and> c \<noteq> CHR '':'' \<and> c \<noteq> CHR 0x00"
  by (auto simp: valid_name_char_def less_eq_char_def)

lemma valid_name_free:
  assumes "list_all valid_name_char name"
  shows "CHR ''/'' \<notin> set name" "CHR '':'' \<notin> set name"
  using assms valid_name_char_sep by (auto simp: list_all_iff)

lemma base32_free: "CHR ''/'' \<notin> set base32Chars" "CHR ''-'' \<notin> set base32Chars"
  by (simp_all add: base32Chars_def)

lemma hash_part:
  "length (printHash32 (compressHash d 20)) = 32" "CHR ''/'' \<notin> set (printHash32 (compressHash d 20))"
  "CHR ''-'' \<notin> set (printHash32 (compressHash d 20))"
  using printHash32_chars [of "compressHash d 20"] base32_free
  by (auto simp: hashLength32_def compressHash_sel)

lemma makeStorePath_Inr:
  "makeStorePath g store type h name = Inr p \<longleftrightarrow>
     checkStoreName name = Inr () \<and>
     (\<exists>d. hashString g htSHA256 (store_fingerprint store type h name) = Inr d \<and>
       p = store @ ''/'' @ printHash32 (compressHash d 20) @ ''-'' @ name)"
  by (auto simp: makeStorePath_def Let_def rbind_Inr_iff)

lemma makeStorePath_succeeds:
  assumes "gcrypt_ok g"
  shows "(\<exists>p. makeStorePath g store type h name = Inr p) \<longleftrightarrow> checkStoreName name = Inr ()"
proof -
  obtain d where "hashString g htSHA256 (store_fingerprint store type h name) = Inr d"
    using hashString_ok [OF assms] by blast
  then show ?thesis unfolding makeStorePath_Inr by blast
qed

lemma makeStorePath_shape:
  assumes "makeStorePath g store type h name = Inr p" "is_absolute store"
  obtains d where "p = store @ CHR ''/'' # printHash32 (compressHash d 20) @ ''-'' @ name"
    "isStorePath store p" "storePathToName store p = Inr name"
proof -
  obtain d where d: "p = store @ CHR ''/'' # printHash32 (compressHash d 20) @ ''-'' @ name"
    and name: "list_all valid_name_char name"
    using assms(1) by (auto simp: makeStorePath_Inr)
  have abs: "is_absolute p" using assms(2) d by (auto simp: is_absolute_def)
  have st: "isStorePath store p"
    unfolding isStorePath_iff using abs d hash_part(2) [of d] valid_name_free(1) [OF name]
    by (intro conjI exI [of _ "printHash32 (compressHash d 20) @ ''-'' @ name"]) auto
  have "drop (length store + 34) p = name" "length store + 34 \<le> length p"
    unfolding d using hash_part(1) [of d] by simp_all
  then have "storePathToName store p = Inr name"
    using st by (simp add: storePathToName_def rbind_Inr_iff)
  with that d st show ?thesis by blast
qed

section \<open>Distinct things get distinct fingerprints\<close>

lemma base16_free: "CHR '':'' \<notin> set base16Chars"
  by (simp add: base16Chars_def)

lemma printHash_free: "CHR '':'' \<notin> set (printHash h)"
proof
  assume "CHR '':'' \<in> set (printHash h)"
  then obtain k where "CHR '':'' = base16Chars ! k" "k < 16"
    using unat_nibbles(1,2) unfolding printHash_def by auto
  moreover have "length base16Chars = 16" by (simp add: base16Chars_def)
  ultimately show False using base16_free nth_mem by metis
qed

lemma split_last_unique:
  assumes "xs @ c # ys = xs' @ c # ys'" "c \<notin> set ys" "c \<notin> set ys'"
  shows "xs = xs' \<and> ys = ys'"
proof -
  have "rev ys @ c # rev xs = rev ys' @ c # rev xs'" using arg_cong [OF assms(1), of rev] by simp
  then show ?thesis using append_Cons_unique [of c "rev ys" "rev ys'"] assms(2,3) by simp
qed

lemma printHash_inject:
  assumes "wf_hash g h" "wf_hash g h'" "htype h = htype h'" "printHash h = printHash h'"
  shows "h = h'"
  using parseHash_printHash [OF assms(1)] parseHash_printHash [OF assms(2)] assms(3,4)
  by (metis sum.inject(2))

lemma store_fingerprint_inject:
  assumes "store_fingerprint store t h n = store_fingerprint store t' h' n'"
    and "CHR '':'' \<notin> set n" "CHR '':'' \<notin> set n'"
  shows "t = t' \<and> printHash h = printHash h' \<and> n = n'"
proof -
  let ?u = "t @ '':sha256:'' @ printHash h @ '':'' @ store"
  let ?u' = "t' @ '':sha256:'' @ printHash h' @ '':'' @ store"
  have "?u @ CHR '':'' # n = ?u' @ CHR '':'' # n'"
    using assms(1) by (simp add: store_fingerprint_def)
  from split_last_unique [OF this assms(2,3)] have n: "n = n'" and u: "?u = ?u'" by blast+
  have "(t @ '':sha256'') @ CHR '':'' # printHash h = (t' @ '':sha256'') @ CHR '':'' # printHash h'"
    using u by simp
  from split_last_unique [OF this printHash_free printHash_free] n show ?thesis by simp
qed

lemma text_type_eq: "text_type refs = ''text'' @ concat (map (\<lambda>r. CHR '':'' # r) refs)"
proof -
  have "foldl (\<lambda>type r. type @ '':'' @ r) t refs = t @ concat (map (\<lambda>r. CHR '':'' # r) refs)" for t
    by (induction refs arbitrary: t) simp_all
  then show ?thesis by (simp add: text_type_def)
qed

lemma text_type_inject:
  assumes "text_type refs = text_type refs'"
    and "\<forall>r \<in> set refs \<union> set refs'. CHR '':'' \<notin> set r"
  shows "refs = refs'"
proof -
  have "concat (map (\<lambda>r. CHR '':'' # r) refs) = concat (map (\<lambda>r. CHR '':'' # r) refs')"
    using assms(1) by (simp add: text_type_eq)
  then show ?thesis using assms(2)
  proof (induction refs arbitrary: refs')
    case Nil
    then show ?case by (cases refs') auto
  next
    case (Cons r refs)
    then obtain s ss where refs': "refs' = s # ss" by (cases refs') auto
    let ?c = "\<lambda>rs. concat (map (\<lambda>r. CHR '':'' # r) rs)"
    have eq: "r @ ?c refs = s @ ?c ss" using Cons.prems(1) refs' by simp
    have free: "CHR '':'' \<notin> set r" "CHR '':'' \<notin> set s" using Cons.prems(2) refs' by auto
    have span: "takeWhile (\<lambda>c. c \<noteq> CHR '':'') (x @ ?c xs) = x" if "CHR '':'' \<notin> set x" for x xs
      using that by (cases xs) (auto simp: takeWhile_append takeWhile_eq_all_conv)
    have "r = s" using arg_cong [OF eq, of "takeWhile (\<lambda>c. c \<noteq> CHR '':'')"] span free by simp
    with eq Cons.IH [of ss] Cons.prems(2) refs' show ?case by simp
  qed
qed

section \<open>Reading paths from a client\<close>

lemma rfold_assert:
  "rfold (\<lambda>p _. assertStorePath store p) paths () = Inr u \<longleftrightarrow> list_all (isStorePath store) paths"
  by (induction paths) (auto simp: rbind_Inr_iff)

lemma readStorePaths_Inr:
  "readStorePaths store from = Inr (paths, rest) \<longleftrightarrow>
     readStringSet from = Inr (paths, rest) \<and> list_all (isStorePath store) paths"
  by (auto simp: readStorePaths_def rbind_Inr_iff rfold_assert)
section \<open>Properties\<close>

text \<open>
  C19: Making a store path fails exactly on a name the store does not allow. Otherwise the result is a path
  directly in the store, of the form hash-name with a hash part of 32 base-32 characters, and
  the name can be read back from it.
\<close>

theorem makeStorePath_wf:
  assumes "gcrypt_ok g" "is_absolute store"
  shows "case makeStorePath g store type h name of
      Inl e \<Rightarrow> checkStoreName name = Inl e
    | Inr p \<Rightarrow> checkStoreName name = Inr () \<and> isStorePath store p \<and> storePathToName store p = Inr name \<and>
        (\<exists>hp. p = store @ ''/'' @ hp @ ''-'' @ name \<and> length hp = 32 \<and> set hp \<subseteq> set base32Chars)"
proof (cases "makeStorePath g store type h name")
  case (Inl e)
  then have "checkStoreName name \<noteq> Inr ()"
    using makeStorePath_succeeds [OF assms(1)] by (metis Inl_Inr_False)
  then obtain e' where "checkStoreName name = Inl e'" by (cases "checkStoreName name") auto
  with Inl show ?thesis by (simp add: makeStorePath_def)
next
  case (Inr p)
  from makeStorePath_shape [OF this assms(2)] obtain d where
    d: "p = store @ CHR ''/'' # printHash32 (compressHash d 20) @ ''-'' @ name"
    and p: "isStorePath store p" "storePathToName store p = Inr name" by blast
  have "checkStoreName name = Inr ()" using Inr unfolding makeStorePath_Inr by blast
  moreover have "\<exists>hp. p = store @ ''/'' @ hp @ ''-'' @ name \<and> length hp = 32 \<and> set hp \<subseteq> set base32Chars"
    using d hash_part(1) [of d] printHash32_chars [of "compressHash d 20"]
    by (intro exI [of _ "printHash32 (compressHash d 20)"]) simp
  ultimately show ?thesis using Inr p by simp
qed

theorem makeStorePath_wf_witness:
  "\<exists>p. makeStorePath sample_gcrypt ''/gnu/store'' ''source'' (sample_hash htSHA256 ''x'') ''hello-2.10'' = Inr p \<and>
     isStorePath ''/gnu/store'' p \<and> storePathToName ''/gnu/store'' p = Inr ''hello-2.10''"
proof -
  have abs: "is_absolute ''/gnu/store''" by (simp add: is_absolute_def)
  have name: "checkStoreName ''hello-2.10'' = Inr ()"
    by (simp add: valid_name_char_def less_eq_char_def)
  show ?thesis
    using makeStorePath_wf [OF sample_gcrypt_ok abs, where type = "''source''" and h = "sample_hash htSHA256 ''x''" and name = "''hello-2.10''"] name
    by (cases "makeStorePath sample_gcrypt ''/gnu/store'' ''source'' (sample_hash htSHA256 ''x'') ''hello-2.10''")
      (simp_all del: checkStoreName_Inr)
qed

text \<open>
  C20: The text that is hashed into a store path determines the kind of object, the digest of its contents and
  its name: objects of different kinds, such as a source and an output, never share it.
\<close>

theorem store_fingerprint_determines:
  assumes "wf_hash g h" "wf_hash g h'" "htype h = htype h'"
    and "checkStoreName n = Inr ()" "checkStoreName n' = Inr ()"
  shows "store_fingerprint store t h n = store_fingerprint store t' h' n' \<longleftrightarrow> t = t' \<and> h = h' \<and> n = n'"
proof
  assume eq: "store_fingerprint store t h n = store_fingerprint store t' h' n'"
  have "CHR '':'' \<notin> set n" "CHR '':'' \<notin> set n'" using assms(4,5) valid_name_free(2) by auto
  from store_fingerprint_inject [OF eq this] printHash_inject [OF assms(1-3)]
  show "t = t' \<and> h = h' \<and> n = n'" by blast
qed simp

theorem store_fingerprint_determines_witness:
  "store_fingerprint ''/gnu/store'' ''source'' (sample_hash htSHA256 ''x'') ''a''
     \<noteq> store_fingerprint ''/gnu/store'' ''output:out'' (sample_hash htSHA256 ''x'') ''a''"
proof -
  have wf: "wf_hash sample_gcrypt (sample_hash htSHA256 ''x'')" by (rule wf_sample_hash) simp
  have name: "checkStoreName ''a'' = Inr ()" by (simp add: valid_name_char_def less_eq_char_def)
  show ?thesis using store_fingerprint_determines [OF wf wf refl name name, of "''/gnu/store''" "''source''" "''output:out''"] by simp
qed

end
