(* ===== verification/References.thy ===== *)
theory References
  imports StoreApi
begin

text \<open>
  Scanning the archive of a path for the hash parts of store paths
  (\<^verbatim>\<open>nix/libstore/references.cc\<close>). A chunk handed to the sink is shorter than 4 GiB, so
  the \<^verbatim>\<open>unsigned int\<close> positions of the scan do not wrap.
\<close>

definition refLength :: nat where
  "refLength = 32"

definition isBase32 :: "char \<Rightarrow> bool" where
  "isBase32 c \<longleftrightarrow> c \<in> set base32Chars"

text \<open>The inner loop: the last position before \<open>j\<close> of the window at \<open>i\<close> with a character outside the alphabet.\<close>

fun scan_back :: "string \<Rightarrow> nat \<Rightarrow> nat \<Rightarrow> nat option" where
  "scan_back s i 0 = None"
| "scan_back s i (Suc j) = (if \<not> isBase32 (s ! (i + j)) then Some j else scan_back s i j)"

function search ::
  "nat \<Rightarrow> string \<Rightarrow> string oset \<Rightarrow> string oset \<Rightarrow> string oset \<times> string oset" where
  "search i s hashes seen =
     (if i + refLength \<le> length s then
        (case scan_back s i refLength of
           Some j \<Rightarrow> search (i + j + 1) s hashes seen
         | None \<Rightarrow>
             let r = take refLength (drop i s) in
             if r \<in> set hashes then search (i + 1) s (oerase r hashes) (oinsert r seen)
             else search (i + 1) s hashes seen)
      else (hashes, seen))"
  by pat_completeness auto
termination
  by (relation "measure (\<lambda>(i, s, _). length s - i)") (auto simp: refLength_def)

declare search.simps [simp del]

record RefScanSink =
  rs_hashSink :: buffered_sink
  rs_hashes :: "string oset"
  rs_seen :: "string oset"
  rs_tail :: string

definition RefScanSink_init :: RefScanSink where
  "RefScanSink_init =
     \<lparr> rs_hashSink = new_BufferedSink (32 * 1024), rs_hashes = [], rs_seen = [], rs_tail = [] \<rparr>"

definition next_tail :: "string \<Rightarrow> string \<Rightarrow> string" where
  "next_tail tail data =
     (let tailLen = (if length data \<le> refLength then length data else refLength) in
      drop (if length tail < refLength - tailLen then 0 else length tail - (refLength - tailLen)) tail @
      drop (length data - tailLen) data)"

definition RefScanSink_call :: "string \<Rightarrow> RefScanSink \<Rightarrow> RefScanSink" where
  "RefScanSink_call data k =
     (let s = rs_tail k @ take (if length data > refLength then refLength else length data) data;
          (hashes, seen) = search 0 s (rs_hashes k) (rs_seen k);
          (hashes, seen) = search 0 data hashes seen
      in \<lparr> rs_hashSink = BufferedSink_call data (rs_hashSink k), rs_hashes = hashes, rs_seen = seen,
           rs_tail = next_tail (rs_tail k) data \<rparr>)"

definition add_ref ::
  "Path \<Rightarrow> string oset \<times> (string, Path) omap \<Rightarrow> (string oset \<times> (string, Path) omap) result" where
  "add_ref p st =
     (case st of (hashes, backMap) \<Rightarrow>
      rbind (baseNameOf p) (\<lambda>baseName.
        let pos = length (takeWhile (\<lambda>c. c \<noteq> CHR ''-'') baseName) in
        if pos = length baseName then Inl (Throw Error ''bad reference'')
        else
          (let s = take pos baseName in
           if length s \<noteq> refLength then Inl (Abort ''s.size() == refLength'')
           else if map_of backMap s \<noteq> None then Inl (Abort ''backMap.find(s) == backMap.end()'')
           else Inr (oinsert s hashes, oput s p backMap))))"

definition map_back :: "(string, Path) omap \<Rightarrow> string \<Rightarrow> Path oset \<Rightarrow> Path oset result" where
  "map_back backMap s found =
     (case map_of backMap s of None \<Rightarrow> Inl (Abort ''abort'') | Some p \<Rightarrow> Inr (oinsert p found))"

definition scanForReferences ::
  "gcrypt \<Rightarrow> Path \<Rightarrow> node \<Rightarrow> Path oset \<Rightarrow> (Path oset \<times> Hash \<times> 64 word) result" where
  "scanForReferences g path n refs =
     rbind (rfold add_ref refs ([], [])) (\<lambda>(hashes, backMap).
     rbind (dumpPath defaultPathFilter path n) (\<lambda>calls.
       let sink = fold RefScanSink_call calls (RefScanSink_init \<lparr> rs_hashes := hashes \<rparr>) in
       rbind (rfold (map_back backMap) (rs_seen sink) []) (\<lambda>found.
       rbind (HashSink_finish g htSHA256 (rs_hashSink sink)) (\<lambda>h. Inr (found, h)))))"

section \<open>Occurrences\<close>

text \<open>A reference occurs in a text when some window of the text is the reference, in base 32.\<close>

definition window :: "string \<Rightarrow> nat \<Rightarrow> string" where
  "window s i = take refLength (drop i s)"

definition occurs_from :: "nat \<Rightarrow> string \<Rightarrow> string \<Rightarrow> bool" where
  "occurs_from i r s \<longleftrightarrow> list_all isBase32 r \<and> (\<exists>k \<ge> i. k + refLength \<le> length s \<and> window s k = r)"

abbreviation occurs :: "string \<Rightarrow> string \<Rightarrow> bool" where
  "occurs r s \<equiv> occurs_from 0 r s"

lemma nth_window: "i + refLength \<le> length s \<Longrightarrow> k < refLength \<Longrightarrow> window s i ! k = s ! (i + k)"
  by (simp add: window_def)

lemma length_window: "i + refLength \<le> length s \<Longrightarrow> length (window s i) = refLength"
  by (simp add: window_def)

lemma scan_back_Some:
  "scan_back s i m = Some j \<Longrightarrow> j < m \<and> \<not> isBase32 (s ! (i + j))"
  by (induction m) (auto split: if_splits)

lemma scan_back_None: "scan_back s i m = None \<longleftrightarrow> (\<forall>j < m. isBase32 (s ! (i + j)))"
  by (induction m) (auto simp: less_Suc_eq)

lemma window_base32:
  "i + refLength \<le> length s \<Longrightarrow> list_all isBase32 (window s i) \<longleftrightarrow> scan_back s i refLength = None"
  unfolding scan_back_None list_all_length using length_window nth_window by auto

lemma occurs_from_skip:
  assumes "i + refLength \<le> length s" "scan_back s i refLength = Some j"
  shows "occurs_from i r s \<longleftrightarrow> occurs_from (i + j + 1) r s"
proof
  assume "occurs_from i r s"
  then obtain k where k: "list_all isBase32 r" "i \<le> k" "k + refLength \<le> length s" "window s k = r"
    by (auto simp: occurs_from_def)
  have j: "j < refLength" "\<not> isBase32 (s ! (i + j))" using scan_back_Some [OF assms(2)] by auto
  have "i + j < k"
  proof (rule ccontr)
    assume "\<not> i + j < k"
    then have "i + j - k < refLength" "k + (i + j - k) = i + j" using k(2) j(1) by auto
    then have "isBase32 (s ! (i + j))"
      using k(1,4) nth_window [OF k(3)] length_window [OF k(3)] by (metis list_all_length)
    with j(2) show False ..
  qed
  with k show "occurs_from (i + j + 1) r s"
    unfolding occurs_from_def by (intro conjI exI [of _ k]) simp_all
next
  assume "occurs_from (i + j + 1) r s"
  then obtain k where "list_all isBase32 r" "i + j + 1 \<le> k" "k + refLength \<le> length s" "window s k = r"
    by (auto simp: occurs_from_def)
  then show "occurs_from i r s" unfolding occurs_from_def by (intro conjI exI [of _ k]) simp_all
qed

lemma occurs_from_step:
  assumes "i + refLength \<le> length s" "scan_back s i refLength = None"
  shows "occurs_from i r s \<longleftrightarrow> r = window s i \<or> occurs_from (i + 1) r s"
proof -
  have "list_all isBase32 (window s i)" using window_base32 assms by blast
  moreover have "(\<exists>k \<ge> i. P k) \<longleftrightarrow> P i \<or> (\<exists>k \<ge> i + 1. P k)" for P
    by (metis Suc_eq_plus1 Suc_leD le_refl not_less_eq_eq order_antisym_conv)
  ultimately show ?thesis unfolding occurs_from_def using assms(1) by auto
qed

lemma occurs_from_end: "\<not> i + refLength \<le> length s \<Longrightarrow> \<not> occurs_from i r s"
  by (auto simp: occurs_from_def)

lemma search_result:
  assumes "search i s hashes seen = (hashes', seen')" "is_oset hashes" "is_oset seen"
  shows "set seen' = set seen \<union> {r \<in> set hashes. occurs_from i r s} \<and>
    set hashes' = {r \<in> set hashes. \<not> occurs_from i r s} \<and> is_oset hashes' \<and> is_oset seen'"
  using assms
proof (induction i s hashes seen arbitrary: hashes' seen' rule: search.induct)
  case (1 i s hashes seen)
  show ?case
  proof (cases "i + refLength \<le> length s")
    case False
    then show ?thesis using 1(4-6) occurs_from_end [OF False] by (auto simp: search.simps [of i])
  next
    case True
    show ?thesis
    proof (cases "scan_back s i refLength")
      case (Some j)
      then show ?thesis
        using 1(3) [OF True Some] 1(4-6) True occurs_from_skip [OF True Some]
        by (simp add: search.simps [of i])
    next
      case None
      show ?thesis
      proof (cases "window s i \<in> set hashes")
        case w: True
        then have eq: "search (i + 1) s (oerase (window s i) hashes) (oinsert (window s i) seen) = (hashes', seen')"
          using 1(4) True None by (simp add: search.simps [of i] window_def Let_def)
        note ih = 1(1) [OF True None refl, folded window_def, OF w eq]
        show ?thesis using ih 1(5,6) w occurs_from_step [OF True None] by auto
      next
        case w: False
        then have eq: "search (i + 1) s hashes seen = (hashes', seen')"
          using 1(4) True None by (simp add: search.simps [of i] window_def Let_def)
        note ih = 1(2) [OF True None refl, folded window_def, OF w eq 1(5,6)]
        show ?thesis using ih w occurs_from_step [OF True None] by auto
      qed
    qed
  qed
qed

section \<open>Scanning in chunks\<close>

definition last_part :: "string \<Rightarrow> string" where
  "last_part t = drop (length t - refLength) t"

lemma window_slice:
  assumes "i + refLength \<le> length (take m (drop a s))"
  shows "window (take m (drop a s)) i = window s (a + i)" "a + i + refLength \<le> length s"
proof -
  show "a + i + refLength \<le> length s" using assms by (simp add: refLength_def) linarith
  have "i + refLength \<le> m" using assms by simp
  then show "window (take m (drop a s)) i = window s (a + i)"
    by (simp add: window_def drop_take add.commute)
qed

lemma occurs_slice: "occurs r (take m (drop a s)) \<Longrightarrow> occurs r s"
  unfolding occurs_from_def using window_slice by (metis le0)

lemma occurs_in_slice:
  assumes "list_all isBase32 r" "window s k = r" "a \<le> k" "k + refLength \<le> a + m" "k + refLength \<le> length s"
  shows "occurs r (take m (drop a s))"
proof -
  have len: "k - a + refLength \<le> length (take m (drop a s))" using assms(3-5) by simp linarith
  have "window (take m (drop a s)) (k - a) = r" using window_slice(1) [OF len] assms(2,3) by simp
  with len assms(1) show ?thesis unfolding occurs_from_def by blast
qed

lemma occurs_chunk:
  "occurs r (t @ data) \<longleftrightarrow> occurs r t \<or> occurs r (last_part t @ take refLength data) \<or> occurs r data"
proof -
  let ?s = "t @ data" and ?a = "length t - refLength"
  have t: "t = take (length t) (drop 0 ?s)" and d: "data = take (length data) (drop (length t) ?s)" by simp_all
  have mid: "last_part t @ take refLength data = take (length t - ?a + refLength) (drop ?a ?s)"
    by (simp add: last_part_def)
  have "occurs r t \<or> occurs r (last_part t @ take refLength data) \<or> occurs r data" if occ: "occurs r ?s"
  proof -
    obtain k where k: "list_all isBase32 r" "window ?s k = r" "k + refLength \<le> length ?s"
      using occ unfolding occurs_from_def by blast
    consider "k + refLength \<le> length t" | "length t \<le> k" | "k < length t" "length t < k + refLength" by linarith
    then show ?thesis
    proof cases
      case 1
      then have "occurs r (take (length t) (drop 0 ?s))" by (intro occurs_in_slice [OF k(1,2) _ _ k(3)]) simp_all
      then show ?thesis using t by simp
    next
      case 2
      then have "occurs r (take (length data) (drop (length t) ?s))"
        using k(3) by (intro occurs_in_slice [OF k(1,2) _ _ k(3)]) simp_all
      then show ?thesis by simp
    next
      case 3
      then have "occurs r (take (length t - ?a + refLength) (drop ?a ?s))"
        by (intro occurs_in_slice [OF k(1,2) _ _ k(3)]) linarith+
      then show ?thesis using mid by simp
    qed
  qed
  moreover have "occurs r ?s" if "occurs r t" using that t occurs_slice by metis
  moreover have "occurs r ?s" if "occurs r data" using that d occurs_slice by metis
  moreover have "occurs r ?s" if "occurs r (last_part t @ take refLength data)"
    using that unfolding mid by (rule occurs_slice)
  ultimately show ?thesis by blast
qed

lemma next_tail_last_part: "next_tail (last_part t) data = last_part (t @ data)"
  by (auto simp: next_tail_def last_part_def Let_def)

text \<open>What the sink knows after the text \<open>t\<close>, having been asked for the hashes \<open>H\<close>.\<close>

definition scanned :: "string set \<Rightarrow> string \<Rightarrow> RefScanSink \<Rightarrow> bool" where
  "scanned H t k \<longleftrightarrow>
     set (rs_seen k) = {r \<in> H. occurs r t} \<and> set (rs_hashes k) = {r \<in> H. \<not> occurs r t} \<and>
     is_oset (rs_seen k) \<and> is_oset (rs_hashes k) \<and> rs_tail k = last_part t"

lemma RefScanSink_call_scanned:
  assumes "scanned H t k"
  shows "scanned H (t @ data) (RefScanSink_call data k)"
proof -
  have pre: "take (if length data > refLength then refLength else length data) data = take refLength data" by simp
  obtain h1 s1 where 1: "search 0 (rs_tail k @ take refLength data) (rs_hashes k) (rs_seen k) = (h1, s1)" by (rule prod.exhaust)
  obtain h2 s2 where 2: "search 0 data h1 s1 = (h2, s2)" by (rule prod.exhaust)
  have k: "is_oset (rs_hashes k)" "is_oset (rs_seen k)" using assms by (auto simp: scanned_def)
  note r1 = search_result [OF 1 k]
  have os: "is_oset h1" "is_oset s1" using r1 by auto
  note r2 = search_result [OF 2 os]
  have fields: "rs_hashes (RefScanSink_call data k) = h2" "rs_seen (RefScanSink_call data k) = s2"
    "rs_tail (RefScanSink_call data k) = next_tail (rs_tail k) data"
    by (simp_all add: RefScanSink_call_def pre 1 2 Let_def)
  have tail: "rs_tail k = last_part t" using assms by (simp add: scanned_def)
  have start: "set (rs_seen k) = {r \<in> H. occurs r t}" "set (rs_hashes k) = {r \<in> H. \<not> occurs r t}"
    using assms by (simp_all add: scanned_def)
  have s1: "set s1 = {r \<in> H. occurs r t} \<union> {r \<in> H. \<not> occurs r t \<and> occurs r (last_part t @ take refLength data)}"
    "set h1 = {r \<in> H. \<not> occurs r t \<and> \<not> occurs r (last_part t @ take refLength data)}"
    using r1 unfolding start tail by blast+
  have "set s2 = {r \<in> H. occurs r (t @ data)}" "set h2 = {r \<in> H. \<not> occurs r (t @ data)}"
    using r2 unfolding s1 occurs_chunk [of _ t data] by blast+
  with r2 show ?thesis unfolding scanned_def fields by (simp add: tail next_tail_last_part)
qed

lemma fold_RefScanSink_scanned:
  "scanned H t k \<Longrightarrow> scanned H (t @ concat calls) (fold RefScanSink_call calls k)"
  using RefScanSink_call_scanned by (induction calls arbitrary: t k) (auto simp flip: append_assoc)

lemma rs_hashSink_fold:
  "rs_hashSink (fold RefScanSink_call calls k) = fold BufferedSink_call calls (rs_hashSink k)"
  by (induction calls arbitrary: k) (simp_all add: RefScanSink_call_def Let_def case_prod_beta)

lemma scanned_init: "is_oset H \<Longrightarrow> scanned (set H) [] (RefScanSink_init \<lparr> rs_hashes := H \<rparr>)"
  by (simp add: scanned_def RefScanSink_init_def last_part_def occurs_from_def refLength_def)

section \<open>From hashes to paths\<close>

text \<open>The path \<open>p\<close> is a reference with hash part \<open>s\<close>.\<close>

definition has_hash_part :: "Path \<Rightarrow> string \<Rightarrow> bool" where
  "has_hash_part p s \<longleftrightarrow> length s = refLength \<and>
     (\<exists>name. baseNameOf p = Inr (s @ CHR ''-'' # name)) \<and> CHR ''-'' \<notin> set s"

lemma has_hash_part_unique: "has_hash_part p s \<Longrightarrow> has_hash_part p s' \<Longrightarrow> s' = s"
  by (auto simp: has_hash_part_def)

lemma add_ref_ok:
  assumes "has_hash_part p s" "map_of backMap s = None"
  shows "add_ref p (hashes, backMap) = Inr (oinsert s hashes, oput s p backMap)"
proof -
  obtain name where base: "baseNameOf p = Inr (s @ CHR ''-'' # name)" and s: "CHR ''-'' \<notin> set s" "length s = refLength"
    using assms(1) by (auto simp: has_hash_part_def)
  have "takeWhile (\<lambda>c. c \<noteq> CHR ''-'') (s @ CHR ''-'' # name) = s"
    using s(1) by (subst takeWhile_append2) auto
  with base s(2) assms(2) show ?thesis by (simp add: add_ref_def)
qed

lemma add_refs_ok:
  assumes "list_all2 has_hash_part refs ss" "distinct ss" "set ss \<inter> dom (map_of backMap) = {}"
  shows "\<exists>hashes' backMap'. rfold add_ref refs (hashes, backMap) = Inr (hashes', backMap') \<and>
    set hashes' = set hashes \<union> set ss \<and> (is_oset hashes \<longrightarrow> is_oset hashes') \<and>
    map_of backMap' = map_of backMap ++ map_of (zip ss refs)"
  using assms
proof (induction arbitrary: hashes backMap rule: list_all2_induct)
  case Nil
  then show ?case by simp
next
  case (Cons p refs s ss)
  have new: "map_of backMap s = None" using Cons.prems by (auto simp: domIff)
  have dom: "set ss \<inter> dom (map_of (oput s p backMap)) = {}" using Cons.prems by auto
  have s: "map_of (zip ss refs) s = None"
    using Cons.prems(1) by (auto simp: map_of_eq_None_iff dest: set_zip_leftD)
  from Cons.IH [OF _ dom, of "oinsert s hashes"] Cons.prems(1) obtain hashes' backMap' where
    ih: "rfold add_ref refs (oinsert s hashes, oput s p backMap) = Inr (hashes', backMap')"
    "set hashes' = set (oinsert s hashes) \<union> set ss" "is_oset (oinsert s hashes) \<longrightarrow> is_oset hashes'"
    "map_of backMap' = map_of (oput s p backMap) ++ map_of (zip ss refs)"
    by (simp del: map_of_oput set_oinsert) blast
  have bm: "map_of backMap' = map_of backMap ++ map_of (zip (s # ss) (p # refs))"
    unfolding ih(4) using s by (auto simp: map_add_def fun_eq_iff split: option.splits)
  have run: "rfold add_ref (p # refs) (hashes, backMap) = Inr (hashes', backMap')"
    using ih(1) add_ref_ok [OF Cons.hyps(1) new] by simp
  have "set hashes' = set hashes \<union> set (s # ss)" using ih(2) by auto
  with run bm ih(3) is_oset_oinsert show ?case by blast
qed

lemma map_back_ok:
  assumes "set ss \<subseteq> dom (map_of backMap)"
  shows "\<exists>found'. rfold (map_back backMap) ss found = Inr found' \<and>
    set found' = set found \<union> {p. \<exists>s \<in> set ss. map_of backMap s = Some p} \<and> (is_oset found \<longrightarrow> is_oset found')"
  using assms
proof (induction ss arbitrary: found)
  case (Cons s ss)
  then obtain p where "map_of backMap s = Some p" by auto
  with Cons.IH [of "oinsert p found"] Cons.prems show ?case by (auto simp: map_back_def)
qed simp
section \<open>Properties\<close>



text \<open>
  C3: Scanning a file tree for candidate references with distinct hash parts never aborts: the result is the set of those
  candidates whose hash part occurs in the archive of the tree, with the hash and size of that archive.
\<close>

theorem scanForReferences_exact:
  assumes "dumpPath defaultPathFilter path n = Inr calls" "hashString g htSHA256 (concat calls) = Inr h"
    and "list_all2 has_hash_part refs ss" "distinct ss"
  shows "\<exists>found. scanForReferences g path n refs = Inr (found, h, word_of_nat (length (concat calls))) \<and>
    is_oset found \<and> set found = {p. \<exists>s. (p, s) \<in> set (zip refs ss) \<and> occurs s (concat calls)}"
proof -
  from add_refs_ok [OF assms(3,4), of "[]" "[]"] obtain hashes backMap where
    1: "rfold add_ref refs ([], []) = Inr (hashes, backMap)" "set hashes = set ss" "is_oset hashes"
      "map_of backMap = map_of (zip ss refs)" by auto
  define k where "k = fold RefScanSink_call calls (RefScanSink_init \<lparr> rs_hashes := hashes \<rparr>)"
  have seen: "set (rs_seen k) = {r \<in> set ss. occurs r (concat calls)}"
    using fold_RefScanSink_scanned [OF scanned_init [OF 1(3)], of calls] 1(2)
    by (simp add: scanned_def k_def)
  have fin: "HashSink_finish g htSHA256 (rs_hashSink k) = Inr (h, word_of_nat (length (concat calls)))"
    using assms(2) by (simp add: k_def rs_hashSink_fold RefScanSink_init_def HashSink_chunks)
  have len: "length ss = length refs" using assms(3) by (simp add: list_all2_lengthD)
  have dom: "set (rs_seen k) \<subseteq> dom (map_of backMap)"
    using len unfolding seen 1(4) by (auto simp: dom_map_of_zip)
  from map_back_ok [OF dom, of "[]"] obtain found where
    2: "rfold (map_back backMap) (rs_seen k) [] = Inr found" "is_oset found"
      "set found = {p. \<exists>s \<in> set (rs_seen k). map_of backMap s = Some p}" by auto
  have "map_of backMap s = Some p \<longleftrightarrow> (p, s) \<in> set (zip refs ss)" for s p
    unfolding 1(4) using assms(4) len by (subst map_of_eq_Some_iff) (auto simp: in_set_zip)
  then have "set found = {p. \<exists>s. (p, s) \<in> set (zip refs ss) \<and> occurs s (concat calls)}"
    unfolding 2(3) seen by (auto dest: set_zip_rightD)
  moreover have "scanForReferences g path n refs = Inr (found, h, word_of_nat (length (concat calls)))"
    using 1(1) 2(1) assms(1) fin by (simp add: scanForReferences_def Let_def k_def)
  ultimately show ?thesis using 2(2) by blast
qed

theorem scanForReferences_exact_witness:
  "\<exists>calls h found. dumpPath defaultPathFilter ''/x'' (Symlink ''/s/0123456789abcdfghijklmnpqrsvwxyz-a'') = Inr calls \<and>
     scanForReferences sample_gcrypt ''/x'' (Symlink ''/s/0123456789abcdfghijklmnpqrsvwxyz-a'')
       [''/s/0123456789abcdfghijklmnpqrsvwxyz-a''] = Inr (found, h, word_of_nat (length (concat calls)))"
proof -
  let ?p = "''/s/0123456789abcdfghijklmnpqrsvwxyz-a''" and ?s = "''0123456789abcdfghijklmnpqrsvwxyz''"
  obtain calls where calls: "dumpPath defaultPathFilter ''/x'' (Symlink ?p) = Inr calls"
    by (simp only: dumpPath_def dump.simps rbind_simps sum.inject)
  obtain h where h: "hashString sample_gcrypt htSHA256 (concat calls) = Inr h"
    using hashString_ok [OF sample_gcrypt_ok, of htSHA256] by blast
  have "baseNameOf ?p = Inr (?s @ CHR ''-'' # ''a'')"
    using dirOf_baseNameOf(2) [of "?s @ CHR ''-'' # ''a''" "''/s''"] by simp
  then have "list_all2 has_hash_part [?p] [?s]" by (simp add: has_hash_part_def refLength_def)
  from scanForReferences_exact [OF calls h this] calls show ?thesis by (metis distinct_singleton)
qed

end
