(* ===== verification/Derivations.thy ===== *)
theory Derivations
  imports StoreApi
begin

text \<open>
  Derivations (\<^verbatim>\<open>nix/libstore/derivations.cc\<close>): their abstract syntax, the printer and the parser of their
  textual form, and the hash of a derivation modulo its fixed-output inputs. A parser
  may fail to return (\<open>None\<close>), because \<open>parseString\<close> may.
\<close>

section \<open>Abstract syntax\<close>

definition drvExtension :: string where
  "drvExtension = ''.drv''"

record DerivationOutput =
  do_path :: Path
  do_hashAlgo :: string
  do_hash :: string

type_synonym DerivationOutputs = "(string, DerivationOutput) omap"
type_synonym DerivationInputs = "(Path, string oset) omap"
type_synonym StringPairs = "(string, string) omap"

record Derivation =
  drv_outputs :: DerivationOutputs
  inputDrvs :: DerivationInputs
  inputSrcs :: "Path oset"
  platform :: string
  builder :: Path
  drv_args :: "string list"
  drv_env :: StringPairs

definition parseHashInfo :: "gcrypt \<Rightarrow> DerivationOutput \<Rightarrow> (bool \<times> HashType \<times> Hash) result" where
  "parseHashInfo g out =
     (let recursive = (take 2 (do_hashAlgo out) = ''r:'');
          algo = (if recursive then drop 2 (do_hashAlgo out) else do_hashAlgo out);
          hashType = parseHashType algo
      in if hashType = htUnknown then Inl (Throw Error ''unknown hash algorithm'')
         else rbind (parseHash g hashType (do_hash out)) (\<lambda>h. Inr (recursive, hashType, h)))"

section \<open>The parser\<close>

definition pbind :: "'a result option \<Rightarrow> ('a \<Rightarrow> 'b result option) \<Rightarrow> 'b result option" where
  "pbind m f = (case m of None \<Rightarrow> None | Some (Inl e) \<Rightarrow> Some (Inl e) | Some (Inr x) \<Rightarrow> f x)"

lemma pbind_simps [simp]:
  "pbind None f = None" "pbind (Some (Inl e)) f = Some (Inl e)" "pbind (Some (Inr x)) f = f x"
  by (simp_all add: pbind_def)

lemma pbind_Inr:
  "pbind m f = Some (Inr y) \<longleftrightarrow> (\<exists>x. m = Some (Inr x) \<and> f x = Some (Inr y))"
  by (auto simp: pbind_def split: option.splits sum.splits)

definition parsePath :: "string \<Rightarrow> (Path \<times> string) result option" where
  "parsePath str =
     pbind (parseString str) (\<lambda>(s, str).
       if s = [] \<or> hd s \<noteq> CHR ''/'' then Some (Inl (Throw FormatError ''bad path in derivation''))
       else Some (Inr (s, str)))"

text \<open>The loops \<^verbatim>\<open>while (!endOfList(str))\<close>, each with what it does to an item.\<close>

partial_function (option) parse_list ::
  "(string \<Rightarrow> ('a \<times> string) result option) \<Rightarrow> ('a \<Rightarrow> 'b \<Rightarrow> 'b) \<Rightarrow> 'b \<Rightarrow> string \<Rightarrow> ('b \<times> string) result option"
where
  [code]: "parse_list item add acc str =
     (case endOfList str of (done, str1) \<Rightarrow>
        if done then Some (Inr (acc, str1))
        else (case item str1 of
                None \<Rightarrow> None
              | Some r \<Rightarrow>
                  (case r of
                     Inl e \<Rightarrow> Some (Inl e)
                   | Inr (x, str2) \<Rightarrow> parse_list item add (add x acc) str2)))"

definition parseStrings :: "bool \<Rightarrow> string \<Rightarrow> (string oset \<times> string) result option" where
  "parseStrings arePaths str = parse_list (if arePaths then parsePath else parseString) oinsert [] str"

definition parse_output :: "string \<Rightarrow> ((string \<times> DerivationOutput) \<times> string) result option" where
  "parse_output str =
     pbind (Some (expect ''('' str)) (\<lambda>str. pbind (parseString str) (\<lambda>(oid, str).
     pbind (Some (expect '','' str)) (\<lambda>str. pbind (parsePath str) (\<lambda>(path, str).
     pbind (Some (expect '','' str)) (\<lambda>str. pbind (parseString str) (\<lambda>(hashAlgo, str).
     pbind (Some (expect '','' str)) (\<lambda>str. pbind (parseString str) (\<lambda>(h, str).
     pbind (Some (expect '')'' str)) (\<lambda>str.
     Some (Inr ((oid, \<lparr> do_path = path, do_hashAlgo = hashAlgo, do_hash = h \<rparr>), str)))))))))))"

definition parse_input :: "string \<Rightarrow> ((Path \<times> string oset) \<times> string) result option" where
  "parse_input str =
     pbind (Some (expect ''('' str)) (\<lambda>str. pbind (parsePath str) (\<lambda>(drvPath, str).
     pbind (Some (expect '',['' str)) (\<lambda>str. pbind (parseStrings False str) (\<lambda>(outs, str).
     pbind (Some (expect '')'' str)) (\<lambda>str. Some (Inr ((drvPath, outs), str)))))))"

definition parse_variable :: "string \<Rightarrow> ((string \<times> string) \<times> string) result option" where
  "parse_variable str =
     pbind (Some (expect ''('' str)) (\<lambda>str. pbind (parseString str) (\<lambda>(name, str).
     pbind (Some (expect '','' str)) (\<lambda>str. pbind (parseString str) (\<lambda>(v, str).
     pbind (Some (expect '')'' str)) (\<lambda>str. Some (Inr ((name, v), str)))))))"

definition parseDerivation :: "string \<Rightarrow> Derivation result option" where
  "parseDerivation s =
     pbind (Some (expect ''Derive(['' s)) (\<lambda>str.
     pbind (parse_list parse_output (\<lambda>(k, v). oput k v) [] str) (\<lambda>(outs, str).
     pbind (Some (expect '',['' str)) (\<lambda>str.
     pbind (parse_list parse_input (\<lambda>(k, v). oput k v) [] str) (\<lambda>(ins, str).
     pbind (Some (expect '',['' str)) (\<lambda>str. pbind (parseStrings True str) (\<lambda>(srcs, str).
     pbind (Some (expect '','' str)) (\<lambda>str. pbind (parseString str) (\<lambda>(plat, str).
     pbind (Some (expect '','' str)) (\<lambda>str. pbind (parseString str) (\<lambda>(bld, str).
     pbind (Some (expect '',['' str)) (\<lambda>str.
     pbind (parse_list parseString (\<lambda>x xs. xs @ [x]) [] str) (\<lambda>(args, str).
     pbind (Some (expect '',['' str)) (\<lambda>str.
     pbind (parse_list parse_variable (\<lambda>(k, v). oput k v) [] str) (\<lambda>(env, str).
     pbind (Some (expect '')'' str)) (\<lambda>str.
     Some (Inr \<lparr> drv_outputs = outs, inputDrvs = ins, inputSrcs = srcs, platform = plat,
       builder = bld, drv_args = args, drv_env = env \<rparr>))))))))))))))))"

definition readDerivation :: "(Path \<Rightarrow> string result) \<Rightarrow> Path \<Rightarrow> Derivation result option" where
  "readDerivation readFile drvPath =
     (case readFile drvPath of
        Inl (Throw FormatError m) \<Rightarrow> Some (Inl (Throw Error ''error parsing derivation''))
      | Inl e \<Rightarrow> Some (Inl e)
      | Inr s \<Rightarrow>
          (case parseDerivation s of
             Some (Inl (Throw FormatError m)) \<Rightarrow> Some (Inl (Throw Error ''error parsing derivation''))
           | r \<Rightarrow> r))"

section \<open>The printer\<close>

text \<open>\<open>printString\<close> walks over the C string, that is, up to the first zero byte.\<close>

definition print_char :: "char \<Rightarrow> string" where
  "print_char c =
     (if c = CHR 0x22 \<or> c = CHR 0x5C then [CHR 0x5C, c]
      else if c = CHR 0x0A then [CHR 0x5C, CHR ''n'']
      else if c = CHR 0x0D then [CHR 0x5C, CHR ''r'']
      else if c = CHR 0x09 then [CHR 0x5C, CHR ''t'']
      else [c])"

definition printString :: "string \<Rightarrow> string" where
  "printString s =
     [CHR 0x22] @ concat (map print_char (takeWhile (\<lambda>c. c \<noteq> CHR 0x00) s)) @ [CHR 0x22]"

fun print_items :: "bool \<Rightarrow> ('a \<Rightarrow> string) \<Rightarrow> 'a list \<Rightarrow> string" where
  "print_items first f [] = []"
| "print_items first f (x # xs) = (if first then [] else '','') @ f x @ print_items False f xs"

definition printStrings :: "string list \<Rightarrow> string" where
  "printStrings ss = ''['' @ print_items True printString ss @ '']''"

definition print_output :: "string \<times> DerivationOutput \<Rightarrow> string" where
  "print_output e =
     ''('' @ printString (fst e) @ '','' @ printString (do_path (snd e)) @ '','' @
     printString (do_hashAlgo (snd e)) @ '','' @ printString (do_hash (snd e)) @ '')''"

definition print_input :: "Path \<times> string oset \<Rightarrow> string" where
  "print_input e = ''('' @ printString (fst e) @ '','' @ printStrings (snd e) @ '')''"

definition print_variable :: "string \<times> string \<Rightarrow> string" where
  "print_variable e = ''('' @ printString (fst e) @ '','' @ printString (snd e) @ '')''"

definition unparseDerivation :: "Derivation \<Rightarrow> string" where
  "unparseDerivation drv =
     ''Derive(['' @ print_items True print_output (drv_outputs drv) @
     ''],['' @ print_items True print_input (inputDrvs drv) @
     ''],'' @ printStrings (inputSrcs drv) @
     '','' @ printString (platform drv) @ '','' @ printString (builder drv) @
     '','' @ printStrings (drv_args drv) @
     '',['' @ print_items True print_variable (drv_env drv) @ ''])''"

section \<open>Helpers\<close>

definition isDerivation :: "string \<Rightarrow> bool" where
  "isDerivation fileName \<longleftrightarrow> hasSuffix fileName drvExtension"

definition isFixedOutputDrv :: "Derivation \<Rightarrow> bool" where
  "isFixedOutputDrv drv \<longleftrightarrow>
     length (drv_outputs drv) = 1 \<and> fst (hd (drv_outputs drv)) = ''out'' \<and>
     do_hash (snd (hd (drv_outputs drv))) \<noteq> []"

definition parseDrvPathWithOutputs :: "string \<Rightarrow> string \<times> string oset" where
  "parseDrvPathWithOutputs s =
     (let n = length (takeWhile (\<lambda>c. c \<noteq> CHR ''!'') s) in
      if n = length s then (s, [])
      else (take n s, oinsert_all (tokenizeString (drop (n + 1) s) '','') []))"

definition makeDrvPathWithOutputs :: "Path \<Rightarrow> string oset \<Rightarrow> Path" where
  "makeDrvPathWithOutputs drvPath outs =
     (if outs = [] then drvPath else drvPath @ ''!'' @ concatStringsSep '','' outs)"

definition wantOutput :: "string \<Rightarrow> string oset \<Rightarrow> bool" where
  "wantOutput out wanted \<longleftrightarrow> wanted = [] \<or> out \<in> set wanted"

definition outputPaths :: "Derivation \<Rightarrow> Path oset" where
  "outputPaths drv = oinsert_all (map (\<lambda>(_, out). do_path out) (drv_outputs drv)) []"

section \<open>The hash of a derivation\<close>

text \<open>
  \<open>drvHashes\<close> remembers the hashes computed so far; looking a path up creates an entry
  with a null hash. The recursion over input derivations is bounded by fuel.
\<close>

type_synonym DrvHashes = "(Path, Hash) omap"

definition hash_of_input ::
  "(Path \<Rightarrow> bool) \<Rightarrow> (Path \<Rightarrow> string result) \<Rightarrow>
   (Derivation \<Rightarrow> DrvHashes \<Rightarrow> (Hash result \<times> DrvHashes) option) \<Rightarrow>
   Path \<Rightarrow> DrvHashes \<Rightarrow> (Hash result \<times> DrvHashes) option" where
  "hash_of_input isValidPath readFile recur p memo =
     (let h = (case map_of memo p of None \<Rightarrow> Hash_null | Some h \<Rightarrow> h);
          memo = (case map_of memo p of None \<Rightarrow> oput p Hash_null memo | Some _ \<Rightarrow> memo)
      in
      if htype h = htUnknown then
        (if \<not> isValidPath p then Some (Inl (Abort ''store.isValidPath(i->first)''), memo)
         else
           (case readDerivation readFile p of
              None \<Rightarrow> None
            | Some (Inl e) \<Rightarrow> Some (Inl e, memo)
            | Some (Inr drv2) \<Rightarrow>
                (case recur drv2 memo of
                   None \<Rightarrow> None
                 | Some (Inl e, memo) \<Rightarrow> Some (Inl e, memo)
                 | Some (Inr h, memo) \<Rightarrow> Some (Inr h, oput p h memo))))
      else Some (Inr h, memo))"

fun hash_inputs ::
  "(Path \<Rightarrow> DrvHashes \<Rightarrow> (Hash result \<times> DrvHashes) option) \<Rightarrow> DerivationInputs \<Rightarrow> DerivationInputs \<Rightarrow>
   DrvHashes \<Rightarrow> (DerivationInputs result \<times> DrvHashes) option" where
  "hash_inputs f [] inputs2 memo = Some (Inr inputs2, memo)"
| "hash_inputs f ((p, outs) # ins) inputs2 memo =
     (case f p memo of
        None \<Rightarrow> None
      | Some (Inl e, memo) \<Rightarrow> Some (Inl e, memo)
      | Some (Inr h, memo) \<Rightarrow> hash_inputs f ins (oput (printHash h) outs inputs2) memo)"

definition fixed_output_text :: "Derivation \<Rightarrow> string" where
  "fixed_output_text drv =
     (let out = snd (hd (drv_outputs drv)) in
      ''fixed:out:'' @ do_hashAlgo out @ '':'' @ do_hash out @ '':'' @ do_path out)"

primrec hashDerivationModulo ::
  "nat \<Rightarrow> gcrypt \<Rightarrow> (Path \<Rightarrow> bool) \<Rightarrow> (Path \<Rightarrow> string result) \<Rightarrow>
   Derivation \<Rightarrow> DrvHashes \<Rightarrow> (Hash result \<times> DrvHashes) option" where
  "hashDerivationModulo 0 g isValidPath readFile drv memo = Some (Inl OutOfFuel, memo)"
| "hashDerivationModulo (Suc fuel) g isValidPath readFile drv memo =
     (if isFixedOutputDrv drv then Some (hashString g htSHA256 (fixed_output_text drv), memo)
      else
        (case hash_inputs (hash_of_input isValidPath readFile (hashDerivationModulo fuel g isValidPath readFile))
                (inputDrvs drv) [] memo of
           None \<Rightarrow> None
         | Some (Inl e, memo) \<Rightarrow> Some (Inl e, memo)
         | Some (Inr inputs2, memo) \<Rightarrow>
             Some (hashString g htSHA256 (unparseDerivation (drv \<lparr> inputDrvs := inputs2 \<rparr>)), memo)))"

section \<open>Parsing what was printed\<close>

definition nul_free :: "string \<Rightarrow> bool" where
  "nul_free s \<longleftrightarrow> CHR 0x00 \<notin> set s"

lemma scan_print:
  "nul_free s \<Longrightarrow> scan_string (concat (map print_char s) @ CHR 0x22 # rest) = Some (s, rest)"
  by (induction s) (auto simp: nul_free_def print_char_def unescape_def got_char_def)

lemma printString_eq: "nul_free s \<Longrightarrow> printString s = CHR 0x22 # concat (map print_char s) @ [CHR 0x22]"
proof -
  assume "nul_free s"
  then have "takeWhile (\<lambda>c. c \<noteq> CHR 0x00) s = s" by (auto simp: nul_free_def takeWhile_eq_all_conv)
  from this show ?thesis unfolding printString_def by (simp only: append.simps)
qed

lemma parseString_print [simp]: "nul_free s \<Longrightarrow> parseString (printString s @ rest) = Some (Inr (s, rest))"
  by (simp add: parseString_eq printString_eq scan_print)

lemma parsePath_print [simp]:
  "nul_free s \<Longrightarrow> is_absolute s \<Longrightarrow> parsePath (printString s @ rest) = Some (Inr (s, rest))"
  by (simp add: parsePath_def is_absolute_def)

lemma printString_start: "printString s \<noteq> [] \<and> hd (printString s) = CHR 0x22"
  by (simp add: printString_def)

lemma parse_list_end: "parse_list item add acc (CHR '']'' # rest) = Some (Inr (acc, rest))"
  by (simp add: parse_list.simps endOfList_def)

lemma parse_list_item:
  assumes "item str = Some (Inr (x, str'))"
    "s = CHR '','' # str \<or> (s = str \<and> str \<noteq> [] \<and> hd str \<noteq> CHR '','' \<and> hd str \<noteq> CHR '']'')"
  shows "parse_list item add acc s = parse_list item add (add x acc) str'"
  using assms by (subst parse_list.simps) (auto simp: endOfList_def)

lemma parse_list_print:
  assumes "\<And>x rest. x \<in> set xs \<Longrightarrow> item (f x @ rest) = Some (Inr (x, rest))"
    and "\<And>x. x \<in> set xs \<Longrightarrow> f x \<noteq> [] \<and> hd (f x) \<noteq> CHR '','' \<and> hd (f x) \<noteq> CHR '']''"
  shows "parse_list item add acc (print_items first f xs @ CHR '']'' # rest) = Some (Inr (fold add xs acc, rest))"
  using assms
proof (induction xs arbitrary: first acc)
  case Nil
  then show ?case by (simp add: parse_list_end)
next
  case (Cons x xs)
  let ?rest = "print_items False f xs @ CHR '']'' # rest"
  have "parse_list item add acc (print_items first f (x # xs) @ CHR '']'' # rest) =
      parse_list item add (add x acc) ?rest"
    using Cons.prems(1) [of x ?rest] Cons.prems(2) [of x]
    by (intro parse_list_item [of item "f x @ ?rest"]) (auto simp: hd_append)
  with Cons.IH Cons.prems show ?case by simp
qed

lemma print_items_cong: "(\<And>x. x \<in> set xs \<Longrightarrow> f x = g x) \<Longrightarrow> print_items b f xs = print_items b g xs"
  by (induction xs arbitrary: b) simp_all

lemma fold_snoc: "fold (\<lambda>x xs. xs @ [x]) ys xs = xs @ ys"
  by (induction ys arbitrary: xs) simp_all

lemma fold_oput_omap:
  assumes "is_omap m"
  shows "fold (\<lambda>(k, v). oput k v) m [] = m"
  by (rule omap_eqI)
    (simp_all add: assms is_omap_fold_oput map_of_fold_oput is_omap_distinct del: sorted_wrt_map)

text \<open>The derivations the parser can produce from text without zero bytes.\<close>

definition wf_output :: "string \<times> DerivationOutput \<Rightarrow> bool" where
  "wf_output e \<longleftrightarrow> nul_free (fst e) \<and> nul_free (do_path (snd e)) \<and> is_absolute (do_path (snd e)) \<and>
     nul_free (do_hashAlgo (snd e)) \<and> nul_free (do_hash (snd e))"

definition wf_input :: "Path \<times> string oset \<Rightarrow> bool" where
  "wf_input e \<longleftrightarrow> nul_free (fst e) \<and> is_absolute (fst e) \<and> is_oset (snd e) \<and> list_all nul_free (snd e)"

definition wf_drv :: "Derivation \<Rightarrow> bool" where
  "wf_drv drv \<longleftrightarrow>
     is_omap (drv_outputs drv) \<and> list_all wf_output (drv_outputs drv) \<and>
     is_omap (inputDrvs drv) \<and> list_all wf_input (inputDrvs drv) \<and>
     is_oset (inputSrcs drv) \<and> list_all (\<lambda>p. nul_free p \<and> is_absolute p) (inputSrcs drv) \<and>
     nul_free (platform drv) \<and> nul_free (builder drv) \<and> list_all nul_free (drv_args drv) \<and>
     is_omap (drv_env drv) \<and> list_all (\<lambda>(k, v). nul_free k \<and> nul_free v) (drv_env drv)"

lemma expect_text [simp]:
  "expect ''('' (CHR ''('' # r) = Inr r" "expect '','' (CHR '','' # r) = Inr r" "expect '')'' (CHR '')'' # r) = Inr r"
  "expect '',['' (CHR '','' # CHR ''['' # r) = Inr r"
  by (simp_all add: expect_def)

lemma parse_output_print: "wf_output e \<Longrightarrow> parse_output (print_output e @ rest) = Some (Inr (e, rest))"
  by (cases e) (simp add: wf_output_def parse_output_def print_output_def)

lemma parseStrings_print:
  assumes "list_all nul_free ss" "is_oset ss" "arePaths \<Longrightarrow> list_all is_absolute ss"
  shows "parseStrings arePaths (print_items True printString ss @ CHR '']'' # rest) = Some (Inr (ss, rest))"
proof -
  have "parseStrings arePaths (print_items True printString ss @ CHR '']'' # rest) = Some (Inr (fold oinsert ss [], rest))"
    unfolding parseStrings_def
    by (rule parse_list_print) (use assms printString_start in \<open>auto simp: list_all_iff\<close>)
  then show ?thesis using oinsert_all_oset [OF assms(2)] by (simp add: oinsert_all_def)
qed

lemma parse_input_print: "wf_input e \<Longrightarrow> parse_input (print_input e @ rest) = Some (Inr (e, rest))"
  by (cases e) (simp add: wf_input_def parse_input_def print_input_def printStrings_def parseStrings_print)

lemma parse_variable_print:
  "nul_free (fst e) \<Longrightarrow> nul_free (snd e) \<Longrightarrow> parse_variable (print_variable e @ rest) = Some (Inr (e, rest))"
  by (cases e) (simp add: parse_variable_def print_variable_def)

lemma parse_unparse:
  assumes "wf_drv drv"
  shows "parseDerivation (unparseDerivation drv) = Some (Inr drv)"
proof -
  have start: "print_output e \<noteq> [] \<and> hd (print_output e) = CHR ''(''"
    "print_input e' \<noteq> [] \<and> hd (print_input e') = CHR ''(''"
    "print_variable e'' \<noteq> [] \<and> hd (print_variable e'') = CHR ''(''" for e e' e''
    by (simp_all add: print_output_def print_input_def print_variable_def)
  have outs: "parse_list parse_output (\<lambda>(k, v). oput k v) [] (print_items True print_output (drv_outputs drv) @ CHR '']'' # rest)
      = Some (Inr (drv_outputs drv, rest))" for rest
    by (subst parse_list_print) (use assms start(1) in \<open>auto simp: wf_drv_def list_all_iff parse_output_print fold_oput_omap\<close>)
  have ins: "parse_list parse_input (\<lambda>(k, v). oput k v) [] (print_items True print_input (inputDrvs drv) @ CHR '']'' # rest)
      = Some (Inr (inputDrvs drv, rest))" for rest
    by (subst parse_list_print) (use assms start(2) in \<open>auto simp: wf_drv_def list_all_iff parse_input_print fold_oput_omap\<close>)
  have env: "parse_list parse_variable (\<lambda>(k, v). oput k v) [] (print_items True print_variable (drv_env drv) @ CHR '']'' # rest)
      = Some (Inr (drv_env drv, rest))" for rest
    by (subst parse_list_print) (use assms start(3) in \<open>auto simp: wf_drv_def list_all_iff parse_variable_print fold_oput_omap\<close>)
  have args: "parse_list parseString (\<lambda>x xs. xs @ [x]) [] (print_items True printString (drv_args drv) @ CHR '']'' # rest)
      = Some (Inr (drv_args drv, rest))" for rest
    by (subst parse_list_print) (use assms printString_start in \<open>auto simp: wf_drv_def list_all_iff fold_snoc\<close>)
  have srcs: "parseStrings True (print_items True printString (inputSrcs drv) @ CHR '']'' # rest) = Some (Inr (inputSrcs drv, rest))" for rest
    by (rule parseStrings_print) (use assms in \<open>auto simp: wf_drv_def list_all_iff\<close>)
  have strs: "nul_free (platform drv)" "nul_free (builder drv)" using assms by (simp_all add: wf_drv_def)
  have head: "expect ''Derive(['' (''Derive(['' @ r) = Inr r" for r by (rule expect_append)
  show ?thesis
    unfolding parseDerivation_def unparseDerivation_def head
    by (simp add: outs ins env args srcs strs printStrings_def)
qed

section \<open>What the parser produces\<close>

text \<open>A parser that, on text without zero bytes, yields only what satisfies \<open>Q\<close>.\<close>

definition yields :: "('a \<Rightarrow> bool) \<Rightarrow> (string \<Rightarrow> ('a \<times> string) result option) \<Rightarrow> bool" where
  "yields Q p \<longleftrightarrow> (\<forall>str x rest. p str = Some (Inr (x, rest)) \<and> nul_free str \<longrightarrow> Q x \<and> nul_free rest)"

lemma yieldsD: "yields Q p \<Longrightarrow> p str = Some (Inr (x, rest)) \<Longrightarrow> nul_free str \<Longrightarrow> Q x \<and> nul_free rest"
  by (auto simp: yields_def)

lemma nul_free_simps [simp]:
  "nul_free []" "nul_free (c # s) \<longleftrightarrow> c \<noteq> CHR 0x00 \<and> nul_free s" "nul_free (s @ t) \<longleftrightarrow> nul_free s \<and> nul_free t"
  by (auto simp: nul_free_def)

lemma expect_nul_free: "expect s str = Inr rest \<Longrightarrow> nul_free str \<Longrightarrow> nul_free rest"
  by (auto simp: expect_Inr)

lemma scan_string_nul_free:
  "scan_string str = Some (r, rest) \<Longrightarrow> nul_free str \<Longrightarrow> nul_free r \<and> nul_free rest"
proof (induction str arbitrary: r rule: length_induct)
  case (1 str)
  consider "str = []" | cs where "str = CHR 0x22 # cs" | "str = [CHR 0x5C]" | d ds where "str = CHR 0x5C # d # ds"
    | c cs where "str = c # cs" "c \<noteq> CHR 0x22" "c \<noteq> CHR 0x5C"
    by (cases str; cases "tl str") auto
  then show ?case
  proof cases
    case (4 d ds)
    with 1 obtain r' where r': "scan_string ds = Some (r', rest)" "r = unescape (Some d) # r'" by auto
    have "nul_free r' \<and> nul_free rest" using 1(1) [rule_format, of ds] 1(3) 4 r'(1) by simp
    moreover have "unescape (Some d) \<noteq> CHR 0x00" using 1 4 by (simp add: unescape_def got_char_def)
    ultimately show ?thesis using r'(2) by simp
  next
    case (5 c cs)
    with 1 obtain r' where r': "scan_string cs = Some (r', rest)" "r = c # r'" by auto
    then show ?thesis using 1(1) [rule_format, of cs] 1(3) 5 by simp
  qed (use 1 in simp_all)
qed

lemma yields_parseString: "yields nul_free parseString"
  unfolding yields_def
proof (intro allI impI, elim conjE)
  fix str x rest
  assume p: "parseString str = Some (Inr (x, rest))" and str: "nul_free str"
  from p obtain str' where s': "expect [CHR 0x22] str = Inr str'" "scan_string str' = Some (x, rest)"
    by (auto simp: parseString_eq split: sum.splits)
  show "nul_free x \<and> nul_free rest"
    by (rule scan_string_nul_free [OF s'(2) expect_nul_free [OF s'(1) str]])
qed

lemma yields_parsePath: "yields (\<lambda>p. nul_free p \<and> is_absolute p) parsePath"
  unfolding yields_def
proof (intro allI impI, elim conjE)
  fix str x rest
  assume p: "parsePath str = Some (Inr (x, rest))" and str: "nul_free str"
  from p have "parseString str = Some (Inr (x, rest))" "is_absolute x"
    by (auto simp: parsePath_def pbind_Inr is_absolute_def split: if_splits)
  with yieldsD [OF yields_parseString _ str] show "(nul_free x \<and> is_absolute x) \<and> nul_free rest" by blast
qed

lemma parse_list_yields:
  fixes item :: "string \<Rightarrow> ('a \<times> string) result option" and add :: "'a \<Rightarrow> 'b \<Rightarrow> 'b"
  assumes "yields Q item" "\<And>x acc. Q x \<Longrightarrow> J acc \<Longrightarrow> J (add x acc)"
    and "J acc" "parse_list item add acc str = Some (Inr (r, rest))" "nul_free str"
  shows "J r \<and> nul_free rest"
proof -
  define P where "P = (\<lambda>item' add' acc str (y :: ('b \<times> string) result). item' = item \<longrightarrow> add' = add \<longrightarrow> J acc \<longrightarrow> nul_free str \<longrightarrow>
    (\<forall>r rest. y = Inr (r, rest) \<longrightarrow> J r \<and> nul_free rest))"
  have "P item add acc str (Inr (r, rest))"
  proof (rule parse_list.raw_induct [OF _ assms(4)])
    fix rec :: "(string \<Rightarrow> ('a \<times> string) result option) \<Rightarrow> ('a \<Rightarrow> 'b \<Rightarrow> 'b) \<Rightarrow> 'b \<Rightarrow> string \<Rightarrow> ('b \<times> string) result option"
      and item' add' acc' str' y'
    assume IH: "\<And>i a c s y. rec i a c s = Some y \<Longrightarrow> P i a c s y"
      and body: "(case endOfList str' of (done, str1) \<Rightarrow>
        if done then Some (Inr (acc', str1))
        else (case item' str1 of None \<Rightarrow> None
              | Some r \<Rightarrow> (case r of Inl e \<Rightarrow> Some (Inl e)
                   | Inr (x, str2) \<Rightarrow> rec item' add' (add' x acc') str2))) = Some y'"
    show "P item' add' acc' str' y'"
      unfolding P_def
    proof (intro impI allI)
      fix r' rest'
      assume eq: "item' = item" "add' = add" "y' = Inr (r', rest')" and J: "J acc'" and str': "nul_free str'"
      obtain fin str1 where e: "endOfList str' = (fin, str1)" by (cases "endOfList str'")
      have str1: "nul_free str1" using e str'
        by (cases str') (auto simp: endOfList_def split: if_splits)
      show "J r' \<and> nul_free rest'"
      proof (cases fin)
        case True
        with body e str1 J eq show ?thesis by simp
      next
        case False
        with body e eq obtain x str2 where x: "item str1 = Some (Inr (x, str2))"
          "rec item add (add x acc') str2 = Some (Inr (r', rest'))"
          by (auto split: option.splits sum.splits)
        have "Q x \<and> nul_free str2" using yieldsD [OF assms(1) x(1) str1] .
        then show ?thesis using IH [OF x(2)] assms(2) J unfolding P_def by blast
      qed
    qed
  qed
  with assms(3,5) show ?thesis by (simp add: P_def)
qed

lemma yields_parse_list:
  assumes "yields Q item" "\<And>x acc. Q x \<Longrightarrow> J acc \<Longrightarrow> J (add x acc)" "J acc"
  shows "yields J (parse_list item add acc)"
  unfolding yields_def
proof (intro allI impI, elim conjE)
  fix str x rest
  assume "parse_list item add acc str = Some (Inr (x, rest))" "nul_free str"
  with assms show "J x \<and> nul_free rest" by (rule parse_list_yields)
qed

lemma yields_parseStrings:
  "yields (\<lambda>ss. is_oset ss \<and> list_all (\<lambda>s. nul_free s \<and> (arePaths \<longrightarrow> is_absolute s)) ss) (parseStrings arePaths)"
proof -
  have item: "yields (\<lambda>s. nul_free s \<and> (arePaths \<longrightarrow> is_absolute s)) (if arePaths then parsePath else parseString)"
    using yields_parsePath yields_parseString by simp
  have "parseStrings arePaths = parse_list (if arePaths then parsePath else parseString) oinsert []"
    by (rule ext) (simp add: parseStrings_def)
  then show ?thesis
    by (simp only:) (rule yields_parse_list [OF item]; simp add: list_all_iff)
qed
lemma yields_parse_output: "yields wf_output parse_output"
  unfolding yields_def
proof (intro allI impI, elim conjE)
  fix str e rest
  assume p: "parse_output str = Some (Inr (e, rest))" and str: "nul_free str"
  from p obtain s1 oid s2 s3 path s4 s5 algo s6 s7 h s8 where
    steps: "expect ''('' str = Inr s1" "parseString s1 = Some (Inr (oid, s2))" "expect '','' s2 = Inr s3"
      "parsePath s3 = Some (Inr (path, s4))" "expect '','' s4 = Inr s5" "parseString s5 = Some (Inr (algo, s6))"
      "expect '','' s6 = Inr s7" "parseString s7 = Some (Inr (h, s8))" "expect '')'' s8 = Inr rest"
    and e: "e = (oid, \<lparr> do_path = path, do_hashAlgo = algo, do_hash = h \<rparr>)"
    by (auto simp: parse_output_def pbind_Inr)
  note s = yieldsD [OF yields_parseString] and q = yieldsD [OF yields_parsePath] and x = expect_nul_free
  note n1 = x [OF steps(1) str] note n2 = s [OF steps(2) n1]
  note n3 = x [OF steps(3) conjunct2 [OF n2]] note n4 = q [OF steps(4) n3]
  note n5 = x [OF steps(5) conjunct2 [OF n4]] note n6 = s [OF steps(6) n5]
  note n7 = x [OF steps(7) conjunct2 [OF n6]] note n8 = s [OF steps(8) n7]
  note n9 = x [OF steps(9) conjunct2 [OF n8]]
  show "wf_output e \<and> nul_free rest" using n2 n4 n6 n8 n9 by (simp add: e wf_output_def)
qed

lemma yields_parse_input: "yields wf_input parse_input"
  unfolding yields_def
proof (intro allI impI, elim conjE)
  fix str e rest
  assume p: "parse_input str = Some (Inr (e, rest))" and str: "nul_free str"
  from p obtain s1 path s2 s3 outs s4 where
    steps: "expect ''('' str = Inr s1" "parsePath s1 = Some (Inr (path, s2))" "expect '',['' s2 = Inr s3"
      "parseStrings False s3 = Some (Inr (outs, s4))" "expect '')'' s4 = Inr rest" and e: "e = (path, outs)"
    by (auto simp: parse_input_def pbind_Inr)
  note n1 = expect_nul_free [OF steps(1) str] note n2 = yieldsD [OF yields_parsePath steps(2) n1]
  note n3 = expect_nul_free [OF steps(3) conjunct2 [OF n2]]
  note n4 = yieldsD [OF yields_parseStrings steps(4) n3]
  note n5 = expect_nul_free [OF steps(5) conjunct2 [OF n4]]
  show "wf_input e \<and> nul_free rest" using n2 n4 n5 by (simp add: e wf_input_def)
qed

lemma yields_parse_variable: "yields (\<lambda>(k, v). nul_free k \<and> nul_free v) parse_variable"
  unfolding yields_def
proof (intro allI impI, elim conjE)
  fix str e rest
  assume p: "parse_variable str = Some (Inr (e, rest))" and str: "nul_free str"
  from p obtain s1 k s2 s3 v s4 where
    steps: "expect ''('' str = Inr s1" "parseString s1 = Some (Inr (k, s2))" "expect '','' s2 = Inr s3"
      "parseString s3 = Some (Inr (v, s4))" "expect '')'' s4 = Inr rest" and e: "e = (k, v)"
    by (auto simp: parse_variable_def pbind_Inr)
  note n1 = expect_nul_free [OF steps(1) str] note n2 = yieldsD [OF yields_parseString steps(2) n1]
  note n3 = expect_nul_free [OF steps(3) conjunct2 [OF n2]]
  note n4 = yieldsD [OF yields_parseString steps(4) n3]
  note n5 = expect_nul_free [OF steps(5) conjunct2 [OF n4]]
  show "(case e of (k, v) \<Rightarrow> nul_free k \<and> nul_free v) \<and> nul_free rest" using n2 n4 n5 by (simp add: e)
qed

lemma set_oput: "set (oput k v m) \<subseteq> insert (k, v) (set m)"
  by (induction k v m rule: oput.induct) auto

lemma yields_parse_map:
  assumes "yields Q item"
  shows "yields (\<lambda>m. is_omap m \<and> list_all Q m) (parse_list item (\<lambda>(k, v). oput k v) [])"
proof (rule yields_parse_list [OF assms])
  fix e and m :: "('a \<times> 'b) list"
  assume "Q e" "is_omap m \<and> list_all Q m"
  then show "is_omap ((case e of (k, v) \<Rightarrow> oput k v) m) \<and> list_all Q ((case e of (k, v) \<Rightarrow> oput k v) m)"
    using set_oput [of "fst e" "snd e" m] by (cases e) (auto simp: list_all_iff)
qed simp

lemma parse_wf_drv:
  assumes "parseDerivation s = Some (Inr drv)" "nul_free s"
  shows "wf_drv drv"
proof -
  from assms(1) obtain s1 outs s2 s3 ins s4 s5 srcs s6 s7 plat s8 s9 bld s10 s11 args s12 s13 env s14 s15 where
    steps: "expect ''Derive(['' s = Inr s1"
      "parse_list parse_output (\<lambda>(k, v). oput k v) [] s1 = Some (Inr (outs, s2))" "expect '',['' s2 = Inr s3"
      "parse_list parse_input (\<lambda>(k, v). oput k v) [] s3 = Some (Inr (ins, s4))" "expect '',['' s4 = Inr s5"
      "parseStrings True s5 = Some (Inr (srcs, s6))" "expect '','' s6 = Inr s7"
      "parseString s7 = Some (Inr (plat, s8))" "expect '','' s8 = Inr s9"
      "parseString s9 = Some (Inr (bld, s10))" "expect '',['' s10 = Inr s11"
      "parse_list parseString (\<lambda>x xs. xs @ [x]) [] s11 = Some (Inr (args, s12))" "expect '',['' s12 = Inr s13"
      "parse_list parse_variable (\<lambda>(k, v). oput k v) [] s13 = Some (Inr (env, s14))" "expect '')'' s14 = Inr s15"
    and drv: "drv = \<lparr> drv_outputs = outs, inputDrvs = ins, inputSrcs = srcs, platform = plat,
       builder = bld, drv_args = args, drv_env = env \<rparr>"
    by (auto simp: parseDerivation_def pbind_Inr)
  have yargs: "yields (list_all nul_free) (parse_list parseString (\<lambda>x xs. xs @ [x]) [])"
    by (rule yields_parse_list [OF yields_parseString]) simp_all
  note x = expect_nul_free and s = yieldsD [OF yields_parseString]
  note n1 = x [OF steps(1) assms(2)]
  note n2 = yieldsD [OF yields_parse_map [OF yields_parse_output] steps(2) n1]
  note n3 = x [OF steps(3) conjunct2 [OF n2]]
  note n4 = yieldsD [OF yields_parse_map [OF yields_parse_input] steps(4) n3]
  note n5 = x [OF steps(5) conjunct2 [OF n4]] note n6 = yieldsD [OF yields_parseStrings steps(6) n5]
  note n7 = x [OF steps(7) conjunct2 [OF n6]] note n8 = s [OF steps(8) n7]
  note n9 = x [OF steps(9) conjunct2 [OF n8]] note n10 = s [OF steps(10) n9]
  note n11 = x [OF steps(11) conjunct2 [OF n10]] note n12 = yieldsD [OF yargs steps(12) n11]
  note n13 = x [OF steps(13) conjunct2 [OF n12]]
  note n14 = yieldsD [OF yields_parse_map [OF yields_parse_variable] steps(14) n13]
  show ?thesis unfolding drv wf_drv_def using n2 n4 n6 n8 n10 n12 n14 by simp
qed

section \<open>Memoisation is transparent\<close>

text \<open>
  The hash of a derivation modulo fixed-output inputs, without a table: every input derivation is read and
  its hash replaces its path.
\<close>

definition replace_inputs :: "DerivationInputs \<Rightarrow> Hash list \<Rightarrow> DerivationInputs \<Rightarrow> DerivationInputs" where
  "replace_inputs ins hs acc = fold (\<lambda>(e, h). oput (printHash h) (snd e)) (zip ins hs) acc"

inductive modulo_hash ::
  "gcrypt \<Rightarrow> (Path \<Rightarrow> bool) \<Rightarrow> (Path \<Rightarrow> string result) \<Rightarrow> Derivation \<Rightarrow> Hash \<Rightarrow> bool"
  for g isValidPath readFile where
  fixed: "isFixedOutputDrv drv \<Longrightarrow> hashString g htSHA256 (fixed_output_text drv) = Inr h \<Longrightarrow>
    modulo_hash g isValidPath readFile drv h"
| inputs: "\<not> isFixedOutputDrv drv \<Longrightarrow>
    list_all2 (\<lambda>e h. isValidPath (fst e) \<and>
      (\<exists>drv2. readDerivation readFile (fst e) = Some (Inr drv2) \<and> modulo_hash g isValidPath readFile drv2 h))
      (inputDrvs drv) hs \<Longrightarrow>
    hashString g htSHA256 (unparseDerivation (drv \<lparr> inputDrvs := replace_inputs (inputDrvs drv) hs [] \<rparr>)) = Inr h \<Longrightarrow>
    modulo_hash g isValidPath readFile drv h"

inductive_cases modulo_hashE: "modulo_hash g isValidPath readFile drv h"

text \<open>What one input path stands for, and a table that only holds such hashes.\<close>

definition input_hash :: "gcrypt \<Rightarrow> (Path \<Rightarrow> bool) \<Rightarrow> (Path \<Rightarrow> string result) \<Rightarrow> Path \<Rightarrow> Hash \<Rightarrow> bool" where
  "input_hash g isValidPath readFile p h \<longleftrightarrow> isValidPath p \<and>
     (\<exists>drv2. readDerivation readFile p = Some (Inr drv2) \<and> modulo_hash g isValidPath readFile drv2 h)"

definition memo_ok :: "gcrypt \<Rightarrow> (Path \<Rightarrow> bool) \<Rightarrow> (Path \<Rightarrow> string result) \<Rightarrow> DrvHashes \<Rightarrow> bool" where
  "memo_ok g isValidPath readFile memo \<longleftrightarrow>
     (\<forall>p h. map_of memo p = Some h \<longrightarrow> htype h \<noteq> htUnknown \<longrightarrow> input_hash g isValidPath readFile p h)"

lemma memo_ok_Nil [simp]: "memo_ok g isValidPath readFile []"
  by (simp add: memo_ok_def)

lemma memo_ok_oput:
  "memo_ok g isValidPath readFile memo \<Longrightarrow>
   (htype h \<noteq> htUnknown \<Longrightarrow> input_hash g isValidPath readFile p h) \<Longrightarrow>
   memo_ok g isValidPath readFile (oput p h memo)"
  by (simp add: memo_ok_def)

lemma htype_Hash_null [simp]: "htype Hash_null = htUnknown"
  by (simp add: Hash_null_def)

lemma list_all2_unique: "list_all2 P xs ys \<Longrightarrow> list_all2 Q xs zs \<Longrightarrow> (\<And>x y z. P x y \<Longrightarrow> Q x z \<Longrightarrow> y = z) \<Longrightarrow> ys = zs"
  by (induction arbitrary: zs rule: list_all2_induct) (auto simp: list_all2_Cons1)

lemma modulo_hash_unique:
  "modulo_hash g isValidPath readFile drv h \<Longrightarrow> modulo_hash g isValidPath readFile drv h' \<Longrightarrow> h' = h"
proof (induction arbitrary: h' rule: modulo_hash.induct)
  case (fixed drv h)
  then show ?case by (auto elim: modulo_hashE)
next
  case (inputs drv hs h)
  from inputs.prems inputs.hyps(1) obtain hs' where hs':
    "list_all2 (\<lambda>e h. isValidPath (fst e) \<and>
      (\<exists>drv2. readDerivation readFile (fst e) = Some (Inr drv2) \<and> modulo_hash g isValidPath readFile drv2 h)) (inputDrvs drv) hs'"
    "hashString g htSHA256 (unparseDerivation (drv \<lparr> inputDrvs := replace_inputs (inputDrvs drv) hs' [] \<rparr>)) = Inr h'"
    by (auto elim: modulo_hashE)
  have "hs = hs'" by (rule list_all2_unique [OF inputs.IH hs'(1)]) auto
  with inputs.hyps(2) hs'(2) show ?case by simp
qed

lemma input_hash_unique:
  "input_hash g isValidPath readFile p h \<Longrightarrow> input_hash g isValidPath readFile p h' \<Longrightarrow> h' = h"
  using modulo_hash_unique by (fastforce simp: input_hash_def)

text \<open>One input, one list of inputs, one derivation: a result is right, and the table stays right.\<close>

definition memo_sound ::
  "gcrypt \<Rightarrow> (Path \<Rightarrow> bool) \<Rightarrow> (Path \<Rightarrow> string result) \<Rightarrow> ('a \<Rightarrow> 'b \<Rightarrow> bool) \<Rightarrow>
   ('a \<Rightarrow> DrvHashes \<Rightarrow> ('b result \<times> DrvHashes) option) \<Rightarrow> bool" where
  "memo_sound g isValidPath readFile R f \<longleftrightarrow>
     (\<forall>x memo r memo'. memo_ok g isValidPath readFile memo \<longrightarrow> f x memo = Some (r, memo') \<longrightarrow>
        memo_ok g isValidPath readFile memo' \<and> (\<forall>y. r = Inr y \<longrightarrow> R x y))"

lemma memo_soundD:
  "memo_sound g v rd R f \<Longrightarrow> memo_ok g v rd memo \<Longrightarrow> f x memo = Some (r, memo') \<Longrightarrow>
   memo_ok g v rd memo' \<and> (\<forall>y. r = Inr y \<longrightarrow> R x y)"
  unfolding memo_sound_def by blast

lemma hash_of_input_sound:
  assumes "memo_sound g v rd (modulo_hash g v rd) recur"
  shows "memo_sound g v rd (input_hash g v rd) (hash_of_input v rd recur)"
  unfolding memo_sound_def
proof (intro allI impI)
  fix p memo r memo'
  assume ok: "memo_ok g v rd memo" and run: "hash_of_input v rd recur p memo = Some (r, memo')"
  define h where "h = (case map_of memo p of None \<Rightarrow> Hash_null | Some h \<Rightarrow> h)"
  define memo1 where "memo1 = (case map_of memo p of None \<Rightarrow> oput p Hash_null memo | Some _ \<Rightarrow> memo)"
  have ok1: "memo_ok g v rd memo1"
    using ok by (auto simp: memo1_def intro!: memo_ok_oput split: option.splits)
  have known: "input_hash g v rd p h" if "htype h \<noteq> htUnknown"
    using that ok by (auto simp: h_def memo_ok_def split: option.splits)
  show "memo_ok g v rd memo' \<and> (\<forall>y. r = Inr y \<longrightarrow> input_hash g v rd p y)"
  proof (cases "htype h = htUnknown \<and> v p")
    case False
    then show ?thesis
      using run ok1 known
      by (auto simp: hash_of_input_def Let_def h_def [symmetric] memo1_def [symmetric] split: if_splits)
  next
    case True
    then have run': "(case readDerivation rd p of None \<Rightarrow> None | Some (Inl e) \<Rightarrow> Some (Inl e, memo1)
        | Some (Inr drv2) \<Rightarrow> (case recur drv2 memo1 of None \<Rightarrow> None
           | Some (Inl e, memo) \<Rightarrow> Some (Inl e, memo)
           | Some (Inr h, memo) \<Rightarrow> Some (Inr h, oput p h memo))) = Some (r, memo')"
      using run by (simp add: hash_of_input_def Let_def h_def [symmetric] memo1_def [symmetric])
    show ?thesis
    proof (cases "\<exists>drv2. readDerivation rd p = Some (Inr drv2)")
      case False
      then show ?thesis using run' ok1 by (auto split: option.splits sum.splits)
    next
      case drv2: True
      then obtain drv2 where drv2: "readDerivation rd p = Some (Inr drv2)" ..
      with run' obtain r2 memo2 where rec: "recur drv2 memo1 = Some (r2, memo2)" by (auto split: option.splits)
      note snd = memo_soundD [OF assms ok1 rec]
      have ih: "input_hash g v rd p y" if "r2 = Inr y" for y
        using True drv2 snd that by (auto simp: input_hash_def)
      from run' drv2 rec snd ih show ?thesis by (auto intro: memo_ok_oput split: sum.splits)
    qed
  qed
qed

lemma hash_inputs_sound:
  assumes "memo_sound g v rd (input_hash g v rd) f"
    and "memo_ok g v rd memo" "hash_inputs f ins acc memo = Some (r, memo')"
  shows "memo_ok g v rd memo' \<and>
    (\<forall>y. r = Inr y \<longrightarrow> (\<exists>hs. list_all2 (\<lambda>e. input_hash g v rd (fst e)) ins hs \<and> y = replace_inputs ins hs acc))"
  using assms(2,3)
proof (induction ins arbitrary: acc memo)
  case Nil
  then show ?case by (auto simp: replace_inputs_def)
next
  case (Cons e ins)
  obtain p outs where e: "e = (p, outs)" by (cases e)
  with Cons.prems obtain r1 memo1 where f: "f p memo = Some (r1, memo1)" by (auto split: option.splits)
  note snd = memo_soundD [OF assms(1) Cons.prems(1) f]
  show ?case
  proof (cases r1)
    case (Inl err)
    with Cons.prems(2) e f snd show ?thesis by auto
  next
    case (Inr h)
    with Cons.prems(2) e f have rest: "hash_inputs f ins (oput (printHash h) outs acc) memo1 = Some (r, memo')" by simp
    from Cons.IH [OF conjunct1 [OF snd] rest] have ih: "memo_ok g v rd memo'"
      "\<And>y. r = Inr y \<Longrightarrow> \<exists>hs. list_all2 (\<lambda>e. input_hash g v rd (fst e)) ins hs \<and> y = replace_inputs ins hs (oput (printHash h) outs acc)"
      by auto
    have "\<exists>hs. list_all2 (\<lambda>e. input_hash g v rd (fst e)) (e # ins) hs \<and> y = replace_inputs (e # ins) hs acc" if y: "r = Inr y" for y
    proof -
      obtain hs where "list_all2 (\<lambda>e. input_hash g v rd (fst e)) ins hs" "y = replace_inputs ins hs (oput (printHash h) outs acc)"
        using ih(2) [OF y] by blast
      then show ?thesis using snd Inr e by (intro exI [of _ "h # hs"]) (simp add: replace_inputs_def)
    qed
    with ih(1) show ?thesis by blast
  qed
qed

lemma hashDerivationModulo_sound: "memo_sound g v rd (modulo_hash g v rd) (hashDerivationModulo fuel g v rd)"
proof (induction fuel)
  case 0
  then show ?case by (simp add: memo_sound_def)
next
  case (Suc fuel)
  let ?f = "hash_of_input v rd (hashDerivationModulo fuel g v rd)"
  note f = hash_of_input_sound [OF Suc.IH]
  show ?case
    unfolding memo_sound_def
  proof (intro allI impI)
    fix drv memo r memo'
    assume ok: "memo_ok g v rd memo" and run: "hashDerivationModulo (Suc fuel) g v rd drv memo = Some (r, memo')"
    show "memo_ok g v rd memo' \<and> (\<forall>y. r = Inr y \<longrightarrow> modulo_hash g v rd drv y)"
    proof (cases "isFixedOutputDrv drv")
      case True
      with run ok show ?thesis by (auto intro: modulo_hash.fixed)
    next
      case False
      with run obtain r1 memo1 where ins: "hash_inputs ?f (inputDrvs drv) [] memo = Some (r1, memo1)"
        by (auto split: option.splits)
      note snd = hash_inputs_sound [OF f ok ins]
      show ?thesis
      proof (cases r1)
        case (Inl e)
        with run False ins snd show ?thesis by auto
      next
        case (Inr ins2)
        then obtain hs where hs: "list_all2 (\<lambda>e. input_hash g v rd (fst e)) (inputDrvs drv) hs"
          "ins2 = replace_inputs (inputDrvs drv) hs []" using snd by blast
        have "modulo_hash g v rd drv y" if "r = Inr y" for y
          using modulo_hash.inputs [OF False, of v rd g hs y] hs that run False ins Inr
          by (simp add: input_hash_def [abs_def])
        with run False ins Inr snd show ?thesis by auto
      qed
    qed
  qed
qed
text \<open>Conversely, with enough fuel every hash is found, whatever right table one starts with.\<close>

definition answers ::
  "gcrypt \<Rightarrow> (Path \<Rightarrow> bool) \<Rightarrow> (Path \<Rightarrow> string result) \<Rightarrow>
   ('a \<Rightarrow> DrvHashes \<Rightarrow> (Hash result \<times> DrvHashes) option) \<Rightarrow> 'a \<Rightarrow> Hash \<Rightarrow> bool" where
  "answers g v rd f x h \<longleftrightarrow> (\<forall>memo. memo_ok g v rd memo \<longrightarrow> (\<exists>memo'. f x memo = Some (Inr h, memo')))"

lemma hash_of_input_answers:
  assumes p: "input_hash g v rd p h" and drv2: "readDerivation rd p = Some (Inr drv2)"
    and rec: "answers g v rd (hashDerivationModulo k g v rd) drv2 h"
  shows "answers g v rd (hash_of_input v rd (hashDerivationModulo k g v rd)) p h"
  unfolding answers_def
proof (intro allI impI)
  fix memo
  assume ok: "memo_ok g v rd memo"
  define h1 where "h1 = (case map_of memo p of None \<Rightarrow> Hash_null | Some h \<Rightarrow> h)"
  define memo1 where "memo1 = (case map_of memo p of None \<Rightarrow> oput p Hash_null memo | Some _ \<Rightarrow> memo)"
  have ok1: "memo_ok g v rd memo1"
    using ok by (auto simp: memo1_def intro!: memo_ok_oput split: option.splits)
  obtain memo2 where memo2: "hashDerivationModulo k g v rd drv2 memo1 = Some (Inr h, memo2)"
    using rec ok1 by (auto simp: answers_def)
  have v: "v p" using p by (simp add: input_hash_def)
  show "\<exists>memo'. hash_of_input v rd (hashDerivationModulo k g v rd) p memo = Some (Inr h, memo')"
  proof (cases "htype h1 = htUnknown")
    case True
    then show ?thesis
      by (simp add: hash_of_input_def Let_def h1_def [symmetric] memo1_def [symmetric] v drv2 memo2)
  next
    case False
    then have "input_hash g v rd p h1"
      using ok by (auto simp: h1_def memo_ok_def split: option.splits)
    then have "h1 = h" using input_hash_unique p by blast
    with False show ?thesis
      by (simp add: hash_of_input_def Let_def h1_def [symmetric] memo1_def [symmetric])
  qed
qed

lemma hash_inputs_answers:
  assumes "list_all2 (\<lambda>e. answers g v rd (hash_of_input v rd (hashDerivationModulo k g v rd)) (fst e)) ins hs"
    and "memo_ok g v rd memo"
  shows "\<exists>memo'. hash_inputs (hash_of_input v rd (hashDerivationModulo k g v rd)) ins acc memo =
    Some (Inr (replace_inputs ins hs acc), memo')"
  using assms
proof (induction arbitrary: acc memo rule: list_all2_induct)
  case Nil
  then show ?case by (simp add: replace_inputs_def)
next
  case (Cons e ins h hs)
  obtain p outs where e: "e = (p, outs)" by (cases e)
  obtain memo1 where f: "hash_of_input v rd (hashDerivationModulo k g v rd) p memo = Some (Inr h, memo1)"
    using Cons.hyps(1) Cons.prems e by (auto simp: answers_def)
  have "memo_ok g v rd memo1"
    using memo_soundD [OF hash_of_input_sound [OF hashDerivationModulo_sound] Cons.prems f] by blast
  from Cons.IH [OF this, of "oput (printHash h) outs acc"] f e show ?case by (simp add: replace_inputs_def)
qed

lemma eventually_list_all2:
  assumes "list_all2 (\<lambda>x y. \<exists>n. \<forall>k \<ge> n. P k x y) xs ys"
  shows "\<exists>n :: nat. \<forall>k \<ge> n. list_all2 (P k) xs ys"
  using assms
proof (induction rule: list_all2_induct)
  case (Cons x xs y ys)
  then obtain n m where "\<forall>k \<ge> n. P k x y" "\<forall>k \<ge> m. list_all2 (P k) xs ys" by blast
  then show ?case by (intro exI [of _ "max n m"]) simp
qed simp

lemma hashDerivationModulo_answers:
  "modulo_hash g v rd drv h \<Longrightarrow> \<exists>n. \<forall>k \<ge> n. answers g v rd (hashDerivationModulo k g v rd) drv h"
proof (induction rule: modulo_hash.induct)
  case (fixed drv h)
  have "answers g v rd (hashDerivationModulo k g v rd) drv h" if "1 \<le> k" for k
    using that fixed by (cases k) (auto simp: answers_def)
  then show ?case by blast
next
  case (inputs drv hs h)
  let ?f = "\<lambda>k. hash_of_input v rd (hashDerivationModulo k g v rd)"
  have "list_all2 (\<lambda>e h. \<exists>n. \<forall>k \<ge> n. answers g v rd (?f k) (fst e) h) (inputDrvs drv) hs"
  proof (rule list_all2_mono [OF inputs.IH])
    fix e h
    assume "v (fst e) \<and> (\<exists>drv2. readDerivation rd (fst e) = Some (Inr drv2) \<and>
      modulo_hash g v rd drv2 h \<and> (\<exists>n. \<forall>k \<ge> n. answers g v rd (hashDerivationModulo k g v rd) drv2 h))"
    then show "\<exists>n. \<forall>k \<ge> n. answers g v rd (?f k) (fst e) h"
      using hash_of_input_answers [of g v rd "fst e" h] unfolding input_hash_def by blast
  qed
  from eventually_list_all2 [OF this] obtain n where
    n: "\<forall>k \<ge> n. list_all2 (\<lambda>e. answers g v rd (?f k) (fst e)) (inputDrvs drv) hs" by blast
  have "answers g v rd (hashDerivationModulo k g v rd) drv h" if "Suc n \<le> k" for k
    unfolding answers_def
  proof (intro allI impI)
    fix memo
    assume ok: "memo_ok g v rd memo"
    from that obtain k' where k': "k = Suc k'" "n \<le> k'" by (cases k) auto
    obtain memo' where "hash_inputs (?f k') (inputDrvs drv) [] memo = Some (Inr (replace_inputs (inputDrvs drv) hs []), memo')"
      using hash_inputs_answers [OF n [rule_format, OF k'(2)] ok] by blast
    with inputs.hyps k'(1) show "\<exists>memo'. hashDerivationModulo k g v rd drv memo = Some (Inr h, memo')" by simp
  qed
  then show ?case by blast
qed

section \<open>Addressing outputs\<close>

lemma parse_makeDrvPathWithOutputs:
  assumes "CHR ''!'' \<notin> set drvPath" "is_oset outs"
    and "\<forall>x \<in> set outs. x \<noteq> [] \<and> CHR '','' \<notin> set x"
  shows "parseDrvPathWithOutputs (makeDrvPathWithOutputs drvPath outs) = (drvPath, outs)"
proof (cases "outs = []")
  case True
  with assms(1) have "takeWhile (\<lambda>c. c \<noteq> CHR ''!'') drvPath = drvPath"
    by (auto simp: takeWhile_eq_all_conv)
  with True show ?thesis by (simp only: parseDrvPathWithOutputs_def makeDrvPathWithOutputs_def Let_def simp_thms if_True)
next
  case False
  have "takeWhile (\<lambda>c. c \<noteq> CHR ''!'') (drvPath @ CHR ''!'' # r) = drvPath" for r
    using assms(1) by (subst takeWhile_append2) auto
  moreover have "tokenizeString (concatStringsSep '','' outs) '','' = outs"
    by (rule tokenizeString_concatStringsSep) (use assms(3) in auto)
  ultimately show ?thesis
    using False oinsert_all_oset [OF assms(2)]
    by (simp add: parseDrvPathWithOutputs_def makeDrvPathWithOutputs_def Let_def)
qed

section \<open>Properties\<close>


definition sample_drv :: Derivation where
  "sample_drv =
     \<lparr> drv_outputs = [(''out'', \<lparr> do_path = ''/s/o'', do_hashAlgo = [], do_hash = [] \<rparr>)],
       inputDrvs = [(''/s/i.drv'', [''out''])], inputSrcs = [''/s/a'', ''/s/b''],
       platform = ''x86_64-linux'', builder = ''/bin/sh'', drv_args = [''-c'', [CHR 0x22, CHR 0x5C, CHR 0x0A]],
       drv_env = [(''a'', ''b'')] \<rparr>"

lemma wf_sample_drv: "wf_drv sample_drv"
  by (simp add: sample_drv_def wf_drv_def wf_output_def wf_input_def is_absolute_def less_char_def)


text \<open>
  C4: The memoised hash of a derivation modulo fixed-output derivations computes the hash defined by replacing every
  input path by the hash of the derivation it names, for every table that holds only such
  hashes; with enough fuel it finds the hash whenever there is one.
\<close>

theorem hashDerivationModulo_correct:
  assumes "memo_ok g isValidPath readFile memo"
  shows "(\<exists>fuel memo'. hashDerivationModulo fuel g isValidPath readFile drv memo = Some (Inr h, memo')) \<longleftrightarrow>
    modulo_hash g isValidPath readFile drv h"
proof
  assume "\<exists>fuel memo'. hashDerivationModulo fuel g isValidPath readFile drv memo = Some (Inr h, memo')"
  then show "modulo_hash g isValidPath readFile drv h"
    using memo_soundD [OF hashDerivationModulo_sound assms] by blast
next
  assume "modulo_hash g isValidPath readFile drv h"
  then show "\<exists>fuel memo'. hashDerivationModulo fuel g isValidPath readFile drv memo = Some (Inr h, memo')"
    using hashDerivationModulo_answers assms unfolding answers_def by blast
qed

theorem hashDerivationModulo_correct_witness:
  "\<exists>h. (\<exists>fuel memo'. hashDerivationModulo fuel sample_gcrypt (\<lambda>_. True) (\<lambda>_. Inr [])
      (sample_drv \<lparr> inputDrvs := [] \<rparr>) [] = Some (Inr h, memo')) \<and>
    modulo_hash sample_gcrypt (\<lambda>_. True) (\<lambda>_. Inr []) (sample_drv \<lparr> inputDrvs := [] \<rparr>) h"
proof -
  let ?drv = "sample_drv \<lparr> inputDrvs := [] \<rparr>"
  obtain h where h: "hashString sample_gcrypt htSHA256 (unparseDerivation ?drv) = Inr h"
    using hashString_ok [OF sample_gcrypt_ok, of htSHA256] by blast
  have "\<not> isFixedOutputDrv ?drv" by (simp add: isFixedOutputDrv_def sample_drv_def)
  then have "modulo_hash sample_gcrypt (\<lambda>_. True) (\<lambda>_. Inr []) ?drv h"
    by (rule modulo_hash.inputs [where hs = "[]"]) (simp_all add: replace_inputs_def h)
  with hashDerivationModulo_correct [OF memo_ok_Nil, of sample_gcrypt "\<lambda>_. True" "\<lambda>_. Inr []" ?drv h]
  show ?thesis by blast
qed

end
