(* ===== verification/Misc.thy ===== *)
theory Misc
  imports Derivations
begin

text \<open>
  Graphs of store paths (\<^verbatim>\<open>nix/libstore/misc.cc\<close>): the closure of a path under references, referrers,
  outputs and derivers, and the topological sort of a set of paths. The queries of the
  store are a record of functions; \<^verbatim>\<open>LocalStore\<close> provides them. The recursions are bounded by
  fuel, and the number of valid paths is shown to be enough.
\<close>

record store_queries =
  isValidPath :: "Path \<Rightarrow> bool"
  queryReferences :: "Path \<Rightarrow> Path oset result"
  queryReferrers :: "Path \<Rightarrow> Path oset result"
  queryValidDerivers :: "Path \<Rightarrow> Path oset result"
  queryDerivationOutputs :: "Path \<Rightarrow> Path oset result"
  queryDeriver :: "Path \<Rightarrow> Path result"

section \<open>Closures\<close>

definition keep_if :: "('a \<Rightarrow> bool result) \<Rightarrow> 'a::linorder \<Rightarrow> 'a oset \<Rightarrow> 'a oset result" where
  "keep_if c x s = rbind (c x) (\<lambda>b. Inr (if b then oinsert x s else s))"

definition closure_edges :: "store_queries \<Rightarrow> bool \<Rightarrow> bool \<Rightarrow> bool \<Rightarrow> Path \<Rightarrow> Path oset result" where
  "closure_edges store flipDirection includeOutputs includeDerivers path =
     (if flipDirection then
        rbind (queryReferrers store path) (\<lambda>edges.
        rbind (if includeOutputs then
                 rbind (queryValidDerivers store path) (\<lambda>derivers. Inr (oinsert_all derivers edges))
               else Inr edges) (\<lambda>edges.
        if includeDerivers \<and> isDerivation path then
          rbind (queryDerivationOutputs store path) (\<lambda>outs.
          rfold (keep_if (\<lambda>i. if isValidPath store i
                              then rbind (queryDeriver store i) (\<lambda>d. Inr (d = path)) else Inr False))
            outs edges)
        else Inr edges))
      else
        rbind (queryReferences store path) (\<lambda>edges.
        rbind (if includeOutputs \<and> isDerivation path then
                 rbind (queryDerivationOutputs store path) (\<lambda>outs.
                 rfold (keep_if (\<lambda>i. Inr (isValidPath store i))) outs edges)
               else Inr edges) (\<lambda>edges.
        if includeDerivers then
          rbind (queryDeriver store path) (\<lambda>deriver.
          Inr (if isValidPath store deriver then oinsert deriver edges else edges))
        else Inr edges)))"

primrec computeFSClosure ::
  "nat \<Rightarrow> store_queries \<Rightarrow> bool \<Rightarrow> bool \<Rightarrow> bool \<Rightarrow> Path \<Rightarrow> Path oset \<Rightarrow> Path oset result" where
  "computeFSClosure 0 store flipDirection includeOutputs includeDerivers path paths = Inl OutOfFuel"
| "computeFSClosure (Suc fuel) store flipDirection includeOutputs includeDerivers path paths =
     (if path \<in> set paths then Inr paths
      else
        rbind (closure_edges store flipDirection includeOutputs includeDerivers path) (\<lambda>edges.
        rfold (computeFSClosure fuel store flipDirection includeOutputs includeDerivers) edges
          (oinsert path paths)))"

section \<open>Topological sort\<close>

record dfs_state =
  visited :: "Path oset"
  sorted_paths :: "Path list"
  parents :: "Path oset"

primrec dfsVisit :: "nat \<Rightarrow> store_queries \<Rightarrow> Path oset \<Rightarrow> Path \<Rightarrow> dfs_state \<Rightarrow> dfs_state result" where
  "dfsVisit 0 store paths path s = Inl OutOfFuel"
| "dfsVisit (Suc fuel) store paths path s =
     (if path \<in> set (parents s) then Inl (Throw BuildError ''cycle detected in the references'')
      else if path \<in> set (visited s) then Inr s
      else
        rbind (if isValidPath store path then queryReferences store path else Inr []) (\<lambda>references.
        rbind (rfold (\<lambda>i s. if i \<noteq> path \<and> i \<in> set paths then dfsVisit fuel store paths i s else Inr s)
                 references
                 (s \<lparr> visited := oinsert path (visited s), parents := oinsert path (parents s) \<rparr>)) (\<lambda>s.
        Inr (s \<lparr> sorted_paths := path # sorted_paths s, parents := oerase path (parents s) \<rparr>))))"

definition topoSortPaths :: "store_queries \<Rightarrow> Path oset \<Rightarrow> Path list result" where
  "topoSortPaths store paths =
     rbind (rfold (dfsVisit (length paths + 1) store paths) paths
       \<lparr> visited = [], sorted_paths = [], parents = [] \<rparr>) (\<lambda>s. Inr (sorted_paths s))"

section \<open>Reachability\<close>

text \<open>
  A graph given by a fallible list of edges; inside a finite set \<open>U\<close> closed under edges all of
  them are known.
\<close>

definition edge_rel :: "(Path \<Rightarrow> Path oset result) \<Rightarrow> (Path \<times> Path) set" where
  "edge_rel edges = {(p, q). \<exists>es. edges p = Inr es \<and> q \<in> set es}"

definition closed_under :: "(Path \<Rightarrow> Path oset result) \<Rightarrow> Path set \<Rightarrow> bool" where
  "closed_under edges U \<longleftrightarrow> finite U \<and> (\<forall>p \<in> U. \<exists>es. edges p = Inr es \<and> set es \<subseteq> U)"

abbreviation closure_rel :: "store_queries \<Rightarrow> bool \<Rightarrow> bool \<Rightarrow> bool \<Rightarrow> (Path \<times> Path) set" where
  "closure_rel store f o' d \<equiv> edge_rel (closure_edges store f o' d)"

text \<open>What one call adds: the path itself, only what is reachable, and the successors of all it adds.\<close>

definition explored :: "('a \<times> 'a) set \<Rightarrow> 'a set \<Rightarrow> 'a set \<Rightarrow> 'a set \<Rightarrow> bool" where
  "explored E S start result \<longleftrightarrow>
     S \<subseteq> result \<and> start \<subseteq> result \<and> result \<subseteq> S \<union> E\<^sup>* `` start \<and> E `` (result - S) \<subseteq> result"

lemma exploredD:
  assumes "explored E S start result"
  shows "S \<subseteq> result" "start \<subseteq> result" "result \<subseteq> S \<union> E\<^sup>* `` start" "E `` (result - S) \<subseteq> result"
  using assms by (simp_all add: explored_def)

lemma explored_refl: "start \<subseteq> S \<Longrightarrow> explored E S start S"
  by (simp add: explored_def)

lemma explored_closed:
  assumes "explored E S start result" "E `` S \<subseteq> S"
  shows "result = S \<union> E\<^sup>* `` start"
proof -
  note e = exploredD [OF assms(1)]
  have "E `` result \<subseteq> result" using e(1,4) assms(2) by blast
  then have "E\<^sup>* `` result \<subseteq> result" using Image_closed_trancl by blast
  moreover have "E\<^sup>* `` start \<subseteq> E\<^sup>* `` result" using e(2) by (rule Image_mono [OF subset_refl])
  ultimately have "E\<^sup>* `` start \<subseteq> result" by (rule order_trans [rotated])
  then show ?thesis using e(1,3) by (intro equalityI Un_least)
qed

lemma explored_trans:
  assumes "explored E S {p} T" "explored E T ps R"
  shows "explored E S (insert p ps) R"
proof -
  note a = exploredD [OF assms(1)] and b = exploredD [OF assms(2)]
  have "E `` (R - S) \<subseteq> R"
  proof
    fix x assume "x \<in> E `` (R - S)"
    then obtain y where "(y, x) \<in> E" "y \<in> R" "y \<notin> S" by blast
    then show "x \<in> R" using a(4) b(1,4) by (cases "y \<in> T") blast+
  qed
  moreover have "R \<subseteq> S \<union> E\<^sup>* `` insert p ps"
  proof -
    have "E\<^sup>* `` insert p ps = E\<^sup>* `` {p} \<union> E\<^sup>* `` ps" by (metis Image_Un insert_is_Un)
    then show ?thesis using a(3) b(3) by blast
  qed
  moreover have "S \<subseteq> R" "insert p ps \<subseteq> R" using a(1,2) b(1,2) by auto
  ultimately show ?thesis unfolding explored_def by simp
qed

lemma explored_step:
  assumes "explored E (insert p S) es R" "E `` {p} = es"
  shows "explored E S {p} R"
proof -
  note a = exploredD [OF assms(1)]
  have "E `` (R - S) \<subseteq> R"
  proof
    fix x assume "x \<in> E `` (R - S)"
    then obtain y where "(y, x) \<in> E" "y \<in> R" "y \<notin> S" by blast
    then show "x \<in> R" using a(2,4) assms(2) by (cases "y = p") blast+
  qed
  moreover have "E\<^sup>* `` es \<subseteq> E\<^sup>* `` {p}"
    using assms(2) by (auto intro: converse_rtrancl_into_rtrancl)
  then have "R \<subseteq> S \<union> E\<^sup>* `` {p}" using a(3) by blast
  ultimately show ?thesis using a(1) unfolding explored_def by simp
qed

lemma computeFSClosure_explores:
  assumes "closed_under (closure_edges store f o' d) U" "path \<in> U" "set paths \<subseteq> U"
    and "card (U - set paths) < fuel" "is_oset paths"
  shows "\<exists>result. computeFSClosure fuel store f o' d path paths = Inr result \<and> is_oset result \<and> set result \<subseteq> U \<and>
    explored (closure_rel store f o' d) (set paths) {path} (set result)"
  using assms(2-)
proof (induction fuel arbitrary: path paths)
  case (Suc fuel)
  let ?edges = "closure_edges store f o' d" and ?E = "closure_rel store f o' d"
  show ?case
  proof (cases "path \<in> set paths")
    case True
    then show ?thesis using Suc.prems by (simp add: explored_refl)
  next
    case False
    obtain es where es: "?edges path = Inr es" "set es \<subseteq> U"
      using assms(1) Suc.prems(1) by (auto simp: closed_under_def)
    let ?start = "oinsert path paths"
    have fin: "finite U" using assms(1) by (simp add: closed_under_def)
    have "U - set paths = insert path (U - set ?start)" "path \<notin> U - set ?start" using False Suc.prems(1) by auto
    then have "card (U - set paths) = Suc (card (U - set ?start))" using fin by (metis card_insert_disjoint finite_Diff)
    then have card: "card (U - set ?start) < fuel" using Suc.prems(3) by linarith
    have loop: "\<exists>result. rfold (computeFSClosure fuel store f o' d) es acc = Inr result \<and> is_oset result \<and>
        set result \<subseteq> U \<and> explored ?E (set acc) (set es) (set result)"
      if "set es \<subseteq> U" "is_oset acc" "set acc \<subseteq> U" "set ?start \<subseteq> set acc" for es acc
      using that
    proof (induction es arbitrary: acc)
      case Nil
      then show ?case by (simp add: explored_refl)
    next
      case (Cons e es)
      have "card (U - set acc) \<le> card (U - set ?start)"
        using Cons.prems(4) fin by (intro card_mono) auto
      with card have "card (U - set acc) < fuel" by linarith
      moreover have "e \<in> U" using Cons.prems(1) by simp
      ultimately obtain T where
        T: "computeFSClosure fuel store f o' d e acc = Inr T" "is_oset T" "set T \<subseteq> U"
          "explored ?E (set acc) {e} (set T)" using Suc.IH [OF _ Cons.prems(3) _ Cons.prems(2)] by blast
      have "set ?start \<subseteq> set T" using exploredD(1) [OF T(4)] Cons.prems(4) by blast
      from Cons.IH [OF _ T(2,3) this] Cons.prems(1) obtain R where
        R: "rfold (computeFSClosure fuel store f o' d) es T = Inr R" "is_oset R" "set R \<subseteq> U"
        "explored ?E (set T) (set es) (set R)" by (metis list.set_intros(2) subset_code(1))
      then show ?case using T(1) explored_trans [OF T(4) R(4)] by (intro exI [of _ R]) simp
    qed
    have "is_oset ?start" "set ?start \<subseteq> U" using Suc.prems by auto
    from loop [OF es(2) this subset_refl] obtain R where
      R: "rfold (computeFSClosure fuel store f o' d) es ?start = Inr R" "is_oset R" "set R \<subseteq> U"
        "explored ?E (set ?start) (set es) (set R)" by blast
    have "?E `` {path} = set es" using es(1) by (auto simp: edge_rel_def)
    from explored_step [OF _ this] R(4) have "explored ?E (set paths) {path} (set R)" by simp
    with R es(1) False show ?thesis by simp
  qed
qed simp

lemma computeFSClosure_reachable:
  assumes "closed_under (closure_edges store f o' d) U" "path \<in> U" "card U < fuel"
  shows "\<exists>result. computeFSClosure fuel store f o' d path [] = Inr result \<and> is_oset result \<and>
    set result = (closure_rel store f o' d)\<^sup>* `` {path}"
proof -
  obtain R where R: "computeFSClosure fuel store f o' d path [] = Inr R" "is_oset R"
    "explored (closure_rel store f o' d) {} {path} (set R)"
    using computeFSClosure_explores [OF assms(1,2), of "[]" fuel] assms(3) by auto
  with explored_closed [OF R(3)] show ?thesis by auto
qed

section \<open>Topological order\<close>

text \<open>References between different paths of a set, as far as the paths are valid.\<close>

definition topo_rel :: "store_queries \<Rightarrow> Path oset \<Rightarrow> (Path \<times> Path) set" where
  "topo_rel store paths = {(p, q). p \<noteq> q \<and> q \<in> set paths \<and> isValidPath store p \<and>
     (\<exists>rs. queryReferences store p = Inr rs \<and> q \<in> set rs)}"

definition refs_known :: "store_queries \<Rightarrow> Path oset \<Rightarrow> bool" where
  "refs_known store paths \<longleftrightarrow> (\<forall>p \<in> set paths. isValidPath store p \<longrightarrow> (\<exists>rs. queryReferences store p = Inr rs))"

fun topo_sorted :: "('a \<times> 'a) set \<Rightarrow> 'a list \<Rightarrow> bool" where
  "topo_sorted R [] \<longleftrightarrow> True"
| "topo_sorted R (x # xs) \<longleftrightarrow> R `` {x} \<subseteq> set xs \<and> topo_sorted R xs"

lemma topo_sorted_acyclic:
  assumes "topo_sorted R xs" "distinct xs" "x \<in> set xs" "(x, y) \<in> R\<^sup>+"
  shows "x \<noteq> y"
proof -
  have "y \<in> set xs \<and> (\<exists>us vs. xs = us @ x # vs \<and> y \<in> set vs)"
    using assms(4)
  proof (induction rule: trancl_induct)
    case (base y)
    have "\<exists>us vs. xs = us @ x # vs \<and> R `` {x} \<subseteq> set vs"
      using assms(1,3)
    proof (induction xs)
      case (Cons a xs)
      then show ?case by (cases "x = a") (auto intro: exI [of _ "[]"], metis append_Cons)
    qed simp
    with base show ?case by auto
  next
    case (step y z)
    then obtain us vs where split: "xs = us @ x # vs" "y \<in> set vs" by blast
    have "topo_sorted R vs" using assms(1) unfolding split(1) by (induction us) auto
    then have "R `` {y} \<subseteq> set vs" using split(2) by (induction vs) auto
    with step.hyps(2) split show ?case by auto
  qed
  then show ?thesis using assms(2) by auto
qed

definition dfs_invar :: "store_queries \<Rightarrow> Path oset \<Rightarrow> dfs_state \<Rightarrow> bool" where
  "dfs_invar store paths s \<longleftrightarrow>
     set (visited s) = set (sorted_paths s) \<union> set (parents s) \<and> set (sorted_paths s) \<inter> set (parents s) = {} \<and>
     topo_sorted (topo_rel store paths) (sorted_paths s) \<and> distinct (sorted_paths s) \<and>
     is_oset (parents s) \<and> set (visited s) \<subseteq> set paths"

text \<open>How a call leaves the state: more paths sorted, the stack as it was.\<close>

definition dfs_after :: "store_queries \<Rightarrow> Path oset \<Rightarrow> dfs_state \<Rightarrow> Path set \<Rightarrow> dfs_state result \<Rightarrow> bool" where
  "dfs_after store paths s start r \<longleftrightarrow>
     (case r of
        Inr t \<Rightarrow> dfs_invar store paths t \<and> parents t = parents s \<and> set (sorted_paths s) \<subseteq> set (sorted_paths t) \<and>
          start \<subseteq> set (sorted_paths t)
      | Inl e \<Rightarrow> e = Throw BuildError ''cycle detected in the references'' \<and>
          (\<exists>x \<in> set paths. (x, x) \<in> (topo_rel store paths)\<^sup>+))"

lemma visited_mono:
  "dfs_invar store paths s \<Longrightarrow> dfs_after store paths s start (Inr t) \<Longrightarrow> set (visited s) \<subseteq> set (visited t)"
  by (auto simp: dfs_after_def dfs_invar_def)

lemma dfs_loop:
  assumes IH: "\<And>i s. i \<in> set paths \<Longrightarrow> dfs_invar store paths s \<Longrightarrow> card (set paths - set (visited s)) < fuel \<Longrightarrow>
      \<forall>x \<in> set (parents s). (x, i) \<in> (topo_rel store paths)\<^sup>+ \<Longrightarrow>
      dfs_after store paths s {i} (dfsVisit fuel store paths i s)"
    and "dfs_invar store paths s" "card (set paths - set (visited s)) < fuel"
    and "\<forall>i \<in> set is. i \<noteq> path \<and> i \<in> set paths \<longrightarrow> (\<forall>x \<in> set (parents s). (x, i) \<in> (topo_rel store paths)\<^sup>+)"
  shows "dfs_after store paths s {i \<in> set is. i \<noteq> path \<and> i \<in> set paths}
    (rfold (\<lambda>i s. if i \<noteq> path \<and> i \<in> set paths then dfsVisit fuel store paths i s else Inr s) is s)"
  using assms(2-)
proof (induction "is" arbitrary: s)
  case Nil
  then show ?case by (simp add: dfs_after_def)
next
  case (Cons i "is")
  let ?f = "\<lambda>i s. if i \<noteq> path \<and> i \<in> set paths then dfsVisit fuel store paths i s else Inr s"
  show ?case
  proof (cases "i \<noteq> path \<and> i \<in> set paths")
    case False
    then have "{j \<in> set (i # is). j \<noteq> path \<and> j \<in> set paths} = {j \<in> set is. j \<noteq> path \<and> j \<in> set paths}" by auto
    with False Cons.IH [OF Cons.prems(1,2)] Cons.prems(3) show ?thesis by auto
  next
    case True
    then have i: "dfs_after store paths s {i} (dfsVisit fuel store paths i s)"
      using IH [OF _ Cons.prems(1,2)] Cons.prems(3) by simp
    show ?thesis
    proof (cases "dfsVisit fuel store paths i s")
      case (Inl e)
      with i True show ?thesis by (simp add: dfs_after_def)
    next
      case (Inr t)
      note t = i [unfolded Inr]
      have "set (visited s) \<subseteq> set (visited t)" using visited_mono [OF Cons.prems(1) t] .
      then have "card (set paths - set (visited t)) \<le> card (set paths - set (visited s))"
        by (intro card_mono) auto
      then have card: "card (set paths - set (visited t)) < fuel" using Cons.prems(2) by linarith
      have inv: "dfs_invar store paths t" "parents t = parents s" "set (sorted_paths s) \<subseteq> set (sorted_paths t)" "i \<in> set (sorted_paths t)"
        using t by (auto simp: dfs_after_def)
      have rest: "dfs_after store paths t {j \<in> set is. j \<noteq> path \<and> j \<in> set paths} (rfold ?f is t)"
        using Cons.IH [OF inv(1) card] Cons.prems(3) inv(2) by simp
      show ?thesis
      proof (cases "rfold ?f is t")
        case (Inl e)
        with rest Inr True show ?thesis by (simp add: dfs_after_def)
      next
        case r: (Inr u)
        have "rfold ?f (i # is) s = Inr u" using r Inr True by simp
        then show ?thesis using rest r inv by (auto simp: dfs_after_def)
      qed
    qed
  qed
qed

lemma dfsVisit_after:
  assumes "refs_known store paths" "path \<in> set paths" "dfs_invar store paths s"
    and "card (set paths - set (visited s)) < fuel" "\<forall>x \<in> set (parents s). (x, path) \<in> (topo_rel store paths)\<^sup>+"
  shows "dfs_after store paths s {path} (dfsVisit fuel store paths path s)"
  using assms(2-)
proof (induction fuel arbitrary: path s)
  case (Suc fuel)
  let ?R = "topo_rel store paths"
  show ?case
  proof (cases "path \<in> set (parents s)")
    case True
    then show ?thesis using Suc.prems(1,4) by (auto simp: dfs_after_def)
  next
    case np: False
    show ?thesis
    proof (cases "path \<in> set (visited s)")
      case True
      then show ?thesis using Suc.prems(2) np by (auto simp: dfs_after_def dfs_invar_def)
    next
      case False
      obtain rs where rs: "(if isValidPath store path then queryReferences store path else Inr []) = Inr rs"
        using assms(1) Suc.prems(1) by (cases "isValidPath store path") (auto simp: refs_known_def)
      let ?s = "s \<lparr> visited := oinsert path (visited s), parents := oinsert path (parents s) \<rparr>"
      have inv: "dfs_invar store paths ?s"
        using Suc.prems(1,2) False by (auto simp: dfs_invar_def)
      have "set paths - set (visited s) = insert path (set paths - set (visited ?s))"
        "path \<notin> set paths - set (visited ?s)" using False Suc.prems(1) by auto
      then have "card (set paths - set (visited s)) = Suc (card (set paths - set (visited ?s)))"
        by (metis List.finite_set card_insert_disjoint finite_Diff)
      then have card: "card (set paths - set (visited ?s)) < fuel" using Suc.prems(3) by linarith
      have succ: "(path, i) \<in> ?R" if "i \<in> set rs" "i \<noteq> path" "i \<in> set paths" for i
        using that rs by (auto simp: topo_rel_def split: if_splits)
      have stack: "\<forall>i \<in> set rs. i \<noteq> path \<and> i \<in> set paths \<longrightarrow> (\<forall>x \<in> set (parents ?s). (x, i) \<in> ?R\<^sup>+)"
      proof (intro ballI impI)
        fix i x assume i: "i \<in> set rs" "i \<noteq> path \<and> i \<in> set paths" and x: "x \<in> set (parents ?s)"
        note e = succ [OF i(1)] i(2)
        show "(x, i) \<in> ?R\<^sup>+"
        proof (cases "x = path")
          case True
          then show ?thesis using e by auto
        next
          case False
          then have "(x, path) \<in> ?R\<^sup>+" using x Suc.prems(4) by simp
          then show ?thesis using e by (meson trancl.trancl_into_trancl)
        qed
      qed
      let ?loop = "rfold (\<lambda>i s. if i \<noteq> path \<and> i \<in> set paths then dfsVisit fuel store paths i s else Inr s) rs ?s"
      have after: "dfs_after store paths ?s {i \<in> set rs. i \<noteq> path \<and> i \<in> set paths} ?loop"
        using Suc.IH by (intro dfs_loop inv card stack) auto
      show ?thesis
      proof (cases ?loop)
        case (Inl e)
        with after np False rs show ?thesis by (simp add: dfs_after_def)
      next
        case (Inr t)
        have t: "dfs_invar store paths t" "parents t = oinsert path (parents s)"
          "set (sorted_paths s) \<subseteq> set (sorted_paths t)" "{i \<in> set rs. i \<noteq> path \<and> i \<in> set paths} \<subseteq> set (sorted_paths t)"
          using after Inr by (auto simp: dfs_after_def)
        let ?u = "t \<lparr> sorted_paths := path # sorted_paths t, parents := oerase path (parents t) \<rparr>"
        have ps: "oerase path (parents t) = parents s"
          using np Suc.prems(2) by (intro oset_eqI) (auto simp: t(2) dfs_invar_def)
        have edges: "?R `` {path} \<subseteq> set (sorted_paths t)"
          using t(4) rs by (auto simp: topo_rel_def split: if_splits)
        have "dfs_invar store paths ?u"
          using t(1,2) edges np Suc.prems(2) unfolding dfs_invar_def ps by auto
        then have "dfs_after store paths s {path} (Inr ?u)"
          using t(3) ps by (auto simp: dfs_after_def)
        moreover have "dfsVisit (Suc fuel) store paths path s = Inr ?u" using np False rs Inr by simp
        ultimately show ?thesis by simp
      qed
    qed
  qed
qed simp

lemma topoSortPaths_result:
  assumes "refs_known store paths" "is_oset paths"
  shows "case topoSortPaths store paths of
      Inr xs \<Rightarrow> distinct xs \<and> set xs = set paths \<and> topo_sorted (topo_rel store paths) xs
    | Inl e \<Rightarrow> e = Throw BuildError ''cycle detected in the references'' \<and>
        (\<exists>x \<in> set paths. (x, x) \<in> (topo_rel store paths)\<^sup>+)"
proof -
  let ?s0 = "\<lparr> visited = [], sorted_paths = [], parents = [] \<rparr>" and ?n = "length paths + 1"
  have fuel: "card (set paths - set V) < ?n" for V
    by (meson card_Diff1_le card_length card_mono finite_set le_less_trans less_add_one Diff_subset List.finite_set)
  have "dfs_after store paths s (set ps) (rfold (dfsVisit ?n store paths) ps s)"
    if "dfs_invar store paths s" "parents s = []" "set ps \<subseteq> set paths" for ps s
    using that
  proof (induction ps arbitrary: s)
    case Nil
    then show ?case by (simp add: dfs_after_def)
  next
    case (Cons p ps)
    have p: "dfs_after store paths s {p} (dfsVisit ?n store paths p s)"
      using dfsVisit_after [OF assms(1) _ Cons.prems(1) fuel] Cons.prems by simp
    show ?case
    proof (cases "dfsVisit ?n store paths p s")
      case (Inl e)
      with p show ?thesis by (simp add: dfs_after_def)
    next
      case (Inr t)
      then have t: "dfs_invar store paths t" "parents t = []" "set (sorted_paths s) \<subseteq> set (sorted_paths t)" "p \<in> set (sorted_paths t)"
        using p Cons.prems(2) by (auto simp: dfs_after_def)
      have rest: "dfs_after store paths t (set ps) (rfold (dfsVisit ?n store paths) ps t)"
        by (rule Cons.IH [OF t(1,2)]) (use Cons.prems(3) in simp)
      have run: "rfold (dfsVisit ?n store paths) (p # ps) s = rfold (dfsVisit ?n store paths) ps t"
        using Inr by simp
      show ?thesis unfolding run using rest t Cons.prems(2)
        by (cases "rfold (dfsVisit ?n store paths) ps t") (auto simp: dfs_after_def)
    qed
  qed
  from this [of ?s0 paths] have after: "dfs_after store paths ?s0 (set paths) (rfold (dfsVisit ?n store paths) paths ?s0)"
    by (simp add: dfs_invar_def)
  show ?thesis
  proof (cases "rfold (dfsVisit ?n store paths) paths ?s0")
    case (Inl e)
    with after show ?thesis by (simp add: dfs_after_def topoSortPaths_def)
  next
    case (Inr t)
    with after show ?thesis by (auto simp: dfs_after_def dfs_invar_def topoSortPaths_def)
  qed
qed

section \<open>A store as a provider of queries\<close>

text \<open>
  What the graph algorithms need of a store: in a good state of the database the valid paths are those it lists, and
  the queries about a valid path succeed, with valid paths as references, referrers and derivers.
\<close>

locale store_provider =
  fixes invar :: "'db \<Rightarrow> bool" and queries :: "'db \<Rightarrow> store_queries" and valid :: "'db \<Rightarrow> Path oset"
  assumes valid_iff: "invar db \<Longrightarrow> isValidPath (queries db) p \<longleftrightarrow> p \<in> set (valid db)"
    and references: "invar db \<Longrightarrow> p \<in> set (valid db) \<Longrightarrow>
      \<exists>rs. queryReferences (queries db) p = Inr rs \<and> set rs \<subseteq> set (valid db)"
    and referrers: "invar db \<Longrightarrow> p \<in> set (valid db) \<Longrightarrow>
      \<exists>rs. queryReferrers (queries db) p = Inr rs \<and> set rs \<subseteq> set (valid db)"
    and derivers: "invar db \<Longrightarrow> p \<in> set (valid db) \<Longrightarrow>
      \<exists>ds. queryValidDerivers (queries db) p = Inr ds \<and> set ds \<subseteq> set (valid db)"
    and outs: "invar db \<Longrightarrow> p \<in> set (valid db) \<Longrightarrow> \<exists>os. queryDerivationOutputs (queries db) p = Inr os"
    and deriver: "invar db \<Longrightarrow> p \<in> set (valid db) \<Longrightarrow> \<exists>d. queryDeriver (queries db) p = Inr d"
begin

lemma keep_valid:
  assumes "\<And>x. x \<in> set xs \<Longrightarrow> \<exists>b. c x = Inr b \<and> (b \<longrightarrow> x \<in> U)" "set s \<subseteq> U"
  shows "\<exists>r. rfold (keep_if c) xs s = Inr r \<and> set r \<subseteq> U"
  using assms
proof (induction xs arbitrary: s)
  case (Cons x xs)
  obtain b where b: "c x = Inr b" "b \<longrightarrow> x \<in> U" using Cons.prems(1) [of x] by auto
  let ?s = "if b then oinsert x s else s"
  have "set ?s \<subseteq> U" using b(2) Cons.prems(2) by auto
  then have "\<exists>r. rfold (keep_if c) xs ?s = Inr r \<and> set r \<subseteq> U"
    by (intro Cons.IH) (use Cons.prems(1) in auto)
  moreover have "rfold (keep_if c) (x # xs) s = rfold (keep_if c) xs ?s"
    using b(1) by (simp add: keep_if_def [of c x])
  ultimately show ?case by simp
qed simp

lemma flip_edges:
  assumes db: "invar db" and p: "p \<in> set (valid db)"
  shows "\<exists>es. closure_edges (queries db) True o' d p = Inr es \<and> set es \<subseteq> set (valid db)"
proof -
  obtain rs where rs: "queryReferrers (queries db) p = Inr rs" "set rs \<subseteq> set (valid db)" using referrers [OF db p] by blast
  obtain ds where ds: "queryValidDerivers (queries db) p = Inr ds" "set ds \<subseteq> set (valid db)" using derivers [OF db p] by blast
  obtain os where os: "queryDerivationOutputs (queries db) p = Inr os" using outs [OF db p] by blast
  let ?e = "if o' then oinsert_all ds rs else rs"
  let ?c = "\<lambda>i. if isValidPath (queries db) i then rbind (queryDeriver (queries db) i) (\<lambda>d. Inr (d = p)) else Inr False"
  have e: "set ?e \<subseteq> set (valid db)" using rs(2) ds(2) by auto
  have c: "\<exists>b. ?c i = Inr b \<and> (b \<longrightarrow> i \<in> set (valid db))" for i
    using valid_iff [OF db, of i] deriver [OF db, of i] by (cases "i \<in> set (valid db)") auto
  have "\<exists>r. rfold (keep_if ?c) os ?e = Inr r \<and> set r \<subseteq> set (valid db)" by (intro keep_valid c e)
  then show ?thesis
    using e by (cases o'; cases "d \<and> isDerivation p") (auto simp: closure_edges_def rs(1) ds(1) os)
qed

lemma ref_edges:
  assumes db: "invar db" and p: "p \<in> set (valid db)"
  shows "\<exists>es. closure_edges (queries db) False o' d p = Inr es \<and> set es \<subseteq> set (valid db)"
proof -
  obtain rs where rs: "queryReferences (queries db) p = Inr rs" "set rs \<subseteq> set (valid db)" using references [OF db p] by blast
  obtain os where os: "queryDerivationOutputs (queries db) p = Inr os" using outs [OF db p] by blast
  obtain dr where dr: "queryDeriver (queries db) p = Inr dr" using deriver [OF db p] by blast
  have c: "\<exists>b. Inr (isValidPath (queries db) i) = (Inr b :: bool result) \<and> (b \<longrightarrow> i \<in> set (valid db))" for i
    using valid_iff [OF db, of i] by simp
  obtain es where es: "rfold (keep_if (\<lambda>i. Inr (isValidPath (queries db) i))) os rs = Inr es" "set es \<subseteq> set (valid db)"
    using keep_valid [OF c rs(2)] by blast
  show ?thesis
    using rs os dr es valid_iff [OF db, of dr] by (simp add: closure_edges_def)
qed

lemma closed: "invar db \<Longrightarrow> closed_under (closure_edges (queries db) f o' d) (set (valid db))"
  unfolding closed_under_def by (cases f) (use flip_edges ref_edges in auto)

lemma closure_reachable:
  assumes "invar db" "p \<in> set (valid db)"
  shows "\<exists>result. computeFSClosure (length (valid db) + 1) (queries db) f o' d p [] = Inr result \<and> is_oset result \<and>
    set result = (closure_rel (queries db) f o' d)\<^sup>* `` {p}"
  using computeFSClosure_reachable [OF closed [OF assms(1)] assms(2)] card_length [of "valid db"]
  by (metis le_imp_less_Suc Suc_eq_plus1)

lemma known: "invar db \<Longrightarrow> refs_known (queries db) paths"
  unfolding refs_known_def using valid_iff references by blast

end

section \<open>Properties\<close>

text \<open>
  C18: The topological sort lists every path once, each before all the paths of the set it refers to, and it fails,
  with a build error, exactly when the references contain a cycle through different paths.
\<close>

theorem topoSortPaths_correct:
  assumes "refs_known store paths" "is_oset paths"
  shows "(case topoSortPaths store paths of
      Inr xs \<Rightarrow> distinct xs \<and> set xs = set paths \<and> (\<forall>us x vs. xs = us @ x # vs \<longrightarrow> topo_rel store paths `` {x} \<subseteq> set vs)
    | Inl e \<Rightarrow> e = Throw BuildError ''cycle detected in the references'') \<and>
    ((\<exists>xs. topoSortPaths store paths = Inr xs) \<longleftrightarrow> (\<forall>x \<in> set paths. (x, x) \<notin> (topo_rel store paths)\<^sup>+))"
proof (cases "topoSortPaths store paths")
  case (Inl e)
  then show ?thesis using topoSortPaths_result [OF assms] by auto
next
  case (Inr xs)
  have xs: "distinct xs" "set xs = set paths" "topo_sorted (topo_rel store paths) xs"
    using topoSortPaths_result [OF assms] Inr by auto
  have "topo_rel store paths `` {x} \<subseteq> set vs" if "xs = us @ x # vs" for us x vs
    using xs(3) unfolding that by (induction us) auto
  moreover have "(x, x) \<notin> (topo_rel store paths)\<^sup>+" if "x \<in> set paths" for x
    using topo_sorted_acyclic [OF xs(3,1), of x x] that xs(2) by blast
  ultimately show ?thesis using Inr xs(1,2) by auto
qed

definition sample_queries :: store_queries where
  "sample_queries =
     \<lparr> isValidPath = (\<lambda>p. p = ''/s/a''), queryReferences = (\<lambda>p. Inr [''/s/a'', ''/s/b'']),
       queryReferrers = (\<lambda>p. Inr []), queryValidDerivers = (\<lambda>p. Inr []),
       queryDerivationOutputs = (\<lambda>p. Inr []), queryDeriver = (\<lambda>p. Inr []) \<rparr>"

theorem topoSortPaths_correct_witness:
  "\<exists>xs. topoSortPaths sample_queries [''/s/a'', ''/s/b''] = Inr xs \<and> distinct xs \<and> set xs = {''/s/a'', ''/s/b''}"
proof -
  let ?paths = "[''/s/a'', ''/s/b'']"
  have known: "refs_known sample_queries ?paths" by (simp add: refs_known_def sample_queries_def)
  have set: "is_oset ?paths" by (simp add: less_char_def)
  have "topoSortPaths sample_queries ?paths = Inr ?paths"
    by (simp add: topoSortPaths_def sample_queries_def oerase_def)
  with topoSortPaths_correct [OF known set] show ?thesis by auto
qed

end
