(* ===== verification/LocalStore.thy ===== *)
theory LocalStore
  imports Misc
begin

text \<open>
  The database of valid paths (\<^verbatim>\<open>nix/libstore/local-store.cc\<close>, \<^verbatim>\<open>guix/store/schema.sql\<close>). The tables are lists
  of rows; every prepared statement is an operation on them that keeps the
  constraints of the schema or fails, and a transaction that ends in an exception leaves the
  tables as they were. Texts handed to the database contain no zero byte, and the database
  is never busy.
\<close>

section \<open>Tables and statements\<close>

record ValidPathsRow =
  row_id :: nat
  row_path :: Path
  row_hash :: string
  row_time :: int
  row_deriver :: "Path option"
  row_narSize :: "64 word option"

record database =
  tbl_ValidPaths :: "ValidPathsRow list"
  tbl_Refs :: "(nat \<times> nat) list"
  tbl_DerivationOutputs :: "((nat \<times> string) \<times> Path) list"
  tbl_FailedPaths :: "(Path \<times> int) list"
  last_rowid :: nat

definition sqlite_error :: error where
  "sqlite_error = Throw Error ''executing SQLite statement''"

definition path_row :: "Path \<Rightarrow> database \<Rightarrow> ValidPathsRow option" where
  "path_row path db = find (\<lambda>r. row_path r = path) (tbl_ValidPaths db)"

definition id_row :: "nat \<Rightarrow> database \<Rightarrow> ValidPathsRow option" where
  "id_row i db = find (\<lambda>r. row_id r = i) (tbl_ValidPaths db)"

text \<open>The path of a row found by its identifier, as in a join on \<^verbatim>\<open>ValidPaths\<close>.\<close>

definition join_path :: "nat \<Rightarrow> database \<Rightarrow> Path list" where
  "join_path i db = (case id_row i db of None \<Rightarrow> [] | Some r \<Rightarrow> [row_path r])"

definition stmtRegisterValidPath ::
  "Path \<Rightarrow> string \<Rightarrow> int \<Rightarrow> Path option \<Rightarrow> 64 word option \<Rightarrow> database \<Rightarrow> database result" where
  "stmtRegisterValidPath path h time deriver narSize db =
     (if path_row path db \<noteq> None then Inl sqlite_error
      else
        Inr (db \<lparr> tbl_ValidPaths := tbl_ValidPaths db @
          [\<lparr> row_id = Suc (last_rowid db), row_path = path, row_hash = h, row_time = time,
             row_deriver = deriver, row_narSize = narSize \<rparr>],
          last_rowid := Suc (last_rowid db) \<rparr>))"

definition stmtUpdatePathInfo :: "64 word option \<Rightarrow> string \<Rightarrow> Path \<Rightarrow> database \<Rightarrow> database" where
  "stmtUpdatePathInfo narSize h path db =
     db \<lparr> tbl_ValidPaths :=
       map (\<lambda>r. if row_path r = path then r \<lparr> row_narSize := narSize, row_hash := h \<rparr> else r)
         (tbl_ValidPaths db) \<rparr>"

definition stmtAddReference :: "nat \<Rightarrow> nat \<Rightarrow> database \<Rightarrow> database result" where
  "stmtAddReference referrer reference db =
     (if id_row referrer db = None \<or> id_row reference db = None then Inl sqlite_error
      else
        Inr (db \<lparr> tbl_Refs := filter (\<lambda>e. e \<noteq> (referrer, reference)) (tbl_Refs db) @ [(referrer, reference)] \<rparr>))"

definition stmtQueryReferences :: "nat \<Rightarrow> database \<Rightarrow> Path list" where
  "stmtQueryReferences i db =
     concat (map (\<lambda>(referrer, reference).
       if referrer = i then join_path reference db else []) (tbl_Refs db))"

definition stmtQueryReferrers :: "Path \<Rightarrow> database \<Rightarrow> Path list" where
  "stmtQueryReferrers path db =
     (case path_row path db of
        None \<Rightarrow> []
      | Some p \<Rightarrow>
          concat (map (\<lambda>(referrer, reference).
            if reference = row_id p then join_path referrer db else []) (tbl_Refs db)))"

text \<open>
  Deleting a row: the trigger first deletes a reference of the path to itself, then the
  references of the path and its derivation outputs go with it; another path that still refers to it
  makes the statement fail.
\<close>

definition stmtInvalidatePath :: "Path \<Rightarrow> database \<Rightarrow> database result" where
  "stmtInvalidatePath path db =
     (case path_row path db of
        None \<Rightarrow> Inr db
      | Some p \<Rightarrow>
          let i = row_id p; refs = filter (\<lambda>e. e \<noteq> (i, i)) (tbl_Refs db) in
          if \<exists>e \<in> set refs. snd e = i then Inl sqlite_error
          else
            Inr (db \<lparr> tbl_ValidPaths := filter (\<lambda>r. row_path r \<noteq> path) (tbl_ValidPaths db),
              tbl_Refs := filter (\<lambda>e. fst e \<noteq> i) refs,
              tbl_DerivationOutputs := filter (\<lambda>e. fst (fst e) \<noteq> i) (tbl_DerivationOutputs db) \<rparr>))"

definition stmtRegisterFailedPath :: "Path \<Rightarrow> int \<Rightarrow> database \<Rightarrow> database" where
  "stmtRegisterFailedPath path time db =
     (if map_of (tbl_FailedPaths db) path \<noteq> None then db
      else db \<lparr> tbl_FailedPaths := tbl_FailedPaths db @ [(path, time)] \<rparr>)"

definition stmtQueryDerivationOutputs :: "nat \<Rightarrow> database \<Rightarrow> (string \<times> Path) list" where
  "stmtQueryDerivationOutputs i db =
     map (\<lambda>((_, oid), path). (oid, path)) (filter (\<lambda>((drv, _), _). drv = i) (tbl_DerivationOutputs db))"

definition stmtClearFailedPath :: "Path \<Rightarrow> database \<Rightarrow> database" where
  "stmtClearFailedPath path db =
     (let outs = (case path_row path db of
          None \<Rightarrow> [] | Some p \<Rightarrow> map snd (stmtQueryDerivationOutputs (row_id p) db))
      in db \<lparr> tbl_FailedPaths :=
        filter (\<lambda>(p, _). \<not> (path = ''*'' \<or> p = path \<or> p \<in> set outs)) (tbl_FailedPaths db) \<rparr>)"

definition stmtAddDerivationOutput :: "nat \<Rightarrow> string \<Rightarrow> Path \<Rightarrow> database \<Rightarrow> database result" where
  "stmtAddDerivationOutput drv oid path db =
     (if id_row drv db = None then Inl sqlite_error
      else
        Inr (db \<lparr> tbl_DerivationOutputs :=
          filter (\<lambda>e. fst e \<noteq> (drv, oid)) (tbl_DerivationOutputs db) @ [((drv, oid), path)] \<rparr>))"

definition stmtQueryValidDerivers :: "Path \<Rightarrow> database \<Rightarrow> Path list" where
  "stmtQueryValidDerivers path db =
     concat (map (\<lambda>((drv, _), p).
       if p = path then join_path drv db else []) (tbl_DerivationOutputs db))"

text \<open>
  The lookup by hash part has no \<^verbatim>\<open>order by\<close>: it walks the index that the \<^verbatim>\<open>unique\<close> constraint puts on the
  column, that is, it gives the least path not below the argument.
\<close>

definition stmtQueryPathFromHashPart :: "Path \<Rightarrow> database \<Rightarrow> Path option" where
  "stmtQueryPathFromHashPart pre db =
     (case oinsert_all (filter (\<lambda>p. pre \<le> p) (map row_path (tbl_ValidPaths db))) [] of
        [] \<Rightarrow> None | p # _ \<Rightarrow> Some p)"

section \<open>Queries\<close>

definition isValidPath_raw :: "Path \<Rightarrow> database \<Rightarrow> bool" where
  "isValidPath_raw path db \<longleftrightarrow> path_row path db \<noteq> None"

definition ls_isValidPath :: "Path \<Rightarrow> database \<Rightarrow> bool" where
  "ls_isValidPath path db = isValidPath_raw path db"

definition queryValidPaths :: "Path oset \<Rightarrow> database \<Rightarrow> Path oset" where
  "queryValidPaths paths db = oinsert_all (filter (\<lambda>p. isValidPath_raw p db) paths) []"

definition queryAllValidPaths :: "database \<Rightarrow> Path oset" where
  "queryAllValidPaths db = oinsert_all (map row_path (tbl_ValidPaths db)) []"

definition queryValidPathId :: "Path \<Rightarrow> database \<Rightarrow> nat result" where
  "queryValidPathId path db =
     (case path_row path db of None \<Rightarrow> Inl (Throw Error ''path is not valid'') | Some r \<Rightarrow> Inr (row_id r))"

definition parseHashField :: "gcrypt \<Rightarrow> string \<Rightarrow> Hash result" where
  "parseHashField g s =
     (let colon = length (takeWhile (\<lambda>c. c \<noteq> CHR '':'') s) in
      if colon = length s then Inl (Throw Error ''corrupt hash in valid-path entry'')
      else
        (let ht = parseHashType (take colon s) in
         if ht = htUnknown then Inl (Throw Error ''unknown hash type in valid-path entry'')
         else parseHash g ht (drop (colon + 1) s)))"

definition queryPathInfo :: "gcrypt \<Rightarrow> Path \<Rightarrow> Path \<Rightarrow> database \<Rightarrow> ValidPathInfo result" where
  "queryPathInfo g store path db =
     rbind (assertStorePath store path) (\<lambda>_.
     (case path_row path db of
        None \<Rightarrow> Inl (Throw Error ''path is not valid'')
      | Some r \<Rightarrow>
          rbind (parseHashField g (row_hash r)) (\<lambda>h.
          Inr \<lparr> vpi_path = path,
                vpi_deriver = (case row_deriver r of None \<Rightarrow> [] | Some d \<Rightarrow> d),
                vpi_hash = h,
                vpi_references = oinsert_all (stmtQueryReferences (row_id r) db) [],
                vpi_registrationTime = row_time r,
                vpi_narSize = (case row_narSize r of None \<Rightarrow> 0 | Some n \<Rightarrow> n),
                vpi_id = word_of_nat (row_id r) \<rparr>)))"

definition ls_queryReferences :: "gcrypt \<Rightarrow> Path \<Rightarrow> Path \<Rightarrow> database \<Rightarrow> Path oset result" where
  "ls_queryReferences g store path db = rbind (queryPathInfo g store path db) (\<lambda>info. Inr (vpi_references info))"

definition queryReferrers_raw :: "Path \<Rightarrow> database \<Rightarrow> Path oset" where
  "queryReferrers_raw path db = oinsert_all (stmtQueryReferrers path db) []"

definition ls_queryReferrers :: "Path \<Rightarrow> Path \<Rightarrow> database \<Rightarrow> Path oset result" where
  "ls_queryReferrers store path db =
     rbind (assertStorePath store path) (\<lambda>_. Inr (queryReferrers_raw path db))"

definition ls_queryDeriver :: "gcrypt \<Rightarrow> Path \<Rightarrow> Path \<Rightarrow> database \<Rightarrow> Path result" where
  "ls_queryDeriver g store path db = rbind (queryPathInfo g store path db) (\<lambda>info. Inr (vpi_deriver info))"

definition queryPathHash :: "gcrypt \<Rightarrow> Path \<Rightarrow> Path \<Rightarrow> database \<Rightarrow> Hash result" where
  "queryPathHash g store path db = rbind (queryPathInfo g store path db) (\<lambda>info. Inr (vpi_hash info))"

definition ls_queryValidDerivers :: "Path \<Rightarrow> Path \<Rightarrow> database \<Rightarrow> Path oset result" where
  "ls_queryValidDerivers store path db =
     rbind (assertStorePath store path) (\<lambda>_. Inr (oinsert_all (stmtQueryValidDerivers path db) []))"

definition ls_queryDerivationOutputs :: "Path \<Rightarrow> database \<Rightarrow> Path oset result" where
  "ls_queryDerivationOutputs path db =
     rbind (queryValidPathId path db) (\<lambda>i.
     Inr (oinsert_all (map snd (stmtQueryDerivationOutputs i db)) []))"

definition queryDerivationOutputNames :: "Path \<Rightarrow> database \<Rightarrow> string oset result" where
  "queryDerivationOutputNames path db =
     rbind (queryValidPathId path db) (\<lambda>i.
     Inr (oinsert_all (map fst (stmtQueryDerivationOutputs i db)) []))"

definition queryPathFromHashPart :: "Path \<Rightarrow> string \<Rightarrow> database \<Rightarrow> Path result" where
  "queryPathFromHashPart store hashPart db =
     (if length hashPart \<noteq> 32 then Inl (Throw Error ''invalid hash part'')
      else
        (let pre = store @ ''/'' @ hashPart in
         case stmtQueryPathFromHashPart pre db of
           None \<Rightarrow> Inr []
         | Some s \<Rightarrow> Inr (if take (length pre) s = pre then s else [])))"

definition hasPathFailed :: "Path \<Rightarrow> database \<Rightarrow> bool" where
  "hasPathFailed path db \<longleftrightarrow> map_of (tbl_FailedPaths db) path \<noteq> None"

definition queryFailedPaths :: "database \<Rightarrow> Path oset" where
  "queryFailedPaths db = oinsert_all (map fst (tbl_FailedPaths db)) []"

definition db_queries :: "gcrypt \<Rightarrow> Path \<Rightarrow> database \<Rightarrow> store_queries" where
  "db_queries g store db =
     \<lparr> isValidPath = (\<lambda>p. ls_isValidPath p db),
       queryReferences = (\<lambda>p. ls_queryReferences g store p db),
       queryReferrers = (\<lambda>p. ls_queryReferrers store p db),
       queryValidDerivers = (\<lambda>p. ls_queryValidDerivers store p db),
       queryDerivationOutputs = (\<lambda>p. ls_queryDerivationOutputs p db),
       queryDeriver = (\<lambda>p. ls_queryDeriver g store p db) \<rparr>"

section \<open>Updates\<close>

text \<open>
  The state of the store object that these operations change: the database and the hashes of
  derivations remembered by \<open>hashDerivationModulo\<close>. Rolling a transaction back restores only the
  database.
\<close>

record store_state =
  st_db :: database
  st_drvHashes :: DrvHashes

definition exec :: "(database \<Rightarrow> database result) \<Rightarrow> (unit, store_state) action" where
  "exec stmt s =
     (case stmt (st_db s) of Inl e \<Rightarrow> (Inl e, s) | Inr db \<Rightarrow> (Inr (), s \<lparr> st_db := db \<rparr>))"

definition SQLiteTxn :: "('a, store_state) action \<Rightarrow> ('a, store_state) action" where
  "SQLiteTxn body s =
     (case body s of
        (Inr x, t) \<Rightarrow> (Inr x, t)
      | (Inl e, t) \<Rightarrow> (Inl e, t \<lparr> st_db := st_db s \<rparr>))"

definition returned :: "'a result option \<Rightarrow> 'a result" where
  "returned r = (case r of None \<Rightarrow> Inl Diverges | Some r \<Rightarrow> r)"

text \<open>What the operations take from their surroundings: the digests, the store directory, the files, the clock.\<close>

record store_env =
  env_gcrypt :: gcrypt
  env_store :: Path
  env_readFile :: "Path \<Rightarrow> string result"
  env_time :: int
  env_fuel :: nat

definition hash_modulo :: "store_env \<Rightarrow> Derivation \<Rightarrow> (Hash, store_state) action" where
  "hash_modulo env drv s =
     (case hashDerivationModulo (env_fuel env) (env_gcrypt env) (\<lambda>p. ls_isValidPath p (st_db s)) (env_readFile env)
             drv (st_drvHashes s) of
        None \<Rightarrow> (Inl Diverges, s)
      | Some (r, memo) \<Rightarrow> (r, s \<lparr> st_drvHashes := memo \<rparr>))"

definition incorrect_output :: error where
  "incorrect_output = Throw Error ''derivation has incorrect output''"

definition output_matches :: "Derivation \<Rightarrow> string \<Rightarrow> Path \<Rightarrow> Path \<Rightarrow> bool" where
  "output_matches drv oid path outPath \<longleftrightarrow> path = outPath \<and> map_of (drv_env drv) oid = Some outPath"

definition masked_drv :: "Derivation \<Rightarrow> Derivation" where
  "masked_drv drv =
     drv \<lparr> drv_outputs := map (\<lambda>(oid, out). (oid, out \<lparr> do_path := [] \<rparr>)) (drv_outputs drv),
           drv_env := fold (\<lambda>(oid, _). oput oid []) (drv_outputs drv) (drv_env drv) \<rparr>"

definition checkDerivationOutputs :: "store_env \<Rightarrow> Path \<Rightarrow> Derivation \<Rightarrow> (unit, store_state) action" where
  "checkDerivationOutputs env drvPath drv =
     abind (alift (storePathToName (env_store env) drvPath)) (\<lambda>drvName.
     if \<not> isDerivation drvName then athrow (Abort ''isDerivation(drvName)'')
     else
       let drvName = take (length drvName - length drvExtension) drvName in
       if isFixedOutputDrv drv then
         (case map_of (drv_outputs drv) ''out'' of
            None \<Rightarrow> athrow (Throw Error ''derivation does not have an output named out'')
          | Some out \<Rightarrow>
              abind (alift (parseHashInfo (env_gcrypt env) out)) (\<lambda>(recursive, ht, h).
              abind (alift (makeFixedOutputPath (env_gcrypt env) (env_store env) recursive ht h drvName)) (\<lambda>outPath.
              if output_matches drv ''out'' (do_path out) outPath then areturn () else athrow incorrect_output)))
       else
         abind (hash_modulo env (masked_drv drv)) (\<lambda>h.
         aforeach (drv_outputs drv) (\<lambda>(oid, out).
           abind (alift (makeOutputPath (env_gcrypt env) (env_store env) oid h drvName)) (\<lambda>outPath.
           if output_matches drv oid (do_path out) outPath then areturn () else athrow incorrect_output))))"

definition add_outputs :: "store_env \<Rightarrow> ValidPathInfo \<Rightarrow> bool \<Rightarrow> nat \<Rightarrow> (unit, store_state) action" where
  "add_outputs env info checkOutputs i =
     (if isDerivation (vpi_path info) then
        abind (alift (returned (readDerivation (env_readFile env) (vpi_path info)))) (\<lambda>drv.
        abind (if checkOutputs then checkDerivationOutputs env (vpi_path info) drv else areturn ()) (\<lambda>_.
        aforeach (drv_outputs drv) (\<lambda>(oid, out). exec (stmtAddDerivationOutput i oid (do_path out)))))
      else areturn ())"

definition addValidPath :: "store_env \<Rightarrow> ValidPathInfo \<Rightarrow> bool \<Rightarrow> (nat, store_state) action" where
  "addValidPath env info checkOutputs =
     abind (exec (stmtRegisterValidPath (vpi_path info) (''sha256:'' @ printHash (vpi_hash info))
       (if vpi_registrationTime info = 0 then env_time env else vpi_registrationTime info)
       (if vpi_deriver info \<noteq> [] then Some (vpi_deriver info) else None)
       (if vpi_narSize info \<noteq> 0 then Some (vpi_narSize info) else None))) (\<lambda>_.
     abind (aget (\<lambda>s. last_rowid (st_db s))) (\<lambda>i.
     abind (add_outputs env info checkOutputs i) (\<lambda>_.
     areturn i)))"

definition addReference :: "nat \<Rightarrow> nat \<Rightarrow> (unit, store_state) action" where
  "addReference referrer reference = exec (stmtAddReference referrer reference)"

definition updatePathInfo :: "ValidPathInfo \<Rightarrow> (unit, store_state) action" where
  "updatePathInfo info =
     exec (\<lambda>db. Inr (stmtUpdatePathInfo (if vpi_narSize info \<noteq> 0 then Some (vpi_narSize info) else None)
       (''sha256:'' @ printHash (vpi_hash info)) (vpi_path info) db))"

definition registerFailedPath :: "store_env \<Rightarrow> Path \<Rightarrow> (unit, store_state) action" where
  "registerFailedPath env path = exec (\<lambda>db. Inr (stmtRegisterFailedPath path (env_time env) db))"

definition clearFailedPaths :: "Path oset \<Rightarrow> (unit, store_state) action" where
  "clearFailedPaths paths = SQLiteTxn (aforeach paths (\<lambda>p. exec (\<lambda>db. Inr (stmtClearFailedPath p db))))"

definition register_one :: "store_env \<Rightarrow> ValidPathInfo \<Rightarrow> (unit, store_state) action" where
  "register_one env info =
     (if htype (vpi_hash info) \<noteq> htSHA256 then athrow (Abort ''i->hash.type == htSHA256'')
      else
        abind (aget (\<lambda>s. isValidPath_raw (vpi_path info) (st_db s))) (\<lambda>valid.
        if valid then updatePathInfo info
        else abind (addValidPath env info False) (\<lambda>_. areturn ())))"

definition register_refs :: "ValidPathInfo \<Rightarrow> (unit, store_state) action" where
  "register_refs info =
     abind (aget (\<lambda>s. queryValidPathId (vpi_path info) (st_db s))) (\<lambda>r.
     abind (alift r) (\<lambda>referrer.
     aforeach (vpi_references info) (\<lambda>j.
       abind (aget (\<lambda>s. queryValidPathId j (st_db s))) (\<lambda>r.
       abind (alift r) (\<lambda>reference. addReference referrer reference)))))"

definition check_drv :: "store_env \<Rightarrow> ValidPathInfo \<Rightarrow> (unit, store_state) action" where
  "check_drv env info =
     (if isDerivation (vpi_path info) then
        abind (alift (returned (readDerivation (env_readFile env) (vpi_path info)))) (\<lambda>drv.
        checkDerivationOutputs env (vpi_path info) drv)
      else areturn ())"

definition registerValidPaths :: "store_env \<Rightarrow> ValidPathInfo list \<Rightarrow> (unit, store_state) action" where
  "registerValidPaths env infos =
     SQLiteTxn (
       abind (aforeach infos (register_one env)) (\<lambda>_.
       abind (aforeach infos register_refs) (\<lambda>_.
       abind (aforeach infos (check_drv env)) (\<lambda>_.
       abind (aget (\<lambda>s. topoSortPaths (db_queries (env_gcrypt env) (env_store env) (st_db s))
         (oinsert_all (map vpi_path infos) []))) (\<lambda>r.
       abind (alift r) (\<lambda>_. areturn ()))))))"

definition registerValidPath :: "store_env \<Rightarrow> ValidPathInfo \<Rightarrow> (unit, store_state) action" where
  "registerValidPath env info = registerValidPaths env [info]"

definition invalidatePath :: "Path \<Rightarrow> (unit, store_state) action" where
  "invalidatePath path =
     abind (amodify (\<lambda>s. s \<lparr> st_drvHashes := filter (\<lambda>e. fst e \<noteq> path) (st_drvHashes s) \<rparr>)) (\<lambda>_.
     exec (stmtInvalidatePath path))"

definition invalidatePathChecked :: "Path \<Rightarrow> Path \<Rightarrow> (unit, store_state) action" where
  "invalidatePathChecked store path =
     abind (alift (assertStorePath store path)) (\<lambda>_.
     SQLiteTxn (
       abind (aget (\<lambda>s. isValidPath_raw path (st_db s))) (\<lambda>valid.
       if valid then
         abind (aget (\<lambda>s. oerase path (queryReferrers_raw path (st_db s)))) (\<lambda>referrers.
         if referrers \<noteq> [] then athrow (Throw PathInUse (''cannot delete path, it is in use by '' @ showPaths referrers))
         else invalidatePath path)
       else areturn ())))"

section \<open>The constraints of the tables\<close>

definition row_ids :: "database \<Rightarrow> nat set" where
  "row_ids db = row_id ` set (tbl_ValidPaths db)"

definition valid_set :: "database \<Rightarrow> Path set" where
  "valid_set db = row_path ` set (tbl_ValidPaths db)"

definition row_ok :: "gcrypt \<Rightarrow> Path \<Rightarrow> ValidPathsRow \<Rightarrow> bool" where
  "row_ok g store r \<longleftrightarrow> isStorePath store (row_path r) \<and> (\<exists>h. parseHashField g (row_hash r) = Inr h)"

definition db_ok :: "gcrypt \<Rightarrow> Path \<Rightarrow> database \<Rightarrow> bool" where
  "db_ok g store db \<longleftrightarrow>
     distinct (map row_id (tbl_ValidPaths db)) \<and> distinct (map row_path (tbl_ValidPaths db)) \<and>
     (\<forall>i \<in> row_ids db. i \<le> last_rowid db) \<and>
     (\<forall>e \<in> set (tbl_Refs db). fst e \<in> row_ids db \<and> snd e \<in> row_ids db) \<and> distinct (tbl_Refs db) \<and>
     (\<forall>e \<in> set (tbl_DerivationOutputs db). fst (fst e) \<in> row_ids db) \<and>
     distinct (map fst (tbl_DerivationOutputs db)) \<and> distinct (map fst (tbl_FailedPaths db)) \<and>
     (\<forall>r \<in> set (tbl_ValidPaths db). row_ok g store r)"

lemma find_key_Some:
  assumes "distinct (map f xs)"
  shows "find (\<lambda>r. f r = k) xs = Some r \<longleftrightarrow> r \<in> set xs \<and> f r = k"
  using assms by (induction xs) (auto simp: image_iff)

lemma find_key_None: "find (\<lambda>r. f r = k) xs = None \<longleftrightarrow> k \<notin> f ` set xs"
  by (auto simp: find_None_iff)

lemma path_row_None [simp]: "path_row p db = None \<longleftrightarrow> p \<notin> valid_set db"
  by (simp add: path_row_def find_key_None valid_set_def)

lemma id_row_None [simp]: "id_row i db = None \<longleftrightarrow> i \<notin> row_ids db"
  by (simp add: id_row_def find_key_None row_ids_def)

lemma path_row_Some:
  "db_ok g store db \<Longrightarrow> path_row p db = Some r \<longleftrightarrow> r \<in> set (tbl_ValidPaths db) \<and> row_path r = p"
  unfolding path_row_def by (rule find_key_Some) (simp add: db_ok_def)

lemma id_row_Some:
  "db_ok g store db \<Longrightarrow> id_row i db = Some r \<longleftrightarrow> r \<in> set (tbl_ValidPaths db) \<and> row_id r = i"
  unfolding id_row_def by (rule find_key_Some) (simp add: db_ok_def)

lemma row_path_inject:
  "db_ok g store db \<Longrightarrow> r \<in> set (tbl_ValidPaths db) \<Longrightarrow> q \<in> set (tbl_ValidPaths db) \<Longrightarrow> row_path r = row_path q \<Longrightarrow> r = q"
  using path_row_Some [of g store db "row_path r"] by (metis option.inject)

lemma row_id_inject:
  "db_ok g store db \<Longrightarrow> r \<in> set (tbl_ValidPaths db) \<Longrightarrow> q \<in> set (tbl_ValidPaths db) \<Longrightarrow> row_id r = row_id q \<Longrightarrow> r = q"
  using id_row_Some [of g store db "row_id r"] by (metis option.inject)

lemma db_ok_row: "db_ok g store db \<Longrightarrow> r \<in> set (tbl_ValidPaths db) \<Longrightarrow> row_ok g store r"
  by (simp add: db_ok_def)

lemma db_ok_refs:
  assumes "db_ok g store db" "(a, b) \<in> set (tbl_Refs db)"
  obtains r q where "r \<in> set (tbl_ValidPaths db)" "q \<in> set (tbl_ValidPaths db)" "row_id r = a" "row_id q = b"
  using assms by (auto simp: db_ok_def row_ids_def)

section \<open>The graph the tables stand for\<close>

definition refs_rel :: "database \<Rightarrow> (Path \<times> Path) set" where
  "refs_rel db = {(row_path r, row_path q) | r q. r \<in> set (tbl_ValidPaths db) \<and> q \<in> set (tbl_ValidPaths db) \<and>
     (row_id r, row_id q) \<in> set (tbl_Refs db)}"

lemma refs_rel_valid: "refs_rel db \<subseteq> valid_set db \<times> valid_set db"
  by (auto simp: refs_rel_def valid_set_def)

lemma refs_rel_iff:
  assumes "db_ok g store db" "r \<in> set (tbl_ValidPaths db)" "q \<in> set (tbl_ValidPaths db)"
  shows "(row_path r, row_path q) \<in> refs_rel db \<longleftrightarrow> (row_id r, row_id q) \<in> set (tbl_Refs db)"
proof
  assume "(row_path r, row_path q) \<in> refs_rel db"
  then obtain r' q' where "r' \<in> set (tbl_ValidPaths db)" "q' \<in> set (tbl_ValidPaths db)"
    "(row_id r', row_id q') \<in> set (tbl_Refs db)" "row_path r = row_path r'" "row_path q = row_path q'"
    by (auto simp: refs_rel_def)
  then show "(row_id r, row_id q) \<in> set (tbl_Refs db)" using row_path_inject [OF assms(1)] assms(2,3) by metis
qed (use assms in \<open>auto simp: refs_rel_def\<close>)

lemma set_join_path:
  assumes "db_ok g store db"
  shows "q \<in> set (join_path i db) \<longleftrightarrow> (\<exists>s \<in> set (tbl_ValidPaths db). row_id s = i \<and> row_path s = q)"
proof (cases "id_row i db")
  case None
  then have "join_path i db = []" by (simp only: join_path_def option.case)
  moreover have "i \<notin> row_ids db" using None by simp
  ultimately show ?thesis by (auto simp: row_ids_def)
next
  case (Some s)
  then have "join_path i db = [row_path s]" by (simp only: join_path_def option.case)
  moreover have "s \<in> set (tbl_ValidPaths db)" "row_id s = i" using Some id_row_Some [OF assms] by auto
  ultimately show ?thesis using row_id_inject [OF assms] by auto
qed

lemma set_stmtQueryReferences:
  assumes "db_ok g store db" "r \<in> set (tbl_ValidPaths db)"
  shows "set (stmtQueryReferences (row_id r) db) = refs_rel db `` {row_path r}"
proof -
  have "q \<in> set (stmtQueryReferences (row_id r) db) \<longleftrightarrow>
      (\<exists>s \<in> set (tbl_ValidPaths db). row_path s = q \<and> (row_id r, row_id s) \<in> set (tbl_Refs db))" for q
    unfolding stmtQueryReferences_def using set_join_path [OF assms(1)] by fastforce
  moreover have "(row_path r, q) \<in> refs_rel db \<longleftrightarrow>
      (\<exists>s \<in> set (tbl_ValidPaths db). row_path s = q \<and> (row_id r, row_id s) \<in> set (tbl_Refs db))" for q
    using refs_rel_iff [OF assms] refs_rel_valid [of db] by (fastforce simp: valid_set_def)
  ultimately show ?thesis by blast
qed

lemma set_stmtQueryReferrers:
  assumes "db_ok g store db"
  shows "set (stmtQueryReferrers p db) = (refs_rel db)\<inverse> `` {p}"
proof (cases "path_row p db")
  case None
  then have "stmtQueryReferrers p db = []" by (simp only: stmtQueryReferrers_def option.case)
  moreover have "p \<notin> valid_set db" using None by simp
  ultimately show ?thesis using refs_rel_valid [of db] by auto
next
  case (Some q)
  then have q: "q \<in> set (tbl_ValidPaths db)" "row_path q = p" using path_row_Some [OF assms] by auto
  have "x \<in> set (stmtQueryReferrers p db) \<longleftrightarrow>
      (\<exists>s \<in> set (tbl_ValidPaths db). row_path s = x \<and> (row_id s, row_id q) \<in> set (tbl_Refs db))" for x
    unfolding stmtQueryReferrers_def Some using set_join_path [OF assms] by fastforce
  moreover have "(x, p) \<in> refs_rel db \<longleftrightarrow>
      (\<exists>s \<in> set (tbl_ValidPaths db). row_path s = x \<and> (row_id s, row_id q) \<in> set (tbl_Refs db))" for x
    using refs_rel_iff [OF assms _ q(1)] refs_rel_valid [of db] q(2) by (fastforce simp: valid_set_def)
  ultimately show ?thesis by blast
qed

section \<open>What the statements do to the graph\<close>

lemma row_ids_bound: "db_ok g store db \<Longrightarrow> i \<in> row_ids db \<Longrightarrow> i \<le> last_rowid db"
  by (simp add: db_ok_def)

lemma stmtRegisterValidPath_ok:
  assumes "db_ok g store db" "stmtRegisterValidPath p h t d n db = Inr db'" "isStorePath store p"
    and "parseHashField g h = Inr hh"
  shows "db_ok g store db'" "valid_set db' = insert p (valid_set db)" "refs_rel db' = refs_rel db"
    "p \<notin> valid_set db" "last_rowid db' \<in> row_ids db'"
proof -
  let ?r = "\<lparr> row_id = Suc (last_rowid db), row_path = p, row_hash = h, row_time = t, row_deriver = d, row_narSize = n \<rparr>"
  have new: "p \<notin> valid_set db" and db': "db' = db \<lparr> tbl_ValidPaths := tbl_ValidPaths db @ [?r], last_rowid := Suc (last_rowid db) \<rparr>"
    using assms(2) by (auto simp: stmtRegisterValidPath_def split: if_splits)
  have fresh: "Suc (last_rowid db) \<notin> row_ids db" using row_ids_bound [OF assms(1)] by fastforce
  have ids: "row_ids db' = insert (Suc (last_rowid db)) (row_ids db)" by (auto simp: row_ids_def db')
  show "p \<notin> valid_set db" by (fact new)
  show "last_rowid db' \<in> row_ids db'" unfolding ids by (simp add: db')
  show "valid_set db' = insert p (valid_set db)" by (auto simp: valid_set_def db')
  have old: "fst e \<in> row_ids db \<and> snd e \<in> row_ids db" if "e \<in> set (tbl_Refs db)" for e
    using assms(1) that by (simp add: db_ok_def)
  have vp': "set (tbl_ValidPaths db') = insert ?r (set (tbl_ValidPaths db))" and refs': "tbl_Refs db' = tbl_Refs db"
    by (simp_all add: db')
  have keep: "a \<in> set (tbl_ValidPaths db)" if "a \<in> set (tbl_ValidPaths db')" "row_id a \<in> row_ids db" for a
    using that fresh unfolding vp' by auto
  show "refs_rel db' = refs_rel db"
  proof (rule set_eqI, rule iffI)
    fix e assume "e \<in> refs_rel db'"
    then obtain a b where ab: "e = (row_path a, row_path b)" "a \<in> set (tbl_ValidPaths db')" "b \<in> set (tbl_ValidPaths db')"
      "(row_id a, row_id b) \<in> set (tbl_Refs db)" unfolding refs_rel_def refs' by blast
    then show "e \<in> refs_rel db" using keep old [OF ab(4)] unfolding refs_rel_def by auto
  next
    fix e assume "e \<in> refs_rel db"
    then show "e \<in> refs_rel db'" unfolding refs_rel_def vp' refs' by blast
  qed
  have bound: "i \<le> Suc (last_rowid db)" if "i \<in> row_ids db'" for i
    using that row_ids_bound [OF assms(1), of i] by (auto simp: ids)
  have rows: "row_ok g store r" if "r \<in> set (tbl_ValidPaths db')" for r
    using that db_ok_row [OF assms(1)] assms(3,4) by (auto simp: db' row_ok_def)
  have "distinct (map row_id (tbl_ValidPaths db'))" "distinct (map row_path (tbl_ValidPaths db'))"
    using assms(1) fresh new by (auto simp: db_ok_def db' row_ids_def valid_set_def)
  moreover have "last_rowid db' = Suc (last_rowid db)" "tbl_DerivationOutputs db' = tbl_DerivationOutputs db"
    "tbl_FailedPaths db' = tbl_FailedPaths db" by (simp_all add: db')
  moreover have "\<forall>e \<in> set (tbl_DerivationOutputs db). fst (fst e) \<in> row_ids db'" "\<forall>e \<in> set (tbl_Refs db). fst e \<in> row_ids db' \<and> snd e \<in> row_ids db'"
    using assms(1) unfolding db_ok_def ids by auto
  ultimately show "db_ok g store db'"
    using assms(1) bound rows unfolding db_ok_def refs' by auto
qed

lemma stmtUpdatePathInfo_ok:
  assumes "db_ok g store db" "parseHashField g h = Inr hh"
  shows "db_ok g store (stmtUpdatePathInfo n h p db)" "valid_set (stmtUpdatePathInfo n h p db) = valid_set db"
    "refs_rel (stmtUpdatePathInfo n h p db) = refs_rel db"
proof -
  let ?f = "\<lambda>r. if row_path r = p then r \<lparr> row_narSize := n, row_hash := h \<rparr> else r"
  let ?db = "stmtUpdatePathInfo n h p db"
  have vp: "tbl_ValidPaths ?db = map ?f (tbl_ValidPaths db)" and rest: "tbl_Refs ?db = tbl_Refs db"
    "tbl_DerivationOutputs ?db = tbl_DerivationOutputs db" "tbl_FailedPaths ?db = tbl_FailedPaths db" "last_rowid ?db = last_rowid db"
    by (simp_all add: stmtUpdatePathInfo_def)
  have f: "row_id (?f r) = row_id r" "row_path (?f r) = row_path r" for r by simp_all
  have ids: "map row_id (map ?f rs) = map row_id rs" "map row_path (map ?f rs) = map row_path rs" for rs
    by (induction rs) simp_all
  have row_ids: "row_ids ?db = row_ids db" unfolding row_ids_def vp set_map [symmetric] ids ..
  show valid: "valid_set ?db = valid_set db" unfolding valid_set_def vp set_map [symmetric] ids ..
  have "e \<in> refs_rel ?db \<longleftrightarrow> e \<in> refs_rel db" for e
  proof -
    have "e \<in> refs_rel ?db \<longleftrightarrow> (\<exists>a \<in> set (tbl_ValidPaths db). \<exists>b \<in> set (tbl_ValidPaths db).
        e = (row_path (?f a), row_path (?f b)) \<and> (row_id (?f a), row_id (?f b)) \<in> set (tbl_Refs db))"
      unfolding refs_rel_def vp rest set_map by blast
    then show ?thesis unfolding f refs_rel_def by blast
  qed
  then show "refs_rel ?db = refs_rel db" by blast
  have "row_ok g store r" if "r \<in> set (map ?f (tbl_ValidPaths db))" for r
  proof -
    obtain q where q: "q \<in> set (tbl_ValidPaths db)" "r = ?f q" using \<open>r \<in> _\<close> by auto
    show ?thesis using db_ok_row [OF assms(1) q(1)] assms(2) unfolding q(2) row_ok_def by auto
  qed
  then show "db_ok g store ?db"
    using assms(1) unfolding db_ok_def vp rest ids row_ids by blast
qed

lemma stmtAddReference_ok:
  assumes "db_ok g store db" "r \<in> set (tbl_ValidPaths db)" "q \<in> set (tbl_ValidPaths db)"
    and "stmtAddReference (row_id r) (row_id q) db = Inr db'"
  shows "db_ok g store db'" "valid_set db' = valid_set db"
    "refs_rel db' = insert (row_path r, row_path q) (refs_rel db)" "tbl_ValidPaths db' = tbl_ValidPaths db"
proof -
  have ids: "row_id r \<in> row_ids db" "row_id q \<in> row_ids db" using assms(2,3) by (auto simp: row_ids_def)
  have db': "db' = db \<lparr> tbl_Refs := filter (\<lambda>e. e \<noteq> (row_id r, row_id q)) (tbl_Refs db) @ [(row_id r, row_id q)] \<rparr>"
    using assms(4) ids by (simp add: stmtAddReference_def)
  show vp: "tbl_ValidPaths db' = tbl_ValidPaths db" by (simp add: db')
  show "valid_set db' = valid_set db" by (simp add: valid_set_def vp)
  have refs: "set (tbl_Refs db') = insert (row_id r, row_id q) (set (tbl_Refs db))" by (auto simp: db')
  show "refs_rel db' = insert (row_path r, row_path q) (refs_rel db)"
  proof (rule set_eqI, rule iffI)
    fix e assume "e \<in> refs_rel db'"
    then obtain a b where ab: "e = (row_path a, row_path b)" "a \<in> set (tbl_ValidPaths db)" "b \<in> set (tbl_ValidPaths db)"
      "(row_id a, row_id b) = (row_id r, row_id q) \<or> (row_id a, row_id b) \<in> set (tbl_Refs db)"
      unfolding refs_rel_def vp refs by blast
    then show "e \<in> insert (row_path r, row_path q) (refs_rel db)"
      using row_id_inject [OF assms(1) ab(2) assms(2)] row_id_inject [OF assms(1) ab(3) assms(3)] unfolding refs_rel_def by blast
  next
    fix e assume "e \<in> insert (row_path r, row_path q) (refs_rel db)"
    then show "e \<in> refs_rel db'" using assms(2,3) unfolding refs_rel_def vp refs by blast
  qed
  show "db_ok g store db'"
    using assms(1) ids by (auto simp: db_ok_def db' row_ids_def)
qed

lemma stmtInvalidatePath_ok:
  assumes "db_ok g store db"
  shows "case stmtInvalidatePath p db of
      Inl e \<Rightarrow> e = sqlite_error \<and> (\<exists>q. q \<noteq> p \<and> (q, p) \<in> refs_rel db)
    | Inr db' \<Rightarrow> db_ok g store db' \<and> valid_set db' = valid_set db - {p} \<and>
        refs_rel db' = refs_rel db - {p} \<times> UNIV \<and> (\<forall>q. (q, p) \<in> refs_rel db \<longrightarrow> q = p)"
proof (cases "path_row p db")
  case None
  then have "stmtInvalidatePath p db = Inr db" by (simp only: stmtInvalidatePath_def option.case)
  moreover have "p \<notin> valid_set db" using None by simp
  ultimately show ?thesis using assms refs_rel_valid [of db] by auto
next
  case (Some r)
  then have r: "r \<in> set (tbl_ValidPaths db)" "row_path r = p" using path_row_Some [OF assms] by auto
  let ?refs = "filter (\<lambda>e. e \<noteq> (row_id r, row_id r)) (tbl_Refs db)"
  let ?db = "db \<lparr> tbl_ValidPaths := filter (\<lambda>r. row_path r \<noteq> p) (tbl_ValidPaths db),
    tbl_Refs := filter (\<lambda>e. fst e \<noteq> row_id r) ?refs,
    tbl_DerivationOutputs := filter (\<lambda>e. fst (fst e) \<noteq> row_id r) (tbl_DerivationOutputs db) \<rparr>"
  have eq: "stmtInvalidatePath p db = (if \<exists>e \<in> set ?refs. snd e = row_id r then Inl sqlite_error else Inr ?db)"
    by (simp only: stmtInvalidatePath_def Some option.case Let_def)
  have used: "(\<exists>e \<in> set ?refs. snd e = row_id r) \<longleftrightarrow> (\<exists>q. q \<noteq> p \<and> (q, p) \<in> refs_rel db)"
  proof
    assume "\<exists>e \<in> set ?refs. snd e = row_id r"
    then obtain a where a: "(a, row_id r) \<in> set (tbl_Refs db)" "a \<noteq> row_id r" by force
    obtain q where q: "q \<in> set (tbl_ValidPaths db)" "row_id q = a" using db_ok_refs [OF assms a(1)] by metis
    have "row_path q \<noteq> p" using row_path_inject [OF assms q(1) r(1)] q(2) a(2) r(2) by metis
    moreover have "(row_path q, p) \<in> refs_rel db" using refs_rel_iff [OF assms q(1) r(1)] a(1) q(2) r(2) by simp
    ultimately show "\<exists>q. q \<noteq> p \<and> (q, p) \<in> refs_rel db" by blast
  next
    assume "\<exists>q. q \<noteq> p \<and> (q, p) \<in> refs_rel db"
    then obtain q where q: "q \<in> set (tbl_ValidPaths db)" "row_path q \<noteq> p" "(row_path q, p) \<in> refs_rel db"
      using refs_rel_valid by (force simp: valid_set_def)
    have "(row_id q, row_id r) \<in> set (tbl_Refs db)" using refs_rel_iff [OF assms q(1) r(1)] q(3) r(2) by simp
    moreover have "row_id q \<noteq> row_id r" using row_id_inject [OF assms q(1) r(1)] q(2) r(2) by metis
    ultimately show "\<exists>e \<in> set ?refs. snd e = row_id r" by force
  qed
  have other: "row_path q \<noteq> p \<longleftrightarrow> row_id q \<noteq> row_id r" if "q \<in> set (tbl_ValidPaths db)" for q
    using row_path_inject [OF assms that r(1)] row_id_inject [OF assms that r(1)] r(2) by metis
  show ?thesis
  proof (cases "\<exists>q. q \<noteq> p \<and> (q, p) \<in> refs_rel db")
    case True
    with used eq show ?thesis by simp
  next
    case False
    then have none: "snd e \<noteq> row_id r" if "e \<in> set ?refs" for e using used that by blast
    define db2 where "db2 = ?db"
    have fields: "tbl_ValidPaths db2 = filter (\<lambda>r. row_path r \<noteq> p) (tbl_ValidPaths db)"
      "tbl_Refs db2 = filter (\<lambda>e. fst e \<noteq> row_id r) ?refs"
      "tbl_DerivationOutputs db2 = filter (\<lambda>e. fst (fst e) \<noteq> row_id r) (tbl_DerivationOutputs db)"
      "tbl_FailedPaths db2 = tbl_FailedPaths db" "last_rowid db2 = last_rowid db"
      by (simp_all add: db2_def)
    have vp: "set (tbl_ValidPaths db2) = {q \<in> set (tbl_ValidPaths db). row_id q \<noteq> row_id r}"
      unfolding fields using other by auto
    have ids: "row_ids db2 = row_ids db - {row_id r}" unfolding row_ids_def vp by auto
    have refs: "set (tbl_Refs db2) = {e \<in> set (tbl_Refs db). fst e \<noteq> row_id r}" unfolding fields by auto
    have snd: "snd e \<noteq> row_id r" if "e \<in> set (tbl_Refs db2)" for e using that none [of e] unfolding refs by (cases e) auto
    have d: "distinct (map row_id (tbl_ValidPaths db2))" "distinct (map row_path (tbl_ValidPaths db2))"
      "distinct (tbl_Refs db2)" "distinct (map fst (tbl_DerivationOutputs db2))"
      using assms unfolding fields db_ok_def by (auto simp: distinct_map_filter)
    have e: "\<forall>e \<in> set (tbl_Refs db2). fst e \<in> row_ids db2 \<and> snd e \<in> row_ids db2"
      "\<forall>e \<in> set (tbl_DerivationOutputs db2). fst (fst e) \<in> row_ids db2"
      using assms snd unfolding ids refs fields(3) db_ok_def by auto
    have f: "\<forall>q \<in> set (tbl_ValidPaths db2). row_ok g store q" "\<forall>i \<in> row_ids db2. i \<le> last_rowid db2"
      "distinct (map fst (tbl_FailedPaths db2))"
      using assms unfolding vp ids fields(4,5) db_ok_def by auto
    have ok: "db_ok g store db2" unfolding db_ok_def using d e f by blast
    have valid: "valid_set db2 = valid_set db - {p}" by (auto simp: valid_set_def fields)
    have "(x, y) \<in> refs_rel db2 \<longleftrightarrow> (x, y) \<in> refs_rel db \<and> x \<noteq> p" for x y
    proof
      assume "(x, y) \<in> refs_rel db2"
      then obtain a b where "a \<in> set (tbl_ValidPaths db2)" "b \<in> set (tbl_ValidPaths db2)" "x = row_path a" "y = row_path b"
        "(row_id a, row_id b) \<in> set (tbl_Refs db2)" unfolding refs_rel_def by blast
      then show "(x, y) \<in> refs_rel db \<and> x \<noteq> p" unfolding vp refs refs_rel_def using other by blast
    next
      assume "(x, y) \<in> refs_rel db \<and> x \<noteq> p"
      then obtain a b where ab: "a \<in> set (tbl_ValidPaths db)" "b \<in> set (tbl_ValidPaths db)" "x = row_path a" "y = row_path b"
        "(row_id a, row_id b) \<in> set (tbl_Refs db)" "row_path a \<noteq> p" unfolding refs_rel_def by blast
      have a: "row_id a \<noteq> row_id r" using ab(1,6) other by blast
      then have in2: "(row_id a, row_id b) \<in> set (tbl_Refs db2)" using ab(5) unfolding refs by simp
      have "row_id b \<noteq> row_id r" using snd [OF in2] by simp
      then show "(x, y) \<in> refs_rel db2" using ab(1-4) a in2 unfolding refs_rel_def vp by blast
    qed
    then have rel: "refs_rel db2 = refs_rel db - {p} \<times> UNIV" by auto
    have "stmtInvalidatePath p db = Inr db2" using eq used False unfolding db2_def by (simp only: if_False)
    then show ?thesis using ok valid rel False by auto
  qed
qed

lemma stmtAddDerivationOutput_ok:
  assumes "db_ok g store db" "stmtAddDerivationOutput i oid p db = Inr db'"
  shows "db_ok g store db'" "valid_set db' = valid_set db" "refs_rel db' = refs_rel db"
    "tbl_ValidPaths db' = tbl_ValidPaths db"
proof -
  have i: "i \<in> row_ids db" and db': "db' = db \<lparr> tbl_DerivationOutputs :=
      filter (\<lambda>e. fst e \<noteq> (i, oid)) (tbl_DerivationOutputs db) @ [((i, oid), p)] \<rparr>"
    using assms(2) by (auto simp: stmtAddDerivationOutput_def split: if_splits)
  show "tbl_ValidPaths db' = tbl_ValidPaths db" "valid_set db' = valid_set db" "refs_rel db' = refs_rel db"
    by (simp_all add: db' valid_set_def refs_rel_def)
  have "row_ids db' = row_ids db" by (simp add: db' row_ids_def)
  then show "db_ok g store db'"
    using assms(1) i unfolding db_ok_def by (auto simp: db' distinct_map inj_on_def)
qed
section \<open>Queries in a good database\<close>

lemma set_queryAllValidPaths [simp]: "set (queryAllValidPaths db) = valid_set db"
  by (simp add: queryAllValidPaths_def valid_set_def)

lemma isValidPath_iff [simp]: "isValidPath_raw p db \<longleftrightarrow> p \<in> valid_set db" "ls_isValidPath p db \<longleftrightarrow> p \<in> valid_set db"
  by (simp_all add: isValidPath_raw_def ls_isValidPath_def)

lemma valid_row:
  assumes "p \<in> valid_set db"
  obtains r where "path_row p db = Some r" "r \<in> set (tbl_ValidPaths db)" "row_path r = p"
proof -
  have "path_row p db \<noteq> None" unfolding path_row_None using assms by simp
  then obtain r where r: "path_row p db = Some r" by blast
  then have "r \<in> set (tbl_ValidPaths db) \<and> row_path r = p"
    unfolding path_row_def find_Some_iff by auto
  with r that show ?thesis by blast
qed

lemma queryPathInfo_ok:
  assumes "db_ok g store db" "p \<in> valid_set db"
  obtains info where "queryPathInfo g store p db = Inr info" "set (vpi_references info) = refs_rel db `` {p}"
    "is_oset (vpi_references info)" "vpi_path info = p"
proof -
  obtain r where r: "path_row p db = Some r" "r \<in> set (tbl_ValidPaths db)" "row_path r = p"
    using valid_row [OF assms(2)] .
  obtain h where "isStorePath store p" "parseHashField g (row_hash r) = Inr h"
    using db_ok_row [OF assms(1) r(2)] r(3) by (auto simp: row_ok_def)
  with that r set_stmtQueryReferences [OF assms(1) r(2)] show ?thesis
    by (auto simp: queryPathInfo_def rbind_def assertStorePath_def)
qed

lemma set_queryReferrers_raw: "db_ok g store db \<Longrightarrow> set (queryReferrers_raw p db) = (refs_rel db)\<inverse> `` {p}"
  by (simp add: queryReferrers_raw_def set_stmtQueryReferrers)

lemma set_stmtQueryValidDerivers:
  assumes "db_ok g store db"
  shows "set (stmtQueryValidDerivers p db) \<subseteq> valid_set db"
proof
  fix q assume "q \<in> set (stmtQueryValidDerivers p db)"
  then obtain i where "q \<in> set (join_path i db)" by (auto simp: stmtQueryValidDerivers_def split: if_splits)
  then show "q \<in> valid_set db" unfolding set_join_path [OF assms] by (auto simp: valid_set_def)
qed

text \<open>The database provides the queries of the graph algorithms.\<close>

interpretation local_db: store_provider
  "\<lambda>(g, store, db). db_ok g store db" "\<lambda>(g, store, db). db_queries g store db" "\<lambda>(g, store, db). queryAllValidPaths db"
proof (unfold_locales, goal_cases)
  case (1 s p)
  then show ?case by (cases s) (simp add: db_queries_def)
next
  case (2 s p)
  obtain g store db where s: "s = (g, store, db)" by (cases s)
  with 2 obtain info where "queryPathInfo g store p db = Inr info" "set (vpi_references info) = refs_rel db `` {p}"
    using queryPathInfo_ok [of g store db p] by auto
  then show ?case using refs_rel_valid [of db] s by (auto simp: db_queries_def ls_queryReferences_def)
next
  case (3 s p)
  obtain g store db where s: "s = (g, store, db)" by (cases s)
  with 3 have db: "db_ok g store db" and p: "p \<in> valid_set db" by auto
  obtain r where "path_row p db = Some r" "r \<in> set (tbl_ValidPaths db)" "row_path r = p" using valid_row [OF p] .
  then have "isStorePath store p" using db_ok_row [OF db] by (auto simp: row_ok_def)
  then show ?case using refs_rel_valid [of db] s set_queryReferrers_raw [OF db, of p]
    by (auto simp: db_queries_def ls_queryReferrers_def assertStorePath_def)
next
  case (4 s p)
  obtain g store db where s: "s = (g, store, db)" by (cases s)
  with 4 have db: "db_ok g store db" and p: "p \<in> valid_set db" by auto
  obtain r where "path_row p db = Some r" "r \<in> set (tbl_ValidPaths db)" "row_path r = p" using valid_row [OF p] .
  then have "isStorePath store p" using db_ok_row [OF db] by (auto simp: row_ok_def)
  then show ?case using s set_stmtQueryValidDerivers [OF db, of p]
    by (simp add: db_queries_def ls_queryValidDerivers_def assertStorePath_def)
next
  case (5 s p)
  obtain g store db where s: "s = (g, store, db)" by (cases s)
  with 5 obtain r where "path_row p db = Some r" using valid_row [of p db] by auto
  then show ?case using s by (simp add: db_queries_def ls_queryDerivationOutputs_def queryValidPathId_def)
next
  case (6 s p)
  obtain g store db where s: "s = (g, store, db)" by (cases s)
  with 6 obtain info where "queryPathInfo g store p db = Inr info" using queryPathInfo_ok [of g store db p] by auto
  then show ?case using s by (simp add: db_queries_def ls_queryDeriver_def)
qed

lemma parseHashField_print:
  assumes "wf_hash g h" "htype h = htSHA256"
  shows "parseHashField g (''sha256:'' @ printHash h) = Inr h"
proof -
  have "takeWhile (\<lambda>c. c \<noteq> CHR '':'') (''sha256'' @ CHR '':'' # printHash h) = ''sha256''"
    by (subst takeWhile_append2) auto
  moreover have "parseHashType ''sha256'' = htSHA256" by (simp add: parseHashType_def)
  ultimately show ?thesis using parseHash_printHash [OF assms(1)] assms(2) by (simp add: parseHashField_def)
qed

section \<open>Registering paths\<close>

lemma abind_Inr:
  "abind m f s = (Inr y, t) \<longleftrightarrow> (\<exists>x u. m s = (Inr x, u) \<and> f x u = (Inr y, t))"
  by (auto simp: abind_def split: prod.splits sum.splits)

lemma exec_Inr: "exec stmt s = (Inr x, t) \<longleftrightarrow> (\<exists>db. stmt (st_db s) = Inr db \<and> t = s \<lparr> st_db := db \<rparr>)"
  by (auto simp: exec_def split: sum.splits)

lemma alift_Inr: "alift r s = (Inr x, t) \<longleftrightarrow> r = Inr x \<and> t = s"
  by (auto simp: alift_def)

lemma areturn_Inr: "areturn y s = (Inr x, t) \<longleftrightarrow> x = y \<and> t = s"
  by (auto simp: areturn_def)

lemma athrow_Inr: "athrow e s \<noteq> (Inr x, t)"
  by (simp add: athrow_def)

lemma aget_Inr: "aget f s = (Inr x, t) \<longleftrightarrow> x = f s \<and> t = s"
  by (auto simp: aget_def)

lemmas run_Inr = abind_Inr exec_Inr alift_Inr areturn_Inr athrow_Inr aget_Inr

lemma aforeach_invariant:
  assumes "aforeach xs f s = (Inr u, t)" "J [] s"
    and "\<And>ys x s t. x \<in> set xs \<Longrightarrow> J ys s \<Longrightarrow> f x s = (Inr (), t) \<Longrightarrow> J (ys @ [x]) t"
  shows "J xs t"
proof -
  have "J (ys @ xs) t" if "aforeach xs f s = (Inr u, t)" "J ys s"
    "\<And>ys x s t. x \<in> set xs \<Longrightarrow> J ys s \<Longrightarrow> f x s = (Inr (), t) \<Longrightarrow> J (ys @ [x]) t" for ys
    using that
  proof (induction xs arbitrary: s ys)
    case Nil
    then show ?case by (simp add: areturn_def)
  next
    case (Cons x xs)
    then obtain v where v: "f x s = (Inr (), v)" "aforeach xs f v = (Inr u, t)" by (auto simp: abind_Inr)
    have "J (ys @ [x]) v" using Cons.prems(3) [OF _ Cons.prems(2) v(1)] by simp
    from Cons.IH [OF v(2) this Cons.prems(3)] show ?case by simp
  qed
  from this [of "[]"] assms show ?thesis by simp
qed

definition same_db :: "store_state \<Rightarrow> store_state \<Rightarrow> bool" where
  "same_db s t \<longleftrightarrow> st_db t = st_db s"

lemma same_db_rel: "reflp same_db" "transp same_db"
  by (auto simp: same_db_def reflp_def transp_def)

lemma keeps_hash_modulo: "keeps same_db (hash_modulo env drv)"
  by (auto simp: keeps_def same_db_def hash_modulo_def split: option.splits)

lemma keeps_checkDerivationOutputs: "keeps same_db (checkDerivationOutputs env drvPath drv)"
  unfolding checkDerivationOutputs_def Let_def
  by (auto intro!: keeps_abind [OF same_db_rel(2)] keeps_pure [OF same_db_rel(1)] keeps_hash_modulo
      keeps_aforeach [OF same_db_rel] split: option.splits)

lemma keeps_check_drv: "keeps same_db (check_drv env info)"
  unfolding check_drv_def
  by (auto intro!: keeps_abind [OF same_db_rel(2)] keeps_pure [OF same_db_rel(1)] keeps_checkDerivationOutputs)

lemma check_drvs_same_db: "same_db s (snd (aforeach infos (check_drv env) s))"
  by (rule keepsD, rule keeps_aforeach [OF same_db_rel], rule keeps_check_drv)

definition info_row :: "store_env \<Rightarrow> ValidPathInfo \<Rightarrow> nat \<Rightarrow> ValidPathsRow" where
  "info_row env info i =
     \<lparr> row_id = i, row_path = vpi_path info, row_hash = ''sha256:'' @ printHash (vpi_hash info),
       row_time = (if vpi_registrationTime info = 0 then env_time env else vpi_registrationTime info),
       row_deriver = (if vpi_deriver info \<noteq> [] then Some (vpi_deriver info) else None),
       row_narSize = (if vpi_narSize info \<noteq> 0 then Some (vpi_narSize info) else None) \<rparr>"

definition info_ok :: "gcrypt \<Rightarrow> Path \<Rightarrow> ValidPathInfo \<Rightarrow> bool" where
  "info_ok g store info \<longleftrightarrow> isStorePath store (vpi_path info) \<and> wf_hash g (vpi_hash info)"

lemma addValidPath_ok:
  assumes "addValidPath env info co s = (Inr i, t)" "db_ok (env_gcrypt env) (env_store env) (st_db s)"
    and "info_ok (env_gcrypt env) (env_store env) info" "htype (vpi_hash info) = htSHA256"
  shows "db_ok (env_gcrypt env) (env_store env) (st_db t) \<and>
    valid_set (st_db t) = insert (vpi_path info) (valid_set (st_db s)) \<and> refs_rel (st_db t) = refs_rel (st_db s) \<and>
    info_row env info i \<in> set (tbl_ValidPaths (st_db t))"
proof -
  let ?g = "env_gcrypt env" and ?st = "env_store env"
  have hash: "parseHashField ?g (''sha256:'' @ printHash (vpi_hash info)) = Inr (vpi_hash info)"
    using parseHashField_print assms(3,4) by (simp add: info_ok_def)
  from assms(1) obtain db1 w where
    reg: "stmtRegisterValidPath (vpi_path info) (''sha256:'' @ printHash (vpi_hash info))
       (if vpi_registrationTime info = 0 then env_time env else vpi_registrationTime info)
       (if vpi_deriver info \<noteq> [] then Some (vpi_deriver info) else None)
       (if vpi_narSize info \<noteq> 0 then Some (vpi_narSize info) else None) (st_db s) = Inr db1"
    and drv: "add_outputs env info co (last_rowid db1) (s \<lparr> st_db := db1 \<rparr>) = (Inr w, t)" and i: "i = last_rowid db1"
    by (auto simp: addValidPath_def run_Inr)
  have row: "info_row env info i \<in> set (tbl_ValidPaths db1)"
    using reg by (auto simp: stmtRegisterValidPath_def info_row_def i split: if_splits)
  have isp: "isStorePath ?st (vpi_path info)" using assms(3) by (simp add: info_ok_def)
  note r = stmtRegisterValidPath_ok [OF assms(2) reg isp hash]
  define J where "J = (\<lambda>(ys :: (string \<times> DerivationOutput) list) (u :: store_state). db_ok ?g ?st (st_db u) \<and> valid_set (st_db u) = valid_set db1 \<and> refs_rel (st_db u) = refs_rel db1 \<and>
    tbl_ValidPaths (st_db u) = tbl_ValidPaths db1)"
  have "J [] t \<or> (\<exists>ys. J ys t)"
  proof (cases "isDerivation (vpi_path info)")
    case False
    then show ?thesis using drv r(1) by (auto simp: areturn_Inr J_def add_outputs_def)
  next
    case True
    with drv obtain d u v where u: "(if co then checkDerivationOutputs env (vpi_path info) d else areturn ()) (s \<lparr> st_db := db1 \<rparr>) = (Inr v, u)"
      and loop: "aforeach (drv_outputs d) (\<lambda>(oid, out). exec (stmtAddDerivationOutput (last_rowid db1) oid (do_path out))) u = (Inr w, t)"
      by (auto simp: run_Inr add_outputs_def)
    have "same_db (s \<lparr> st_db := db1 \<rparr>) u"
    proof (cases co)
      case True
      then show ?thesis using u keepsD [OF keeps_checkDerivationOutputs] by (metis snd_conv)
    next
      case False
      then show ?thesis using u by (simp add: areturn_Inr same_db_def)
    qed
    then have "J [] u" using r(1) by (simp add: J_def same_db_def)
    have "J (drv_outputs d) t"
    proof (rule aforeach_invariant [where J = J, OF loop \<open>J [] u\<close>])
      fix ys and x :: "string \<times> DerivationOutput" and u v :: store_state
      assume J: "J ys u" and step: "(case x of (oid, out) \<Rightarrow> exec (stmtAddDerivationOutput (last_rowid db1) oid (do_path out))) u = (Inr (), v)"
      obtain oid out where x: "x = (oid, out)" by (cases x)
      from step x obtain db2 where db2: "stmtAddDerivationOutput (last_rowid db1) oid (do_path out) (st_db u) = Inr db2" "v = u \<lparr> st_db := db2 \<rparr>"
        by (auto simp: exec_Inr)
      have "db_ok ?g ?st (st_db u)" using J by (simp add: J_def)
      from stmtAddDerivationOutput_ok [OF this db2(1)] J db2(2) show "J (ys @ [x]) v" by (simp add: J_def)
    qed
    then show ?thesis by blast
  qed
  then show ?thesis using r(2,3) row by (auto simp: J_def)
qed

lemma register_one_ok:
  assumes "register_one env info s = (Inr (), t)" "db_ok (env_gcrypt env) (env_store env) (st_db s)"
    and "info_ok (env_gcrypt env) (env_store env) info"
  shows "db_ok (env_gcrypt env) (env_store env) (st_db t) \<and>
    valid_set (st_db t) = insert (vpi_path info) (valid_set (st_db s)) \<and> refs_rel (st_db t) = refs_rel (st_db s)"
proof -
  have sha: "htype (vpi_hash info) = htSHA256"
    using assms(1) by (auto simp: register_one_def athrow_Inr split: if_splits)
  show ?thesis
  proof (cases "vpi_path info \<in> valid_set (st_db s)")
    case True
    then have up: "updatePathInfo info s = (Inr (), t)" using assms(1) sha by (simp add: register_one_def)
    have hash: "parseHashField (env_gcrypt env) (''sha256:'' @ printHash (vpi_hash info)) = Inr (vpi_hash info)"
      using parseHashField_print assms(3) sha by (simp add: info_ok_def)
    show ?thesis
      using up stmtUpdatePathInfo_ok [OF assms(2) hash] True by (auto simp: updatePathInfo_def exec_Inr)
  next
    case False
    then obtain i where "addValidPath env info False s = (Inr i, t)"
      using assms(1) sha by (auto simp: register_one_def run_Inr)
    then show ?thesis using addValidPath_ok [of env info False s i t] assms(2,3) sha by blast
  qed
qed

lemma register_refs_ok:
  assumes "register_refs info s = (Inr (), t)" "db_ok g store (st_db s)"
  shows "db_ok g store (st_db t) \<and> valid_set (st_db t) = valid_set (st_db s) \<and>
    refs_rel (st_db t) = refs_rel (st_db s) \<union> {vpi_path info} \<times> set (vpi_references info) \<and>
    vpi_path info \<in> valid_set (st_db s) \<and> set (vpi_references info) \<subseteq> valid_set (st_db s) \<and>
    tbl_ValidPaths (st_db t) = tbl_ValidPaths (st_db s)"
proof -
  from assms(1) obtain referrer where q: "queryValidPathId (vpi_path info) (st_db s) = Inr referrer"
    and loop: "aforeach (vpi_references info) (\<lambda>j.
       abind (aget (\<lambda>s. queryValidPathId j (st_db s))) (\<lambda>r.
       abind (alift r) (\<lambda>reference. addReference referrer reference))) s = (Inr (), t)"
    by (auto simp: register_refs_def run_Inr)
  from q obtain r where r: "path_row (vpi_path info) (st_db s) = Some r" "referrer = row_id r"
    by (auto simp: queryValidPathId_def split: option.splits)
  then have row: "r \<in> set (tbl_ValidPaths (st_db s))" "row_path r = vpi_path info"
    using path_row_Some [OF assms(2)] by auto
  define J where "J = (\<lambda>ys (u :: store_state). db_ok g store (st_db u) \<and> tbl_ValidPaths (st_db u) = tbl_ValidPaths (st_db s) \<and>
    refs_rel (st_db u) = refs_rel (st_db s) \<union> {vpi_path info} \<times> set ys \<and> set ys \<subseteq> valid_set (st_db s))"
  have "J (vpi_references info) t"
  proof (rule aforeach_invariant [OF loop])
    show "J [] s" using assms(2) by (simp add: J_def)
  next
    fix ys j u v
    assume J: "J ys u" and step: "abind (aget (\<lambda>s. queryValidPathId j (st_db s))) (\<lambda>r.
       abind (alift r) (\<lambda>reference. addReference referrer reference)) u = (Inr (), v)"
    from step obtain reference db' where ref: "queryValidPathId j (st_db u) = Inr reference"
      "stmtAddReference referrer reference (st_db u) = Inr db'" "v = u \<lparr> st_db := db' \<rparr>"
      by (auto simp: run_Inr addReference_def)
    from ref(1) obtain q where q: "path_row j (st_db u) = Some q" "reference = row_id q"
      by (auto simp: queryValidPathId_def split: option.splits)
    have db: "db_ok g store (st_db u)" and vp: "tbl_ValidPaths (st_db u) = tbl_ValidPaths (st_db s)" using J by (auto simp: J_def)
    have row2: "q \<in> set (tbl_ValidPaths (st_db u))" "row_path q = j" using path_row_Some [OF db] q(1) by auto
    have row1: "r \<in> set (tbl_ValidPaths (st_db u))" using row(1) vp by simp
    have "stmtAddReference (row_id r) (row_id q) (st_db u) = Inr db'" using ref(2) r(2) q(2) by simp
    note a = stmtAddReference_ok [OF db row1 row2(1) this]
    have "j \<in> valid_set (st_db s)" using row2 vp by (auto simp: valid_set_def)
    then show "J (ys @ [j]) v" using J a ref(3) row(2) row2(2) unfolding J_def by auto
  qed
  moreover have "vpi_path info \<in> valid_set (st_db s)" unfolding valid_set_def using row by force
  ultimately show ?thesis by (auto simp: J_def valid_set_def)
qed
lemma SQLiteTxn_Inr: "SQLiteTxn body s = (Inr x, t) \<longleftrightarrow> body s = (Inr x, t)"
  by (auto simp: SQLiteTxn_def split: prod.splits sum.splits)

lemma SQLiteTxn_Inl: "SQLiteTxn body s = (Inl e, t) \<Longrightarrow> st_db t = st_db s"
  by (auto simp: SQLiteTxn_def split: prod.splits sum.splits)

definition infos_paths :: "ValidPathInfo list \<Rightarrow> Path set" where
  "infos_paths infos = vpi_path ` set infos"

definition infos_refs :: "ValidPathInfo list \<Rightarrow> (Path \<times> Path) set" where
  "infos_refs infos = (\<Union>i \<in> set infos. {vpi_path i} \<times> set (vpi_references i))"

lemma registerValidPaths_ok:
  assumes "registerValidPaths env infos s = (Inr (), t)" "db_ok (env_gcrypt env) (env_store env) (st_db s)"
    and "list_all (info_ok (env_gcrypt env) (env_store env)) infos"
  shows "db_ok (env_gcrypt env) (env_store env) (st_db t)"
    "valid_set (st_db t) = valid_set (st_db s) \<union> infos_paths infos"
    "refs_rel (st_db t) = refs_rel (st_db s) \<union> infos_refs infos"
    "\<exists>xs. topoSortPaths (db_queries (env_gcrypt env) (env_store env) (st_db t)) (oinsert_all (map vpi_path infos) []) = Inr xs"
proof -
  let ?g = "env_gcrypt env" and ?st = "env_store env"
  from assms(1) obtain s1 s2 where 1: "aforeach infos (register_one env) s = (Inr (), s1)"
    and 2: "aforeach infos register_refs s1 = (Inr (), s2)" and 3: "aforeach infos (check_drv env) s2 = (Inr (), t)"
    and topo: "\<exists>xs. topoSortPaths (db_queries ?g ?st (st_db t)) (oinsert_all (map vpi_path infos) []) = Inr xs"
    by (auto simp: registerValidPaths_def SQLiteTxn_Inr run_Inr)
  define J where "J = (\<lambda>ys (u :: store_state). db_ok ?g ?st (st_db u) \<and> valid_set (st_db u) = valid_set (st_db s) \<union> infos_paths ys \<and>
    refs_rel (st_db u) = refs_rel (st_db s))"
  have J: "J infos s1"
  proof (rule aforeach_invariant [where J = J, OF 1])
    show "J [] s" using assms(2) by (simp add: J_def infos_paths_def)
  next
    fix ys and i :: ValidPathInfo and u v :: store_state
    assume i: "i \<in> set infos" and J: "J ys u" and step: "register_one env i u = (Inr (), v)"
    have "info_ok ?g ?st i" using assms(3) i by (simp add: list_all_iff)
    from register_one_ok [OF step _ this] J show "J (ys @ [i]) v" by (auto simp: J_def infos_paths_def)
  qed
  define K where "K = (\<lambda>ys (u :: store_state). db_ok ?g ?st (st_db u) \<and> valid_set (st_db u) = valid_set (st_db s1) \<and>
    refs_rel (st_db u) = refs_rel (st_db s1) \<union> infos_refs ys)"
  have K: "K infos s2"
  proof (rule aforeach_invariant [where J = K, OF 2])
    show "K [] s1" using J by (simp add: K_def J_def infos_refs_def)
  next
    fix ys and i :: ValidPathInfo and u v :: store_state
    assume K: "K ys u" and step: "register_refs i u = (Inr (), v)"
    from register_refs_ok [OF step, of ?g ?st] K show "K (ys @ [i]) v" by (auto simp: K_def infos_refs_def)
  qed
  have "st_db t = st_db s2" using check_drvs_same_db [of s2 infos env] 3 by (simp add: same_db_def)
  with J K topo show "db_ok ?g ?st (st_db t)" "valid_set (st_db t) = valid_set (st_db s) \<union> infos_paths infos"
    "refs_rel (st_db t) = refs_rel (st_db s) \<union> infos_refs infos"
    "\<exists>xs. topoSortPaths (db_queries ?g ?st (st_db t)) (oinsert_all (map vpi_path infos) []) = Inr xs"
    by (auto simp: J_def K_def)
qed

lemma registerValidPaths_error:
  "registerValidPaths env infos s = (Inl e, t) \<Longrightarrow> st_db t = st_db s"
  unfolding registerValidPaths_def by (rule SQLiteTxn_Inl)

text \<open>References in the database are those the topological sort of registered paths looks at.\<close>

lemma topo_rel_db:
  assumes "db_ok g store db" "set paths \<subseteq> valid_set db"
  shows "topo_rel (db_queries g store db) paths = {(p, q) \<in> refs_rel db. p \<noteq> q \<and> q \<in> set paths}"
proof (rule set_eqI)
  fix e :: "Path \<times> Path"
  obtain p q where e: "e = (p, q)" by (cases e)
  show "e \<in> topo_rel (db_queries g store db) paths \<longleftrightarrow> e \<in> {(p, q) \<in> refs_rel db. p \<noteq> q \<and> q \<in> set paths}"
  proof (cases "p \<in> valid_set db")
    case True
    obtain info where "queryPathInfo g store p db = Inr info" "set (vpi_references info) = refs_rel db `` {p}"
      using queryPathInfo_ok [OF assms(1) True] .
    then show ?thesis using True e by (auto simp: topo_rel_def db_queries_def ls_queryReferences_def)
  next
    case False
    then show ?thesis using e refs_rel_valid [of db] by (auto simp: topo_rel_def db_queries_def)
  qed
qed

section \<open>Invalidating paths\<close>

lemma invalidatePathChecked_ok:
  assumes "db_ok g store (st_db s)"
  shows "case invalidatePathChecked store p s of
      (Inl e, t) \<Rightarrow> st_db t = st_db s \<and>
        (\<not> isStorePath store p \<or> (\<exists>m. e = Throw PathInUse m) \<and> (\<exists>q. q \<noteq> p \<and> (q, p) \<in> refs_rel (st_db s)))
    | (Inr u, t) \<Rightarrow> isStorePath store p \<and> db_ok g store (st_db t) \<and> valid_set (st_db t) = valid_set (st_db s) - {p} \<and>
        refs_rel (st_db t) = refs_rel (st_db s) - {p} \<times> UNIV \<and> (\<forall>q. (q, p) \<in> refs_rel (st_db s) \<longrightarrow> q = p)"
proof (cases "isStorePath store p")
  case False
  then show ?thesis by (simp add: invalidatePathChecked_def assertStorePath_def athrow_def)
next
  case True
  let ?s = "s \<lparr> st_drvHashes := filter (\<lambda>e. fst e \<noteq> p) (st_drvHashes s) \<rparr>"
  have head: "invalidatePathChecked store p s = SQLiteTxn (
       abind (aget (\<lambda>s. isValidPath_raw p (st_db s))) (\<lambda>valid.
       if valid then
         abind (aget (\<lambda>s. oerase p (queryReferrers_raw p (st_db s)))) (\<lambda>referrers.
         if referrers \<noteq> [] then athrow (Throw PathInUse (''cannot delete path, it is in use by '' @ showPaths referrers))
         else invalidatePath p)
       else areturn ())) s"
    using True by (simp add: invalidatePathChecked_def assertStorePath_def)
  show ?thesis
  proof (cases "p \<in> valid_set (st_db s)")
    case False
    then have "(q, p) \<notin> refs_rel (st_db s)" "(p, q) \<notin> refs_rel (st_db s)" for q using refs_rel_valid by blast+
    then show ?thesis unfolding head using True False assms by (auto simp: SQLiteTxn_def areturn_def)
  next
    case valid: True
    have refs: "set (oerase p (queryReferrers_raw p (st_db s))) = {q. q \<noteq> p \<and> (q, p) \<in> refs_rel (st_db s)}"
      using set_queryReferrers_raw [OF assms, of p] by auto
    show ?thesis
    proof (cases "oerase p (queryReferrers_raw p (st_db s)) = []")
      case False
      then have "\<exists>q. q \<noteq> p \<and> (q, p) \<in> refs_rel (st_db s)" using refs by (metis (mono_tags, lifting) empty_Collect_eq set_empty)
      then show ?thesis unfolding head using valid False by (simp add: SQLiteTxn_def athrow_def)
    next
      case none: True
      then have only: "\<forall>q. (q, p) \<in> refs_rel (st_db s) \<longrightarrow> q = p" using refs by auto
      obtain db' where db': "stmtInvalidatePath p (st_db s) = Inr db'" "db_ok g store db'" "valid_set db' = valid_set (st_db s) - {p}"
        "refs_rel db' = refs_rel (st_db s) - {p} \<times> UNIV"
        using stmtInvalidatePath_ok [OF assms, of p] only by (auto split: sum.splits)
      have "invalidatePathChecked store p s = (Inr (), ?s \<lparr> st_db := db' \<rparr>)"
        unfolding head using valid none db'(1) by (simp add: SQLiteTxn_def invalidatePath_def exec_def)
      then show ?thesis using True db'(2-) only by simp
    qed
  qed
qed
section \<open>Closures in the database\<close>

lemma rbind_Inr_right: "rbind m Inr = m"
  by (cases m) simp_all

lemma closure_rel_db:
  assumes "db_ok g store db"
  shows "closure_rel (db_queries g store db) f False False = (if f then (refs_rel db)\<inverse> else refs_rel db)"
proof (cases f)
  case False
  have "(p, q) \<in> edge_rel (\<lambda>p. ls_queryReferences g store p db) \<longleftrightarrow> (p, q) \<in> refs_rel db" for p q
  proof (cases "p \<in> valid_set db")
    case True
    obtain info where "queryPathInfo g store p db = Inr info" "set (vpi_references info) = refs_rel db `` {p}"
      using queryPathInfo_ok [OF assms True] .
    then show ?thesis by (auto simp: edge_rel_def ls_queryReferences_def)
  next
    case False
    then have "path_row p db = None" by simp
    then have "\<nexists>info. queryPathInfo g store p db = Inr info"
      by (simp only: queryPathInfo_def rbind_Inr_iff option.case) simp
    then show ?thesis using False refs_rel_valid [of db] by (auto simp: edge_rel_def ls_queryReferences_def rbind_Inr_iff)
  qed
  with False show ?thesis by (auto simp: closure_edges_def db_queries_def edge_rel_def rbind_Inr_right)
next
  case True
  have "(p, q) \<in> edge_rel (\<lambda>p. ls_queryReferrers store p db) \<longleftrightarrow> (q, p) \<in> refs_rel db" for p q
  proof (cases "isStorePath store p")
    case True
    then show ?thesis using set_queryReferrers_raw [OF assms, of p]
      by (auto simp: edge_rel_def ls_queryReferrers_def assertStorePath_def)
  next
    case False
    have "p \<notin> valid_set db"
    proof
      assume "p \<in> valid_set db"
      then obtain r where "r \<in> set (tbl_ValidPaths db)" "row_path r = p" by (auto simp: valid_set_def)
      with db_ok_row [OF assms] False show False by (auto simp: row_ok_def)
    qed
    then show ?thesis using False refs_rel_valid [of db] by (auto simp: edge_rel_def ls_queryReferrers_def assertStorePath_def)
  qed
  with True show ?thesis by (auto simp: closure_edges_def db_queries_def edge_rel_def rbind_Inr_right)
qed

section \<open>Properties\<close>

text \<open>
  C2: Registering paths is all or nothing. If it throws, the database is as before. If it succeeds, the constraints
  of the schema still hold, the paths have become valid, exactly the references given have
  been added, all of them between valid paths, and the registered paths do not refer to each
  other in a cycle.
\<close>

theorem registerValidPaths_atomic:
  assumes "db_ok (env_gcrypt env) (env_store env) (st_db s)" "list_all (info_ok (env_gcrypt env) (env_store env)) infos"
  shows "case registerValidPaths env infos s of
      (Inl e, t) \<Rightarrow> st_db t = st_db s
    | (Inr u, t) \<Rightarrow> db_ok (env_gcrypt env) (env_store env) (st_db t) \<and>
        valid_set (st_db t) = valid_set (st_db s) \<union> infos_paths infos \<and>
        refs_rel (st_db t) = refs_rel (st_db s) \<union> infos_refs infos \<and>
        refs_rel (st_db t) \<subseteq> valid_set (st_db t) \<times> valid_set (st_db t) \<and>
        (\<forall>x \<in> infos_paths infos.
          (x, x) \<notin> {(p, q) \<in> refs_rel (st_db t). p \<noteq> q \<and> q \<in> infos_paths infos}\<^sup>+)"
proof (cases "registerValidPaths env infos s")
  case (Pair r t)
  let ?g = "env_gcrypt env" and ?st = "env_store env" and ?ps = "oinsert_all (map vpi_path infos) []"
  show ?thesis
  proof (cases r)
    case (Inl e)
    with Pair registerValidPaths_error [of env infos s e t] show ?thesis by simp
  next
    case (Inr u)
    with Pair have run: "registerValidPaths env infos s = (Inr (), t)" by simp
    note ok = registerValidPaths_ok [OF run assms]
    have ps: "set ?ps = infos_paths infos" by (simp add: infos_paths_def)
    have known: "refs_known (db_queries ?g ?st (st_db t)) ?ps"
      using local_db.known [of "(?g, ?st, st_db t)"] ok(1) by simp
    obtain xs where xs: "topoSortPaths (db_queries ?g ?st (st_db t)) ?ps = Inr xs" using ok(4) by blast
    then have sorted: "distinct xs" "set xs = set ?ps" "topo_sorted (topo_rel (db_queries ?g ?st (st_db t)) ?ps) xs"
      using topoSortPaths_result [OF known] by auto
    have "\<forall>x \<in> set ?ps. (x, x) \<notin> (topo_rel (db_queries ?g ?st (st_db t)) ?ps)\<^sup>+"
      using topo_sorted_acyclic [OF sorted(3,1)] sorted(2) by blast
    moreover have "topo_rel (db_queries ?g ?st (st_db t)) ?ps =
        {(p, q) \<in> refs_rel (st_db t). p \<noteq> q \<and> q \<in> infos_paths infos}"
      unfolding ps [symmetric] by (rule topo_rel_db [OF ok(1)]) (simp add: ps ok(2) infos_paths_def)
    ultimately show ?thesis using Pair Inr ok(1-3) refs_rel_valid [of "st_db t"] unfolding ps by simp
  qed
qed

text \<open>
  C14: A path can be invalidated only when no other path refers to it: otherwise the attempt is refused and the database is
  unchanged. After it, the path and its references are gone, everything else is as before,
  and no reference dangles.
\<close>

theorem invalidatePathChecked_safe:
  assumes "db_ok g store (st_db s)"
  shows "case invalidatePathChecked store p s of
      (Inl e, t) \<Rightarrow> st_db t = st_db s \<and>
        (\<not> isStorePath store p \<or> (\<exists>m. e = Throw PathInUse m) \<and> (\<exists>q. q \<noteq> p \<and> (q, p) \<in> refs_rel (st_db s)))
    | (Inr u, t) \<Rightarrow> isStorePath store p \<and> db_ok g store (st_db t) \<and> valid_set (st_db t) = valid_set (st_db s) - {p} \<and>
        refs_rel (st_db t) = refs_rel (st_db s) - {p} \<times> UNIV \<and> (\<forall>q. (q, p) \<in> refs_rel (st_db s) \<longrightarrow> q = p)"
  using assms by (rule invalidatePathChecked_ok)

text \<open>
  C13: The closure of a valid path computed from the database is the set of paths reachable from it over the
  recorded references, or, in the other direction, the set of paths from which it can be
  reached; the computation always succeeds.
\<close>

theorem database_closure:
  assumes "db_ok g store db" "p \<in> valid_set db"
  shows "\<exists>result. computeFSClosure (length (queryAllValidPaths db) + 1) (db_queries g store db) f False False p [] = Inr result \<and>
    is_oset result \<and> set result = (if f then (refs_rel db)\<inverse> else refs_rel db)\<^sup>* `` {p}"
  using local_db.closure_reachable [of "(g, store, db)" p f False False] assms closure_rel_db [OF assms(1), of f] by simp


text \<open>A small store: one path that refers to itself.\<close>

definition empty_state :: store_state where
  "empty_state =
     \<lparr> st_db = \<lparr> tbl_ValidPaths = [], tbl_Refs = [], tbl_DerivationOutputs = [], tbl_FailedPaths = [], last_rowid = 0 \<rparr>,
       st_drvHashes = [] \<rparr>"

definition sample_env :: store_env where
  "sample_env =
     \<lparr> env_gcrypt = sample_gcrypt, env_store = ''/s'', env_readFile = (\<lambda>_. Inl (Throw (SysError 2) [])),
       env_time = 7, env_fuel = 1 \<rparr>"

definition sample_info :: ValidPathInfo where
  "sample_info =
     \<lparr> vpi_path = ''/s/x'', vpi_deriver = [], vpi_hash = sample_hash htSHA256 ''x'', vpi_references = [''/s/x''],
       vpi_registrationTime = 0, vpi_narSize = 5, vpi_id = 0 \<rparr>"

definition sample_state :: store_state where
  "sample_state =
     \<lparr> st_db = \<lparr> tbl_ValidPaths = [info_row sample_env sample_info 1], tbl_Refs = [(1, 1)],
         tbl_DerivationOutputs = [], tbl_FailedPaths = [], last_rowid = 1 \<rparr>,
       st_drvHashes = [] \<rparr>"

lemma empty_state_ok: "db_ok g store (st_db empty_state)"
  by (simp add: empty_state_def db_ok_def row_ids_def)

lemma sample_info_ok: "info_ok sample_gcrypt ''/s'' sample_info"
  by (simp add: info_ok_def sample_info_def wf_sample_hash isStorePath_def isInStore_def isInDir_def)

lemma sample_hash_type: "htype (sample_hash htSHA256 ''x'') = htSHA256"
  by (simp add: sample_hash_def)

lemma sample_hash_field:
  "parseHashField sample_gcrypt (row_hash (info_row sample_env sample_info 1)) = Inr (sample_hash htSHA256 ''x'')"
  unfolding info_row_def sample_info_def
  using parseHashField_print [OF wf_sample_hash sample_hash_type] by simp

lemma sample_state_ok: "db_ok sample_gcrypt ''/s'' (st_db sample_state)"
  using sample_hash_field sample_info_ok
  by (auto simp: sample_state_def db_ok_def row_ids_def row_ok_def info_ok_def info_row_def)

lemma sample_register: "registerValidPath sample_env sample_info empty_state = (Inr (), sample_state)"
proof -
  let ?t = "sample_state \<lparr> st_db := st_db sample_state \<lparr> tbl_Refs := [] \<rparr> \<rparr>"
  have path: "vpi_path sample_info = ''/s/x''" "vpi_references sample_info = [''/s/x'']" "htype (vpi_hash sample_info) = htSHA256"
    by (simp_all add: sample_info_def sample_hash_type)
  have nodrv: "\<not> isDerivation ''/s/x''" by (simp add: isDerivation_def hasSuffix_def drvExtension_def)
  have 1: "register_one sample_env sample_info empty_state = (Inr (), ?t)"
    using nodrv by (simp add: register_one_def addValidPath_def add_outputs_def path exec_def stmtRegisterValidPath_def
      path_row_def isValidPath_raw_def empty_state_def sample_state_def info_row_def abind_def areturn_def aget_def valid_set_def)
  have row: "path_row ''/s/x'' (st_db ?t) = Some (info_row sample_env sample_info 1)"
    "path_row ''/s/x'' (st_db sample_state) = Some (info_row sample_env sample_info 1)"
    "id_row 1 (st_db ?t) = Some (info_row sample_env sample_info 1)"
    by (simp_all add: path_row_def id_row_def sample_state_def info_row_def path)
  have id: "row_id (info_row sample_env sample_info i) = i" for i by (simp add: info_row_def)
  have 2: "register_refs sample_info ?t = (Inr (), sample_state)"
    using row by (simp add: register_refs_def path queryValidPathId_def addReference_def exec_def stmtAddReference_def id
      abind_def areturn_def aget_def alift_def row_ids_def sample_state_def)
  have 3: "check_drv sample_env sample_info sample_state = (Inr (), sample_state)"
    using nodrv by (simp add: check_drv_def path areturn_def)
  have set: "is_oset [''/s/x'']" by simp
  have known: "refs_known (db_queries sample_gcrypt ''/s'' (st_db sample_state)) [''/s/x'']"
    using local_db.known [of "(sample_gcrypt, ''/s'', st_db sample_state)"] sample_state_ok by simp
  have "(x, x) \<notin> (topo_rel (db_queries sample_gcrypt ''/s'' (st_db sample_state)) [''/s/x''])\<^sup>+" if "x = ''/s/x''" for x
    using that by (auto simp: topo_rel_def dest!: tranclD)
  then obtain xs where "topoSortPaths (db_queries sample_gcrypt ''/s'' (st_db sample_state)) [''/s/x''] = Inr xs"
    using topoSortPaths_result [OF known set] by (auto split: sum.splits)
  with 1 2 3 show ?thesis
    by (simp add: registerValidPath_def registerValidPaths_def SQLiteTxn_def abind_def areturn_def aget_def alift_def
      path oinsert_all_def sample_env_def)
qed

theorem registerValidPaths_atomic_witness:
  "registerValidPaths sample_env [sample_info] empty_state = (Inr (), sample_state) \<and>
   valid_set (st_db sample_state) = {''/s/x''} \<and> refs_rel (st_db sample_state) = {(''/s/x'', ''/s/x'')}"
proof -
  have run: "registerValidPaths sample_env [sample_info] empty_state = (Inr (), sample_state)"
    using sample_register by (simp add: registerValidPath_def)
  have "list_all (info_ok (env_gcrypt sample_env) (env_store sample_env)) [sample_info]"
    using sample_info_ok by (simp add: sample_env_def)
  from registerValidPaths_atomic [OF empty_state_ok this] run show ?thesis
    by (simp add: empty_state_def valid_set_def refs_rel_def infos_paths_def infos_refs_def sample_info_def)
qed

theorem invalidatePathChecked_safe_witness:
  "valid_set (st_db (snd (invalidatePathChecked ''/s'' ''/s/x'' sample_state))) = {}"
proof -
  have v: "valid_set (st_db sample_state) = {''/s/x''}" by (simp add: valid_set_def sample_state_def info_row_def sample_info_def)
  have r: "refs_rel (st_db sample_state) \<subseteq> {''/s/x''} \<times> {''/s/x''}" using refs_rel_valid [of "st_db sample_state"] v by simp
  have p: "isStorePath ''/s'' ''/s/x''" using sample_info_ok by (simp add: info_ok_def sample_info_def)
  show ?thesis
    using invalidatePathChecked_safe [OF sample_state_ok, of "''/s/x''"] v r p
    by (auto split: prod.splits sum.splits)
qed

theorem database_closure_witness:
  "\<exists>result. computeFSClosure (length (queryAllValidPaths (st_db sample_state)) + 1)
     (db_queries sample_gcrypt ''/s'' (st_db sample_state)) True False False ''/s/x'' [] = Inr result \<and> ''/s/x'' \<in> set result"
proof -
  have "''/s/x'' \<in> valid_set (st_db sample_state)" by (simp add: valid_set_def sample_state_def info_row_def sample_info_def)
  from database_closure [OF sample_state_ok this, of True] show ?thesis by auto
qed


end
