(* ===== verification/FileSystem.thy ===== *)
theory FileSystem
  imports Archive_Correct Globals
begin

text \<open>
  The file system as the daemon uses it, and the file operations of \<^verbatim>\<open>src/nix/libutil/util.cc\<close>.

  A name, as the list of its components, denotes an inode number, so that a file can have several names;
  data, permissions, owner, group and modification time belong to the inode.  Path resolution follows
  symlinks as the kernel does, up to 40 of them.  Every system call first consults a script of faults,
  so that each of them may fail with any error the state does not rule out (no space, too many links,
  I/O error); a failed call has no other effect.  The caller is root, the clock stands still, relative
  paths start at the root and directories report size 0.  The record also holds what the operations use of
  the process: its identifiers, its umask, the numbers \<^verbatim>\<open>rand\<close> will return and the counter for temporary names.
\<close>

section \<open>Inodes and names\<close>

datatype fdata = DDir | DReg string | DLnk string | DSpecial

record file_system =
  fs_names :: "(string list \<times> nat) list"
  fs_data :: "nat \<Rightarrow> fdata"
  fs_perm :: "nat \<Rightarrow> 12 word"
  fs_uid :: "nat \<Rightarrow> nat"
  fs_gid :: "nat \<Rightarrow> nat"
  fs_mtime :: "nat \<Rightarrow> int"
  fs_next :: nat
  fs_now :: int
  fs_euid :: nat
  fs_egid :: nat
  fs_umask :: "12 word"
  fs_pid :: nat
  fs_rand :: "nat list"
  fs_tempCounter :: nat
  fs_faults :: "nat option list"

definition fs_ino :: "file_system \<Rightarrow> string list \<Rightarrow> nat option" where
  "fs_ino fs k = map_of (fs_names fs) k"

definition fs_at :: "file_system \<Rightarrow> string list \<Rightarrow> fdata option" where
  "fs_at fs k = map_option (fs_data fs) (fs_ino fs k)"

definition EPERM :: nat where "EPERM = 1"
definition EINTR :: nat where "EINTR = 4"
definition EACCES :: nat where "EACCES = 13"
definition EBUSY :: nat where "EBUSY = 16"
definition EXDEV :: nat where "EXDEV = 18"
definition EISDIR :: nat where "EISDIR = 21"
definition EINVAL :: nat where "EINVAL = 22"
definition ENOSPC :: nat where "ENOSPC = 28"
definition EMLINK :: nat where "EMLINK = 31"
definition ENOSYS :: nat where "ENOSYS = 38"
definition ENOTEMPTY :: nat where "ENOTEMPTY = 39"
definition ELOOP :: nat where "ELOOP = 40"

lemmas errno_defs = EPERM_def ENOENT_def EBADF_def EEXIST_def ENOTDIR_def EINTR_def EACCES_def EBUSY_def EXDEV_def EISDIR_def
  EINVAL_def ENOSPC_def EMLINK_def ENOSYS_def ENOTEMPTY_def ELOOP_def

text \<open>The errors that only the state of the file system causes.\<close>

definition structural :: "nat list" where
  "structural = [ENOENT, EBADF, EEXIST, ENOTDIR, EISDIR, EINVAL, ENOTEMPTY, ELOOP]"

section \<open>System calls\<close>

definition ebind :: "nat + 'a \<Rightarrow> ('a \<Rightarrow> nat + 'b) \<Rightarrow> nat + 'b" where
  "ebind m f = (case m of Inl e \<Rightarrow> Inl e | Inr x \<Rightarrow> f x)"

definition sys :: "(file_system \<Rightarrow> nat + 'a \<times> file_system) \<Rightarrow> (nat + 'a, file_system) action" where
  "sys call fs =
     (let fs' = fs \<lparr> fs_faults := tl (fs_faults fs) \<rparr>;
          normal = (case call fs' of Inl e \<Rightarrow> (Inr (Inl e), fs') | Inr (x, t) \<Rightarrow> (Inr (Inr x), t))
      in case fs_faults fs of
           Some e # _ \<Rightarrow> if e \<in> set structural then normal else (Inr (Inl e), fs')
         | _ \<Rightarrow> normal)"

fun resolve :: "nat \<Rightarrow> file_system \<Rightarrow> bool \<Rightarrow> string list \<Rightarrow> string list \<Rightarrow> nat + string list" where
  "resolve n fs follow at [] = Inr at"
| "resolve n fs follow at (c # cs) =
     (if c = ''.'' then resolve n fs follow at cs
      else if c = ''..'' then resolve n fs follow (butlast at) cs
      else
        (case fs_at fs (at @ [c]) of
           None \<Rightarrow> if cs = [] then Inr (at @ [c]) else Inl ENOENT
         | Some DDir \<Rightarrow> resolve n fs follow (at @ [c]) cs
         | Some (DLnk target) \<Rightarrow>
             if cs = [] \<and> \<not> follow then Inr (at @ [c])
             else
               (case n of
                  0 \<Rightarrow> Inl ELOOP
                | Suc n' \<Rightarrow>
                    resolve n' fs follow (if is_absolute target then [] else at) (path_components target @ cs))
         | Some _ \<Rightarrow> if cs = [] then Inr (at @ [c]) else Inl ENOTDIR))"

definition lookup :: "bool \<Rightarrow> Path \<Rightarrow> file_system \<Rightarrow> nat + string list" where
  "lookup follow p fs = (if p = [] then Inl ENOENT else resolve 40 fs follow [] (path_components p))"

record stat =
  st_ino :: nat
  st_data :: fdata
  st_perm :: "12 word"
  st_nlink :: nat
  st_size :: nat
  st_uid :: nat
  st_gid :: nat
  st_mtime :: int

fun data_size :: "fdata \<Rightarrow> nat" where
  "data_size (DReg s) = length s"
| "data_size (DLnk t) = length t"
| "data_size _ = 0"

definition fs_nlink :: "file_system \<Rightarrow> nat \<Rightarrow> nat" where
  "fs_nlink fs i = length (filter (\<lambda>e. snd e = i) (fs_names fs))"

definition stat_of :: "file_system \<Rightarrow> nat \<Rightarrow> stat" where
  "stat_of fs i =
     \<lparr> st_ino = i, st_data = fs_data fs i, st_perm = fs_perm fs i, st_nlink = fs_nlink fs i,
       st_size = data_size (fs_data fs i), st_uid = fs_uid fs i, st_gid = fs_gid fs i, st_mtime = fs_mtime fs i \<rparr>"

definition lookup_ino :: "bool \<Rightarrow> Path \<Rightarrow> file_system \<Rightarrow> nat + string list \<times> nat" where
  "lookup_ino follow p fs =
     ebind (lookup follow p fs) (\<lambda>k. case fs_ino fs k of None \<Rightarrow> Inl ENOENT | Some i \<Rightarrow> Inr (k, i))"

definition sys_stat :: "bool \<Rightarrow> Path \<Rightarrow> (nat + stat, file_system) action" where
  "sys_stat follow p = sys (\<lambda>fs. ebind (lookup_ino follow p fs) (\<lambda>(k, i). Inr (stat_of fs i, fs)))"

abbreviation sys_lstat :: "Path \<Rightarrow> (nat + stat, file_system) action" where
  "sys_lstat \<equiv> sys_stat False"

text \<open>Changing a directory changes its modification time.\<close>

definition touch :: "string list \<Rightarrow> file_system \<Rightarrow> file_system" where
  "touch k fs =
     (case fs_ino fs k of None \<Rightarrow> fs | Some i \<Rightarrow> fs \<lparr> fs_mtime := (fs_mtime fs)(i := fs_now fs) \<rparr>)"

definition add_name :: "string list \<Rightarrow> nat \<Rightarrow> file_system \<Rightarrow> file_system" where
  "add_name k i fs = touch (butlast k) (fs \<lparr> fs_names := fs_names fs @ [(k, i)] \<rparr>)"

definition drop_name :: "string list \<Rightarrow> file_system \<Rightarrow> file_system" where
  "drop_name k fs = touch (butlast k) (fs \<lparr> fs_names := filter (\<lambda>e. fst e \<noteq> k) (fs_names fs) \<rparr>)"

definition add_file :: "string list \<Rightarrow> fdata \<Rightarrow> 12 word \<Rightarrow> file_system \<Rightarrow> file_system" where
  "add_file k d perm fs =
     (let i = fs_next fs in
      add_name k i
        (fs \<lparr> fs_data := (fs_data fs)(i := d), fs_perm := (fs_perm fs)(i := perm),
              fs_uid := (fs_uid fs)(i := fs_euid fs), fs_gid := (fs_gid fs)(i := fs_egid fs),
              fs_mtime := (fs_mtime fs)(i := fs_now fs), fs_next := Suc i \<rparr>))"

definition masked :: "12 word \<Rightarrow> file_system \<Rightarrow> 12 word" where
  "masked perm fs = perm AND NOT (fs_umask fs)"

definition new_name :: "Path \<Rightarrow> file_system \<Rightarrow> nat + string list" where
  "new_name p fs = ebind (lookup False p fs) (\<lambda>k. if fs_ino fs k \<noteq> None then Inl EEXIST else Inr k)"

definition sys_mkdir :: "Path \<Rightarrow> 12 word \<Rightarrow> (nat + unit, file_system) action" where
  "sys_mkdir p perm = sys (\<lambda>fs. ebind (new_name p fs) (\<lambda>k. Inr ((), add_file k DDir (masked perm fs) fs)))"

definition sys_symlink :: "string \<Rightarrow> Path \<Rightarrow> (nat + unit, file_system) action" where
  "sys_symlink target p = sys (\<lambda>fs. ebind (new_name p fs) (\<lambda>k. Inr ((), add_file k (DLnk target) 511 fs)))"

definition sys_link :: "Path \<Rightarrow> Path \<Rightarrow> (nat + unit, file_system) action" where
  "sys_link old new =
     sys (\<lambda>fs. ebind (lookup_ino False old fs) (\<lambda>(_, i).
       ebind (new_name new fs) (\<lambda>k. if fs_data fs i = DDir then Inl EPERM else Inr ((), add_name k i fs))))"

definition children :: "string list \<Rightarrow> file_system \<Rightarrow> (string \<times> nat) list" where
  "children k fs =
     map (\<lambda>e. (last (fst e), snd e)) (filter (\<lambda>e. fst e \<noteq> [] \<and> butlast (fst e) = k) (fs_names fs))"

definition sys_unlink :: "Path \<Rightarrow> (nat + unit, file_system) action" where
  "sys_unlink p =
     sys (\<lambda>fs. ebind (lookup_ino False p fs) (\<lambda>(k, i).
       if fs_data fs i = DDir then Inl EISDIR else Inr ((), drop_name k fs)))"

definition sys_rmdir :: "Path \<Rightarrow> (nat + unit, file_system) action" where
  "sys_rmdir p =
     sys (\<lambda>fs. ebind (lookup_ino False p fs) (\<lambda>(k, i).
       if fs_data fs i \<noteq> DDir then Inl ENOTDIR
       else if k = [] then Inl EBUSY
       else if children k fs \<noteq> [] then Inl ENOTEMPTY
       else Inr ((), drop_name k fs)))"

text \<open>Renaming replaces what the new name denotes; two names of one file are left alone.\<close>

definition move_names :: "string list \<Rightarrow> string list \<Rightarrow> file_system \<Rightarrow> file_system" where
  "move_names k k' fs =
     touch (butlast k) (touch (butlast k') (fs \<lparr> fs_names :=
       [(if prefix k (fst e) then k' @ drop (length k) (fst e) else fst e, snd e).
          e \<leftarrow> fs_names fs, fst e \<noteq> k'] \<rparr>))"

definition sys_rename :: "Path \<Rightarrow> Path \<Rightarrow> (nat + unit, file_system) action" where
  "sys_rename old new =
     sys (\<lambda>fs. ebind (lookup_ino False old fs) (\<lambda>(k, i).
       ebind (lookup False new fs) (\<lambda>k'.
       if k = [] \<or> k' = [] then Inl EBUSY
       else if fs_ino fs k' = Some i then Inr ((), fs)
       else if prefix k k' then Inl EINVAL
       else
         (case fs_at fs k' of
            None \<Rightarrow> Inr ((), move_names k k' fs)
          | Some d \<Rightarrow>
              if fs_data fs i = DDir \<and> d \<noteq> DDir then Inl ENOTDIR
              else if fs_data fs i \<noteq> DDir \<and> d = DDir then Inl EISDIR
              else if d = DDir \<and> children k' fs \<noteq> [] then Inl ENOTEMPTY
              else Inr ((), move_names k k' fs)))))"

definition sys_chmod :: "Path \<Rightarrow> 12 word \<Rightarrow> (nat + unit, file_system) action" where
  "sys_chmod p perm =
     sys (\<lambda>fs. ebind (lookup_ino True p fs) (\<lambda>(_, i). Inr ((), fs \<lparr> fs_perm := (fs_perm fs)(i := perm) \<rparr>)))"

definition sys_lchown :: "Path \<Rightarrow> nat option \<Rightarrow> nat option \<Rightarrow> (nat + unit, file_system) action" where
  "sys_lchown p uid gid =
     sys (\<lambda>fs. ebind (lookup_ino False p fs) (\<lambda>(_, i).
       Inr ((), fs \<lparr> fs_uid := (fs_uid fs)(i := case uid of None \<Rightarrow> fs_uid fs i | Some u \<Rightarrow> u),
                     fs_gid := (fs_gid fs)(i := case gid of None \<Rightarrow> fs_gid fs i | Some g \<Rightarrow> g) \<rparr>)))"

definition sys_utimes :: "bool \<Rightarrow> Path \<Rightarrow> int \<Rightarrow> (nat + unit, file_system) action" where
  "sys_utimes follow p t =
     sys (\<lambda>fs. ebind (lookup_ino follow p fs) (\<lambda>(_, i).
       Inr ((), fs \<lparr> fs_mtime := (fs_mtime fs)(i := t) \<rparr>)))"

definition sys_readdir :: "Path \<Rightarrow> (nat + (string \<times> nat \<times> fdata) list, file_system) action" where
  "sys_readdir p =
     sys (\<lambda>fs. ebind (lookup_ino True p fs) (\<lambda>(k, i).
       if fs_data fs i \<noteq> DDir then Inl ENOTDIR
       else Inr ([(name, j, fs_data fs j). (name, j) \<leftarrow> children k fs], fs)))"

text \<open>
  Opening a file gives its inode number: a descriptor remains good when the name goes away.  \<open>create\<close> is the
  permission mask of \<^verbatim>\<open>O_CREAT\<close>.
\<close>

definition sys_open :: "Path \<Rightarrow> 12 word option \<Rightarrow> bool \<Rightarrow> bool \<Rightarrow> (nat + nat, file_system) action" where
  "sys_open p create writing trunc =
     sys (\<lambda>fs. ebind (lookup True p fs) (\<lambda>k.
       case fs_ino fs k of
         None \<Rightarrow>
           (case create of
              None \<Rightarrow> Inl ENOENT
            | Some perm \<Rightarrow> Inr (fs_next fs, add_file k (DReg []) (masked perm fs) fs))
       | Some i \<Rightarrow>
           if fs_data fs i = DDir \<and> writing then Inl EISDIR
           else if trunc then
             Inr (i, fs \<lparr> fs_data := (fs_data fs)(i := case fs_data fs i of DReg _ \<Rightarrow> DReg [] | d \<Rightarrow> d),
                          fs_mtime := (fs_mtime fs)(i := fs_now fs) \<rparr>)
           else Inr (i, fs)))"

definition sys_read_all :: "nat \<Rightarrow> (nat + string, file_system) action" where
  "sys_read_all i =
     sys (\<lambda>fs. case fs_data fs i of DReg s \<Rightarrow> Inr (s, fs) | DDir \<Rightarrow> Inl EISDIR | _ \<Rightarrow> Inl EINVAL)"

definition sys_append :: "nat \<Rightarrow> string \<Rightarrow> (nat + unit, file_system) action" where
  "sys_append i s =
     sys (\<lambda>fs. case fs_data fs i of
       DReg t \<Rightarrow> Inr ((), fs \<lparr> fs_data := (fs_data fs)(i := DReg (t @ s)), fs_mtime := (fs_mtime fs)(i := fs_now fs) \<rparr>)
     | _ \<Rightarrow> Inl EBADF)"

section \<open>File operations\<close>

definition or_throw :: "string \<Rightarrow> (nat + 'a, 's) action \<Rightarrow> ('a, 's) action" where
  "or_throw what call =
     abind call (\<lambda>r. case r of Inl e \<Rightarrow> athrow (Throw (SysError e) what) | Inr x \<Rightarrow> areturn x)"

text \<open>A loop that carries a value.\<close>

fun afold :: "('a \<Rightarrow> 'b \<Rightarrow> ('b, 's) action) \<Rightarrow> 'a list \<Rightarrow> 'b \<Rightarrow> ('b, 's) action" where
  "afold f [] acc = areturn acc"
| "afold f (x # xs) acc = abind (f x acc) (afold f xs)"

definition lstat :: "Path \<Rightarrow> (stat, file_system) action" where
  "lstat path = or_throw ''getting status'' (sys_lstat path)"

definition pathExists :: "Path \<Rightarrow> (bool, file_system) action" where
  "pathExists path =
     abind (sys_lstat path) (\<lambda>r. case r of
       Inr _ \<Rightarrow> areturn True
     | Inl e \<Rightarrow>
         if e \<noteq> ENOENT \<and> e \<noteq> ENOTDIR then athrow (Throw (SysError e) ''getting status'')
         else areturn False)"

definition readLink :: "Path \<Rightarrow> (string, file_system) action" where
  "readLink path =
     abind (lstat path) (\<lambda>st.
     case st_data st of
       DLnk target \<Rightarrow>
         or_throw ''reading symbolic link'' (sys (\<lambda>fs. ebind (lookup_ino False path fs) (\<lambda>(_, i).
           case fs_data fs i of DLnk t \<Rightarrow> Inr (t, fs) | _ \<Rightarrow> Inl EINVAL)))
     | _ \<Rightarrow> athrow (Throw Error ''is not a symlink''))"

definition isLink :: "Path \<Rightarrow> (bool, file_system) action" where
  "isLink path = abind (lstat path) (\<lambda>st. areturn (case st_data st of DLnk _ \<Rightarrow> True | _ \<Rightarrow> False))"

definition readDirectory :: "Path \<Rightarrow> ((string \<times> nat \<times> fdata) list, file_system) action" where
  "readDirectory path = or_throw ''opening directory'' (sys_readdir path)"

datatype dirent_type = DT_UNKNOWN | DT_DIR | DT_REG | DT_LNK

fun dirent_type_of :: "fdata \<Rightarrow> dirent_type" where
  "dirent_type_of DDir = DT_DIR"
| "dirent_type_of (DLnk _) = DT_LNK"
| "dirent_type_of (DReg _) = DT_REG"
| "dirent_type_of DSpecial = DT_UNKNOWN"

definition getFileType :: "Path \<Rightarrow> (dirent_type, file_system) action" where
  "getFileType path = abind (lstat path) (\<lambda>st. areturn (dirent_type_of (st_data st)))"

definition readFile_fd :: "nat \<Rightarrow> (string, file_system) action" where
  "readFile_fd fd = or_throw ''reading from file'' (sys_read_all fd)"

definition readFile :: "Path \<Rightarrow> (string, file_system) action" where
  "readFile path = abind (or_throw ''reading file'' (sys_open path None False False)) readFile_fd"

definition writeFile :: "Path \<Rightarrow> string \<Rightarrow> (unit, file_system) action" where
  "writeFile path s =
     abind (or_throw ''writing file'' (sys_open path (Some 438) True True)) (\<lambda>fd.
     or_throw ''writing to file'' (sys_append fd s))"

definition S_IWUSR :: "12 word" where "S_IWUSR = 128"
definition S_IXUSR :: "12 word" where "S_IXUSR = 64"

text \<open>Deleting a tree; the counter of freed bytes wraps around at 64 bits.\<close>

primrec deletePath_rec :: "nat \<Rightarrow> nat \<Rightarrow> Path \<Rightarrow> 64 word \<Rightarrow> (64 word, file_system) action" where
  "deletePath_rec 0 linkThreshold path bytesFreed = athrow OutOfFuel"
| "deletePath_rec (Suc fuel) linkThreshold path bytesFreed =
     abind (lstat path) (\<lambda>st.
     let dir = (st_data st = DDir);
         bytesFreed = (if \<not> dir \<and> st_nlink st \<le> linkThreshold then bytesFreed + word_of_nat (st_size st)
                       else bytesFreed)
     in abind
          (if dir then
             abind (if st_perm st AND S_IWUSR = 0 then
                      or_throw ''making writable'' (sys_chmod path (st_perm st OR S_IWUSR))
                    else areturn ()) (\<lambda>_.
             abind (readDirectory path) (\<lambda>entries.
             afold (\<lambda>(name, _). deletePath_rec fuel linkThreshold (path @ ''/'' @ name)) entries bytesFreed))
           else areturn bytesFreed) (\<lambda>bytesFreed.
        abind (or_throw ''cannot unlink'' (if dir then sys_rmdir path else sys_unlink path)) (\<lambda>_.
        areturn bytesFreed)))"

text \<open>No name is longer than this many components.\<close>

definition fs_depth :: "file_system \<Rightarrow> nat" where
  "fs_depth fs = fold (max \<circ> length \<circ> fst) (fs_names fs) 0"

definition deletePath :: "Path \<Rightarrow> nat \<Rightarrow> (64 word, file_system) action" where
  "deletePath path linkThreshold =
     abind (aget fs_depth) (\<lambda>depth. deletePath_rec (Suc depth) linkThreshold path 0)"

subsection \<open>Creating directories and links\<close>

primrec createDirs_rec :: "nat \<Rightarrow> Path \<Rightarrow> (Path list, file_system) action" where
  "createDirs_rec 0 path = athrow OutOfFuel"
| "createDirs_rec (Suc fuel) path =
     (if path = ''/'' then areturn []
      else
        abind (sys_lstat path) (\<lambda>r.
        abind
          (case r of
             Inr st \<Rightarrow> areturn (st, [])
           | Inl _ \<Rightarrow>
               abind (alift (dirOf path)) (\<lambda>dir.
               abind (createDirs_rec fuel dir) (\<lambda>created.
               abind (sys_mkdir path 511) (\<lambda>m.
               abind (case m of
                        Inl e \<Rightarrow> if e \<noteq> EEXIST then athrow (Throw (SysError e) ''creating directory'') else areturn ()
                      | Inr _ \<Rightarrow> areturn ()) (\<lambda>_.
               abind (lstat path) (\<lambda>st. areturn (st, created @ [path]))))))) (\<lambda>(st, created).
        abind
          (case st_data st of
             DLnk _ \<Rightarrow> or_throw ''statting symlink'' (sys_stat True path)
           | _ \<Rightarrow> areturn st) (\<lambda>st.
        if st_data st \<noteq> DDir then athrow (Throw Error ''is not a directory'')
        else areturn created))))"

definition createDirs :: "Path \<Rightarrow> (Path list, file_system) action" where
  "createDirs path = createDirs_rec (Suc (length path)) path"

definition fs_createSymlink :: "Path \<Rightarrow> Path \<Rightarrow> (unit, file_system) action" where
  "fs_createSymlink target link = or_throw ''creating symlink'' (sys_symlink target link)"

text \<open>Resolving the links of a path in the present state.\<close>

definition fs_canonPath :: "Path \<Rightarrow> (Path, file_system) action" where
  "fs_canonPath path fs =
     (let quiet = fs \<lparr> fs_faults := [] \<rparr>
      in (canonPath_resolve (\<lambda>p. fst (isLink p quiet)) (\<lambda>p. fst (readLink p quiet)) path, fs))"

definition tempName :: "(string \<Rightarrow> string option) \<Rightarrow> Path \<Rightarrow> string \<Rightarrow> bool \<Rightarrow> nat \<Rightarrow> (Path, file_system) action" where
  "tempName env tmpRoot pre includePid counter =
     abind (fs_canonPath (if tmpRoot = [] then getEnv env ''TMPDIR'' ''/tmp'' else tmpRoot)) (\<lambda>root.
     abind (aget fs_pid) (\<lambda>pid.
     areturn
       (if includePid then root @ ''/'' @ pre @ ''-'' @ show_nat pid @ ''-'' @ show_nat counter
        else root @ ''/'' @ pre @ ''-'' @ show_nat counter)))"

primrec createTempDir_loop ::
  "nat \<Rightarrow> (string \<Rightarrow> string option) \<Rightarrow> Path \<Rightarrow> string \<Rightarrow> bool \<Rightarrow> bool \<Rightarrow> 12 word \<Rightarrow> nat \<Rightarrow> (Path, file_system) action" where
  "createTempDir_loop 0 env tmpRoot pre includePid useGlobalCounter mode counter = athrow OutOfFuel"
| "createTempDir_loop (Suc fuel) env tmpRoot pre includePid useGlobalCounter mode counter =
     abind (tempName env tmpRoot pre includePid counter) (\<lambda>tmpDir.
     abind (if useGlobalCounter then amodify (\<lambda>fs. fs \<lparr> fs_tempCounter := Suc counter \<rparr>) else areturn ()) (\<lambda>_.
     abind (sys_mkdir tmpDir mode) (\<lambda>r.
     case r of
       Inr _ \<Rightarrow>
         abind (aget fs_egid) (\<lambda>egid.
         abind (or_throw ''setting group of directory'' (sys_lchown tmpDir None (Some egid))) (\<lambda>_.
         areturn tmpDir))
     | Inl e \<Rightarrow>
         if e \<noteq> EEXIST then athrow (Throw (SysError e) ''creating directory'')
         else createTempDir_loop fuel env tmpRoot pre includePid useGlobalCounter mode (Suc counter))))"

text \<open>Every attempt that fails finds another existing name, so there are at most as many as there are names.\<close>

definition createTempDir ::
  "(string \<Rightarrow> string option) \<Rightarrow> Path \<Rightarrow> string \<Rightarrow> bool \<Rightarrow> bool \<Rightarrow> 12 word \<Rightarrow> (Path, file_system) action" where
  "createTempDir env tmpRoot pre includePid useGlobalCounter mode =
     abind (aget (\<lambda>fs. (fs_tempCounter fs, length (fs_names fs)))) (\<lambda>(globalCounter, n).
     createTempDir_loop (Suc n) env tmpRoot pre includePid useGlobalCounter mode
       (if useGlobalCounter then globalCounter else 0))"

section \<open>Well-formed file systems\<close>

text \<open>
  Names are unique, the root is a directory, every other name is a proper component below a directory, and
  a directory has only one name.
\<close>

definition fs_ok :: "file_system \<Rightarrow> bool" where
  "fs_ok fs \<longleftrightarrow>
     distinct (map fst (fs_names fs)) \<and> fs_at fs [] = Some DDir \<and>
     (\<forall>k i. fs_ino fs k = Some i \<longrightarrow>
        i < fs_next fs \<and> (k \<noteq> [] \<longrightarrow> canonical_component (last k) \<and> fs_at fs (butlast k) = Some DDir)) \<and>
     (\<forall>k k' i. fs_ino fs k = Some i \<longrightarrow> fs_ino fs k' = Some i \<longrightarrow> fs_data fs i = DDir \<longrightarrow> k = k')"

lemma fs_okD:
  assumes "fs_ok fs"
  shows "distinct (map fst (fs_names fs))" "fs_at fs [] = Some DDir"
    "fs_ino fs k = Some i \<Longrightarrow> i < fs_next fs"
    "fs_ino fs k = Some i \<Longrightarrow> k \<noteq> [] \<Longrightarrow> canonical_component (last k) \<and> fs_at fs (butlast k) = Some DDir"
    "fs_ino fs k = Some i \<Longrightarrow> fs_ino fs k' = Some i \<Longrightarrow> fs_data fs i = DDir \<Longrightarrow> k = k'"
  using assms by (auto simp: fs_ok_def)

lemma fs_faults_irrelevant [simp]:
  "fs_ino (fs \<lparr> fs_faults := f \<rparr>) = fs_ino fs" "fs_at (fs \<lparr> fs_faults := f \<rparr>) = fs_at fs"
  "fs_ok (fs \<lparr> fs_faults := f \<rparr>) = fs_ok fs" "children k (fs \<lparr> fs_faults := f \<rparr>) = children k fs"
  "fs_nlink (fs \<lparr> fs_faults := f \<rparr>) = fs_nlink fs" "fs_depth (fs \<lparr> fs_faults := f \<rparr>) = fs_depth fs"
  by (auto simp: fs_ino_def fs_at_def fs_ok_def children_def fs_nlink_def fs_depth_def fun_eq_iff)

lemma resolve_cong:
  assumes "fs_at fs' = fs_at fs"
  shows "resolve n fs' follow at cs = resolve n fs follow at cs"
proof (induction n arbitrary: at cs follow)
  case 0
  show ?case by (induction cs arbitrary: at) (simp_all add: assms split: option.split fdata.split)
next
  case (Suc n)
  show ?case by (induction cs arbitrary: at) (simp_all add: assms Suc split: option.split fdata.split)
qed

lemma resolve_faults [simp]: "resolve n (fs \<lparr> fs_faults := f \<rparr>) follow at cs = resolve n fs follow at cs"
  by (rule resolve_cong) simp

lemma lookup_faults [simp]:
  "lookup follow p (fs \<lparr> fs_faults := f \<rparr>) = lookup follow p fs"
  "lookup_ino follow p (fs \<lparr> fs_faults := f \<rparr>) = lookup_ino follow p fs"
  "new_name p (fs \<lparr> fs_faults := f \<rparr>) = new_name p fs"
  by (simp_all add: lookup_def lookup_ino_def new_name_def)

lemma fs_at_ino: "fs_at fs k = Some d \<longleftrightarrow> (\<exists>i. fs_ino fs k = Some i \<and> fs_data fs i = d)"
  by (auto simp: fs_at_def)

lemma fs_at_None: "fs_at fs k = None \<longleftrightarrow> fs_ino fs k = None"
  by (simp add: fs_at_def)

lemma name_prefix:
  assumes "fs_ok fs"
  shows "fs_ino fs (k @ k') \<noteq> None \<Longrightarrow> k' \<noteq> [] \<Longrightarrow> fs_at fs k = Some DDir"
proof (induction k' rule: rev_induct)
  case (snoc c k')
  then have p: "fs_at fs (k @ k') = Some DDir"
    using fs_okD(4) [OF assms, of "k @ k' @ [c]"] by (auto simp: butlast_append)
  show ?case
  proof (cases "k' = []")
    case False
    have "fs_ino fs (k @ k') \<noteq> None" using p by (auto simp: fs_at_def)
    then show ?thesis using snoc.IH False by blast
  qed (use p in simp)
qed simp

lemma name_canonical:
  assumes "fs_ok fs" "fs_ino fs k \<noteq> None"
  shows "list_all canonical_component k"
  using assms(2)
proof (induction k rule: rev_induct)
  case (snoc c k)
  obtain i where "fs_ino fs (k @ [c]) = Some i" using snoc.prems by auto
  from fs_okD(4) [OF assms(1) this] have "canonical_component c" "fs_at fs k = Some DDir" by auto
  then show ?case using snoc.IH by (auto simp: fs_at_def)
qed simp

lemma resolve_known:
  assumes "fs_ok fs"
  shows "fs_ino fs (at @ cs) \<noteq> None \<Longrightarrow> follow \<longrightarrow> fs_at fs (at @ cs) = Some DDir \<Longrightarrow>
    resolve n fs follow at cs = Inr (at @ cs)"
proof (induction cs arbitrary: at)
  case (Cons c cs)
  have "list_all canonical_component (at @ c # cs)" using name_canonical [OF assms Cons.prems(1)] .
  then have c: "c \<noteq> ''.''" "c \<noteq> ''..''" by (auto simp: canonical_component_def)
  show ?case
  proof (cases "cs = []")
    case True
    then show ?thesis using Cons.prems c by (auto simp: fs_at_def split: fdata.splits)
  next
    case False
    have "fs_at fs (at @ [c]) = Some DDir"
      using name_prefix [OF assms, of "at @ [c]" cs] Cons.prems(1) False by simp
    then show ?thesis using Cons.IH [of "at @ [c]"] Cons.prems c by simp
  qed
qed simp

lemma resolve_append:
  assumes "fs_ok fs"
  shows "fs_at fs (at @ cs) = Some DDir \<Longrightarrow> resolve n fs follow at (cs @ ds) = resolve n fs follow (at @ cs) ds"
proof (induction cs arbitrary: at)
  case (Cons c cs)
  have known: "fs_ino fs (at @ c # cs) \<noteq> None" using Cons.prems by (auto simp: fs_at_def)
  have "list_all canonical_component (at @ c # cs)" using name_canonical [OF assms known] .
  then have c: "c \<noteq> ''.''" "c \<noteq> ''..''" by (auto simp: canonical_component_def)
  have "fs_at fs (at @ [c]) = Some DDir"
    using name_prefix [OF assms, of "at @ [c]" cs] known Cons.prems by (cases "cs = []") simp_all
  then show ?case using Cons.IH [of "at @ [c]"] Cons.prems c by simp
qed simp

text \<open>A path whose last component lies in a directory resolves to its components.\<close>

definition plain_path :: "file_system \<Rightarrow> Path \<Rightarrow> string list \<Rightarrow> bool" where
  "plain_path fs p k \<longleftrightarrow>
     path_components p = k \<and> k \<noteq> [] \<and> canonical_component (last k) \<and> fs_at fs (butlast k) = Some DDir"

lemma path_components_Nil [simp]: "path_components [] = []"
  by (simp add: path_components.simps skip_slashes_def)

lemma plain_path_lookup:
  assumes "fs_ok fs" "plain_path fs p k"
  shows "lookup False p fs = Inr k"
proof -
  obtain j c where k: "k = j @ [c]" using assms(2) by (cases k rule: rev_cases) (auto simp: plain_path_def)
  have "p \<noteq> []" using assms(2) by (auto simp: plain_path_def)
  moreover have "resolve 40 fs False [] (j @ [c]) = resolve 40 fs False j [c]"
    using resolve_append [OF assms(1), of "[]" j] assms(2) k by (simp add: plain_path_def)
  moreover have "resolve n fs False j [c] = Inr k" for n
    using assms(2) k by (auto simp: plain_path_def canonical_component_def split: option.split fdata.split)
  ultimately show ?thesis using assms(2) k by (simp add: lookup_def plain_path_def)
qed

lemma plain_path_follow:
  assumes "fs_ok fs" "plain_path fs p k" "\<And>t. fs_at fs k \<noteq> Some (DLnk t)"
  shows "lookup True p fs = Inr k"
proof -
  obtain j c where k: "k = j @ [c]" using assms(2) by (cases k rule: rev_cases) (auto simp: plain_path_def)
  have "p \<noteq> []" using assms(2) by (auto simp: plain_path_def)
  moreover have "resolve 40 fs True [] (j @ [c]) = resolve 40 fs True j [c]"
    using resolve_append [OF assms(1), of "[]" j] assms(2) k by (simp add: plain_path_def)
  moreover have "resolve n fs True j [c] = Inr k" for n
    using assms(2,3) k by (auto simp: plain_path_def canonical_component_def split: option.split fdata.split)
  ultimately show ?thesis using assms(2) k by (simp add: lookup_def plain_path_def)
qed

lemma path_components_child:
  assumes "canonical_component name"
  shows "path_components (p @ ''/'' @ name) = path_components p @ [name]"
proof -
  have "path_components ([] @ CHR ''/'' # name) = [name]"
    using path_components_render [of "[name]"] assms by simp
  then have "path_components name = [name]" unfolding path_components_append by simp
  then show ?thesis using path_components_append [of p name] by simp
qed

lemma plain_path_child:
  assumes "path_components p = k" "fs_at fs k = Some DDir" "canonical_component name"
  shows "plain_path fs (p @ ''/'' @ name) (k @ [name])"
  using path_components_child [OF assms(3), of p] assms by (simp add: plain_path_def)

text \<open>How a system call ends.\<close>

lemma sys_cases:
  assumes "sys call fs = (r, t)"
  obtains (failed) e where "r = Inr (Inl e)" "t = fs \<lparr> fs_faults := tl (fs_faults fs) \<rparr>"
      "fs_faults fs = [] \<or> e \<in> set structural \<Longrightarrow> call (fs \<lparr> fs_faults := tl (fs_faults fs) \<rparr>) = Inl e"
  | (good) x where "r = Inr (Inr x)" "call (fs \<lparr> fs_faults := tl (fs_faults fs) \<rparr>) = Inr (x, t)"
  using assms
  by (auto simp: sys_def Let_def split: list.splits option.splits if_splits sum.splits prod.splits)

lemma fs_faults_Nil: "fs_faults fs = [] \<Longrightarrow> fs \<lparr> fs_faults := tl (fs_faults fs) \<rparr> = (fs :: file_system)"
  by simp

section \<open>Deleting a tree\<close>

lemma touch_simps [simp]:
  "fs_names (touch k fs) = fs_names fs" "fs_data (touch k fs) = fs_data fs" "fs_perm (touch k fs) = fs_perm fs"
  "fs_uid (touch k fs) = fs_uid fs" "fs_gid (touch k fs) = fs_gid fs" "fs_next (touch k fs) = fs_next fs"
  "fs_now (touch k fs) = fs_now fs" "fs_euid (touch k fs) = fs_euid fs" "fs_egid (touch k fs) = fs_egid fs"
  "fs_umask (touch k fs) = fs_umask fs" "fs_pid (touch k fs) = fs_pid fs" "fs_rand (touch k fs) = fs_rand fs"
  "fs_tempCounter (touch k fs) = fs_tempCounter fs" "fs_faults (touch k fs) = fs_faults fs"
  by (simp_all add: touch_def split: option.split)

lemma fs_ino_touch [simp]:
  "fs_ino (touch k fs) = fs_ino fs" "fs_at (touch k fs) = fs_at fs" "fs_nlink (touch k fs) = fs_nlink fs"
  "children k' (touch k fs) = children k' fs"
  by (auto simp: fs_ino_def fs_at_def fs_nlink_def children_def fun_eq_iff)

lemma touch_mtime: "fs_mtime (touch k fs) i = (if fs_ino fs k = Some i then fs_now fs else fs_mtime fs i)"
  by (simp add: touch_def split: option.split)

lemma drop_name_simps [simp]:
  "fs_data (drop_name k fs) = fs_data fs" "fs_perm (drop_name k fs) = fs_perm fs"
  "fs_uid (drop_name k fs) = fs_uid fs" "fs_gid (drop_name k fs) = fs_gid fs" "fs_next (drop_name k fs) = fs_next fs"
  "fs_now (drop_name k fs) = fs_now fs" "fs_euid (drop_name k fs) = fs_euid fs" "fs_egid (drop_name k fs) = fs_egid fs"
  "fs_umask (drop_name k fs) = fs_umask fs" "fs_pid (drop_name k fs) = fs_pid fs" "fs_rand (drop_name k fs) = fs_rand fs"
  "fs_tempCounter (drop_name k fs) = fs_tempCounter fs" "fs_faults (drop_name k fs) = fs_faults fs"
  by (simp_all add: drop_name_def)

lemma map_of_filter_key: "map_of (filter (\<lambda>e. P (fst e)) xs) k = (if P k then map_of xs k else None)"
  by (induction xs) auto

lemma fs_ino_drop_name [simp]: "fs_ino (drop_name k fs) k' = (if k' = k then None else fs_ino fs k')"
  using map_of_filter_key [of "\<lambda>j. j \<noteq> k" "fs_names fs" k'] by (simp add: drop_name_def fs_ino_def [abs_def])

lemma fs_at_drop_name [simp]: "fs_at (drop_name k fs) k' = (if k' = k then None else fs_at fs k')"
  by (simp add: fs_at_def)

lemma children_iff:
  assumes "fs_ok fs"
  shows "(name, i) \<in> set (children k fs) \<longleftrightarrow> fs_ino fs (k @ [name]) = Some i"
proof
  assume "(name, i) \<in> set (children k fs)"
  then obtain e where e: "e \<in> set (fs_names fs)" "fst e \<noteq> []" "butlast (fst e) = k" "last (fst e) = name" "snd e = i"
    by (auto simp: children_def)
  then have "fst e = k @ [name]" by (metis append_butlast_last_id)
  then have "(k @ [name], i) \<in> set (fs_names fs)" using e by (metis prod.collapse)
  then show "fs_ino fs (k @ [name]) = Some i"
    using fs_okD(1) [OF assms] by (simp add: fs_ino_def)
next
  assume "fs_ino fs (k @ [name]) = Some i"
  then have "(k @ [name], i) \<in> set (fs_names fs)" by (auto simp: fs_ino_def dest: map_of_SomeD)
  then show "(name, i) \<in> set (children k fs)" by (force simp: children_def)
qed

lemma children_distinct:
  assumes "fs_ok fs"
  shows "distinct (map fst (children k fs))"
proof -
  have "map fst (children k fs) = map last (filter (\<lambda>j. j \<noteq> [] \<and> butlast j = k) (map fst (fs_names fs)))"
    by (simp add: children_def filter_map comp_def)
  moreover have "inj_on last {j \<in> S. j \<noteq> [] \<and> butlast j = k}" for S :: "string list set"
    by (rule inj_onI) (metis (mono_tags, lifting) append_butlast_last_id mem_Collect_eq)
  moreover have "distinct (filter (\<lambda>j. j \<noteq> [] \<and> butlast j = k) (map fst (fs_names fs)))"
    using fs_okD(1) [OF assms] by (rule distinct_filter)
  ultimately show ?thesis by (simp only: distinct_map set_filter)
qed

lemma fs_ok_drop_name:
  assumes "fs_ok fs" "k \<noteq> []" "children k fs = []"
  shows "fs_ok (drop_name k fs)"
proof -
  have child: "fs_ino fs k' \<noteq> None \<Longrightarrow> k' \<noteq> [] \<Longrightarrow> butlast k' \<noteq> k" for k'
    using children_iff [OF assms(1), of "last k'"] assms(3)
    by (metis append_butlast_last_id empty_iff list.set(1) option.exhaust)
  have "map fst (fs_names (drop_name k fs)) = filter (\<lambda>j. j \<noteq> k) (map fst (fs_names fs))"
    by (simp add: drop_name_def filter_map comp_def)
  then have "distinct (map fst (fs_names (drop_name k fs)))"
    using distinct_filter [OF fs_okD(1) [OF assms(1)]] by simp
  then show ?thesis
    using assms child fs_okD(2-5) [OF assms(1)] unfolding fs_ok_def by auto
qed

lemma fs_nlink_drop_name:
  assumes "fs_ok fs"
  shows "fs_nlink (drop_name k fs) i = (if fs_ino fs k = Some i then fs_nlink fs i - 1 else fs_nlink fs i)"
proof -
  have "distinct (map fst xs) \<Longrightarrow>
      length (filter (\<lambda>e. snd e = i) (filter (\<lambda>e. fst e \<noteq> k) xs)) =
      (if map_of xs k = Some i then length (filter (\<lambda>e. snd e = i) xs) - 1 else length (filter (\<lambda>e. snd e = i) xs))"
    for xs :: "(string list \<times> nat) list"
  proof (induction xs)
    case (Cons e xs)
    show ?case
    proof (cases "fst e = k")
      case True
      with Cons.prems have "filter (\<lambda>e. fst e \<noteq> k) xs = xs" by (auto simp: filter_id_conv image_iff)
      with True show ?thesis by (cases e) auto
    next
      case False
      have "map_of xs k = Some i \<Longrightarrow> length (filter (\<lambda>e. snd e = i) xs) \<noteq> 0"
        using map_of_SomeD [of xs k i] by (force simp: filter_empty_conv)
      with Cons False show ?thesis by (cases e) auto
    qed
  qed simp
  from this [OF fs_okD(1) [OF assms]] show ?thesis by (simp add: fs_nlink_def drop_name_def fs_ino_def)
qed

lemma fs_nlink_pos: "fs_ino fs k = Some i \<Longrightarrow> 0 < fs_nlink fs i"
  by (auto simp: fs_nlink_def fs_ino_def dest!: map_of_SomeD) (metis (mono_tags, lifting) filter_empty_conv snd_conv)

text \<open>
  The bytes of the files that still have a name, each counted once for every name up to a threshold: with
  threshold 1 this is the space that files take.
\<close>

definition held :: "nat \<Rightarrow> file_system \<Rightarrow> nat" where
  "held threshold fs =
     (\<Sum>i < fs_next fs. if fs_data fs i = DDir then 0 else data_size (fs_data fs i) * min (fs_nlink fs i) threshold)"

lemma held_drop_name:
  assumes ok: "fs_ok fs" and k: "fs_ino fs k = Some i"
  shows "held th fs = held th (drop_name k fs) +
    (if fs_data fs i \<noteq> DDir \<and> fs_nlink fs i \<le> th then data_size (fs_data fs i) else 0)"
proof -
  define g where "g fs' j = (if fs_data fs j = DDir then 0 else data_size (fs_data fs j) * min (fs_nlink fs' j) th)"
    for fs' :: file_system and j
  have i: "i \<in> {..<fs_next fs}" using fs_okD(3) [OF ok k] by simp
  have other: "g (drop_name k fs) j = g fs j" if "j \<noteq> i" for j
    using that k by (simp add: g_def fs_nlink_drop_name [OF ok])
  have at_i: "g fs i = g (drop_name k fs) i +
      (if fs_data fs i \<noteq> DDir \<and> fs_nlink fs i \<le> th then data_size (fs_data fs i) else 0)"
    using fs_nlink_pos [OF k] k by (cases "fs_nlink fs i") (auto simp: g_def fs_nlink_drop_name [OF ok] min_def)
  have "sum (g fs) {..<fs_next fs} = g fs i + sum (g fs) ({..<fs_next fs} - {i})"
    "sum (g (drop_name k fs)) {..<fs_next fs} = g (drop_name k fs) i + sum (g (drop_name k fs)) ({..<fs_next fs} - {i})"
    using i by (simp_all add: sum.remove)
  moreover have "sum (g (drop_name k fs)) ({..<fs_next fs} - {i}) = sum (g fs) ({..<fs_next fs} - {i})"
    by (rule sum.cong) (auto simp: other)
  moreover have "held th fs = sum (g fs) {..<fs_next fs}" "held th (drop_name k fs) = sum (g (drop_name k fs)) {..<fs_next fs}"
    by (simp_all add: held_def g_def cong: if_cong)
  ultimately show ?thesis using at_i by simp
qed

text \<open>
  What deleting below a name may do: names below it disappear, permissions and times change only for directories
  there and for the containing directory.
\<close>

definition below :: "string list \<Rightarrow> file_system \<Rightarrow> nat \<Rightarrow> bool" where
  "below k fs i \<longleftrightarrow> fs_data fs i = DDir \<and> (\<exists>k'. prefix k k' \<and> fs_ino fs k' = Some i)"

definition same_process :: "file_system \<Rightarrow> file_system \<Rightarrow> bool" where
  "same_process fs t \<longleftrightarrow>
     fs_now t = fs_now fs \<and> fs_euid t = fs_euid fs \<and> fs_egid t = fs_egid fs \<and> fs_umask t = fs_umask fs \<and>
     fs_pid t = fs_pid fs \<and> fs_rand t = fs_rand fs \<and> fs_tempCounter t = fs_tempCounter fs \<and>
     (fs_faults fs = [] \<longrightarrow> fs_faults t = [])"

definition shrinks :: "string list \<Rightarrow> file_system \<Rightarrow> file_system \<Rightarrow> bool" where
  "shrinks k fs t \<longleftrightarrow>
     fs_ok t \<and> same_process fs t \<and>
     (\<forall>k'. fs_ino t k' = fs_ino fs k' \<or> prefix k k' \<and> fs_ino t k' = None) \<and>
     fs_data t = fs_data fs \<and> fs_uid t = fs_uid fs \<and> fs_gid t = fs_gid fs \<and> fs_next t = fs_next fs \<and>
     (\<forall>i. fs_perm t i = fs_perm fs i \<or> below k fs i) \<and>
     (\<forall>i. fs_mtime t i = fs_mtime fs i \<or> below k fs i \<or> fs_ino fs (butlast k) = Some i)"

lemma same_process_trans: "same_process a b \<Longrightarrow> same_process b c \<Longrightarrow> same_process a c"
  by (auto simp: same_process_def)

lemma same_process_simps [simp]:
  "same_process fs fs" "same_process fs (fs \<lparr> fs_faults := tl (fs_faults fs) \<rparr>)" "same_process fs (drop_name k fs)"
  by (simp_all add: same_process_def)

lemma shrinks_refl [simp]: "fs_ok fs \<Longrightarrow> shrinks k fs fs" "fs_ok fs \<Longrightarrow> shrinks k fs (fs \<lparr> fs_faults := tl (fs_faults fs) \<rparr>)"
  by (simp_all add: shrinks_def)

lemma shrinks_ino: "shrinks k fs t \<Longrightarrow> fs_ino t k' = Some i \<Longrightarrow> fs_ino fs k' = Some i"
  unfolding shrinks_def by (metis option.distinct(1))

lemma shrinks_at: "shrinks k fs t \<Longrightarrow> \<not> prefix k k' \<Longrightarrow> fs_ino t k' = fs_ino fs k' \<and> fs_at t k' = fs_at fs k'"
  unfolding shrinks_def fs_at_def by metis

lemma shrinks_below: "shrinks k fs t \<Longrightarrow> below j t i \<Longrightarrow> below j fs i"
  unfolding below_def using shrinks_ino [of k fs t] by (metis shrinks_def)

lemma shrinks_trans:
  assumes ab: "shrinks k a b" and bc: "shrinks k b c"
  shows "shrinks k a c"
proof -
  have "\<forall>k'. fs_ino c k' = fs_ino a k' \<or> prefix k k' \<and> fs_ino c k' = None"
    using ab bc unfolding shrinks_def by metis
  moreover have "\<forall>i. fs_perm c i = fs_perm a i \<or> below k a i"
    using ab bc shrinks_below [OF ab] unfolding shrinks_def by metis
  moreover have "\<forall>i. fs_mtime c i = fs_mtime a i \<or> below k a i \<or> fs_ino a (butlast k) = Some i"
    using ab bc shrinks_below [OF ab] shrinks_ino [OF ab] unfolding shrinks_def by metis
  moreover have "same_process a c" "fs_ok c" "fs_data c = fs_data a" "fs_uid c = fs_uid a" "fs_gid c = fs_gid a" "fs_next c = fs_next a"
    using ab bc same_process_trans unfolding shrinks_def by auto
  ultimately show ?thesis unfolding shrinks_def by blast
qed

lemma shrinks_child:
  assumes "shrinks (k @ [name]) fs t" "fs_at fs k = Some DDir"
  shows "shrinks k fs t"
proof -
  have p: "prefix (k @ [name]) k' \<Longrightarrow> prefix k k'" for k' by (auto simp: prefix_def)
  have "below (k @ [name]) fs i \<Longrightarrow> below k fs i" for i using p unfolding below_def by blast
  moreover have "fs_ino fs k = Some i \<Longrightarrow> below k fs i" for i using assms(2) unfolding below_def by (auto simp: fs_at_def)
  ultimately show ?thesis using assms(1) p unfolding shrinks_def butlast_snoc by metis
qed

text \<open>Removing the name itself, once it is no longer a directory with entries.\<close>

lemma shrinks_drop_name:
  assumes "fs_ok fs" "k \<noteq> []" "children k fs = []" "fs_ino fs k = Some i"
  shows "shrinks k fs (drop_name k fs)"
proof -
  have "fs_mtime (drop_name k fs) j = fs_mtime fs j \<or> fs_ino fs (butlast k) = Some j" for j
  proof -
    define u where "u = fs \<lparr> fs_names := filter (\<lambda>e. fst e \<noteq> k) (fs_names fs) \<rparr>"
    have "fs_mtime u = fs_mtime fs" by (simp add: u_def)
    moreover have "fs_ino u (butlast k) = Some j \<Longrightarrow> fs_ino fs (butlast k) = Some j"
      using map_of_filter_key [of "\<lambda>j. j \<noteq> k" "fs_names fs"] by (auto simp: u_def fs_ino_def split: if_splits)
    ultimately show ?thesis by (auto simp: drop_name_def touch_mtime u_def [symmetric])
  qed
  then show ?thesis using assms fs_ok_drop_name [OF assms(1-3)] unfolding shrinks_def by auto
qed

lemma children_nondir:
  assumes "fs_ok fs" "fs_ino fs k = Some i" "fs_data fs i \<noteq> DDir"
  shows "children k fs = []"
proof (rule ccontr)
  assume "children k fs \<noteq> []"
  then obtain name j where "(name, j) \<in> set (children k fs)" by (metis list.set_intros(1) neq_Nil_conv surj_pair)
  then have "fs_ino fs (k @ [name]) = Some j" using children_iff [OF assms(1)] by blast
  from fs_okD(4) [OF assms(1) this] show False using assms(2,3) by (simp add: fs_at_def)
qed

lemma lookup_ino_plain:
  assumes "fs_ok fs" "plain_path fs p k"
  shows "lookup_ino False p fs = (case fs_ino fs k of None \<Rightarrow> Inl ENOENT | Some i \<Rightarrow> Inr (k, i))"
  using plain_path_lookup [OF assms] by (simp add: lookup_ino_def ebind_def)

lemma lookup_ino_plain_dir:
  assumes "fs_ok fs" "plain_path fs p k" "fs_ino fs k = Some i" "fs_data fs i = DDir"
  shows "lookup_ino True p fs = Inr (k, i)"
proof -
  have "fs_at fs k \<noteq> Some (DLnk t)" for t using assms(3,4) by (simp add: fs_at_def)
  from plain_path_follow [OF assms(1,2) this] show ?thesis using assms(3) by (simp add: lookup_ino_def ebind_def)
qed

lemma plain_path_faults [simp]: "plain_path (fs \<lparr> fs_faults := f \<rparr>) = plain_path fs"
  by (simp add: plain_path_def fun_eq_iff)

text \<open>The system calls of the deletion, on a plain path.\<close>

lemma lstat_plain:
  assumes "fs_ok fs" "plain_path fs p k" "lstat p fs = (r, t)"
  shows "t = fs \<lparr> fs_faults := tl (fs_faults fs) \<rparr>"
    "r = Inr st \<Longrightarrow> \<exists>i. fs_ino fs k = Some i \<and> st = stat_of t i"
    "fs_faults fs = [] \<Longrightarrow> fs_ino fs k \<noteq> None \<Longrightarrow> \<exists>st. r = Inr st"
    "r \<noteq> Inl OutOfFuel"
proof -
  obtain r' where s: "sys_lstat p fs = (r', t)"
    and r: "r = (case r' of Inl e \<Rightarrow> Inl e | Inr (Inl e) \<Rightarrow> Inl (Throw (SysError e) ''getting status'') | Inr (Inr x) \<Rightarrow> Inr x)"
    using assms(3) by (auto simp: lstat_def or_throw_def abind_def action_run split: prod.splits sum.splits)
  note un = lookup_ino_plain [OF assms(1,2)]
  from s [unfolded sys_stat_def] show "t = fs \<lparr> fs_faults := tl (fs_faults fs) \<rparr>"
    "r = Inr st \<Longrightarrow> \<exists>i. fs_ino fs k = Some i \<and> st = stat_of t i"
    "fs_faults fs = [] \<Longrightarrow> fs_ino fs k \<noteq> None \<Longrightarrow> \<exists>st. r = Inr st" "r \<noteq> Inl OutOfFuel"
    by (cases rule: sys_cases; auto simp: r un ebind_def split: option.splits)+
qed

lemma or_throw_sys:
  assumes "or_throw what (sys call) fs = (r, t)"
  obtains (failed) e where "r = Inl (Throw (SysError e) what)" "t = fs \<lparr> fs_faults := tl (fs_faults fs) \<rparr>"
      "fs_faults fs = [] \<or> e \<in> set structural \<Longrightarrow> call (fs \<lparr> fs_faults := tl (fs_faults fs) \<rparr>) = Inl e"
  | (good) x where "r = Inr x" "call (fs \<lparr> fs_faults := tl (fs_faults fs) \<rparr>) = Inr (x, t)"
proof -
  obtain r' where s: "sys call fs = (r', t)"
    and r: "r = (case r' of Inl e \<Rightarrow> Inl e | Inr (Inl e) \<Rightarrow> Inl (Throw (SysError e) what) | Inr (Inr x) \<Rightarrow> Inr x)"
    using assms by (auto simp: or_throw_def abind_def action_run split: prod.splits sum.splits)
  from s show ?thesis by (cases rule: sys_cases) (use r failed good in auto)
qed

text \<open>What the deletion of one name achieves.\<close>

definition deletes ::
  "nat \<Rightarrow> string list \<Rightarrow> (string list \<Rightarrow> bool) \<Rightarrow> 64 word \<Rightarrow> file_system \<Rightarrow> 64 word result \<times> file_system \<Rightarrow> bool" where
  "deletes th k gone bf fs res \<longleftrightarrow>
     (case res of (r, t) \<Rightarrow>
        shrinks k fs t \<and> r \<noteq> Inl OutOfFuel \<and>
        (\<forall>b. r = Inr b \<longrightarrow>
           (\<forall>k'. gone k' \<longrightarrow> fs_ino t k' = None) \<and>
           b + word_of_nat (held th t) = bf + word_of_nat (held th fs)) \<and>
        (fs_faults fs = [] \<longrightarrow> (\<exists>b. r = Inr b)))"

lemma held_faults [simp]: "held th (fs \<lparr> fs_faults := f \<rparr>) = held th fs"
  by (simp add: held_def cong: if_cong)

lemma held_perm [simp]: "held th (fs \<lparr> fs_perm := q \<rparr>) = held th fs"
  by (simp add: held_def fs_nlink_def cong: if_cong)

lemma delete_entries:
  assumes IH: "\<And>p k fs bf. fs_ok fs \<Longrightarrow> plain_path fs p k \<Longrightarrow> fs_ino fs k \<noteq> None \<Longrightarrow>
      \<forall>k'. fs_ino fs k' \<noteq> None \<longrightarrow> length k' < fuel + length k \<Longrightarrow>
      deletes th k (prefix k) bf fs (deletePath_rec fuel th p bf fs)"
    and "path_components p = k"
  shows "fs_ok fs \<Longrightarrow> fs_at fs k = Some DDir \<Longrightarrow> distinct (map fst es) \<Longrightarrow>
      \<forall>e \<in> set es. fs_ino fs (k @ [fst e]) \<noteq> None \<Longrightarrow>
      \<forall>k'. fs_ino fs k' \<noteq> None \<longrightarrow> length k' < Suc fuel + length k \<Longrightarrow>
    deletes th k (\<lambda>k'. \<exists>e \<in> set es. prefix (k @ [fst e]) k') bf fs
      (afold (\<lambda>(name, _). deletePath_rec fuel th (p @ ''/'' @ name)) es bf fs) \<and>
    fs_ino (snd (afold (\<lambda>(name, _). deletePath_rec fuel th (p @ ''/'' @ name)) es bf fs)) k = fs_ino fs k"
proof (induction es arbitrary: fs bf)
  case Nil
  then show ?case by (simp add: deletes_def action_run)
next
  case (Cons e es)
  let ?q = "p @ ''/'' @ fst e"
  have known: "fs_ino fs (k @ [fst e]) \<noteq> None" using Cons.prems(4) by simp
  then have "canonical_component (fst e)" using fs_okD(4) [OF Cons.prems(1), of "k @ [fst e]"] by auto
  then have plain: "plain_path fs ?q (k @ [fst e])" using plain_path_child assms(2) Cons.prems(2) by blast
  obtain r t where run: "deletePath_rec fuel th ?q bf fs = (r, t)" by fastforce
  have del: "deletes th (k @ [fst e]) (prefix (k @ [fst e])) bf fs (r, t)"
    using IH [OF Cons.prems(1) plain known, of bf] Cons.prems(5) unfolding run by simp
  have sh: "shrinks (k @ [fst e]) fs t" using del by (simp add: deletes_def)
  have k: "fs_ino t k = fs_ino fs k" "fs_at t k = Some DDir"
    using shrinks_at [OF sh, of k] Cons.prems(2) by (auto simp: prefix_def)
  show ?case
  proof (cases r)
    case (Inl er)
    then have "afold (\<lambda>(name, _). deletePath_rec fuel th (p @ ''/'' @ name)) (e # es) bf fs = (Inl er, t)"
      using run by (cases e) (simp add: abind_def)
    then show ?thesis using del Inl shrinks_child [OF sh Cons.prems(2)] k by (simp add: deletes_def)
  next
    case (Inr b)
    let ?rest = "afold (\<lambda>(name, _). deletePath_rec fuel th (p @ ''/'' @ name)) es b t"
    have eq: "afold (\<lambda>(name, _). deletePath_rec fuel th (p @ ''/'' @ name)) (e # es) bf fs = ?rest"
      using run Inr by (cases e) (simp add: abind_def)
    have later: "\<forall>e' \<in> set es. fs_ino t (k @ [fst e']) \<noteq> None"
    proof
      fix e' assume "e' \<in> set es"
      then have "fst e' \<noteq> fst e" using Cons.prems(3) by (metis distinct.simps(2) image_eqI image_set list.simps(9))
      then have "\<not> prefix (k @ [fst e]) (k @ [fst e'])" by simp
      then show "fs_ino t (k @ [fst e']) \<noteq> None"
        using shrinks_at [OF sh] Cons.prems(4) \<open>e' \<in> set es\<close> by simp
    qed
    have "fs_ok t" using sh by (simp add: shrinks_def)
    moreover have "\<forall>k'. fs_ino t k' \<noteq> None \<longrightarrow> length k' < Suc fuel + length k"
      using Cons.prems(5) shrinks_ino [OF sh] by (metis not_None_eq)
    ultimately have rest: "deletes th k (\<lambda>k'. \<exists>e \<in> set es. prefix (k @ [fst e]) k') b t ?rest" "fs_ino (snd ?rest) k = fs_ino t k"
      using Cons.IH [of t b] k(2) later Cons.prems(3) by simp_all
    obtain r2 u where ru: "?rest = (r2, u)" by fastforce
    have tu: "shrinks k t u" using rest(1) ru by (simp add: deletes_def)
    have "shrinks k fs u" using shrinks_trans [OF shrinks_child [OF sh Cons.prems(2)] tu] .
    moreover have "fs_ino u k' = None" if "prefix (k @ [fst e]) k'" for k'
    proof -
      have "fs_ino t k' = None" using del Inr that by (simp add: deletes_def)
      then show ?thesis using shrinks_ino [OF tu, of k'] by (cases "fs_ino u k'") simp_all
    qed
    moreover have "fs_faults fs = [] \<longrightarrow> fs_faults t = []" using sh by (simp add: shrinks_def same_process_def)
    ultimately show ?thesis
      using rest del Inr k(1) unfolding eq ru deletes_def by simp
  qed
qed

lemma chmod_step:
  assumes "fs_ok fs" "plain_path fs p k" "fs_at fs k = Some DDir" "or_throw w (sys_chmod p m) fs = (r, t)"
  shows "shrinks k fs t \<and> fs_ino t = fs_ino fs \<and> held th t = held th fs \<and> r \<noteq> Inl OutOfFuel \<and> (fs_faults fs = [] \<longrightarrow> r = Inr ())"
  using assms(4) unfolding sys_chmod_def
proof (cases rule: or_throw_sys)
  case (failed e)
  obtain i where "fs_ino fs k = Some i" "fs_data fs i = DDir" using assms(3) by (auto simp: fs_at_def)
  then show ?thesis using failed assms(1) lookup_ino_plain_dir [OF assms(1,2)] by (auto simp: ebind_def)
next
  case (good x)
  obtain i where i: "fs_ino fs k = Some i" "fs_data fs i = DDir" using assms(3) by (auto simp: fs_at_def)
  then have t: "t = fs \<lparr> fs_faults := tl (fs_faults fs), fs_perm := (fs_perm fs)(i := m) \<rparr>"
    using good lookup_ino_plain_dir [OF assms(1,2) i] by (auto simp: ebind_def)
  have ino: "fs_ino t = fs_ino fs" by (simp add: t fs_ino_def fun_eq_iff)
  then have "fs_ok t" using assms(1) by (simp add: fs_ok_def fs_at_def t)
  moreover have "below k fs i" using i unfolding below_def by blast
  ultimately show ?thesis using good ino by (simp add: shrinks_def same_process_def t)
qed

lemma remove_step:
  assumes "fs_ok fs" "plain_path fs p k" "fs_ino fs k = Some i" "dir \<longleftrightarrow> fs_data fs i = DDir" "children k fs = []"
    and "or_throw w (if dir then sys_rmdir p else sys_unlink p) fs = (r, t)"
  shows "r \<noteq> Inl OutOfFuel" "shrinks k fs t" "fs_faults fs = [] \<Longrightarrow> r = Inr ()"
    "r = Inr x \<Longrightarrow> t = drop_name k (fs \<lparr> fs_faults := tl (fs_faults fs) \<rparr>)"
proof -
  let ?f = "fs \<lparr> fs_faults := tl (fs_faults fs) \<rparr>"
  have k: "k \<noteq> []" using assms(2) by (simp add: plain_path_def)
  define call where "call = (\<lambda>fs. ebind (lookup_ino False p fs) (\<lambda>(k, i).
      if dir then if fs_data fs i \<noteq> DDir then Inl ENOTDIR else if k = [] then Inl EBUSY
        else if children k fs \<noteq> [] then Inl ENOTEMPTY else Inr ((), drop_name k fs)
      else if fs_data fs i = DDir then Inl EISDIR else Inr ((), drop_name k fs)))"
  have run: "or_throw w (sys call) fs = (r, t)"
    using assms(6) by (cases dir) (simp_all add: sys_rmdir_def sys_unlink_def call_def cong: if_cong)
  have c: "call ?f = Inr ((), drop_name k ?f)"
    using lookup_ino_plain [OF assms(1,2)] assms(3-5) k by (simp add: call_def ebind_def)
  have sh: "shrinks k fs (drop_name k ?f)"
    using shrinks_drop_name [of ?f k i] assms(1,3,5) k shrinks_trans [OF shrinks_refl(2) [OF assms(1)]] by simp
  from run show "r \<noteq> Inl OutOfFuel" "shrinks k fs t" "fs_faults fs = [] \<Longrightarrow> r = Inr ()"
    "r = Inr x \<Longrightarrow> t = drop_name k ?f"
    by (cases rule: or_throw_sys; use c sh assms(1) in simp)+
qed

lemma readDirectory_step:
  assumes "fs_ok fs" "plain_path fs p k" "fs_at fs k = Some DDir" "readDirectory p fs = (r, t)"
  shows "t = fs \<lparr> fs_faults := tl (fs_faults fs) \<rparr>" "r \<noteq> Inl OutOfFuel" "fs_faults fs = [] \<Longrightarrow> \<exists>es. r = Inr es"
    "r = Inr es \<Longrightarrow> es = map (\<lambda>(name, j). (name, j, fs_data fs j)) (children k fs)"
proof -
  obtain i where i: "fs_ino fs k = Some i" "fs_data fs i = DDir" using assms(3) by (auto simp: fs_at_def)
  note un = lookup_ino_plain_dir [OF assms(1,2) i]
  have es: "concat (map (\<lambda>(name, j). [(name, j, fs_data fs j)]) xs) = map (\<lambda>(name, j). (name, j, fs_data fs j)) xs"
    for xs :: "(string \<times> nat) list" by (induction xs) auto
  from assms(4) [unfolded readDirectory_def sys_readdir_def]
  show "t = fs \<lparr> fs_faults := tl (fs_faults fs) \<rparr>" "r \<noteq> Inl OutOfFuel" "fs_faults fs = [] \<Longrightarrow> \<exists>es. r = Inr es"
    "r = Inr es \<Longrightarrow> es = map (\<lambda>(name, j). (name, j, fs_data fs j)) (children k fs)"
    by (cases rule: or_throw_sys; use un i es in \<open>auto simp: ebind_def\<close>)+
qed

text \<open>The entries of a directory, removed one after the other after it has been made writable.\<close>

lemma delete_directory:
  fixes fuel th :: nat and p :: Path
  assumes IH: "\<And>p k fs bf. fs_ok fs \<Longrightarrow> plain_path fs p k \<Longrightarrow> fs_ino fs k \<noteq> None \<Longrightarrow>
      \<forall>k'. fs_ino fs k' \<noteq> None \<longrightarrow> length k' < fuel + length k \<Longrightarrow>
      deletes th k (prefix k) bf fs (deletePath_rec fuel th p bf fs)"
    and ok: "fs_ok fs" and plain: "plain_path fs p k" and dir: "fs_at fs k = Some DDir"
    and depth: "\<forall>k'. fs_ino fs k' \<noteq> None \<longrightarrow> length k' < Suc fuel + length k"
    and run: "abind (if c then or_throw w (sys_chmod p m) else areturn ()) (\<lambda>_.
             abind (readDirectory p) (\<lambda>entries.
             afold (\<lambda>(name, _). deletePath_rec fuel th (p @ ''/'' @ name)) entries bf)) fs = (r, t)"
  shows "deletes th k (\<lambda>k'. strict_prefix k k') bf fs (r, t)" "fs_ino t k = fs_ino fs k"
proof -
  obtain r1 s where s: "(if c then or_throw w (sys_chmod p m) else areturn ()) fs = (r1, s)" by fastforce
  have s_ok: "shrinks k fs s" "fs_ino s = fs_ino fs" "held th s = held th fs" "r1 \<noteq> Inl OutOfFuel"
    "fs_faults fs = [] \<longrightarrow> r1 = Inr ()"
    using chmod_step [OF ok plain dir, of w m r1 s th] s ok by (auto simp: action_run split: if_splits)
  have sok: "fs_ok s" and sdata: "fs_data s = fs_data fs" and sf: "fs_faults fs = [] \<longrightarrow> fs_faults s = []"
    using s_ok(1) by (simp_all add: shrinks_def same_process_def)
  have sdir: "fs_at s k = Some DDir" using dir s_ok(2) sdata by (simp add: fs_at_def)
  have splain: "plain_path s p k" using plain s_ok(2) sdata by (simp add: plain_path_def fs_at_def)
  obtain r2 u where u: "readDirectory p s = (r2, u)" by fastforce
  note rd = readDirectory_step [OF sok splain sdir u]
  have u_ok: "fs_ok u" "shrinks k fs u" "fs_ino u = fs_ino fs" "fs_at u k = Some DDir" "held th u = held th fs"
    using rd(1) sok shrinks_trans [OF s_ok(1) shrinks_refl(2) [OF sok]] s_ok(2,3) sdir by simp_all
  show "deletes th k (\<lambda>k'. strict_prefix k k') bf fs (r, t)" "fs_ino t k = fs_ino fs k"
  proof -
    consider (chmod) e where "r1 = Inl e" | (read) e where "r1 = Inr ()" "r2 = Inl e"
      | (loop) es where "r1 = Inr ()" "r2 = Inr es" by (cases r1; cases r2) auto
    then have "deletes th k (\<lambda>k'. strict_prefix k k') bf fs (r, t) \<and> fs_ino t k = fs_ino fs k"
    proof cases
      case chmod
      then have "(r, t) = (Inl e, s)" using run s by (simp add: abind_def)
      then show ?thesis using s_ok chmod by (auto simp: deletes_def)
    next
      case read
      then have "(r, t) = (Inl e, u)" using run s u by (simp add: abind_def)
      then show ?thesis using u_ok rd read sf by (auto simp: deletes_def)
    next
      case loop
      let ?loop = "afold (\<lambda>(name, _). deletePath_rec fuel th (p @ ''/'' @ name)) es bf u"
      have rt: "?loop = (r, t)" using run s u loop by (simp add: abind_def)
      have es: "es = map (\<lambda>(name, j). (name, j, fs_data s j)) (children k s)" using rd(4) loop(2) by blast
      have fst_es: "map fst es = map fst (children k s)" by (simp add: es case_prod_unfold comp_def)
      have dist: "distinct (map fst es)" unfolding fst_es by (rule children_distinct [OF sok])
      have child: "n \<in> set (map fst es) \<longleftrightarrow> fs_ino fs (k @ [n]) \<noteq> None" for n
        using children_iff [OF sok, of n _ k] unfolding fst_es s_ok(2) by force
      have known: "\<forall>e \<in> set es. fs_ino u (k @ [fst e]) \<noteq> None" using child u_ok(3) by auto
      have pc: "path_components p = k" using plain by (simp add: plain_path_def)
      have depth_u: "\<forall>k'. fs_ino u k' \<noteq> None \<longrightarrow> length k' < Suc fuel + length k" using depth u_ok(3) by simp
      have both: "deletes th k (\<lambda>k'. \<exists>e \<in> set es. prefix (k @ [fst e]) k') bf u ?loop \<and> fs_ino (snd ?loop) k = fs_ino u k"
        by (rule delete_entries [OF IH pc u_ok(1,4) dist known depth_u])
      have d: "deletes th k (\<lambda>k'. \<exists>e \<in> set es. prefix (k @ [fst e]) k') bf u (r, t)" "fs_ino t k = fs_ino u k"
        using both unfolding rt snd_conv by blast+
      have sh: "shrinks k fs t" using d(1) shrinks_trans [OF u_ok(2)] by (simp add: deletes_def)
      have gone: "fs_ino t k' = None" if rb: "r = Inr b" and sp: "strict_prefix k k'" for k' b
      proof (rule ccontr)
        assume ex: "fs_ino t k' \<noteq> None"
        obtain n q where k': "k' = k @ n # q" using sp by (rule strict_prefixE')
        have "fs_ino fs (k @ n # q) \<noteq> None" using ex shrinks_ino [OF sh] k' by (metis not_None_eq)
        then have "fs_ino fs (k @ [n]) \<noteq> None"
          using name_prefix [OF ok, of "k @ [n]" q] by (cases q) (auto simp: fs_at_def)
        then obtain e where "e \<in> set es" "fst e = n" using child by (metis image_iff image_set)
        moreover have "prefix (k @ [n]) k'" by (simp add: k')
        ultimately show False using d(1) rb ex by (auto simp: deletes_def)
      qed
      have uf: "fs_faults fs = [] \<longrightarrow> fs_faults u = []" using u_ok(2) by (simp add: shrinks_def same_process_def)
      show ?thesis using d sh gone uf u_ok(3,5) by (auto simp: deletes_def)
    qed
    then show "deletes th k (\<lambda>k'. strict_prefix k k') bf fs (r, t)" "fs_ino t k = fs_ino fs k" by blast+
  qed
qed

lemma deletePath_rec_spec:
  "fs_ok fs \<Longrightarrow> plain_path fs p k \<Longrightarrow> fs_ino fs k \<noteq> None \<Longrightarrow>
     \<forall>k'. fs_ino fs k' \<noteq> None \<longrightarrow> length k' < fuel + length k \<Longrightarrow>
   deletes th k (prefix k) bf fs (deletePath_rec fuel th p bf fs)"
proof (induction fuel arbitrary: p k fs bf)
  case 0
  then show ?case by fastforce
next
  case (Suc fuel)
  note ok = Suc.prems(1) and plain = Suc.prems(2)
  obtain r0 s where s: "lstat p fs = (r0, s)" by fastforce
  note ls = lstat_plain [OF ok plain s]
  have s_ok: "fs_ok s" "shrinks k fs s" "fs_ino s = fs_ino fs" "fs_at s = fs_at fs" "held th s = held th fs"
    "fs_data s = fs_data fs" "plain_path s p k" "fs_nlink s = fs_nlink fs"
    using ls(1) ok plain by simp_all
  show ?case
  proof (cases r0)
    case (Inl e)
    then have "deletePath_rec (Suc fuel) th p bf fs = (Inl e, s)" using s by (simp add: abind_def)
    then show ?thesis using ls Inl s_ok Suc.prems(3) by (auto simp: deletes_def)
  next
    case (Inr st)
    obtain i where i: "fs_ino fs k = Some i" and st: "st = stat_of s i" using ls(2) Inr by blast
    define dir where "dir \<longleftrightarrow> st_data st = DDir"
    have dir: "dir \<longleftrightarrow> fs_data fs i = DDir" by (simp add: dir_def st stat_of_def s_ok)
    define bf' where "bf' = (if \<not> dir \<and> fs_nlink fs i \<le> th then bf + word_of_nat (data_size (fs_data fs i)) else bf)"
    define inner where "inner = (if dir then
             abind (if st_perm st AND S_IWUSR = 0 then
                      or_throw ''making writable'' (sys_chmod p (st_perm st OR S_IWUSR))
                    else areturn ()) (\<lambda>_.
             abind (readDirectory p) (\<lambda>entries.
             afold (\<lambda>(name, _). deletePath_rec fuel th (p @ ''/'' @ name)) entries bf'))
           else areturn bf')"
    have run: "deletePath_rec (Suc fuel) th p bf fs =
        abind inner (\<lambda>b. abind (or_throw ''cannot unlink'' (if dir then sys_rmdir p else sys_unlink p)) (\<lambda>_. areturn b)) s"
      using s Inr by (simp add: abind_def inner_def bf'_def dir_def st stat_of_def s_ok Let_def cong: if_cong)
    obtain r1 u where u: "inner s = (r1, u)" by fastforce
    have d: "deletes th k (\<lambda>k'. strict_prefix k k') bf' s (r1, u) \<and> fs_ino u k = fs_ino s k"
    proof (cases dir)
      case True
      then have "fs_at s k = Some DDir" using i dir s_ok by (simp add: fs_at_def)
      moreover have "\<forall>k'. fs_ino s k' \<noteq> None \<longrightarrow> length k' < Suc fuel + length k" using Suc.prems(4) s_ok(3) by simp
      ultimately show ?thesis
        using delete_directory [OF Suc.IH s_ok(1,7) _ _ u [unfolded inner_def if_P [OF True]]] by blast
    next
      case False
      have "fs_ino s k' = None" if "strict_prefix k k'" for k'
      proof (rule ccontr)
        assume "fs_ino s k' \<noteq> None"
        moreover obtain n q where "k' = k @ n # q" using \<open>strict_prefix k k'\<close> by (rule strict_prefixE')
        ultimately have "fs_at fs k = Some DDir" using name_prefix [OF ok, of k "n # q"] s_ok(3) by simp
        then show False using False dir i by (simp add: fs_at_def)
      qed
      then show ?thesis using u False s_ok by (auto simp: inner_def action_run deletes_def)
    qed
    have su: "shrinks k s u" using d by (simp add: deletes_def)
    have "fs_ok u" "fs_data u = fs_data s" using su unfolding shrinks_def by blast+
    then have u_ok: "fs_ok u" "fs_data u = fs_data fs" "shrinks k fs u" "fs_ino u k = Some i"
      using shrinks_trans [OF s_ok(2) su] d i s_ok(3,6) by simp_all
    show ?thesis
    proof (cases r1)
      case (Inl e)
      then have "deletePath_rec (Suc fuel) th p bf fs = (Inl e, u)" unfolding run using u by (simp add: abind_def)
      then show ?thesis using d Inl u_ok(3) ls(1) by (auto simp: deletes_def)
    next
      case (Inr b)
      have gone: "fs_ino u k' = None" if "strict_prefix k k'" for k' using d Inr that by (simp add: deletes_def)
      have ch: "children k u = []"
      proof (rule ccontr)
        assume "children k u \<noteq> []"
        then obtain n j where "(n, j) \<in> set (children k u)" by (metis list.set_intros(1) neq_Nil_conv surj_pair)
        then have "fs_ino u (k @ [n]) = Some j" using children_iff [OF u_ok(1)] by blast
        moreover have "strict_prefix k (k @ [n])" by (simp add: strict_prefix_def)
        ultimately show False using gone by simp
      qed
      have "\<not> prefix k (butlast k)" using plain prefix_length_le [of k "butlast k"] by (cases k) (auto simp: plain_path_def)
      then have uplain: "plain_path u p k" using plain shrinks_at [OF u_ok(3)] by (simp add: plain_path_def)
      obtain r2 t where t: "or_throw ''cannot unlink'' (if dir then sys_rmdir p else sys_unlink p) u = (r2, t)" by fastforce
      have du: "dir \<longleftrightarrow> fs_data u i = DDir" using dir u_ok(2) by simp
      note rm = remove_step [OF u_ok(1) uplain u_ok(4) du ch t]
      have sh: "shrinks k fs t" using shrinks_trans [OF u_ok(3) rm(2)] .
      have uf: "fs_faults fs = [] \<longrightarrow> fs_faults u = []" using u_ok(3) by (simp add: shrinks_def same_process_def)
      have res: "deletePath_rec (Suc fuel) th p bf fs = (case r2 of Inl e \<Rightarrow> (Inl e, t) | Inr _ \<Rightarrow> (Inr b, t))"
        unfolding run using u Inr t by (simp add: abind_def action_run split: sum.split)
      show ?thesis
      proof (cases r2)
        case (Inl e)
        then show ?thesis unfolding res using sh rm uf by (auto simp: deletes_def)
      next
        case (Inr x)
        have t_eq: "t = drop_name k (u \<lparr> fs_faults := tl (fs_faults u) \<rparr>)" using rm(4) Inr by blast
        have "held th u = held th t +
            (if fs_data u i \<noteq> DDir \<and> fs_nlink u i \<le> th then data_size (fs_data u i) else 0)"
          using held_drop_name [of "u \<lparr> fs_faults := tl (fs_faults u) \<rparr>" k i th] u_ok by (simp add: t_eq)
        moreover have "b + word_of_nat (held th u) = bf' + word_of_nat (held th s)"
          using d \<open>r1 = Inr b\<close> by (simp add: deletes_def)
        moreover have "\<not> dir \<Longrightarrow> u = s \<and> b = bf'" using u \<open>r1 = Inr b\<close> by (simp add: inner_def action_run)
        ultimately have bytes: "b + word_of_nat (held th t) = bf + word_of_nat (held th fs)"
          using dir s_ok u_ok(2) by (cases dir) (auto simp: bf'_def add.assoc split: if_splits)
        have "fs_ino t k' = None" if "prefix k k'" for k'
          using gone [of k'] that by (cases "k' = k") (simp_all add: t_eq strict_prefix_def)
        then show ?thesis unfolding res using Inr sh bytes by (simp add: deletes_def)
      qed
    qed
  qed
qed

lemma fs_depth_bound:
  assumes "fs_ino fs k \<noteq> None"
  shows "length k \<le> fs_depth fs"
proof -
  have "n \<le> fold (max \<circ> length \<circ> fst) xs n" for xs :: "(string list \<times> nat) list" and n
    by (induction xs arbitrary: n) (auto intro: order_trans [OF max.cobounded2])
  then have "e \<in> set xs \<Longrightarrow> length (fst e) \<le> fold (max \<circ> length \<circ> fst) xs n" for e and xs :: "(string list \<times> nat) list" and n
    by (induction xs arbitrary: n) (auto intro: order_trans [OF max.cobounded1])
  moreover obtain i where "(k, i) \<in> set (fs_names fs)" using assms by (auto simp: fs_ino_def dest: map_of_SomeD)
  ultimately show ?thesis unfolding fs_depth_def by fastforce
qed

lemma deletePath_spec:
  assumes "fs_ok fs" "plain_path fs p k"
  shows "shrinks k fs (snd (deletePath p th fs))" "fst (deletePath p th fs) \<noteq> Inl OutOfFuel"
    "fst (deletePath p th fs) = Inr b \<Longrightarrow> prefix k k' \<Longrightarrow> fs_ino (snd (deletePath p th fs)) k' = None"
    "fst (deletePath p th fs) = Inr b \<Longrightarrow>
       b + word_of_nat (held th (snd (deletePath p th fs))) = word_of_nat (held th fs)"
    "fs_faults fs = [] \<Longrightarrow> fs_ino fs k \<noteq> None \<Longrightarrow> \<exists>b. fst (deletePath p th fs) = Inr b"
proof -
  have run: "deletePath p th fs = deletePath_rec (Suc (fs_depth fs)) th p 0 fs" by (simp add: deletePath_def)
  have "deletes th k (\<lambda>k'. prefix k k' ) 0 fs (deletePath p th fs)" if "fs_ino fs k \<noteq> None"
  proof -
    have "\<forall>k'. fs_ino fs k' \<noteq> None \<longrightarrow> length k' < Suc (fs_depth fs) + length k"
      using fs_depth_bound [of fs] by fastforce
    then show ?thesis unfolding run by (rule deletePath_rec_spec [OF assms that])
  qed
  moreover have "\<exists>e. deletePath p th fs = (Inl e, fs \<lparr> fs_faults := tl (fs_faults fs) \<rparr>) \<and> e \<noteq> OutOfFuel" if absent: "fs_ino fs k = None"
  proof -
    obtain r s where s: "lstat p fs = (r, s)" by fastforce
    note ls = lstat_plain [OF assms s]
    obtain e where "r = Inl e" using ls(2) absent by (cases r) auto
    then show ?thesis using s ls unfolding run by (simp add: abind_def)
  qed
  ultimately show "shrinks k fs (snd (deletePath p th fs))" "fst (deletePath p th fs) \<noteq> Inl OutOfFuel"
    "fst (deletePath p th fs) = Inr b \<Longrightarrow> prefix k k' \<Longrightarrow> fs_ino (snd (deletePath p th fs)) k' = None"
    "fst (deletePath p th fs) = Inr b \<Longrightarrow>
       b + word_of_nat (held th (snd (deletePath p th fs))) = word_of_nat (held th fs)"
    "fs_faults fs = [] \<Longrightarrow> fs_ino fs k \<noteq> None \<Longrightarrow> \<exists>b. fst (deletePath p th fs) = Inr b"
    using assms(1) by (cases "fs_ino fs k"; force simp: deletes_def)+
qed

text \<open>
  C9: Deleting a tree.  Whatever system calls fail, only names below the path disappear, file contents and
  owners stay, and permissions change only for directories below it.  When it succeeds nothing is left
  below the path and, with the threshold 1, the number returned is exactly the space that was freed, hard
  links included.  When no system call fails and the path exists, it succeeds.
\<close>

theorem deletePath_exact:
  assumes "fs_ok fs" "plain_path fs p k" "deletePath p th fs = (r, t)"
  shows "fs_ok t \<and>
    (\<forall>k'. fs_ino t k' = fs_ino fs k' \<or> prefix k k' \<and> fs_ino t k' = None) \<and>
    fs_data t = fs_data fs \<and> fs_uid t = fs_uid fs \<and> fs_gid t = fs_gid fs \<and>
    (\<forall>i. fs_perm t i = fs_perm fs i \<or> below k fs i) \<and>
    (\<forall>b. r = Inr b \<longrightarrow> (\<forall>k'. prefix k k' \<longrightarrow> fs_ino t k' = None) \<and>
       b + word_of_nat (held th t) = word_of_nat (held th fs)) \<and>
    (fs_faults fs = [] \<and> fs_ino fs k \<noteq> None \<longrightarrow> (\<exists>b. r = Inr b)) \<and>
    r \<noteq> Inl OutOfFuel"
  using deletePath_spec [OF assms(1,2), of th] assms(3) unfolding shrinks_def by auto

definition sample_fs :: file_system where
  "sample_fs =
     \<lparr> fs_names = [([], 0), ([''gnu''], 1), ([''gnu'', ''f''], 2), ([''gnu'', ''g''], 2), ([''h''], 3)],
       fs_data = (\<lambda>_. DDir)(2 := DReg ''abc'', 3 := DReg ''x''), fs_perm = (\<lambda>_. 365), fs_uid = (\<lambda>_. 0),
       fs_gid = (\<lambda>_. 0), fs_mtime = (\<lambda>_. 1), fs_next = 4, fs_now = 7, fs_euid = 0, fs_egid = 0, fs_umask = 18,
       fs_pid = 5, fs_rand = [], fs_tempCounter = 0, fs_faults = [] \<rparr>"

lemma sample_fs_ino:
  "fs_ino sample_fs k =
     (if k = [] then Some 0 else if k = [''gnu''] then Some 1 else if k = [''gnu'', ''f''] \<or> k = [''gnu'', ''g''] then Some 2
      else if k = [''h''] then Some 3 else None)"
  by (simp add: fs_ino_def sample_fs_def)

lemma sample_fs_ok: "fs_ok sample_fs"
proof -
  have at: "fs_at sample_fs [] = Some DDir" "fs_at sample_fs [''gnu''] = Some DDir"
    by (simp_all add: fs_at_def sample_fs_ino) (simp_all add: sample_fs_def)
  have "i < fs_next sample_fs \<and> (k \<noteq> [] \<longrightarrow> canonical_component (last k) \<and> fs_at sample_fs (butlast k) = Some DDir)"
    if "fs_ino sample_fs k = Some i" for k i
    using that at by (auto simp: sample_fs_ino canonical_component_def split: if_splits) (simp_all add: sample_fs_def)
  moreover have "k = k'" if "fs_ino sample_fs k = Some i" "fs_ino sample_fs k' = Some i" "fs_data sample_fs i = DDir" for k k' i
  proof -
    have "i \<noteq> 2" "i \<noteq> 3" using that(3) by (auto simp: sample_fs_def)
    then show ?thesis using that by (auto simp: sample_fs_ino split: if_splits)
  qed
  moreover have "distinct (map fst (fs_names sample_fs))" by (simp add: sample_fs_def)
  ultimately show ?thesis unfolding fs_ok_def using at(1) by blast
qed

lemma sample_fs_plain: "plain_path sample_fs ''/gnu'' [''gnu'']"
  using sample_fs_ok by (simp add: plain_path_def fs_ok_def canonical_component_def path_components.simps skip_slashes_def not_slash_def)

theorem deletePath_exact_witness:
  "\<exists>b t. deletePath ''/gnu'' 1 sample_fs = (Inr b, t) \<and> fs_ino t [''h''] = Some 3 \<and>
     fs_ino t [''gnu'', ''f''] = None"
proof -
  obtain r t where run: "deletePath ''/gnu'' 1 sample_fs = (r, t)" by fastforce
  note del = deletePath_exact [OF sample_fs_ok sample_fs_plain run]
  have "fs_faults sample_fs = []" by (simp add: sample_fs_def)
  then obtain b where "r = Inr b" using del by (auto simp: sample_fs_ino)
  moreover have "fs_ino t [''gnu'', ''f''] = None" using del calculation by simp
  moreover have "fs_ino t [''h''] = Some 3" using del [THEN conjunct2, THEN conjunct1, rule_format, of "[''h'']"] by (simp add: sample_fs_ino)
  ultimately show ?thesis using run by blast
qed

end
