(* ===== verification/PathLocks.thy ===== *)
theory PathLocks
  imports LocalStore FileSystem
begin

text \<open>
  The state of a \<^verbatim>\<open>LocalStore\<close> object with its database and its file system, and the file locks of
  \<^verbatim>\<open>src/nix/libstore/pathlocks.cc\<close>.

  The operations are those of one process.  What other processes hold is part of the state: the inodes on
  which they have a lock.  A call that waits for a lock returns once it has it.  How several processes interleave is
  the subject of the second half: the steps of \<^verbatim>\<open>lockPaths\<close> and \<^verbatim>\<open>unlock\<close> as a transition system.
\<close>

section \<open>The state of a local store\<close>

record local_store =
  ls_store :: store_state
  ls_fs :: file_system
  ls_fdTempRoots :: "nat option"
  ls_fnTempRoots :: Path
  ls_others :: "nat list"
  ls_lockedPaths :: "Path oset"
  ls_pathContentsGoodCache :: "(Path, bool) omap"

text \<open>
  What the operations use of the outside: settings, cryptography, the environment, the output of
  \<^verbatim>\<open>guix gc --list-busy\<close> and the permutation that \<^verbatim>\<open>random_shuffle\<close> applies.
\<close>

record daemon_env =
  de_settings :: Settings
  de_gcrypt :: gcrypt
  de_getenv :: "string \<Rightarrow> string option"
  de_listBusy :: "string result"
  de_shuffle :: "Path list \<Rightarrow> Path list"

abbreviation de_store :: "daemon_env \<Rightarrow> Path" where
  "de_store env \<equiv> nixStore (de_settings env)"

definition on_fs :: "('a, file_system) action \<Rightarrow> ('a, local_store) action" where
  "on_fs m s = (case m (ls_fs s) of (r, t) \<Rightarrow> (r, s \<lparr> ls_fs := t \<rparr>))"

definition on_store :: "('a, store_state) action \<Rightarrow> ('a, local_store) action" where
  "on_store m s = (case m (ls_store s) of (r, t) \<Rightarrow> (r, s \<lparr> ls_store := t \<rparr>))"

definition ask :: "(database \<Rightarrow> 'a result) \<Rightarrow> ('a, local_store) action" where
  "ask q s = (q (st_db (ls_store s)), s)"

definition is_valid :: "Path \<Rightarrow> (bool, local_store) action" where
  "is_valid path = ask (\<lambda>db. Inr (ls_isValidPath path db))"

text \<open>Handling an exception; an abort is not one.\<close>

definition acatch :: "('a, 's) action \<Rightarrow> (exn \<Rightarrow> string \<Rightarrow> ('a, 's) action) \<Rightarrow> ('a, 's) action" where
  "acatch m h s = (case m s of (Inl (Throw c msg), t) \<Rightarrow> h c msg t | res \<Rightarrow> res)"

section \<open>Lock files\<close>

datatype LockType = ltRead | ltWrite | ltNone

definition EAGAIN :: nat where "EAGAIN = 11"

definition openLockFile :: "Path \<Rightarrow> bool \<Rightarrow> (nat option, file_system) action" where
  "openLockFile path create =
     abind (sys_open path (if create then Some 384 else None) True False) (\<lambda>r. case r of
       Inr fd \<Rightarrow> areturn (Some fd)
     | Inl e \<Rightarrow>
         if create \<or> e \<noteq> ENOENT then athrow (Throw (SysError e) ''opening lock file'')
         else areturn None)"

definition deleteLockFile :: "Path \<Rightarrow> nat \<Rightarrow> (unit, file_system) action" where
  "deleteLockFile path fd =
     abind (sys_unlink path) (\<lambda>_. or_throw ''writing to file'' (sys_append fd ''d''))"

text \<open>
  A request is repeated as long as it is interrupted.  The locks of other processes are read locks or write locks; a
  request for a read lock is only refused by a fault.
\<close>

definition lockFile :: "nat \<Rightarrow> LockType \<Rightarrow> bool \<Rightarrow> (bool, local_store) action" where
  "lockFile fd lockType wait s =
     (let rest = dropWhile (\<lambda>f. f = Some EINTR) (fs_faults (ls_fs s));
          s' = s \<lparr> ls_fs := (ls_fs s) \<lparr> fs_faults := tl rest \<rparr> \<rparr>;
          normal = (Inr (wait \<or> lockType \<noteq> ltWrite \<or> fd \<notin> set (ls_others s)), s')
      in case rest of
           Some e # _ \<Rightarrow>
             if e \<in> set structural then normal
             else if \<not> wait \<and> (e = EACCES \<or> e = EAGAIN) then (Inr False, s')
             else (Inl (Throw (SysError e) ''acquiring/releasing lock''), s')
         | _ \<Rightarrow> normal)"

text \<open>The object: the locked descriptors with their lock files, and whether to delete them.\<close>

record PathLocks =
  pl_fds :: "(nat \<times> Path) list"
  pl_deletePaths :: bool

definition PathLocks_init :: PathLocks where
  "PathLocks_init = \<lparr> pl_fds = [], pl_deletePaths = False \<rparr>"

text \<open>The methods work on the object and the store together, so that what was locked before an exception stays known.\<close>

definition on_ls :: "('a, local_store) action \<Rightarrow> ('a, PathLocks \<times> local_store) action" where
  "on_ls m = (\<lambda>(l, s). case m s of (r, t) \<Rightarrow> (r, l, t))"

definition PathLocks_setDeletion :: "bool \<Rightarrow> (unit, PathLocks \<times> local_store) action" where
  "PathLocks_setDeletion d = amodify (\<lambda>(l, s). (l \<lparr> pl_deletePaths := d \<rparr>, s))"

definition PathLocks_unlock :: "(unit, PathLocks \<times> local_store) action" where
  "PathLocks_unlock =
     abind (aget fst) (\<lambda>l.
     abind (aforeach (pl_fds l) (\<lambda>(fd, lockPath).
       abind (if pl_deletePaths l then on_ls (on_fs (deleteLockFile lockPath fd)) else areturn ()) (\<lambda>_.
       amodify (\<lambda>(l, s). (l, s \<lparr> ls_lockedPaths := oerase lockPath (ls_lockedPaths s) \<rparr>))))) (\<lambda>_.
     amodify (\<lambda>(l, s). (l \<lparr> pl_fds := [] \<rparr>, s))))"

text \<open>The life of a local object: however its scope is left, the destructor runs and ignores exceptions.\<close>

definition PathLocks_destroy :: "(unit, PathLocks \<times> local_store) action" where
  "PathLocks_destroy = acatch PathLocks_unlock (\<lambda>_ _. areturn ())"

definition with_PathLocks :: "('a, PathLocks \<times> local_store) action \<Rightarrow> ('a, local_store) action" where
  "with_PathLocks body s =
     (case body (PathLocks_init, s) of (r, t) \<Rightarrow> (r, snd (snd (PathLocks_destroy t))))"

text \<open>
  Acquiring one lock: \<open>Some fd\<close> when it was acquired, \<open>None\<close> when it is taken and the caller does not wait.  A
  lock file that is not empty is opened again; once the script of faults is used up nothing can change
  any more, so a loop that has not ended by then never ends.
\<close>

primrec lock_one :: "nat \<Rightarrow> Path \<Rightarrow> bool \<Rightarrow> (nat option, local_store) action" where
  "lock_one 0 lockPath wait = athrow Diverges"
| "lock_one (Suc fuel) lockPath wait =
     abind (on_fs (openLockFile lockPath True)) (\<lambda>r.
     case r of
       None \<Rightarrow> athrow (Abort ''openLockFile'')
     | Some fd \<Rightarrow>
         abind (lockFile fd ltWrite False) (\<lambda>got.
         abind (if \<not> got \<and> wait then lockFile fd ltWrite True else areturn got) (\<lambda>got.
         if \<not> got then areturn None
         else
           abind (on_fs (or_throw ''statting lock file'' (sys (\<lambda>fs. Inr (stat_of fs fd, fs))))) (\<lambda>st.
           if st_size st \<noteq> 0 then lock_one fuel lockPath wait else areturn (Some fd)))))"

primrec lock_each :: "Path list \<Rightarrow> bool \<Rightarrow> (bool, PathLocks \<times> local_store) action" where
  "lock_each [] wait = areturn True"
| "lock_each (path # paths) wait =
     (let lockPath = path @ ''.lock'' in
      abind (aget (\<lambda>(l, s). (ls_lockedPaths s, length (fs_faults (ls_fs s))))) (\<lambda>(locked, n).
      if lockPath \<in> set locked then athrow (Throw Error ''deadlock: trying to re-acquire self-held lock'')
      else
        abind (on_ls (lock_one (Suc (Suc n)) lockPath wait)) (\<lambda>r.
        case r of
          None \<Rightarrow> abind PathLocks_unlock (\<lambda>_. areturn False)
        | Some fd \<Rightarrow>
            abind (amodify (\<lambda>(l, s).
              (l \<lparr> pl_fds := pl_fds l @ [(fd, lockPath)] \<rparr>,
               s \<lparr> ls_lockedPaths := oinsert lockPath (ls_lockedPaths s) \<rparr>))) (\<lambda>_.
            lock_each paths wait))))"

definition lockPaths :: "Path oset \<Rightarrow> bool \<Rightarrow> (bool, PathLocks \<times> local_store) action" where
  "lockPaths paths wait =
     abind (aget (pl_fds \<circ> fst)) (\<lambda>fds.
     if fds \<noteq> [] then athrow (Abort ''fds.empty()'') else lock_each (sort paths) wait)"

definition pathIsLockedByMe :: "Path \<Rightarrow> local_store \<Rightarrow> bool" where
  "pathIsLockedByMe path s \<longleftrightarrow> path @ ''.lock'' \<in> set (ls_lockedPaths s)"

section \<open>Interleaving processes\<close>

text \<open>
  Any number of processes that lock and unlock one path, one system call at a time.  An inode with a
  non-empty file is stale.  Where a process stands: it has opened an inode, has locked it, has found it
  empty and so holds the path, has unlinked the path, or has marked the inode.  Removing the path may fail,
  which the code ignores.
\<close>

datatype lock_pc =
    LIdle
  | LOpened nat
  | LLocked nat
  | LHolding nat
  | LUnlinked nat
  | LMarked nat

record lock_sys =
  lk_name :: "nat option"
  lk_next :: nat
  lk_stale :: "nat \<Rightarrow> bool"
  lk_holder :: "nat \<Rightarrow> nat option"
  lk_pc :: "nat \<Rightarrow> lock_pc"

definition goto :: "nat \<Rightarrow> lock_pc \<Rightarrow> lock_sys \<Rightarrow> lock_sys" where
  "goto p pc s = s \<lparr> lk_pc := (lk_pc s)(p := pc) \<rparr>"

definition close_fd :: "nat \<Rightarrow> nat \<Rightarrow> lock_sys \<Rightarrow> lock_sys" where
  "close_fd p i s = goto p LIdle (s \<lparr> lk_holder := (lk_holder s)(i := None) \<rparr>)"

inductive lock_step :: "lock_sys \<Rightarrow> lock_sys \<Rightarrow> bool" where
  create: "lk_pc s p = LIdle \<Longrightarrow> lk_name s = None \<Longrightarrow> i = lk_next s \<Longrightarrow>
    lock_step s (goto p (LOpened i) (s \<lparr> lk_name := Some i, lk_next := Suc i \<rparr>))"
| reopen: "lk_pc s p = LIdle \<Longrightarrow> lk_name s = Some i \<Longrightarrow> lock_step s (goto p (LOpened i) s)"
| acquire: "lk_pc s p = LOpened i \<Longrightarrow> lk_holder s i = None \<Longrightarrow>
    lock_step s (goto p (LLocked i) (s \<lparr> lk_holder := (lk_holder s)(i := Some p) \<rparr>))"
| give_up: "lk_pc s p = LOpened i \<Longrightarrow> lk_holder s i \<noteq> None \<Longrightarrow> lock_step s (goto p LIdle s)"
| fresh: "lk_pc s p = LLocked i \<Longrightarrow> \<not> lk_stale s i \<Longrightarrow> lock_step s (goto p (LHolding i) s)"
| retry: "lk_pc s p = LLocked i \<Longrightarrow> lk_stale s i \<Longrightarrow> lock_step s (close_fd p i s)"
| unlink: "lk_pc s p = LHolding i \<Longrightarrow> lock_step s (goto p (LUnlinked i) (s \<lparr> lk_name := None \<rparr>))"
| unlink_fails: "lk_pc s p = LHolding i \<Longrightarrow> lock_step s (goto p (LUnlinked i) s)"
| mark: "lk_pc s p = LUnlinked i \<Longrightarrow>
    lock_step s (goto p (LMarked i) (s \<lparr> lk_stale := (lk_stale s)(i := True) \<rparr>))"
| close: "lk_pc s p = LMarked i \<Longrightarrow> lock_step s (close_fd p i s)"
| release: "lk_pc s p = LHolding i \<Longrightarrow> lock_step s (close_fd p i s)"

definition lock_init :: lock_sys where
  "lock_init =
     \<lparr> lk_name = None, lk_next = 0, lk_stale = (\<lambda>_. False), lk_holder = (\<lambda>_. None), lk_pc = (\<lambda>_. LIdle) \<rparr>"

text \<open>
  A process that is past the lock call owns the lock; who holds the path has its inode; an inode that is
  neither stale nor named any more belongs to a process that is about to mark it.
\<close>

fun pc_ok :: "lock_sys \<Rightarrow> nat \<Rightarrow> lock_pc \<Rightarrow> bool" where
  "pc_ok s p LIdle = True"
| "pc_ok s p (LOpened i) = (i < lk_next s)"
| "pc_ok s p (LLocked i) = (i < lk_next s \<and> lk_holder s i = Some p)"
| "pc_ok s p (LHolding i) = (i < lk_next s \<and> lk_holder s i = Some p \<and> lk_name s = Some i)"
| "pc_ok s p (LUnlinked i) = (i < lk_next s \<and> lk_holder s i = Some p)"
| "pc_ok s p (LMarked i) = (i < lk_next s \<and> lk_holder s i = Some p)"

definition lock_inv :: "lock_sys \<Rightarrow> bool" where
  "lock_inv s \<longleftrightarrow>
     (\<forall>p. pc_ok s p (lk_pc s p)) \<and>
     (\<forall>i < lk_next s. \<not> lk_stale s i \<longrightarrow> lk_name s = Some i \<or> (\<exists>p. lk_pc s p = LUnlinked i)) \<and>
     (\<forall>i. lk_name s = Some i \<longrightarrow> i < lk_next s)"

lemma lock_inv_init: "lock_inv lock_init"
  by (simp add: lock_inv_def lock_init_def)

text \<open>A step of one process: the others stand where they stood.\<close>

lemma lock_invI:
  assumes inv: "lock_inv s" and pc: "lk_pc t = (lk_pc s)(p := pc)"
    and self: "pc_ok t p pc" and others: "\<And>q pc'. q \<noteq> p \<Longrightarrow> lk_pc s q = pc' \<Longrightarrow> pc_ok s q pc' \<Longrightarrow> pc_ok t q pc'"
    and unmarked: "\<And>i. i < lk_next t \<Longrightarrow> \<not> lk_stale t i \<Longrightarrow> lk_name t \<noteq> Some i \<Longrightarrow>
      pc = LUnlinked i \<or> i < lk_next s \<and> \<not> lk_stale s i \<and> lk_name s \<noteq> Some i \<and> lk_pc s p \<noteq> LUnlinked i"
    and name: "\<And>i. lk_name t = Some i \<Longrightarrow> i < lk_next t"
  shows "lock_inv t"
  unfolding lock_inv_def
proof (intro conjI allI impI)
  fix q show "pc_ok t q (lk_pc t q)"
    using inv self others [of q, OF _ refl] pc by (cases "q = p") (simp_all add: lock_inv_def)
next
  fix i assume i: "i < lk_next t" "\<not> lk_stale t i"
  show "lk_name t = Some i \<or> (\<exists>q. lk_pc t q = LUnlinked i)"
  proof (rule disjCI)
    assume no: "\<nexists>q. lk_pc t q = LUnlinked i"
    show "lk_name t = Some i"
    proof (rule ccontr)
      assume "lk_name t \<noteq> Some i"
      from unmarked [OF i this] show False
      proof
        assume "pc = LUnlinked i"
        then show False using no pc by (metis fun_upd_same)
      next
        assume a: "i < lk_next s \<and> \<not> lk_stale s i \<and> lk_name s \<noteq> Some i \<and> lk_pc s p \<noteq> LUnlinked i"
        then obtain q where "lk_pc s q = LUnlinked i" using inv unfolding lock_inv_def by blast
        then have "lk_pc t q = LUnlinked i" using a pc by (metis fun_upd_other)
        then show False using no by blast
      qed
    qed
  qed
qed (use name in blast)

lemma pc_ok_cong:
  "pc_ok s q pc \<Longrightarrow> lk_next s \<le> lk_next t \<Longrightarrow> lk_holder t = lk_holder s \<Longrightarrow>
     (\<And>i. pc = LHolding i \<Longrightarrow> lk_name t = lk_name s) \<Longrightarrow> pc_ok t q pc"
  by (cases pc) auto

lemma pc_ok_holder:
  "pc_ok s q pc \<Longrightarrow> q \<noteq> p \<Longrightarrow> lk_holder s i = None \<or> lk_holder s i = Some p \<Longrightarrow>
     pc_ok (s \<lparr> lk_holder := (lk_holder s)(i := h), lk_pc := f \<rparr>) q pc"
  by (cases pc) auto

lemma lock_inv_step:
  assumes "lock_step s t" "lock_inv s"
  shows "lock_inv t"
  using assms
proof (induction rule: lock_step.induct)
  case (create s p i)
  have "pc_ok s q (LHolding j) \<Longrightarrow> False" for q j using create by simp
  then show ?case
    by (intro lock_invI [OF create.prems, of _ p]) (use create in \<open>auto simp: goto_def less_Suc_eq lock_inv_def intro: pc_ok_cong\<close>)
next
  case (reopen s p i)
  then show ?case
    by (intro lock_invI [OF reopen.prems, of _ p]) (auto simp: goto_def lock_inv_def intro: pc_ok_cong)
next
  case (acquire s p i)
  have "pc_ok s p (LOpened i)" using acquire unfolding lock_inv_def by metis
  then show ?case
    by (intro lock_invI [OF acquire.prems, of _ p]) (use acquire in \<open>auto simp: goto_def lock_inv_def intro: pc_ok_holder\<close>)
next
  case (give_up s p i)
  then show ?case
    by (intro lock_invI [OF give_up.prems, of _ p]) (auto simp: goto_def lock_inv_def intro: pc_ok_cong)
next
  case (fresh s p i)
  have p: "pc_ok s p (LLocked i)" using fresh unfolding lock_inv_def by metis
  have "lk_name s = Some i"
  proof (rule ccontr)
    assume "lk_name s \<noteq> Some i"
    then obtain q where q: "lk_pc s q = LUnlinked i" using fresh p unfolding lock_inv_def by auto
    then have "pc_ok s q (LUnlinked i)" using fresh unfolding lock_inv_def by metis
    then show False using p q fresh by simp
  qed
  then show ?case
    by (intro lock_invI [OF fresh.prems, of _ p]) (use fresh p in \<open>auto simp: goto_def lock_inv_def intro: pc_ok_cong\<close>)
next
  case (retry s p i)
  have "pc_ok s p (LLocked i)" using retry unfolding lock_inv_def by metis
  then show ?case
    by (intro lock_invI [OF retry.prems, of _ p])
      (use retry in \<open>auto simp: close_fd_def goto_def lock_inv_def intro: pc_ok_holder\<close>)
next
  case (unlink s p i)
  have p: "pc_ok s p (LHolding i)" using unlink unfolding lock_inv_def by metis
  have "pc_ok s q (LHolding j) \<Longrightarrow> q = p" for q j using p by simp
  then show ?case
    by (intro lock_invI [OF unlink.prems, of _ p]) (use unlink p in \<open>auto simp: goto_def lock_inv_def intro: pc_ok_cong\<close>)
next
  case (unlink_fails s p i)
  have "pc_ok s p (LHolding i)" using unlink_fails unfolding lock_inv_def by metis
  then show ?case
    by (intro lock_invI [OF unlink_fails.prems, of _ p])
      (use unlink_fails in \<open>auto simp: goto_def lock_inv_def intro: pc_ok_cong\<close>)
next
  case (mark s p i)
  have "pc_ok s p (LUnlinked i)" using mark unfolding lock_inv_def by metis
  then show ?case
    by (intro lock_invI [OF mark.prems, of _ p])
      (use mark in \<open>auto simp: goto_def lock_inv_def intro: pc_ok_cong split: if_splits\<close>)
next
  case (close s p i)
  have "pc_ok s p (LMarked i)" using close unfolding lock_inv_def by metis
  then show ?case
    by (intro lock_invI [OF close.prems, of _ p])
      (use close in \<open>auto simp: close_fd_def goto_def lock_inv_def intro: pc_ok_holder\<close>)
next
  case (release s p i)
  have "pc_ok s p (LHolding i)" using release unfolding lock_inv_def by metis
  then show ?case
    by (intro lock_invI [OF release.prems, of _ p])
      (use release in \<open>auto simp: close_fd_def goto_def lock_inv_def intro: pc_ok_holder\<close>)
qed


lemma stale_lock_step:
  assumes "lock_step s t" "lock_inv s" "lk_name s = Some i" "lk_stale s i" "\<forall>p j. lk_pc s p \<noteq> LHolding j"
  shows "lk_name t = Some i \<and> lk_stale t i \<and> (\<forall>p j. lk_pc t p \<noteq> LHolding j)"
  using assms
proof (induction rule: lock_step.induct)
  case (fresh s p j)
  have "lock_inv (goto p (LHolding j) s)" using lock_inv_step [OF lock_step.fresh] fresh by blast
  then have "pc_ok (goto p (LHolding j) s) p (LHolding j)" unfolding lock_inv_def by (metis fun_upd_same goto_def lock_sys.select_convs(5) lock_sys.surjective lock_sys.update_convs(5))
  then have "i = j" using fresh by (simp add: goto_def)
  then show ?case using fresh by simp
qed (auto simp: goto_def close_fd_def)


definition held_sys :: lock_sys where
  "held_sys =
     goto 0 (LHolding 0) (lock_init \<lparr> lk_name := Some 0, lk_next := 1, lk_holder := (\<lambda>_. None)(0 := Some 0) \<rparr>)"

lemma held_sys_reached: "lock_step\<^sup>*\<^sup>* lock_init held_sys"
proof -
  define a where "a = goto 0 (LOpened 0) (lock_init \<lparr> lk_name := Some 0, lk_next := 1 \<rparr>)"
  define b where "b = goto 0 (LLocked 0) (a \<lparr> lk_holder := (lk_holder a)(0 := Some 0) \<rparr>)"
  have "lock_step lock_init a" using create [of lock_init 0 0] by (simp add: a_def lock_init_def)
  moreover have "lock_step a b" unfolding b_def by (rule acquire) (simp_all add: a_def goto_def lock_init_def)
  moreover have "lock_step b (goto 0 (LHolding 0) b)"
    by (rule fresh) (simp_all add: a_def b_def goto_def lock_init_def)
  moreover have "goto 0 (LHolding 0) b = held_sys"
    by (simp add: a_def b_def held_sys_def goto_def lock_init_def)
  ultimately show ?thesis by (metis converse_rtranclp_into_rtranclp rtranclp.rtrancl_refl)
qed


definition stuck_sys :: lock_sys where
  "stuck_sys = lock_init \<lparr> lk_name := Some 0, lk_next := 1, lk_stale := (\<lambda>_. False)(0 := True) \<rparr>"

lemma stuck_sys_reached: "lock_step\<^sup>*\<^sup>* lock_init stuck_sys"
proof -
  define a where "a = goto 0 (LUnlinked 0) held_sys"
  define b where "b = goto 0 (LMarked 0) (a \<lparr> lk_stale := (lk_stale a)(0 := True) \<rparr>)"
  have "lock_step held_sys a" unfolding a_def by (rule unlink_fails) (simp add: held_sys_def goto_def)
  moreover have "lock_step a b" unfolding b_def by (rule mark) (simp add: a_def goto_def)
  moreover have "lock_step b (close_fd 0 0 b)" by (rule close) (simp add: b_def goto_def)
  moreover have "close_fd 0 0 b = stuck_sys"
    by (simp add: a_def b_def stuck_sys_def held_sys_def goto_def close_fd_def lock_init_def fun_upd_idem)
  ultimately show ?thesis using held_sys_reached by (metis rtranclp.rtrancl_into_rtrancl)
qed


end
