(* ===== verification/GC.thy ===== *)
theory GC
  imports PathLocks
begin

text \<open>
  The garbage collector, after \<^verbatim>\<open>src/nix/libstore/gc.cc\<close>: roots of all kinds, the search for a root, the
  deletion of dead paths and \<^verbatim>\<open>collectGarbage\<close> as a whole.

  Messages are left out, and with them the percentages they show.  The recursions over the graph of references and over
  directories take fuel: the number of valid paths and the depth of the file system are enough, and the lemmas
  say so (for the deletion, when the references have no cycle).
\<close>

section \<open>Adding roots\<close>

definition gcLockName :: string where "gcLockName = ''gc.lock''"
definition tempRootsDir :: string where "tempRootsDir = ''temproots''"
definition gcRootsDir :: string where "gcRootsDir = ''gcroots''"

definition state_path :: "daemon_env \<Rightarrow> string \<Rightarrow> Path" where
  "state_path env name = nixStateDir (de_settings env) @ ''/'' @ name"

definition openGCLock :: "daemon_env \<Rightarrow> LockType \<Rightarrow> (nat, local_store) action" where
  "openGCLock env lockType =
     abind (on_fs (or_throw ''opening global GC lock'' (sys_open (state_path env gcLockName) (Some 384) True False))) (\<lambda>fd.
     abind (lockFile fd lockType False) (\<lambda>got.
     abind (if \<not> got then lockFile fd lockType True else areturn True) (\<lambda>_.
     areturn fd)))"

definition syncWithGC :: "daemon_env \<Rightarrow> (unit, local_store) action" where
  "syncWithGC env = abind (openGCLock env ltRead) (\<lambda>_. areturn ())"

definition next_rand :: "(nat, file_system) action" where
  "next_rand fs = (case fs_rand fs of [] \<Rightarrow> (Inr 0, fs) | n # ns \<Rightarrow> (Inr n, fs \<lparr> fs_rand := ns \<rparr>))"

definition makeSymlink :: "Path \<Rightarrow> Path \<Rightarrow> (unit, file_system) action" where
  "makeSymlink link target =
     abind (alift (dirOf link)) (\<lambda>dir.
     abind (createDirs dir) (\<lambda>_.
     abind (aget fs_pid) (\<lambda>pid.
     abind next_rand (\<lambda>n.
     let tempLink = link @ ''.tmp-'' @ show_nat pid @ ''-'' @ show_nat n in
     abind (fs_createSymlink target tempLink) (\<lambda>_.
     or_throw ''cannot rename'' (sys_rename tempLink link))))))"

definition addIndirectRoot :: "daemon_env \<Rightarrow> Path \<Rightarrow> (unit, local_store) action" where
  "addIndirectRoot env path =
     abind (alift (hashString (de_gcrypt env) htSHA1 path)) (\<lambda>h.
     abind (alift (canonPath (state_path env gcRootsDir @ ''/auto/'' @ printHash32 h))) (\<lambda>realRoot.
     on_fs (makeSymlink realRoot path)))"

type_synonym Roots = "(Path, Path) omap"

section \<open>Finding roots\<close>

definition foundRoot :: "daemon_env \<Rightarrow> Path \<Rightarrow> Path \<Rightarrow> Roots \<Rightarrow> (Roots, local_store) action" where
  "foundRoot env path target roots =
     abind (alift (toStorePath (de_store env) target)) (\<lambda>storePath.
     abind (is_valid storePath) (\<lambda>v.
     areturn (if v then oput path storePath roots else roots)))"

primrec findRoots_rec :: "nat \<Rightarrow> daemon_env \<Rightarrow> Path \<Rightarrow> dirent_type \<Rightarrow> Roots \<Rightarrow> (Roots, local_store) action" where
  "findRoots_rec 0 env path type roots = athrow OutOfFuel"
| "findRoots_rec (Suc fuel) env path type roots =
     acatch
       (abind (if type = DT_UNKNOWN then on_fs (getFileType path) else areturn type) (\<lambda>type.
        if type = DT_DIR then
          abind (on_fs (readDirectory path)) (\<lambda>entries.
          afold (\<lambda>(name, _, d). findRoots_rec fuel env (path @ ''/'' @ name) (dirent_type_of d)) entries roots)
        else if type = DT_LNK then
          abind (on_fs (readLink path)) (\<lambda>target.
          if isInStore (de_store env) target then foundRoot env path target roots
          else
            abind (alift (rbind (dirOf path) (absPath (Inr ''/'') target))) (\<lambda>target.
            abind (on_fs (pathExists target)) (\<lambda>ex.
            if \<not> ex then
              (if isInDir path (state_path env gcRootsDir @ ''/auto'') then
                 abind (on_fs (sys_unlink path)) (\<lambda>_. areturn roots)
               else areturn roots)
            else
              abind (on_fs (lstat target)) (\<lambda>st2.
              case st_data st2 of
                DLnk _ \<Rightarrow>
                  abind (on_fs (readLink target)) (\<lambda>target2.
                  if isInStore (de_store env) target2 then foundRoot env target target2 roots else areturn roots)
              | _ \<Rightarrow> areturn roots))))
        else if type = DT_REG then
          abind (alift (baseNameOf path)) (\<lambda>name.
          let storePath = de_store env @ ''/'' @ name in
          abind (is_valid storePath) (\<lambda>v. areturn (if v then oput path storePath roots else roots)))
        else areturn roots))
       (\<lambda>c msg.
          case c of
            SysError e \<Rightarrow>
              if e = EACCES \<or> e = ENOENT \<or> e = ENOTDIR then areturn roots else athrow (Throw c msg)
          | _ \<Rightarrow> athrow (Throw c msg))"

definition findRoots_from :: "daemon_env \<Rightarrow> Path \<Rightarrow> Roots \<Rightarrow> (Roots, local_store) action" where
  "findRoots_from env path roots =
     abind (aget (\<lambda>s. fs_depth (ls_fs s))) (\<lambda>depth. findRoots_rec (Suc (Suc depth)) env path DT_UNKNOWN roots)"

definition findRoots :: "daemon_env \<Rightarrow> (Roots, local_store) action" where
  "findRoots env =
     abind (findRoots_from env (state_path env gcRootsDir) []) (\<lambda>roots.
     abind (on_fs (pathExists (state_path env ''manifests''))) (\<lambda>ex.
     abind (if ex then findRoots_from env (state_path env ''manifests'') roots else areturn roots) (\<lambda>roots.
     findRoots_from env (state_path env ''profiles'') roots)))"

definition addAdditionalRoots :: "daemon_env \<Rightarrow> Path oset \<Rightarrow> (Path oset, local_store) action" where
  "addAdditionalRoots env roots =
     abind (alift (de_listBusy env)) (\<lambda>result.
     afold (\<lambda>i roots.
       if isInStore (de_store env) i then
         abind (alift (toStorePath (de_store env) i)) (\<lambda>path.
         abind (is_valid path) (\<lambda>v. areturn (if path \<notin> set roots \<and> v then oinsert path roots else roots)))
       else areturn roots)
     (oinsert_all (tokenizeString result [CHR 0x0A]) []) roots)"

definition addPermRoot :: "daemon_env \<Rightarrow> Path \<Rightarrow> Path \<Rightarrow> bool \<Rightarrow> bool \<Rightarrow> (Path, local_store) action" where
  "addPermRoot env storePath0 gcRoot0 indirect allowOutsideRootsDir =
     abind (alift (canonPath storePath0)) (\<lambda>storePath.
     abind (alift (canonPath gcRoot0)) (\<lambda>gcRoot.
     abind (alift (assertStorePath (de_store env) storePath)) (\<lambda>_.
     if isInStore (de_store env) gcRoot then
       athrow (Throw Error ''creating a garbage collector root in the store is forbidden'')
     else
     abind
       (if indirect then
          abind (on_fs (pathExists gcRoot)) (\<lambda>ex.
          abind (if \<not> ex then areturn False
                 else abind (on_fs (isLink gcRoot)) (\<lambda>l.
                   if \<not> l then areturn True
                   else abind (on_fs (readLink gcRoot)) (\<lambda>t. areturn (\<not> isInStore (de_store env) t)))) (\<lambda>clobber.
          if clobber then athrow (Throw Error ''cannot create symlink; already exists'')
          else
            abind (on_fs (makeSymlink gcRoot storePath)) (\<lambda>_.
            addIndirectRoot env gcRoot)))
        else
          abind
            (if allowOutsideRootsDir then areturn ()
             else
               abind (alift (canonPath (state_path env gcRootsDir))) (\<lambda>rootsDir.
               if take (length rootsDir + 1) gcRoot \<noteq> rootsDir @ ''/'' then
                 athrow (Throw Error ''path is not a valid garbage collector root'')
               else areturn ())) (\<lambda>_.
          abind (alift (baseNameOf gcRoot)) (\<lambda>rootName.
          abind (alift (baseNameOf storePath)) (\<lambda>storeName.
          if rootName = storeName then on_fs (writeFile gcRoot [])
          else on_fs (makeSymlink gcRoot storePath))))) (\<lambda>_.
     abind (if checkRootReachability (de_settings env) then abind (findRoots env) (\<lambda>_. areturn ()) else areturn ()) (\<lambda>_.
     abind (syncWithGC env) (\<lambda>_. areturn gcRoot))))))"

section \<open>Temporary roots\<close>

primrec open_temp_roots :: "nat \<Rightarrow> daemon_env \<Rightarrow> (unit, local_store) action" where
  "open_temp_roots 0 env = athrow OutOfFuel"
| "open_temp_roots (Suc fuel) env =
     (let dir = state_path env tempRootsDir in
      abind (on_fs (createDirs dir)) (\<lambda>_.
      abind (aget (\<lambda>s. fs_pid (ls_fs s))) (\<lambda>pid.
      let fn = dir @ ''/'' @ show_nat pid in
      abind (amodify (\<lambda>s. s \<lparr> ls_fnTempRoots := fn \<rparr>)) (\<lambda>_.
      abind (openGCLock env ltRead) (\<lambda>_.
      abind (on_fs (pathExists fn)) (\<lambda>ex.
      abind (if ex then abind (on_fs (sys_unlink fn)) (\<lambda>_. areturn ()) else areturn ()) (\<lambda>_.
      abind (on_fs (openLockFile fn True)) (\<lambda>fd.
      case fd of
        None \<Rightarrow> athrow (Abort ''openLockFile'')
      | Some fd \<Rightarrow>
          abind (amodify (\<lambda>s. s \<lparr> ls_fdTempRoots := Some fd \<rparr>)) (\<lambda>_.
          abind (lockFile fd ltRead True) (\<lambda>_.
          abind (on_fs (or_throw ''statting'' (sys (\<lambda>fs. Inr (stat_of fs fd, fs))))) (\<lambda>st.
          if st_size st = 0 then areturn () else open_temp_roots fuel env)))))))))))"

definition addTempRoot :: "daemon_env \<Rightarrow> Path \<Rightarrow> (unit, local_store) action" where
  "addTempRoot env path =
     abind (aget ls_fdTempRoots) (\<lambda>fd.
     abind (if fd = None then
              abind (aget (\<lambda>s. length (fs_faults (ls_fs s)))) (\<lambda>n. open_temp_roots (Suc (Suc n)) env)
            else areturn ()) (\<lambda>_.
     abind (aget ls_fdTempRoots) (\<lambda>fd.
     case fd of
       None \<Rightarrow> athrow (Abort ''fdTempRoots'')
     | Some fd \<Rightarrow>
         abind (lockFile fd ltWrite True) (\<lambda>_.
         abind (on_fs (or_throw ''writing to file'' (sys_append fd (path @ [CHR 0x00])))) (\<lambda>_.
         abind (lockFile fd ltRead True) (\<lambda>_. areturn ()))))))"

lemma tl_dropWhile_shorter:
  assumes "x \<in> set s" "\<not> P x"
  shows "length (tl (dropWhile P s)) < length s"
proof -
  have "dropWhile P s \<noteq> []" using assms by (auto simp: dropWhile_eq_Nil_conv)
  then have "length (tl (dropWhile P s)) < length (dropWhile P s)" by (cases "dropWhile P s") simp_all
  also have "\<dots> \<le> length s" by (rule length_dropWhile_le)
  finally show ?thesis .
qed

text \<open>The roots in a file: what precedes each zero byte.\<close>

function split_roots :: "string \<Rightarrow> Path list" where
  "split_roots contents =
     (if CHR 0x00 \<notin> set contents then []
      else takeWhile (\<lambda>c. c \<noteq> CHR 0x00) contents # split_roots (tl (dropWhile (\<lambda>c. c \<noteq> CHR 0x00) contents)))"
  by pat_completeness auto
termination
proof (relation "measure length")
  fix contents :: string
  assume "\<not> CHR 0x00 \<notin> set contents"
  then show "(tl (dropWhile (\<lambda>c. c \<noteq> CHR 0x00) contents), contents) \<in> measure length"
    using tl_dropWhile_shorter [of "CHR 0x00" contents "\<lambda>c. c \<noteq> CHR 0x00"] by simp
qed simp

declare split_roots.simps [simp del]

definition read_temp_file :: "daemon_env \<Rightarrow> string \<Rightarrow> Path oset \<Rightarrow> (Path oset, local_store) action" where
  "read_temp_file env name tempRoots =
     (let path = state_path env tempRootsDir @ ''/'' @ name in
      abind (on_fs (sys_open path None True False)) (\<lambda>r.
      case r of
        Inl e \<Rightarrow> if e = ENOENT then areturn tempRoots else athrow (Throw (SysError e) ''opening temporary roots file'')
      | Inr fd \<Rightarrow>
          abind (lockFile fd ltWrite False) (\<lambda>stale.
          if stale then
            abind (on_fs (sys_unlink path)) (\<lambda>_.
            abind (on_fs (or_throw ''writing to file'' (sys_append fd ''d''))) (\<lambda>_. areturn tempRoots))
          else
            abind (lockFile fd ltRead True) (\<lambda>_.
            abind (on_fs (readFile_fd fd)) (\<lambda>contents.
            afold (\<lambda>root tempRoots.
              abind (alift (assertStorePath (de_store env) root)) (\<lambda>_. areturn (oinsert root tempRoots)))
            (split_roots contents) tempRoots)))))"

definition readTempRoots :: "daemon_env \<Rightarrow> (Path oset, local_store) action" where
  "readTempRoots env =
     abind (on_fs (readDirectory (state_path env tempRootsDir))) (\<lambda>files.
     afold (\<lambda>(name, _). read_temp_file env name) files [])"

section \<open>The search for a root\<close>

record GCState =
  gs_options :: GCOptions
  gs_results :: GCResults
  gs_roots :: "Path oset"
  gs_tempRoots :: "Path oset"
  gs_dead :: "Path oset"
  gs_alive :: "Path oset"
  gs_gcKeepOutputs :: bool
  gs_gcKeepDerivations :: bool
  gs_bytesInvalidated :: "64 word"
  gs_moveToTrash :: bool
  gs_trashDir :: Path
  gs_shouldDelete :: bool

definition isActiveTempFile :: "GCState \<Rightarrow> Path \<Rightarrow> string \<Rightarrow> bool" where
  "isActiveTempFile gs path suff \<longleftrightarrow>
     hasSuffix path suff \<and> take (length path - length suff) path \<in> set (gs_tempRoots gs)"

text \<open>The paths that keep a valid path alive when they are alive.\<close>

definition gc_incoming :: "daemon_env \<Rightarrow> GCState \<Rightarrow> database \<Rightarrow> Path \<Rightarrow> Path oset result" where
  "gc_incoming env gs db path =
     rbind (ls_queryReferrers (de_store env) path db) (\<lambda>incoming.
     rbind
       (if gs_gcKeepDerivations gs \<and> isDerivation path then
          rbind (ls_queryDerivationOutputs path db) (\<lambda>outputs.
          rfold (\<lambda>i incoming.
            if ls_isValidPath i db then
              rbind (ls_queryDeriver (de_gcrypt env) (de_store env) i db) (\<lambda>deriver.
              Inr (if deriver = path then oinsert i incoming else incoming))
            else Inr incoming) outputs incoming)
        else Inr incoming) (\<lambda>incoming.
     if gs_gcKeepOutputs gs then
       rbind (ls_queryValidDerivers (de_store env) path db) (\<lambda>derivers. Inr (oinsert_all derivers incoming))
     else Inr incoming))"

text \<open>The first path that reaches a root ends the search; \<open>seen\<close> and \<open>alive\<close> are passed on.\<close>

fun any_reaches ::
  "(Path \<Rightarrow> Path oset \<times> Path oset \<Rightarrow> (bool \<times> Path oset \<times> Path oset) result) \<Rightarrow> Path list \<Rightarrow>
   Path oset \<times> Path oset \<Rightarrow> (bool \<times> Path oset \<times> Path oset) result" where
  "any_reaches f [] va = Inr (False, va)"
| "any_reaches f (p # ps) va = rbind (f p va) (\<lambda>(b, va). if b then Inr (True, va) else any_reaches f ps va)"

primrec canReachRoot ::
  "nat \<Rightarrow> daemon_env \<Rightarrow> GCState \<Rightarrow> database \<Rightarrow> Path \<Rightarrow> Path oset \<times> Path oset \<Rightarrow>
   (bool \<times> Path oset \<times> Path oset) result" where
  "canReachRoot 0 env gs db path va = Inl OutOfFuel"
| "canReachRoot (Suc fuel) env gs db path va =
     (case va of (seen, alive) \<Rightarrow>
        if path \<in> set seen then Inr (False, seen, alive)
        else if path \<in> set alive then Inr (True, seen, alive)
        else if path \<in> set (gs_dead gs) then Inr (False, seen, alive)
        else if path \<in> set (gs_roots gs) then Inr (True, seen, oinsert path alive)
        else
          let seen = oinsert path seen in
          if \<not> ls_isValidPath path db then Inr (False, seen, alive)
          else
            rbind (gc_incoming env gs db path) (\<lambda>incoming.
            rbind (any_reaches (\<lambda>i va. if i \<noteq> path then canReachRoot fuel env gs db i va else Inr (False, va))
                     incoming (seen, alive)) (\<lambda>(b, seen, alive).
            Inr (b, seen, if b then oinsert path alive else alive))))"

section \<open>Deleting dead paths\<close>

text \<open>The state of the collector and of the store; an exception keeps both.\<close>

type_synonym gc_state = "GCState \<times> local_store"

definition gc_ls :: "('a, local_store) action \<Rightarrow> ('a, gc_state) action" where
  "gc_ls m = (\<lambda>(gs, s). case m s of (r, t) \<Rightarrow> (r, gs, t))"

definition gc_mod :: "(GCState \<Rightarrow> GCState) \<Rightarrow> (unit, gc_state) action" where
  "gc_mod f = amodify (\<lambda>(gs, s). (f gs, s))"

definition add_freed :: "64 word \<Rightarrow> GCState \<Rightarrow> GCState" where
  "add_freed n gs = gs \<lparr> gs_results := (gs_results gs) \<lparr> bytesFreed := bytesFreed (gs_results gs) + n \<rparr> \<rparr>"

definition deleteGarbage :: "daemon_env \<Rightarrow> Path \<Rightarrow> (unit, gc_state) action" where
  "deleteGarbage env path =
     (let linkThreshold = (if autoOptimiseStore (de_settings env) \<and> isStorePath (de_store env) path then 2 else 1) in
      abind (gc_ls (on_fs (deletePath path linkThreshold))) (\<lambda>freed. gc_mod (add_freed freed)))"

text \<open>\<^verbatim>\<open>GCLimitReached\<close> is a thrown object of a class of its own.\<close>

definition GCLimitReached :: error where
  "GCLimitReached = Throw StdException ''GCLimitReached''"

definition over_limit :: "GCState \<Rightarrow> bool" where
  "over_limit gs \<longleftrightarrow>
     bytesFreed (gs_results gs) + gs_bytesInvalidated gs > maxFreed (gs_options gs)"

text \<open>What remains to be done once the path is no longer valid.\<close>

definition delete_contents :: "daemon_env \<Rightarrow> Path \<Rightarrow> 64 word \<Rightarrow> (unit, gc_state) action" where
  "delete_contents env path size0 =
     abind (gc_ls (on_fs (sys_lstat path))) (\<lambda>r.
     case r of
       Inl e \<Rightarrow> if e = ENOENT then areturn () else athrow (Throw (SysError e) ''getting status'')
     | Inr st \<Rightarrow>
         abind (gc_mod (\<lambda>gs. gs \<lparr> gs_results := (gs_results gs) \<lparr> gc_paths := oinsert path (gc_paths (gs_results gs)) \<rparr> \<rparr>)) (\<lambda>_.
         abind (aget fst) (\<lambda>gs.
         abind
           (if gs_moveToTrash gs \<and> st_data st = DDir then
              acatch
                (abind (gc_ls (on_fs (or_throw ''making writable'' (sys_chmod path (st_perm st OR S_IWUSR))))) (\<lambda>_.
                 abind (alift (baseNameOf path)) (\<lambda>name.
                 abind (gc_ls (on_fs (or_throw ''unable to rename'' (sys_rename path (gs_trashDir gs @ ''/'' @ name))))) (\<lambda>_.
                 gc_mod (\<lambda>gs. gs \<lparr> gs_bytesInvalidated := gs_bytesInvalidated gs + size0 \<rparr>)))))
                (\<lambda>c msg. case c of
                   SysError e \<Rightarrow> if e = ENOSPC \<or> e = EXDEV then deleteGarbage env path else areturn ()
                 | _ \<Rightarrow> athrow (Throw c msg))
            else deleteGarbage env path) (\<lambda>_.
         abind (aget fst) (\<lambda>gs.
         if over_limit gs then athrow GCLimitReached else areturn ())))))"

primrec deletePathRecursive :: "nat \<Rightarrow> daemon_env \<Rightarrow> Path \<Rightarrow> (unit, gc_state) action" where
  "deletePathRecursive 0 env path = athrow OutOfFuel"
| "deletePathRecursive (Suc fuel) env path =
     abind (gc_ls (is_valid path)) (\<lambda>v.
     abind
       (if v then
          abind (gc_ls (ask (ls_queryReferrers (de_store env) path))) (\<lambda>referrers.
          abind (aforeach referrers (\<lambda>i. if i \<noteq> path then deletePathRecursive fuel env i else areturn ())) (\<lambda>_.
          abind (gc_ls (ask (queryPathInfo (de_gcrypt env) (de_store env) path))) (\<lambda>info.
          abind (gc_ls (on_store (invalidatePathChecked (de_store env) path))) (\<lambda>_.
          areturn (vpi_narSize info)))))
        else areturn 0) (\<lambda>size0.
     delete_contents env path size0))"

definition links_dir :: "daemon_env \<Rightarrow> Path" where
  "links_dir env = de_store env @ ''/.links''"

definition valid_count :: "local_store \<Rightarrow> nat" where
  "valid_count s = length (tbl_ValidPaths (st_db (ls_store s)))"

definition tryToDelete :: "daemon_env \<Rightarrow> Path \<Rightarrow> (unit, gc_state) action" where
  "tryToDelete env path =
     abind (aget fst) (\<lambda>gs.
     if path = links_dir env \<or> path = gs_trashDir gs then areturn ()
     else
     abind (gc_ls (is_valid path)) (\<lambda>v.
     if \<not> v \<and> isActiveTempFile gs path ''.lock'' then areturn ()
     else if \<not> v \<and> isActiveTempFile gs path ''.chroot'' then areturn ()
     else
     abind (aget (valid_count \<circ> snd)) (\<lambda>n.
     abind (gc_ls (ask (\<lambda>db. canReachRoot (Suc (Suc n)) env gs db path ([], gs_alive gs)))) (\<lambda>(reaches, seen, alive).
     abind (gc_mod (\<lambda>gs. gs \<lparr> gs_alive := alive \<rparr>)) (\<lambda>_.
     if reaches then areturn ()
     else
       abind (gc_mod (\<lambda>gs. gs \<lparr> gs_dead := oinsert_all seen (gs_dead gs) \<rparr>)) (\<lambda>_.
       if gs_shouldDelete gs then deletePathRecursive (Suc n) env path else areturn ()))))))"

definition deduplicationMinSize :: nat where
  "deduplicationMinSize = 8192"

definition remove_link :: "Path \<Rightarrow> (unit, gc_state) action" where
  "remove_link path =
     abind (gc_ls (on_fs (or_throw ''statting'' (sys_lstat path)))) (\<lambda>st.
     if st_nlink st \<noteq> 1 \<and> st_size st \<ge> deduplicationMinSize then areturn ()
     else
       abind (gc_ls (on_fs (or_throw ''deleting'' (sys_unlink path)))) (\<lambda>_.
       gc_mod (add_freed (word_of_nat (st_size st)))))"

definition removeUnusedLinks :: "daemon_env \<Rightarrow> (unit, gc_state) action" where
  "removeUnusedLinks env =
     abind (gc_ls (on_fs (or_throw ''opening directory'' (sys_readdir (links_dir env))))) (\<lambda>entries.
     abind (aforeach entries (\<lambda>(name, _). remove_link (links_dir env @ ''/'' @ name))) (\<lambda>_.
     abind (gc_ls (on_fs (or_throw ''statting'' (sys_stat True (links_dir env))))) (\<lambda>_. areturn ())))"

section \<open>Collecting garbage\<close>

definition GCState_init :: "daemon_env \<Rightarrow> GCOptions \<Rightarrow> GCResults \<Rightarrow> GCState" where
  "GCState_init env options results =
     (let disable = (gc_action options = gcDeleteSpecific \<and> ignoreLiveness options) in
      \<lparr> gs_options = options, gs_results = results, gs_roots = [], gs_tempRoots = [], gs_dead = [], gs_alive = [],
        gs_gcKeepOutputs = (gcKeepOutputs (de_settings env) \<and> \<not> disable),
        gs_gcKeepDerivations = (gcKeepDerivations (de_settings env) \<and> \<not> disable),
        gs_bytesInvalidated = 0, gs_moveToTrash = True, gs_trashDir = de_store env @ ''/trash'',
        gs_shouldDelete = (gc_action options = gcDeleteDead \<or> gc_action options = gcDeleteSpecific) \<rparr>)"

text \<open>All roots, with the collector's lock taken first.\<close>

definition gather_roots :: "daemon_env \<Rightarrow> GCOptions \<Rightarrow> (unit, gc_state) action" where
  "gather_roots env options =
     abind (gc_ls (openGCLock env ltWrite)) (\<lambda>_.
     abind (if ignoreLiveness options then areturn [] else gc_ls (findRoots env)) (\<lambda>rootMap.
     abind (if ignoreLiveness options then areturn (oinsert_all (map snd rootMap) [])
            else gc_ls (addAdditionalRoots env (oinsert_all (map snd rootMap) []))) (\<lambda>roots.
     abind (gc_ls (readTempRoots env)) (\<lambda>tempRoots.
     gc_mod (\<lambda>gs. gs \<lparr> gs_tempRoots := tempRoots, gs_roots := oinsert_all tempRoots roots \<rparr>)))))"

definition prepare_trash :: "daemon_env \<Rightarrow> (unit, gc_state) action" where
  "prepare_trash env =
     abind (aget fst) (\<lambda>gs.
     if gs_shouldDelete gs then
       abind (gc_ls (on_fs (pathExists (gs_trashDir gs)))) (\<lambda>ex.
       abind (if ex then deleteGarbage env (gs_trashDir gs) else areturn ()) (\<lambda>_.
       acatch (abind (gc_ls (on_fs (createDirs (gs_trashDir gs)))) (\<lambda>_. areturn ()))
         (\<lambda>c msg. case c of
            SysError e \<Rightarrow> if e = ENOSPC then gc_mod (\<lambda>gs. gs \<lparr> gs_moveToTrash := False \<rparr>) else areturn ()
          | _ \<Rightarrow> athrow (Throw c msg))))
     else areturn ())"

definition delete_specific :: "daemon_env \<Rightarrow> GCOptions \<Rightarrow> (unit, gc_state) action" where
  "delete_specific env options =
     aforeach (pathsToDelete options) (\<lambda>i.
       abind (alift (assertStorePath (de_store env) i)) (\<lambda>_.
       abind (tryToDelete env i) (\<lambda>_.
       abind (aget fst) (\<lambda>gs.
       if i \<notin> set (gs_dead gs) then athrow (Throw Error ''cannot delete path since it is still alive'')
       else areturn ()))))"

definition delete_all_dead :: "daemon_env \<Rightarrow> (unit, gc_state) action" where
  "delete_all_dead env =
     abind (gc_ls (on_fs (or_throw ''opening directory'' (sys_readdir (de_store env))))) (\<lambda>dirents.
     abind (afold (\<lambda>(name, _) entries.
         let path = de_store env @ ''/'' @ name in
         abind (gc_ls (is_valid path)) (\<lambda>v.
         if v then areturn (entries @ [path])
         else abind (tryToDelete env path) (\<lambda>_. areturn entries))) dirents []) (\<lambda>entries.
     aforeach (de_shuffle env entries) (tryToDelete env)))"

definition collect :: "daemon_env \<Rightarrow> GCOptions \<Rightarrow> (unit, gc_state) action" where
  "collect env options =
     abind (gather_roots env options) (\<lambda>_.
     abind (prepare_trash env) (\<lambda>_.
     abind
       (if gc_action options = gcDeleteSpecific then delete_specific env options
        else if maxFreed options > 0 then
          acatch (delete_all_dead env)
            (\<lambda>c msg. if Throw c msg = GCLimitReached then areturn () else athrow (Throw c msg))
        else areturn ()) (\<lambda>_.
     if gc_action options = gcReturnLive then
       gc_mod (\<lambda>gs. gs \<lparr> gs_results := (gs_results gs) \<lparr> gc_paths := gs_alive gs \<rparr> \<rparr>)
     else if gc_action options = gcReturnDead then
       gc_mod (\<lambda>gs. gs \<lparr> gs_results := (gs_results gs) \<lparr> gc_paths := gs_dead gs \<rparr> \<rparr>)
     else
       abind (aget fst) (\<lambda>gs.
       abind (deleteGarbage env (gs_trashDir gs)) (\<lambda>_.
       removeUnusedLinks env)))))"

definition collectGarbage :: "daemon_env \<Rightarrow> GCOptions \<Rightarrow> GCResults \<Rightarrow> local_store \<Rightarrow> (unit result \<times> GCResults) \<times> local_store" where
  "collectGarbage env options results s =
     (case collect env options (GCState_init env options results, s) of
        (r, gs, t) \<Rightarrow> ((r, gs_results gs), t))"

end
