(* ===== verification/Action_Rules.thy ===== *)
theory Action_Rules
  imports PathLocks
begin

text \<open>
  Rules for showing that an action keeps a relation between states, however it ends: one for every way of
  putting actions together.
\<close>

lemma keeps_mono: "keeps R m \<Longrightarrow> (\<And>w v. R w v \<Longrightarrow> S w v) \<Longrightarrow> keeps S m"
  by (simp add: keeps_def)

lemma keeps_afold:
  assumes "reflp R" "transp R" "\<And>x acc. x \<in> set xs \<Longrightarrow> keeps R (f x acc)"
  shows "keeps R (afold f xs acc)"
  using assms(3) by (induction xs arbitrary: acc) (simp_all add: keeps_pure keeps_abind assms(1,2))

lemma keeps_acatch:
  assumes "transp R" "keeps R m" "\<And>c msg. keeps R (h c msg)"
  shows "keeps R (acatch m h)"
proof
  fix s
  obtain r t where m: "m s = (r, t)" by fastforce
  have t: "R s t" using keepsD [OF assms(2), of s] m by simp
  show "R s (snd (acatch m h s))"
  proof (cases "\<exists>c msg. r = Inl (Throw c msg)")
    case True
    then obtain c msg where "r = Inl (Throw c msg)" by blast
    then have "acatch m h s = h c msg t" by (simp add: acatch_def m)
    then show ?thesis using t keepsD [OF assms(3), of t c msg] transpD [OF assms(1)] by metis
  next
    case False
    then have "acatch m h s = (r, t)" by (auto simp: acatch_def m split: sum.split error.split)
    then show ?thesis using t by simp
  qed
qed

lemma keeps_sum: "(\<And>x. keeps R (f x)) \<Longrightarrow> (\<And>y. keeps R (g y)) \<Longrightarrow> keeps R (case r of Inl x \<Rightarrow> f x | Inr y \<Rightarrow> g y)"
  by (cases r) simp_all

lemma keeps_option: "keeps R n \<Longrightarrow> (\<And>x. keeps R (f x)) \<Longrightarrow> keeps R (case r of None \<Rightarrow> n | Some x \<Rightarrow> f x)"
  by (cases r) simp_all

lemma keeps_list: "keeps R n \<Longrightarrow> (\<And>x xs. keeps R (f x xs)) \<Longrightarrow> keeps R (case r of [] \<Rightarrow> n | x # xs \<Rightarrow> f x xs)"
  by (cases r) simp_all

lemma keeps_prod: "(\<And>a b. keeps R (f a b)) \<Longrightarrow> keeps R (case p of (a, b) \<Rightarrow> f a b)"
  by (cases p) simp

lemma keeps_prod_app: "(\<And>a b. keeps R (f a b acc)) \<Longrightarrow> keeps R ((case p of (a, b) \<Rightarrow> f a b) acc)"
  by (cases p) simp

lemma keeps_exn: "(\<And>e. keeps R (f e)) \<Longrightarrow> keeps R n \<Longrightarrow> keeps R (case c of SysError e \<Rightarrow> f e | _ \<Rightarrow> n)"
  by (cases c) simp_all

lemma keeps_fdata: "(\<And>t. keeps R (f t)) \<Longrightarrow> keeps R n \<Longrightarrow> keeps R (case d of DLnk t \<Rightarrow> f t | _ \<Rightarrow> n)"
  by (cases d) simp_all

lemmas keeps_cases = keeps_sum keeps_option keeps_prod keeps_exn keeps_if

section \<open>Keeping a relation unless the program aborts\<close>

text \<open>
  What an action does to the state, however it ends; with \<open>c\<close> nothing is promised of a run that ends in
  a failed assertion, after which there is no state.
\<close>

fun aborted :: "'a result \<Rightarrow> bool" where
  "aborted (Inl (Abort _)) = True"
| "aborted _ = False"

definition carries :: "bool \<Rightarrow> ('s \<Rightarrow> 's \<Rightarrow> bool) \<Rightarrow> ('a, 's) action \<Rightarrow> bool" where
  "carries c R m \<longleftrightarrow> (\<forall>s. c \<and> aborted (fst (m s)) \<or> R s (snd (m s)))"

lemma carries_keeps: "keeps R m \<Longrightarrow> carries c R m"
  by (simp add: carries_def keeps_def)

lemma carries_False [simp]: "carries False R m = keeps R m"
  by (simp add: carries_def keeps_def)

lemma carriesI: "(\<And>s. c \<and> aborted (fst (m s)) \<or> R s (snd (m s))) \<Longrightarrow> carries c R m"
  by (simp add: carries_def)

lemma carriesD: "carries c R m \<Longrightarrow> c \<and> aborted (fst (m s)) \<or> R s (snd (m s))"
  by (simp add: carries_def)

lemma carries_pure:
  assumes "reflp R"
  shows "carries c R (areturn x)" "carries c R (athrow e)" "carries c R (alift r)" "carries c R (aget f)"
  by (intro carries_keeps keeps_pure assms)+

text \<open>The same from states that satisfy a condition.\<close>

definition carries_when :: "('s \<Rightarrow> bool) \<Rightarrow> bool \<Rightarrow> ('s \<Rightarrow> 's \<Rightarrow> bool) \<Rightarrow> ('a, 's) action \<Rightarrow> bool" where
  "carries_when P c R m \<longleftrightarrow> (\<forall>s. P s \<longrightarrow> c \<and> aborted (fst (m s)) \<or> R s (snd (m s)))"

definition stays :: "('s \<Rightarrow> bool) \<Rightarrow> 's \<Rightarrow> 's \<Rightarrow> bool" where
  "stays P s t \<longleftrightarrow> (P s \<longrightarrow> P t)"

lemma when_carries: "carries c R m \<Longrightarrow> carries_when P c R m"
  by (simp add: carries_when_def carries_def)

lemma whenD: "carries_when P c R m \<Longrightarrow> P s \<Longrightarrow> c \<and> aborted (fst (m s)) \<or> R s (snd (m s))"
  by (simp add: carries_when_def)

lemma carries_as_when: "carries c R m = carries_when (\<lambda>_. True) c R m"
  by (simp add: carries_when_def carries_def)

lemma when_then:
  assumes "transp R" "carries_when P c R m" "keeps (stays Q) m" "\<And>x. carries_when Q c R (f x)"
  shows "carries_when (\<lambda>s. P s \<and> Q s) c R (abind m f)"
  unfolding carries_when_def
proof (intro allI impI)
  fix s assume P: "P s \<and> Q s"
  obtain r t where m: "m s = (r, t)" by fastforce
  have Qt: "Q t" using keepsD [OF assms(3), of s] P m by (simp add: stays_def)
  have first: "c \<and> aborted r \<or> R s t" using whenD [OF assms(2), of s] P m by simp
  show "c \<and> aborted (fst (abind m f s)) \<or> R s (snd (abind m f s))"
  proof (cases r)
    case (Inl e)
    then show ?thesis using first m by (cases e) (auto simp: abind_def)
  next
    case (Inr x)
    then show ?thesis using first whenD [OF assms(4) [of x] Qt] m transpD [OF assms(1)] by (auto simp: abind_def)
  qed
qed

lemma when_bind:
  assumes "transp R" "carries_when P c R m" "keeps (stays P) m" "\<And>x. carries_when P c R (f x)"
  shows "carries_when P c R (abind m f)"
  using when_then [OF assms] by simp

lemma stays_True: "keeps (stays (\<lambda>_. True)) m"
  by (simp add: keeps_def stays_def)

lemma carries_abind:
  "transp R \<Longrightarrow> carries c R m \<Longrightarrow> (\<And>x. carries c R (f x)) \<Longrightarrow> carries c R (abind m f)"
  unfolding carries_as_when by (intro when_bind stays_True)

lemma when_last:
  assumes "transp R" "carries_when P c R m" "\<And>x. carries c R (f x)"
  shows "carries_when P c R (abind m f)"
  using when_then [OF assms(1,2) stays_True, of f] assms(3) by (simp add: carries_as_when)

lemma when_catch:
  assumes "transp R" "carries_when P c R m" "\<And>k msg. carries c R (h k msg)"
  shows "carries_when P c R (acatch m h)"
  unfolding carries_when_def
proof (intro allI impI)
  fix s assume P: "P s"
  obtain r t where m: "m s = (r, t)" by fastforce
  show "c \<and> aborted (fst (acatch m h s)) \<or> R s (snd (acatch m h s))"
  proof (cases "\<exists>k msg. r = Inl (Throw k msg)")
    case True
    then obtain k msg where r: "r = Inl (Throw k msg)" by blast
    then have "R s t" using whenD [OF assms(2) P] m by auto
    then show ?thesis using assms(3) [of k msg] m r transpD [OF assms(1)] by (auto simp: acatch_def carries_def)
  next
    case False
    then have "acatch m h s = (r, t)" by (auto simp: acatch_def m split: sum.split error.split)
    then show ?thesis using whenD [OF assms(2) P] m by simp
  qed
qed

lemma carries_acatch:
  "transp R \<Longrightarrow> carries c R m \<Longrightarrow> (\<And>k msg. carries c R (h k msg)) \<Longrightarrow> carries c R (acatch m h)"
  unfolding carries_as_when by (rule when_catch) (simp_all add: carries_as_when)

lemma carries_aforeach:
  assumes "reflp R" "transp R" "\<And>x. x \<in> set xs \<Longrightarrow> carries c R (f x)"
  shows "carries c R (aforeach xs f)"
  using assms(3) by (induction xs) (simp_all add: carries_pure carries_abind assms(1,2))

lemma carries_afold:
  assumes "reflp R" "transp R" "\<And>x acc. x \<in> set xs \<Longrightarrow> carries c R (f x acc)"
  shows "carries c R (afold f xs acc)"
  using assms(3) by (induction xs arbitrary: acc) (simp_all add: carries_pure carries_abind assms(1,2))

lemma carries_if: "(b \<Longrightarrow> carries c R m) \<Longrightarrow> (\<not> b \<Longrightarrow> carries c R n) \<Longrightarrow> carries c R (if b then m else n)"
  by simp

lemma carries_sum:
  "(\<And>x. carries c R (f x)) \<Longrightarrow> (\<And>y. carries c R (g y)) \<Longrightarrow> carries c R (case r of Inl x \<Rightarrow> f x | Inr y \<Rightarrow> g y)"
  by (cases r) simp_all

lemma carries_option:
  "carries c R n \<Longrightarrow> (\<And>x. carries c R (f x)) \<Longrightarrow> carries c R (case r of None \<Rightarrow> n | Some x \<Rightarrow> f x)"
  by (cases r) simp_all

lemma carries_list:
  "carries c R n \<Longrightarrow> (\<And>x xs. carries c R (f x xs)) \<Longrightarrow> carries c R (case r of [] \<Rightarrow> n | x # xs \<Rightarrow> f x xs)"
  by (cases r) simp_all

lemma carries_prod: "(\<And>a b. carries c R (f a b)) \<Longrightarrow> carries c R (case p of (a, b) \<Rightarrow> f a b)"
  by (cases p) simp

lemma carries_prod_app: "(\<And>a b. carries c R (f a b acc)) \<Longrightarrow> carries c R ((case p of (a, b) \<Rightarrow> f a b) acc)"
  by (cases p) simp

lemmas carries_cases = carries_if carries_sum carries_option carries_list carries_prod carries_prod_app

lemma when_if:
  "(b \<Longrightarrow> carries_when P c R m) \<Longrightarrow> (\<not> b \<Longrightarrow> carries_when P c R n) \<Longrightarrow> carries_when P c R (if b then m else n)"
  by simp

lemma when_option:
  "carries_when P c R n \<Longrightarrow> (\<And>x. carries_when P c R (f x)) \<Longrightarrow> carries_when P c R (case r of None \<Rightarrow> n | Some x \<Rightarrow> f x)"
  by (cases r) simp_all

lemma when_prod: "(\<And>a b. carries_when P c R (f a b)) \<Longrightarrow> carries_when P c R (case p of (a, b) \<Rightarrow> f a b)"
  by (cases p) simp

end
