(* ===== verification/Sample_Store.thy ===== *)
theory Sample_Store
  imports PathLocks LocalStore
begin

text \<open>
  A small store on a small file system, on which theorems with hypotheses are applied: one valid path, with a root
  that points to it, and one file in the store directory that is not valid.
\<close>

definition sample_daemon :: daemon_env where
  "sample_daemon =
     \<lparr> de_settings = (Settings_init ''x86_64-linux'' (\<lambda>_. None)) \<lparr> nixStore := ''/s'', nixStateDir := ''/v'' \<rparr>,
       de_gcrypt = sample_gcrypt, de_getenv = (\<lambda>_. None), de_listBusy = Inr [], de_shuffle = id \<rparr>"

definition sample_store_fs :: file_system where
  "sample_store_fs =
     \<lparr> fs_names = [([], 0), ([''s''], 1), ([''v''], 2), ([''v'', ''gcroots''], 3), ([''v'', ''profiles''], 4),
         ([''v'', ''temproots''], 5), ([''s'', ''.links''], 6), ([''s'', ''x''], 7), ([''s'', ''a''], 8),
         ([''v'', ''gcroots'', ''r''], 9)],
       fs_data = (\<lambda>_. DDir)(7 := DReg ''abc'', 8 := DReg ''old'', 9 := DLnk ''/s/x''), fs_perm = (\<lambda>_. 365), fs_uid = (\<lambda>_. 0),
       fs_gid = (\<lambda>_. 0), fs_mtime = (\<lambda>_. 1), fs_next = 10, fs_now = 7, fs_euid = 0, fs_egid = 0, fs_umask = 18,
       fs_pid = 5, fs_rand = [], fs_tempCounter = 0, fs_faults = [] \<rparr>"

definition sample_ls :: local_store where
  "sample_ls =
     \<lparr> ls_store = sample_state, ls_fs = sample_store_fs, ls_fdTempRoots = None, ls_fnTempRoots = [], ls_others = [],
       ls_lockedPaths = [], ls_pathContentsGoodCache = [] \<rparr>"

end
