(* ===== verification/GC_Correct.thy ===== *)
theory GC_Correct
  imports GC Action_Rules Sample_Store
begin

text \<open>
  What the garbage collector guarantees: liveness as reachability over the graph that the database stands for,
  the search decides it, deletion removes only dead paths whatever fails, and a collection that ends normally
  leaves no dead path behind.
\<close>

section \<open>The graph of what keeps what alive\<close>

definition drvout_rel :: "database \<Rightarrow> (Path \<times> Path) set" where
  "drvout_rel db = {(row_path r, path) | r path oid. r \<in> set (tbl_ValidPaths db) \<and> ((row_id r, oid), path) \<in> set (tbl_DerivationOutputs db)}"

definition deriver_rel :: "database \<Rightarrow> (Path \<times> Path) set" where
  "deriver_rel db = {(row_path r, case row_deriver r of None \<Rightarrow> [] | Some d \<Rightarrow> d) | r. r \<in> set (tbl_ValidPaths db)}"

definition gc_keepers :: "GCState \<Rightarrow> database \<Rightarrow> Path \<Rightarrow> Path set" where
  "gc_keepers gs db p =
     {q. (q, p) \<in> refs_rel db} \<union>
     (if gs_gcKeepDerivations gs \<and> isDerivation p then {q. (p, q) \<in> drvout_rel db \<and> (q, p) \<in> deriver_rel db} else {}) \<union>
     (if gs_gcKeepOutputs gs then {q. (q, p) \<in> drvout_rel db} else {})"

definition gc_edges :: "GCState \<Rightarrow> database \<Rightarrow> (Path \<times> Path) set" where
  "gc_edges gs db = {(p, q). p \<in> valid_set db \<and> q \<in> gc_keepers gs db p \<and> q \<noteq> p}"

text \<open>A path is live when a root keeps it alive, directly or through others.\<close>

definition live :: "Path set \<Rightarrow> GCState \<Rightarrow> database \<Rightarrow> Path set" where
  "live roots gs db = {p. \<exists>r \<in> roots. (p, r) \<in> (gc_edges gs db)\<^sup>*}"

lemma gc_keepers_valid:
  "q \<in> gc_keepers gs db p \<Longrightarrow> q \<in> valid_set db"
  using refs_rel_valid [of db]
  by (auto simp: gc_keepers_def drvout_rel_def deriver_rel_def valid_set_def split: if_splits)

lemma set_validDerivers:
  assumes "db_ok g store db"
  shows "set (stmtQueryValidDerivers p db) = {q. (q, p) \<in> drvout_rel db}"
proof -
  have "q \<in> set (stmtQueryValidDerivers p db) \<longleftrightarrow>
      (\<exists>drv oid. ((drv, oid), p) \<in> set (tbl_DerivationOutputs db) \<and> q \<in> set (join_path drv db))" for q
    unfolding stmtQueryValidDerivers_def by (force split: if_splits)
  moreover have "(q, p) \<in> drvout_rel db \<longleftrightarrow>
      (\<exists>drv oid. ((drv, oid), p) \<in> set (tbl_DerivationOutputs db) \<and> (\<exists>s \<in> set (tbl_ValidPaths db). row_id s = drv \<and> row_path s = q))" for q
    unfolding drvout_rel_def by blast
  ultimately show ?thesis unfolding set_join_path [OF assms] by blast
qed

lemma set_queryDerivationOutputs:
  assumes "db_ok g store db" "p \<in> valid_set db"
  obtains outs where "ls_queryDerivationOutputs p db = Inr outs" "set outs = {q. (p, q) \<in> drvout_rel db}"
proof -
  obtain r where r: "path_row p db = Some r" "r \<in> set (tbl_ValidPaths db)" "row_path r = p"
    using valid_row [OF assms(2)] .
  have "set (map snd (stmtQueryDerivationOutputs (row_id r) db)) = {q. (p, q) \<in> drvout_rel db}"
    using r(2,3) row_path_inject [OF assms(1)] unfolding stmtQueryDerivationOutputs_def drvout_rel_def by force
  then show ?thesis
    using that [of "oinsert_all (map snd (stmtQueryDerivationOutputs (row_id r) db)) []"] r(1)
    by (simp add: ls_queryDerivationOutputs_def queryValidPathId_def)
qed

lemma queryDeriver_ok:
  assumes "db_ok g store db" "p \<in> valid_set db"
  obtains d where "ls_queryDeriver g store p db = Inr d" "\<And>d'. (p, d') \<in> deriver_rel db \<longleftrightarrow> d' = d"
proof -
  obtain r where r: "path_row p db = Some r" "r \<in> set (tbl_ValidPaths db)" "row_path r = p"
    using valid_row [OF assms(2)] .
  obtain h where "isStorePath store p" "parseHashField g (row_hash r) = Inr h"
    using db_ok_row [OF assms(1) r(2)] r(3) by (auto simp: row_ok_def)
  then have "ls_queryDeriver g store p db = Inr (case row_deriver r of None \<Rightarrow> [] | Some d \<Rightarrow> d)"
    using r(1) by (simp add: ls_queryDeriver_def queryPathInfo_def assertStorePath_def)
  moreover have "(p, d') \<in> deriver_rel db \<longleftrightarrow> d' = (case row_deriver r of None \<Rightarrow> [] | Some d \<Rightarrow> d)" for d'
  proof
    assume "(p, d') \<in> deriver_rel db"
    then obtain q where q: "q \<in> set (tbl_ValidPaths db)" "row_path q = p" "d' = (case row_deriver q of None \<Rightarrow> [] | Some d \<Rightarrow> d)"
      unfolding deriver_rel_def by blast
    have "q = r" using row_path_inject [OF assms(1) q(1) r(2)] q(2) r(3) by simp
    then show "d' = (case row_deriver r of None \<Rightarrow> [] | Some d \<Rightarrow> d)" using q(3) by simp
  next
    assume "d' = (case row_deriver r of None \<Rightarrow> [] | Some d \<Rightarrow> d)"
    then show "(p, d') \<in> deriver_rel db" using r(2,3) unfolding deriver_rel_def by blast
  qed
  ultimately show ?thesis using that by blast
qed

lemma queryReferrers_ok:
  assumes "db_ok g store db" "p \<in> valid_set db"
  obtains refs where "ls_queryReferrers store p db = Inr refs" "set refs = {q. (q, p) \<in> refs_rel db}"
proof -
  obtain r where "r \<in> set (tbl_ValidPaths db)" "row_path r = p" using valid_row [OF assms(2)] by metis
  then have "isStorePath store p" using db_ok_row [OF assms(1)] by (auto simp: row_ok_def)
  then show ?thesis
    using that [of "queryReferrers_raw p db"] set_queryReferrers_raw [OF assms(1), of p]
    by (auto simp: ls_queryReferrers_def assertStorePath_def)
qed

lemma gc_incoming_ok:
  assumes db: "db_ok (de_gcrypt env) (de_store env) db" and p: "p \<in> valid_set db"
  obtains inc where "gc_incoming env gs db p = Inr inc" "set inc = gc_keepers gs db p"
proof -
  obtain refs where refs: "ls_queryReferrers (de_store env) p db = Inr refs" "set refs = {q. (q, p) \<in> refs_rel db}"
    using queryReferrers_ok [OF db p] .
  define step where "step = (\<lambda>i incoming. if ls_isValidPath i db then
      rbind (ls_queryDeriver (de_gcrypt env) (de_store env) i db) (\<lambda>deriver.
        Inr (if deriver = p then oinsert i incoming else incoming)) else Inr incoming)"
  have loop: "\<exists>t. rfold step xs s = Inr t \<and> set t = set s \<union> {i \<in> set xs. (i, p) \<in> deriver_rel db}" for xs s
  proof (induction xs arbitrary: s)
    case (Cons i xs)
    show ?case
    proof (cases "i \<in> valid_set db")
      case True
      obtain d where "ls_queryDeriver (de_gcrypt env) (de_store env) i db = Inr d" "\<And>d'. (i, d') \<in> deriver_rel db \<longleftrightarrow> d' = d"
        using queryDeriver_ok [OF db True] by blast
      then show ?thesis using Cons.IH [of "if d = p then oinsert i s else s"] True by (auto simp: step_def)
    next
      case False
      then have "(i, p) \<notin> deriver_rel db" by (auto simp: deriver_rel_def valid_set_def)
      then show ?thesis using Cons.IH [of s] False by (auto simp: step_def)
    qed
  qed simp
  obtain outs where outs: "ls_queryDerivationOutputs p db = Inr outs" "set outs = {q. (p, q) \<in> drvout_rel db}"
    using set_queryDerivationOutputs [OF db p] .
  obtain mid where mid: "(if gs_gcKeepDerivations gs \<and> isDerivation p then
      rbind (ls_queryDerivationOutputs p db) (\<lambda>outputs. rfold step outputs refs) else Inr refs) = Inr mid"
    "set mid = set refs \<union> (if gs_gcKeepDerivations gs \<and> isDerivation p then {q. (p, q) \<in> drvout_rel db \<and> (q, p) \<in> deriver_rel db} else {})"
    using loop [of outs refs] outs by (cases "gs_gcKeepDerivations gs \<and> isDerivation p") auto
  obtain r where "r \<in> set (tbl_ValidPaths db)" "row_path r = p" using valid_row [OF p] by metis
  then have st: "assertStorePath (de_store env) p = Inr ()" using db_ok_row [OF db] by (auto simp: row_ok_def assertStorePath_def)
  have "\<exists>inc. gc_incoming env gs db p = Inr inc \<and> set inc = gc_keepers gs db p"
    using mid unfolding gc_incoming_def refs(1) rbind_simps step_def [symmetric] gc_keepers_def refs(2)
    by (auto simp: ls_queryValidDerivers_def st set_validDerivers [OF db])
  then show ?thesis using that by blast
qed

section \<open>The search decides liveness\<close>

definition explored :: "GCState \<Rightarrow> database \<Rightarrow> Path set \<Rightarrow> Path set \<Rightarrow> bool" where
  "explored gs db new all_seen \<longleftrightarrow>
     (\<forall>x \<in> new. x \<notin> set (gs_roots gs) \<and> (\<forall>y. (x, y) \<in> gc_edges gs db \<longrightarrow> y \<in> all_seen \<union> set (gs_dead gs)))"

lemma explored_mono: "explored gs db A S \<Longrightarrow> S \<subseteq> T \<Longrightarrow> explored gs db A T"
  by (auto simp: explored_def)

lemma explored_Un: "explored gs db A S \<Longrightarrow> explored gs db B S \<Longrightarrow> explored gs db (A \<union> B) S"
  by (auto simp: explored_def)

abbreviation gc_live :: "GCState \<Rightarrow> database \<Rightarrow> Path set" where
  "gc_live gs db \<equiv> live (set (gs_roots gs)) gs db"

definition search_ok :: "GCState \<Rightarrow> database \<Rightarrow> Path set \<Rightarrow> Path oset \<Rightarrow> bool \<times> Path oset \<times> Path oset \<Rightarrow> bool" where
  "search_ok gs db ps seen res \<longleftrightarrow>
     (case res of (b, seen', alive') \<Rightarrow>
        set seen \<subseteq> set seen' \<and> set alive' \<subseteq> gc_live gs db \<and> (b \<longrightarrow> (\<exists>p \<in> ps. p \<in> gc_live gs db)) \<and>
        (\<not> b \<longrightarrow> ps \<subseteq> set seen' \<union> set (gs_dead gs) \<and> explored gs db (set seen' - set seen) (set seen')))"

lemma any_reaches_ok:
  assumes f: "\<And>p seen alive res. p \<in> P \<Longrightarrow> S \<subseteq> set seen \<Longrightarrow> f p (seen, alive) = Inr res \<Longrightarrow> set alive \<subseteq> gc_live gs db \<Longrightarrow> search_ok gs db {p} seen res"
  shows "set ps \<subseteq> P \<Longrightarrow> S \<subseteq> set seen \<Longrightarrow> any_reaches f ps (seen, alive) = Inr res \<Longrightarrow> set alive \<subseteq> gc_live gs db \<Longrightarrow> search_ok gs db (set ps) seen res"
proof (induction ps arbitrary: seen alive)
  case Nil
  then show ?case by (auto simp: search_ok_def explored_def)
next
  case (Cons p ps)
  then obtain b s a where fp: "f p (seen, alive) = Inr (b, s, a)"
    and rest: "(if b then Inr (True, s, a) else any_reaches f ps (s, a)) = Inr res"
    by (auto simp: rbind_Inr_iff)
  have one: "search_ok gs db {p} seen (b, s, a)" using f [OF _ _ fp] Cons.prems by simp
  show ?case
  proof (cases b)
    case True
    then show ?thesis using one rest by (auto simp: search_ok_def)
  next
    case False
    then have run: "any_reaches f ps (s, a) = Inr res" using rest by simp
    have a: "set a \<subseteq> gc_live gs db" using one by (simp add: search_ok_def)
    have "S \<subseteq> set s" using one Cons.prems(2) by (auto simp: search_ok_def)
    then have more: "search_ok gs db (set ps) s res" using Cons.IH [OF _ _ run a] Cons.prems(1) by simp
    obtain b' s' a' where res: "res = (b', s', a')" by (cases res)
    have sub: "set seen \<subseteq> set s" "set s \<subseteq> set s'" using one more res by (simp_all add: search_ok_def)
    show ?thesis
    proof (cases b')
      case True
      then show ?thesis using more res sub by (auto simp: search_ok_def)
    next
      case nb: False
      have "explored gs db (set s - set seen) (set s')" "explored gs db (set s' - set s) (set s')"
        using one more res False nb sub explored_mono by (auto simp: search_ok_def)
      then have "explored gs db (set s' - set seen) (set s')"
        using explored_Un [of gs db "set s - set seen" "set s'" "set s' - set s"] by (auto simp: explored_def)
      then show ?thesis using one more res sub False nb by (auto simp: search_ok_def)
    qed
  qed
qed

lemma live_root: "p \<in> set (gs_roots gs) \<Longrightarrow> p \<in> gc_live gs db"
  by (auto simp: live_def)

lemma live_edge: "(p, q) \<in> gc_edges gs db \<Longrightarrow> q \<in> live R gs db \<Longrightarrow> p \<in> live R gs db"
  unfolding live_def by (auto intro: converse_rtrancl_into_rtrancl)

lemma canReachRoot_ok:
  assumes db: "db_ok (de_gcrypt env) (de_store env) db"
  shows "canReachRoot fuel env gs db path (seen, alive) = Inr res \<Longrightarrow> set alive \<subseteq> gc_live gs db \<Longrightarrow>
    search_ok gs db {path} seen res"
proof (induction fuel arbitrary: path seen alive res)
  case (Suc fuel)
  show ?case
  proof (cases "path \<in> set seen \<or> path \<in> set alive \<or> path \<in> set (gs_dead gs) \<or> path \<in> set (gs_roots gs)")
    case True
    then show ?thesis using Suc.prems live_root [of path gs db]
      by (auto simp: search_ok_def explored_def split: if_splits)
  next
    case new: False
    show ?thesis
    proof (cases "path \<in> valid_set db")
      case False
      then have "res = (False, oinsert path seen, alive)" using Suc.prems(1) new by (simp add: Let_def)
      moreover have "(path, y) \<notin> gc_edges gs db" for y using False by (simp add: gc_edges_def)
      ultimately show ?thesis using new Suc.prems(2) by (auto simp: search_ok_def explored_def)
    next
      case True
      obtain inc where inc: "gc_incoming env gs db path = Inr inc" "set inc = gc_keepers gs db path"
        using gc_incoming_ok [OF db True] by blast
      let ?f = "\<lambda>i va. if i \<noteq> path then canReachRoot fuel env gs db i va else Inr (False, va)"
      obtain b s a where run: "any_reaches ?f inc (oinsert path seen, alive) = Inr (b, s, a)"
        and res: "res = (b, s, if b then oinsert path a else a)"
        using Suc.prems(1) new True inc(1) by (auto simp: Let_def rbind_Inr_iff)
      have step: "search_ok gs db {i} seen' r"
        if "{path} \<subseteq> set seen'" "?f i (seen', alive') = Inr r" "set alive' \<subseteq> gc_live gs db" for i seen' alive' r
        using Suc.IH that by (cases "i = path") (auto simp: search_ok_def explored_def)
      have "search_ok gs db (set inc) (oinsert path seen) (b, s, a)"
        by (rule any_reaches_ok [OF step _ _ run Suc.prems(2), of UNIV "{path}"]) simp_all
      then have all: "insert path (set seen) \<subseteq> set s" "set a \<subseteq> gc_live gs db" "b \<longrightarrow> (\<exists>q \<in> gc_keepers gs db path. q \<in> gc_live gs db)"
        "\<not> b \<longrightarrow> gc_keepers gs db path \<subseteq> set s \<union> set (gs_dead gs)" "\<not> b \<longrightarrow> explored gs db (set s - insert path (set seen)) (set s)"
        unfolding search_ok_def inc(2) by auto
      have "b \<Longrightarrow> path \<in> gc_live gs db"
        using all(3) live_edge [of path _ gs db] True by (metis (mono_tags, lifting) case_prodI gc_edges_def mem_Collect_eq)
      moreover have "explored gs db {path} (set s)" if "\<not> b"
        using all(4) that new unfolding explored_def gc_edges_def by auto
      then have "explored gs db (set s - set seen) (set s)" if "\<not> b"
        using all(5) that unfolding explored_def by auto
      ultimately show ?thesis using all res unfolding search_ok_def by auto
    qed
  qed
qed simp

text \<open>A search from scratch that finds no root has seen only dead paths.\<close>

lemma explored_dead:
  assumes "explored gs db S S" "set (gs_dead gs) \<inter> gc_live gs db = {}"
  shows "S \<inter> gc_live gs db = {}"
proof -
  have "x \<notin> S" if "(x, r) \<in> (gc_edges gs db)\<^sup>*" "r \<in> set (gs_roots gs)" for x r
    using that(1)
  proof (induction rule: converse_rtrancl_induct)
    case base
    then show ?case using assms(1) that(2) by (auto simp: explored_def)
  next
    case (step x y)
    have "y \<in> gc_live gs db" using step.hyps(2) that(2) by (auto simp: live_def)
    then have "y \<notin> S \<union> set (gs_dead gs)" using step.IH assms(2) by auto
    then show ?case using assms(1) step.hyps(1) by (auto simp: explored_def)
  qed
  then show ?thesis by (auto simp: live_def)
qed

lemma canReachRoot_decides:
  assumes db: "db_ok (de_gcrypt env) (de_store env) db" and "set alive \<subseteq> gc_live gs db"
    and dead: "set (gs_dead gs) \<inter> gc_live gs db = {}"
    and run: "canReachRoot fuel env gs db path ([], alive) = Inr (b, seen, alive')"
  shows "b \<longleftrightarrow> path \<in> gc_live gs db" "set alive' \<subseteq> gc_live gs db"
    "\<not> b \<Longrightarrow> (set seen \<union> set (gs_dead gs)) \<inter> gc_live gs db = {}" "\<not> b \<Longrightarrow> path \<in> set seen \<union> set (gs_dead gs)"
proof -
  have ok: "search_ok gs db {path} [] (b, seen, alive')" by (rule canReachRoot_ok [OF db run assms(2)])
  then have no: "\<not> b \<Longrightarrow> (set seen \<union> set (gs_dead gs)) \<inter> gc_live gs db = {}"
    using explored_dead [OF _ dead, of "set seen"] dead by (auto simp: search_ok_def)
  then show "\<not> b \<Longrightarrow> (set seen \<union> set (gs_dead gs)) \<inter> gc_live gs db = {}" .
  show "set alive' \<subseteq> gc_live gs db" using ok by (simp add: search_ok_def)
  show in_seen: "\<not> b \<Longrightarrow> path \<in> set seen \<union> set (gs_dead gs)" using ok by (simp add: search_ok_def)
  show "b \<longleftrightarrow> path \<in> gc_live gs db" using no in_seen ok by (cases b) (auto simp: search_ok_def)
qed

text \<open>The search always ends: every nested call is on a valid path not seen before.\<close>

lemma any_reaches_returns:
  assumes f: "\<And>p seen alive. p \<in> P \<Longrightarrow> S \<subseteq> set seen \<Longrightarrow> \<exists>b s a. f p (seen, alive) = Inr (b, s, a) \<and> set seen \<subseteq> set s"
  shows "set ps \<subseteq> P \<Longrightarrow> S \<subseteq> set seen \<Longrightarrow> \<exists>b s a. any_reaches f ps (seen, alive) = Inr (b, s, a) \<and> set seen \<subseteq> set s"
proof (induction ps arbitrary: seen alive)
  case (Cons p ps)
  obtain b s a where "f p (seen, alive) = Inr (b, s, a)" "set seen \<subseteq> set s"
    using f [of p seen alive] Cons.prems by auto
  then show ?case using Cons.IH [of s a] Cons.prems by (cases b) fastforce+
qed auto

lemma canReachRoot_returns:
  assumes db: "db_ok (de_gcrypt env) (de_store env) db"
  shows "card (valid_set db - set seen) < fuel \<Longrightarrow>
    \<exists>b s a. canReachRoot fuel env gs db path (seen, alive) = Inr (b, s, a) \<and> set seen \<subseteq> set s"
proof (induction fuel arbitrary: path seen alive)
  case (Suc fuel)
  show ?case
  proof (cases "path \<in> set seen \<or> path \<in> set alive \<or> path \<in> set (gs_dead gs) \<or> path \<in> set (gs_roots gs) \<or> path \<notin> valid_set db")
    case True
    then show ?thesis by (auto simp: Let_def)
  next
    case False
    obtain inc where inc: "gc_incoming env gs db path = Inr inc"
      using gc_incoming_ok [OF db, of path gs] False by blast
    have fin: "finite (valid_set db)" by (simp add: valid_set_def)
    have step: "\<exists>b s a. (if i \<noteq> path then canReachRoot fuel env gs db i (seen', alive') else Inr (False, (seen', alive'))) = Inr (b, s, a) \<and> set seen' \<subseteq> set s"
      if "insert path (set seen) \<subseteq> set seen'" for i seen' alive'
    proof (cases "i = path")
      case False
      have "valid_set db - set seen' \<subset> valid_set db - set seen"
        using that \<open>\<not> (path \<in> set seen \<or> _)\<close> by blast
      then have "card (valid_set db - set seen') < card (valid_set db - set seen)" using fin by (simp add: psubset_card_mono)
      then show ?thesis using Suc.IH [of seen' i alive'] Suc.prems False by simp
    qed auto
    have "\<exists>b s a. any_reaches (\<lambda>i va. if i \<noteq> path then canReachRoot fuel env gs db i va else Inr (False, va)) inc (oinsert path seen, alive) =
        Inr (b, s, a) \<and> set (oinsert path seen) \<subseteq> set s"
      by (rule any_reaches_returns [of UNIV "insert path (set seen)"]) (use step in auto)
    then show ?thesis using False inc by (auto simp: Let_def)
  qed
qed simp

section \<open>Parts of a database\<close>

text \<open>What invalidating paths leaves: fewer rows, and the tables that refer to them cut down to match.\<close>

definition part_of :: "database \<Rightarrow> database \<Rightarrow> bool" where
  "part_of db' db \<longleftrightarrow>
     set (tbl_ValidPaths db') \<subseteq> set (tbl_ValidPaths db) \<and>
     set (tbl_Refs db') = {e \<in> set (tbl_Refs db). fst e \<in> row_ids db' \<and> snd e \<in> row_ids db'} \<and>
     set (tbl_DerivationOutputs db') = {e \<in> set (tbl_DerivationOutputs db). fst (fst e) \<in> row_ids db'}"

lemma part_of_refl: "db_ok g store db \<Longrightarrow> part_of db db"
  by (auto simp: part_of_def db_ok_def)

lemma part_of_row_ids: "part_of db' db \<Longrightarrow> row_ids db' \<subseteq> row_ids db"
  by (auto simp: part_of_def row_ids_def)

lemma part_of_trans:
  assumes "part_of a b" "part_of b c"
  shows "part_of a c"
proof -
  have ids: "row_ids a \<subseteq> row_ids b" using part_of_row_ids [OF assms(1)] .
  have "set (tbl_Refs a) = {e \<in> set (tbl_Refs c). fst e \<in> row_ids a \<and> snd e \<in> row_ids a}"
    using assms ids by (auto simp: part_of_def)
  moreover have "set (tbl_DerivationOutputs a) = {e \<in> set (tbl_DerivationOutputs c). fst (fst e) \<in> row_ids a}"
    using assms ids by (auto simp: part_of_def)
  moreover have "set (tbl_ValidPaths a) \<subseteq> set (tbl_ValidPaths c)" using assms by (auto simp: part_of_def)
  ultimately show ?thesis by (simp add: part_of_def)
qed

lemma part_of_row:
  assumes "db_ok g store db" "part_of db' db" "r \<in> set (tbl_ValidPaths db)"
  shows "row_path r \<in> valid_set db' \<longleftrightarrow> r \<in> set (tbl_ValidPaths db')" "row_id r \<in> row_ids db' \<longleftrightarrow> r \<in> set (tbl_ValidPaths db')"
proof -
  have sub: "q \<in> set (tbl_ValidPaths db') \<Longrightarrow> q \<in> set (tbl_ValidPaths db)" for q using assms(2) by (auto simp: part_of_def)
  show "row_path r \<in> valid_set db' \<longleftrightarrow> r \<in> set (tbl_ValidPaths db')"
    unfolding valid_set_def using sub row_path_inject [OF assms(1,3)] by blast
  show "row_id r \<in> row_ids db' \<longleftrightarrow> r \<in> set (tbl_ValidPaths db')"
    unfolding row_ids_def using sub row_id_inject [OF assms(1,3)] by blast
qed

lemma part_of_rels:
  assumes "db_ok g store db" "part_of db' db"
  shows "refs_rel db' = refs_rel db \<inter> valid_set db' \<times> valid_set db'"
    "drvout_rel db' = drvout_rel db \<inter> valid_set db' \<times> UNIV"
    "deriver_rel db' = deriver_rel db \<inter> valid_set db' \<times> UNIV"
proof -
  note row = part_of_row [OF assms]
  have sub: "set (tbl_ValidPaths db') \<subseteq> set (tbl_ValidPaths db)" using assms(2) by (simp add: part_of_def)
  show "refs_rel db' = refs_rel db \<inter> valid_set db' \<times> valid_set db'"
  proof (intro subset_antisym subsetI)
    fix e assume "e \<in> refs_rel db'"
    then show "e \<in> refs_rel db \<inter> valid_set db' \<times> valid_set db'"
      using assms(2) sub unfolding refs_rel_def part_of_def valid_set_def by fastforce
  next
    fix e assume "e \<in> refs_rel db \<inter> valid_set db' \<times> valid_set db'"
    then obtain r q where e: "e = (row_path r, row_path q)" "r \<in> set (tbl_ValidPaths db)" "q \<in> set (tbl_ValidPaths db)"
      "(row_id r, row_id q) \<in> set (tbl_Refs db)" "row_path r \<in> valid_set db'" "row_path q \<in> valid_set db'"
      unfolding refs_rel_def by blast
    then have "r \<in> set (tbl_ValidPaths db')" "q \<in> set (tbl_ValidPaths db')" using row by blast+
    moreover have "(row_id r, row_id q) \<in> set (tbl_Refs db')"
      using e calculation assms(2) by (simp add: part_of_def row_ids_def)
    ultimately show "e \<in> refs_rel db'" using e(1) unfolding refs_rel_def by blast
  qed
  show "drvout_rel db' = drvout_rel db \<inter> valid_set db' \<times> UNIV"
  proof (intro subset_antisym subsetI)
    fix e assume "e \<in> drvout_rel db'"
    then show "e \<in> drvout_rel db \<inter> valid_set db' \<times> UNIV"
      using assms(2) sub unfolding drvout_rel_def part_of_def valid_set_def by fastforce
  next
    fix e assume "e \<in> drvout_rel db \<inter> valid_set db' \<times> UNIV"
    then obtain r q oid where e: "e = (row_path r, q)" "r \<in> set (tbl_ValidPaths db)"
      "((row_id r, oid), q) \<in> set (tbl_DerivationOutputs db)" "row_path r \<in> valid_set db'"
      unfolding drvout_rel_def by blast
    then have "r \<in> set (tbl_ValidPaths db')" using row by blast
    moreover have "((row_id r, oid), q) \<in> set (tbl_DerivationOutputs db')"
      using e calculation assms(2) by (simp add: part_of_def row_ids_def)
    ultimately show "e \<in> drvout_rel db'" using e(1) unfolding drvout_rel_def by blast
  qed
  show "deriver_rel db' = deriver_rel db \<inter> valid_set db' \<times> UNIV"
  proof (intro subset_antisym subsetI)
    fix e assume "e \<in> deriver_rel db'"
    then show "e \<in> deriver_rel db \<inter> valid_set db' \<times> UNIV" using sub unfolding deriver_rel_def valid_set_def by blast
  next
    fix e assume "e \<in> deriver_rel db \<inter> valid_set db' \<times> UNIV"
    then show "e \<in> deriver_rel db'" using row unfolding deriver_rel_def by blast
  qed
qed

lemma part_of_edges:
  assumes "db_ok g store db" "part_of db' db"
  shows "gc_edges gs db' = gc_edges gs db \<inter> valid_set db' \<times> valid_set db'"
proof -
  note rels = part_of_rels [OF assms]
  have sub: "valid_set db' \<subseteq> valid_set db" using assms(2) by (auto simp: part_of_def valid_set_def)
  have "q \<in> gc_keepers gs db' p \<longleftrightarrow> q \<in> gc_keepers gs db p \<and> q \<in> valid_set db'" if "p \<in> valid_set db'" for p q
    using that unfolding gc_keepers_def rels by auto
  then show ?thesis using sub unfolding gc_edges_def by blast
qed

text \<open>A part that has kept every live path has the same live paths among those it has.\<close>

lemma part_of_live:
  assumes db: "db_ok g store db" and part: "part_of db' db" and keep: "live R gs db \<inter> valid_set db \<subseteq> valid_set db'"
  shows "live R gs db' = live R gs db"
proof -
  note edges = part_of_edges [OF db part, of gs]
  have "(p, r) \<in> (gc_edges gs db')\<^sup>*" if "(p, r) \<in> (gc_edges gs db)\<^sup>*" "r \<in> R" for p r
    using that(1)
  proof (induction rule: converse_rtrancl_induct)
    case (step x y)
    have y: "y \<in> live R gs db" using step.hyps(2) that(2) by (auto simp: live_def)
    then have x: "x \<in> live R gs db" using live_edge [OF step.hyps(1)] by blast
    have "x \<in> valid_set db" "y \<in> valid_set db" using step.hyps(1) gc_keepers_valid by (auto simp: gc_edges_def)
    then have "x \<in> valid_set db'" "y \<in> valid_set db'" using x y keep by blast+
    then have "(x, y) \<in> gc_edges gs db'" using step.hyps(1) edges by blast
    then show ?case using step.IH by (rule converse_rtrancl_into_rtrancl)
  qed simp
  moreover have "(gc_edges gs db')\<^sup>* \<subseteq> (gc_edges gs db)\<^sup>*" by (rule rtrancl_mono) (use edges in blast)
  ultimately show ?thesis unfolding live_def by blast
qed

lemma stmtInvalidatePath_part:
  assumes "db_ok g store db" "stmtInvalidatePath p db = Inr db'"
  shows "part_of db' db"
proof (cases "path_row p db")
  case None
  then have "stmtInvalidatePath p db = Inr db" by (simp only: stmtInvalidatePath_def option.case)
  then show ?thesis using assms part_of_refl by auto
next
  case (Some r)
  then have r: "r \<in> set (tbl_ValidPaths db)" "row_path r = p" using path_row_Some [OF assms(1)] by auto
  let ?refs = "filter (\<lambda>e. e \<noteq> (row_id r, row_id r)) (tbl_Refs db)"
  have eq: "\<not> (\<exists>e \<in> set ?refs. snd e = row_id r)"
    "db' = db \<lparr> tbl_ValidPaths := filter (\<lambda>r. row_path r \<noteq> p) (tbl_ValidPaths db),
      tbl_Refs := filter (\<lambda>e. fst e \<noteq> row_id r) ?refs,
      tbl_DerivationOutputs := filter (\<lambda>e. fst (fst e) \<noteq> row_id r) (tbl_DerivationOutputs db) \<rparr>"
    using assms(2) unfolding stmtInvalidatePath_def Some option.case Let_def by (simp_all split: if_splits)
  have ids: "row_ids db' = row_ids db - {row_id r}"
  proof -
    have "q \<in> set (tbl_ValidPaths db) \<Longrightarrow> row_path q = p \<longleftrightarrow> row_id q = row_id r" for q
      using row_path_inject [OF assms(1) _ r(1), of q] row_id_inject [OF assms(1) _ r(1), of q] r(2) by auto
    then show ?thesis unfolding row_ids_def eq(2) by auto
  qed
  have "fst e \<in> row_ids db" "snd e \<in> row_ids db" if "e \<in> set (tbl_Refs db)" for e
    using assms(1) that by (auto simp: db_ok_def)
  then have "set (tbl_Refs db') = {e \<in> set (tbl_Refs db). fst e \<in> row_ids db' \<and> snd e \<in> row_ids db'}"
    using eq(1) unfolding ids by (auto simp: eq(2))
  moreover have "set (tbl_DerivationOutputs db') = {e \<in> set (tbl_DerivationOutputs db). fst (fst e) \<in> row_ids db'}"
    using assms(1) unfolding ids by (auto simp: db_ok_def eq(2))
  moreover have "set (tbl_ValidPaths db') \<subseteq> set (tbl_ValidPaths db)" by (simp add: eq(2))
  ultimately show ?thesis unfolding part_of_def by blast
qed

section \<open>Only dead paths are deleted\<close>

abbreviation ls_db :: "local_store \<Rightarrow> database" where
  "ls_db s \<equiv> st_db (ls_store s)"

definition same_flags :: "GCState \<Rightarrow> GCState \<Rightarrow> bool" where
  "same_flags gs gs' \<longleftrightarrow>
     gs_roots gs' = gs_roots gs \<and> gs_gcKeepOutputs gs' = gs_gcKeepOutputs gs \<and>
     gs_gcKeepDerivations gs' = gs_gcKeepDerivations gs \<and> gs_shouldDelete gs' = gs_shouldDelete gs \<and>
     gs_trashDir gs' = gs_trashDir gs"

lemma same_flags_live:
  assumes "same_flags gs gs'"
  shows "live R gs' db = live R gs db" "gc_edges gs' db = gc_edges gs db" "gc_live gs' db = gc_live gs db"
proof -
  have "gc_edges gs' db = gc_edges gs db"
    using assms unfolding gc_edges_def gc_keepers_def same_flags_def by simp
  then show "live R gs' db = live R gs db" "gc_edges gs' db = gc_edges gs db" "gc_live gs' db = gc_live gs db"
    using assms by (simp_all add: live_def same_flags_def)
qed

text \<open>
  The invariant of a collection that started with the roots and options of \<open>gs0\<close> on the database \<open>db0\<close>: what
  was live is still there, what is believed alive or dead is.
\<close>

definition gc_inv :: "daemon_env \<Rightarrow> GCState \<Rightarrow> database \<Rightarrow> gc_state \<Rightarrow> bool" where
  "gc_inv env gs0 db0 = (\<lambda>(gs, s).
     same_flags gs0 gs \<and> db_ok (de_gcrypt env) (de_store env) (ls_db s) \<and> part_of (ls_db s) db0 \<and>
     gc_live gs0 db0 \<inter> valid_set db0 \<subseteq> valid_set (ls_db s) \<and>
     set (gs_alive gs) \<subseteq> gc_live gs0 db0 \<and> set (gs_dead gs) \<inter> gc_live gs0 db0 = {})"

definition gc_keeps :: "daemon_env \<Rightarrow> GCState \<Rightarrow> database \<Rightarrow> gc_state \<Rightarrow> gc_state \<Rightarrow> bool" where
  "gc_keeps env gs0 db0 st st' \<longleftrightarrow>
     (gc_inv env gs0 db0 st \<longrightarrow> gc_inv env gs0 db0 st' \<and> part_of (ls_db (snd st')) (ls_db (snd st)))"

lemma gc_keeps_rel: "reflp (gc_keeps env gs0 db0)" "transp (gc_keeps env gs0 db0)"
  by (auto simp: gc_keeps_def reflp_def transp_def gc_inv_def intro: part_of_refl part_of_trans)

lemmas gc_keeps_pure = keeps_pure [OF gc_keeps_rel(1)]
lemmas gc_keeps_abind = keeps_abind [OF gc_keeps_rel(2)]
lemmas gc_keeps_aforeach = keeps_aforeach [OF gc_keeps_rel]

text \<open>Work on the file system and queries do not touch the database.\<close>

definition same_store :: "local_store \<Rightarrow> local_store \<Rightarrow> bool" where
  "same_store s t \<longleftrightarrow> ls_store t = ls_store s"

lemma same_store_rel: "reflp same_store" "transp same_store"
  by (auto simp: same_store_def reflp_def transp_def)

lemma keeps_on_fs: "keeps same_store (on_fs m)"
  by (rule keepsI) (simp add: on_fs_def same_store_def split: prod.split)

lemma keeps_ask: "keeps same_store (ask q)" "keeps same_store (is_valid p)"
  by (simp_all add: keeps_def ask_def is_valid_def same_store_def)

lemma keeps_lockFile: "keeps same_store (lockFile fd t w)"
  by (rule keepsI) (auto simp: lockFile_def same_store_def Let_def split: list.split option.split)

lemma gc_keeps_ls:
  assumes "keeps same_store m"
  shows "keeps (gc_keeps env gs0 db0) (gc_ls m)"
proof
  fix st :: gc_state
  obtain gs s where st: "st = (gs, s)" by (cases st)
  obtain r t where m: "m s = (r, t)" by fastforce
  have "ls_store t = ls_store s" using keepsD [OF assms, of s] m by (simp add: same_store_def)
  then show "gc_keeps env gs0 db0 st (snd (gc_ls m st))"
    by (auto simp: st gc_ls_def m gc_keeps_def gc_inv_def intro: part_of_refl)
qed

lemma gc_keeps_mod:
  assumes "\<And>gs. same_flags gs (f gs)" "\<And>gs. gs_alive (f gs) = gs_alive gs" "\<And>gs. gs_dead (f gs) = gs_dead gs"
  shows "keeps (gc_keeps env gs0 db0) (gc_mod f)"
proof
  fix st :: gc_state
  obtain gs s where "st = (gs, s)" by (cases st)
  then show "gc_keeps env gs0 db0 st (snd (gc_mod f st))"
    using assms [of gs] by (auto simp: gc_mod_def gc_keeps_def gc_inv_def same_flags_def action_run intro: part_of_refl)
qed

lemmas gc_keeps_fs = gc_keeps_ls [OF keeps_on_fs]

lemma gc_keeps_deleteGarbage: "keeps (gc_keeps env gs0 db0) (deleteGarbage env path)"
  unfolding deleteGarbage_def Let_def
  by (intro gc_keeps_abind gc_keeps_fs gc_keeps_mod) (simp_all add: add_freed_def same_flags_def)

lemma gc_keeps_delete_contents: "keeps (gc_keeps env gs0 db0) (delete_contents env path n)"
  unfolding delete_contents_def
  by (intro gc_keeps_abind gc_keeps_fs gc_keeps_pure gc_keeps_mod gc_keeps_deleteGarbage keeps_cases
      keeps_acatch [OF gc_keeps_rel(2)]) (simp_all add: same_flags_def)

lemma invalidatePathChecked_db:
  assumes "db_ok g store (st_db s)"
  shows "st_db (snd (invalidatePathChecked store p s)) = st_db s \<or>
    stmtInvalidatePath p (st_db s) = Inr (st_db (snd (invalidatePathChecked store p s)))"
proof -
  obtain r t where run: "invalidatePathChecked store p s = (r, t)" by fastforce
  show ?thesis
  proof (cases r)
    case (Inl e)
    then show ?thesis using invalidatePathChecked_ok [OF assms, of p] run by simp
  next
    case (Inr u)
    have "st_db t = st_db s \<or> stmtInvalidatePath p (st_db s) = Inr (st_db t)"
      using run Inr unfolding invalidatePathChecked_def invalidatePath_def
      by (auto simp: run_Inr SQLiteTxn_Inr amodify_def abind_Inr action_run split: if_splits)
    then show ?thesis by (simp add: run)
  qed
qed

lemma gc_keeps_invalidate:
  assumes "path \<notin> gc_live gs0 db0"
  shows "keeps (gc_keeps env gs0 db0) (gc_ls (on_store (invalidatePathChecked (de_store env) path)))"
proof
  fix st :: gc_state
  obtain gs s where st: "st = (gs, s)" by (cases st)
  let ?t = "snd (invalidatePathChecked (de_store env) path (ls_store s))"
  have eq: "snd (gc_ls (on_store (invalidatePathChecked (de_store env) path)) st) = (gs, s \<lparr> ls_store := ?t \<rparr>)"
    by (simp add: st gc_ls_def on_store_def split: prod.split)
  show "gc_keeps env gs0 db0 st (snd (gc_ls (on_store (invalidatePathChecked (de_store env) path)) st))"
    unfolding eq gc_keeps_def
  proof
    assume inv: "gc_inv env gs0 db0 st"
    then have db: "db_ok (de_gcrypt env) (de_store env) (ls_db s)" by (simp add: gc_inv_def st)
    from invalidatePathChecked_db [OF db, of path]
    show "gc_inv env gs0 db0 (gs, s \<lparr> ls_store := ?t \<rparr>) \<and> part_of (ls_db (snd (gs, s \<lparr> ls_store := ?t \<rparr>))) (ls_db (snd st))"
    proof
      assume "st_db ?t = st_db (ls_store s)"
      then show ?thesis using inv db by (auto simp: gc_inv_def st intro: part_of_refl)
    next
      assume run: "stmtInvalidatePath path (ls_db s) = Inr (st_db ?t)"
      have part: "part_of (st_db ?t) (ls_db s)" by (rule stmtInvalidatePath_part [OF db run])
      moreover have "db_ok (de_gcrypt env) (de_store env) (st_db ?t)" "valid_set (st_db ?t) = valid_set (ls_db s) - {path}"
        using stmtInvalidatePath_ok [OF db, of path] run by simp_all
      ultimately show ?thesis using inv assms part_of_trans by (auto simp: gc_inv_def st)
    qed
  qed
qed

text \<open>Relative to the present database the live paths are the same.\<close>

lemma gc_inv_live:
  assumes "gc_inv env gs0 db0 (gs, s)" "db_ok (de_gcrypt env) (de_store env) db0"
  shows "gc_live gs (ls_db s) = gc_live gs0 db0"
proof -
  have f: "same_flags gs0 gs" and part: "part_of (ls_db s) db0" and keep: "gc_live gs0 db0 \<inter> valid_set db0 \<subseteq> valid_set (ls_db s)"
    using assms(1) by (simp_all add: gc_inv_def)
  show ?thesis using same_flags_live(3) [OF f] part_of_live [OF assms(2) part keep] by simp
qed

lemma dead_referrer:
  assumes "gc_inv env gs0 db0 (gs, s)" "db_ok (de_gcrypt env) (de_store env) db0"
    and "path \<notin> gc_live gs0 db0" "(q, path) \<in> refs_rel (ls_db s)" "q \<noteq> path"
  shows "q \<notin> gc_live gs0 db0"
proof
  assume "q \<in> gc_live gs0 db0"
  then have "q \<in> gc_live gs (ls_db s)" using gc_inv_live [OF assms(1,2)] by simp
  moreover have "(path, q) \<in> gc_edges gs (ls_db s)"
    using assms(4,5) refs_rel_valid [of "ls_db s"] by (auto simp: gc_edges_def gc_keepers_def)
  ultimately show False using live_edge gc_inv_live [OF assms(1,2)] assms(3) by blast
qed

lemma gc_keeps_deletePathRecursive:
  assumes db0: "db_ok (de_gcrypt env) (de_store env) db0"
  shows "path \<notin> gc_live gs0 db0 \<Longrightarrow> keeps (gc_keeps env gs0 db0) (deletePathRecursive fuel env path)"
proof (induction fuel arbitrary: path)
  case 0
  then show ?case by (simp add: gc_keeps_pure)
next
  case (Suc fuel)
  have refs: "keeps (gc_keeps env gs0 db0) (abind (gc_ls (ask (ls_queryReferrers (de_store env) path))) (\<lambda>referrers.
      abind (aforeach referrers (\<lambda>i. if i \<noteq> path then deletePathRecursive fuel env i else areturn ())) f))"
    if "\<And>x. keeps (gc_keeps env gs0 db0) (f x)" for f :: "unit \<Rightarrow> ('b, gc_state) action"
  proof
    fix st :: gc_state
    obtain gs s where st: "st = (gs, s)" by (cases st)
    let ?loop = "\<lambda>referrers. abind (aforeach referrers (\<lambda>i. if i \<noteq> path then deletePathRecursive fuel env i else areturn ())) f"
    show "gc_keeps env gs0 db0 st (snd (abind (gc_ls (ask (ls_queryReferrers (de_store env) path))) ?loop st))"
    proof (cases "gc_inv env gs0 db0 st")
      case inv: True
      show ?thesis
      proof (cases "ls_queryReferrers (de_store env) path (ls_db s)")
        case (Inl e)
        then have "abind (gc_ls (ask (ls_queryReferrers (de_store env) path))) ?loop st = (Inl e, st)"
          by (simp add: abind_def gc_ls_def ask_def st)
        then show ?thesis using reflpD [OF gc_keeps_rel(1)] by simp
      next
        case (Inr referrers)
        then have run: "abind (gc_ls (ask (ls_queryReferrers (de_store env) path))) ?loop st = ?loop referrers st"
          by (simp add: abind_def gc_ls_def ask_def st)
        have db: "db_ok (de_gcrypt env) (de_store env) (ls_db s)" using inv by (simp add: gc_inv_def st)
        have "set referrers = {q. (q, path) \<in> refs_rel (ls_db s)}"
          using Inr set_queryReferrers_raw [OF db, of path] by (auto simp: ls_queryReferrers_def rbind_Inr_iff)
        then have "keeps (gc_keeps env gs0 db0) (if i \<noteq> path then deletePathRecursive fuel env i else areturn ())"
          if "i \<in> set referrers" for i
          using that dead_referrer [OF inv [unfolded st] db0 Suc.prems] Suc.IH by (auto intro: keeps_if gc_keeps_pure)
        then have "keeps (gc_keeps env gs0 db0) (?loop referrers)"
          by (intro gc_keeps_abind gc_keeps_aforeach \<open>\<And>x. keeps _ (f x)\<close>)
        then show ?thesis unfolding run by (rule keepsD)
      qed
    qed (simp add: gc_keeps_def)
  qed
  show ?case
    unfolding deletePathRecursive.simps
    by (intro gc_keeps_abind gc_keeps_ls keeps_ask keeps_if gc_keeps_pure gc_keeps_delete_contents refs
        gc_keeps_invalidate [OF Suc.prems])
qed

declare canReachRoot.simps [simp del] deletePathRecursive.simps [simp del]

lemma tryToDelete_run:
  "tryToDelete env path (gs, s) =
     (if path = links_dir env \<or> path = gs_trashDir gs \<or>
         path \<notin> valid_set (ls_db s) \<and> (isActiveTempFile gs path ''.lock'' \<or> isActiveTempFile gs path ''.chroot'')
      then (Inr (), gs, s)
      else
        (case canReachRoot (Suc (Suc (valid_count s))) env gs (ls_db s) path ([], gs_alive gs) of
           Inl e \<Rightarrow> (Inl e, gs, s)
         | Inr (b, seen, alive) \<Rightarrow>
             if b then (Inr (), gs \<lparr> gs_alive := alive \<rparr>, s)
             else
               let gs' = gs \<lparr> gs_alive := alive, gs_dead := oinsert_all seen (gs_dead gs) \<rparr> in
               if gs_shouldDelete gs then deletePathRecursive (Suc (valid_count s)) env path (gs', s)
               else (Inr (), gs', s)))"
  unfolding tryToDelete_def
  by (auto simp: abind_def gc_ls_def is_valid_def ask_def gc_mod_def action_run Let_def split: sum.split prod.split if_splits)

lemma search_inv:
  assumes db0: "db_ok (de_gcrypt env) (de_store env) db0" and inv: "gc_inv env gs0 db0 (gs, s)"
    and run: "canReachRoot n env gs (ls_db s) path ([], gs_alive gs) = Inr (b, seen, alive)"
  shows "b \<longleftrightarrow> path \<in> gc_live gs0 db0" "gc_inv env gs0 db0 (gs \<lparr> gs_alive := alive \<rparr>, s)"
    "\<not> b \<Longrightarrow> gc_inv env gs0 db0 (gs \<lparr> gs_alive := alive, gs_dead := oinsert_all seen (gs_dead gs) \<rparr>, s)"
proof -
  have l: "gc_live gs (ls_db s) = gc_live gs0 db0" by (rule gc_inv_live [OF inv db0])
  have db: "db_ok (de_gcrypt env) (de_store env) (ls_db s)" and a: "set (gs_alive gs) \<subseteq> gc_live gs (ls_db s)"
    and d: "set (gs_dead gs) \<inter> gc_live gs (ls_db s) = {}" using inv l by (auto simp: gc_inv_def)
  note dec = canReachRoot_decides [OF db a d run]
  show "b \<longleftrightarrow> path \<in> gc_live gs0 db0" using dec(1) l by simp
  show "gc_inv env gs0 db0 (gs \<lparr> gs_alive := alive \<rparr>, s)"
    using inv dec(2) l by (simp add: gc_inv_def same_flags_def)
  show "gc_inv env gs0 db0 (gs \<lparr> gs_alive := alive, gs_dead := oinsert_all seen (gs_dead gs) \<rparr>, s)" if "\<not> b"
    using inv dec(2) dec(3) [OF that] l by (simp add: gc_inv_def same_flags_def)
qed

lemma gc_keeps_tryToDelete:
  assumes db0: "db_ok (de_gcrypt env) (de_store env) db0"
  shows "keeps (gc_keeps env gs0 db0) (tryToDelete env path)"
proof
  fix st :: gc_state
  obtain gs s where st: "st = (gs, s)" by (cases st)
  show "gc_keeps env gs0 db0 st (snd (tryToDelete env path st))"
  proof (cases "gc_inv env gs0 db0 st")
    case True
    then have inv: "gc_inv env gs0 db0 (gs, s)" by (simp add: st)
    have refl: "part_of (ls_db s) (ls_db s)" using inv part_of_refl by (auto simp: gc_inv_def)
    show ?thesis
    proof (cases "canReachRoot (Suc (Suc (valid_count s))) env gs (ls_db s) path ([], gs_alive gs)")
      case (Inl e)
      then show ?thesis using inv refl by (simp add: st tryToDelete_run gc_keeps_def)
    next
      case (Inr res)
      obtain b seen alive where res: "res = (b, seen, alive)" by (cases res)
      note si = search_inv [OF db0 inv Inr [unfolded res]]
      show ?thesis
      proof (cases b)
        case True
        then show ?thesis using inv refl si(2) Inr res by (simp add: st tryToDelete_run gc_keeps_def)
      next
        case False
        let ?gs = "gs \<lparr> gs_alive := alive, gs_dead := oinsert_all seen (gs_dead gs) \<rparr>"
        have "path \<notin> gc_live gs0 db0" using si(1) False by simp
        then have "gc_keeps env gs0 db0 (?gs, s) (snd (deletePathRecursive n env path (?gs, s)))" for n
          using keepsD [OF gc_keeps_deletePathRecursive [OF db0]] by blast
        then show ?thesis
          using inv refl si(3) [OF False] Inr res False by (simp add: st tryToDelete_run gc_keeps_def Let_def)
      qed
    qed
  qed (simp add: gc_keeps_def)
qed

lemma gc_keeps_delete_specific:
  "db_ok (de_gcrypt env) (de_store env) db0 \<Longrightarrow> keeps (gc_keeps env gs0 db0) (delete_specific env options)"
  unfolding delete_specific_def
  by (intro gc_keeps_aforeach gc_keeps_abind gc_keeps_pure gc_keeps_tryToDelete keeps_cases)

lemma gc_keeps_delete_all_dead:
  "db_ok (de_gcrypt env) (de_store env) db0 \<Longrightarrow> keeps (gc_keeps env gs0 db0) (delete_all_dead env)"
  unfolding delete_all_dead_def Let_def
  by (intro gc_keeps_aforeach gc_keeps_abind gc_keeps_pure gc_keeps_tryToDelete gc_keeps_fs keeps_cases
      keeps_afold [OF gc_keeps_rel] keeps_prod_app gc_keeps_ls keeps_ask)

lemma gc_keeps_prepare_trash: "keeps (gc_keeps env gs0 db0) (prepare_trash env)"
  unfolding prepare_trash_def
  by (intro gc_keeps_abind gc_keeps_pure gc_keeps_fs keeps_cases keeps_acatch [OF gc_keeps_rel(2)]
      gc_keeps_deleteGarbage gc_keeps_mod) (simp_all add: same_flags_def)

lemma gc_keeps_removeUnusedLinks: "keeps (gc_keeps env gs0 db0) (removeUnusedLinks env)"
  unfolding removeUnusedLinks_def remove_link_def
  by (intro gc_keeps_abind gc_keeps_pure gc_keeps_fs keeps_cases gc_keeps_aforeach gc_keeps_mod)
    (simp_all add: same_flags_def add_freed_def)

definition collect_rest :: "daemon_env \<Rightarrow> GCOptions \<Rightarrow> (unit, gc_state) action" where
  "collect_rest env options =
     abind (prepare_trash env) (\<lambda>_.
     abind
       (if gc_action options = gcDeleteSpecific then delete_specific env options
        else if maxFreed options > 0 then
          acatch (delete_all_dead env)
            (\<lambda>c msg. if Throw c msg = GCLimitReached then areturn () else athrow (Throw c msg))
        else areturn ()) (\<lambda>_.
     if gc_action options = gcReturnLive then
       gc_mod (\<lambda>gs. gs \<lparr> gs_results := (gs_results gs) \<lparr> gc_paths := gs_alive gs \<rparr> \<rparr>)
     else if gc_action options = gcReturnDead then
       gc_mod (\<lambda>gs. gs \<lparr> gs_results := (gs_results gs) \<lparr> gc_paths := gs_dead gs \<rparr> \<rparr>)
     else
       abind (aget fst) (\<lambda>gs.
       abind (deleteGarbage env (gs_trashDir gs)) (\<lambda>_.
       removeUnusedLinks env))))"

lemma collect_split: "collect env options = abind (gather_roots env options) (\<lambda>_. collect_rest env options)"
  by (simp add: collect_def collect_rest_def)

lemma gc_keeps_collect_rest:
  "db_ok (de_gcrypt env) (de_store env) db0 \<Longrightarrow> keeps (gc_keeps env gs0 db0) (collect_rest env options)"
  unfolding collect_rest_def
  by (intro gc_keeps_abind gc_keeps_pure keeps_cases gc_keeps_prepare_trash gc_keeps_delete_specific gc_keeps_delete_all_dead
      keeps_acatch [OF gc_keeps_rel(2)] gc_keeps_mod gc_keeps_deleteGarbage gc_keeps_removeUnusedLinks)
    (simp_all add: same_flags_def)

text \<open>Gathering the roots leaves the database alone.\<close>

lemmas same_store_pure = keeps_pure [OF same_store_rel(1)]
lemmas same_store_abind = keeps_abind [OF same_store_rel(2)]

lemma keeps_openGCLock: "keeps same_store (openGCLock env t)"
  unfolding openGCLock_def by (intro same_store_abind same_store_pure keeps_on_fs keeps_lockFile keeps_cases)

lemma keeps_foundRoot: "keeps same_store (foundRoot env p t roots)"
  unfolding foundRoot_def by (intro same_store_abind same_store_pure keeps_ask)

lemma keeps_findRoots_rec: "keeps same_store (findRoots_rec fuel env path type roots)"
proof (induction fuel arbitrary: path type roots)
  case (Suc fuel)
  show ?case unfolding findRoots_rec.simps Let_def
    by (intro keeps_acatch [OF same_store_rel(2)] same_store_abind same_store_pure keeps_on_fs keeps_ask keeps_cases keeps_fdata
        keeps_afold [OF same_store_rel] keeps_prod_app keeps_foundRoot Suc.IH)
qed (simp add: same_store_pure)

lemma keeps_findRoots: "keeps same_store (findRoots env)"
  unfolding findRoots_def findRoots_from_def
  by (intro same_store_abind same_store_pure keeps_on_fs keeps_cases keeps_findRoots_rec)

lemma keeps_addAdditionalRoots: "keeps same_store (addAdditionalRoots env roots)"
  unfolding addAdditionalRoots_def
  by (intro same_store_abind same_store_pure keeps_ask keeps_cases keeps_afold [OF same_store_rel] keeps_prod_app)

lemma keeps_readTempRoots: "keeps same_store (readTempRoots env)"
  unfolding readTempRoots_def read_temp_file_def Let_def
  by (intro same_store_abind same_store_pure keeps_on_fs keeps_lockFile keeps_cases keeps_afold [OF same_store_rel] keeps_prod_app)

lemma gather_roots_db: "snd (snd (gather_roots env options (gs, s))) = t \<Longrightarrow> ls_store t = ls_store s"
proof -
  have ls: "keeps (\<lambda>(_, s) (_, t). same_store s t) (gc_ls m)" if "keeps same_store m" for m :: "('a, local_store) action"
  proof
    fix st :: gc_state
    show "(\<lambda>(_, s) (_, t). same_store s t) st (snd (gc_ls m st))"
      using keepsD [OF that, of "snd st"] by (cases st; cases "m (snd st)") (simp add: gc_ls_def)
  qed
  have rel: "reflp (\<lambda>(_ :: GCState, s) (_ :: GCState, t). same_store s t)" "transp (\<lambda>(_ :: GCState, s) (_ :: GCState, t). same_store s t)"
    by (auto simp: reflp_def transp_def same_store_def)
  have md: "keeps (\<lambda>(_, s) (_, t). same_store s t) (gc_mod f)" for f
    by (rule keepsI) (simp add: gc_mod_def action_run same_store_def split: prod.split)
  have "keeps (\<lambda>(_, s) (_, t). same_store s t) (gather_roots env options)"
    unfolding gather_roots_def
    by (intro keeps_abind [OF rel(2)] keeps_pure [OF rel(1)] ls md keeps_cases keeps_openGCLock keeps_findRoots
        keeps_addAdditionalRoots keeps_readTempRoots)
  from keepsD [OF this, of "(gs, s)"] show "snd (snd (gather_roots env options (gs, s))) = t \<Longrightarrow> ls_store t = ls_store s"
    by (simp add: same_store_def split: prod.splits)
qed

lemma gather_roots_flags:
  assumes "gather_roots env options (gs, s) = (Inr (), gs', s')"
  shows "gs_alive gs' = gs_alive gs" "gs_dead gs' = gs_dead gs" "gs_shouldDelete gs' = gs_shouldDelete gs"
    "gs_trashDir gs' = gs_trashDir gs" "gs_options gs' = gs_options gs"
proof -
  have ls: "gc_ls m (gs1, s1) = (Inr x, gs2, s2) \<Longrightarrow> gs2 = gs1" for m :: "('a, local_store) action" and gs1 s1 x gs2 s2
    by (auto simp: gc_ls_def split: prod.splits)
  have "\<exists>roots temps. gs' = gs \<lparr> gs_tempRoots := temps, gs_roots := roots \<rparr>"
    using assms unfolding gather_roots_def
    by (auto simp: abind_Inr areturn_Inr gc_mod_def amodify_def split: if_splits dest!: ls)
  then show "gs_alive gs' = gs_alive gs" "gs_dead gs' = gs_dead gs" "gs_shouldDelete gs' = gs_shouldDelete gs"
    "gs_trashDir gs' = gs_trashDir gs" "gs_options gs' = gs_options gs" by auto
qed

lemma gc_inv_start:
  assumes "gather_roots env options (GCState_init env options results, s) = (Inr (), gs, s1)"
    and "db_ok (de_gcrypt env) (de_store env) (ls_db s)"
  shows "gc_inv env gs (ls_db s) (gs, s1)"
  using gather_roots_db [of env options "GCState_init env options results" s s1] gather_roots_flags [OF assms(1)] assms
  by (auto simp: gc_inv_def same_flags_def GCState_init_def Let_def intro: part_of_refl)

lemma collect_rest_reports:
  assumes "collect_rest env options st = (Inr (), gs, t)"
  shows "gc_action options = gcReturnLive \<Longrightarrow> gc_paths (gs_results gs) = gs_alive gs"
    "gc_action options = gcReturnDead \<Longrightarrow> gc_paths (gs_results gs) = gs_dead gs"
  using assms unfolding collect_rest_def by (auto simp: abind_Inr gc_mod_def amodify_def)

text \<open>
  C1: A collection, with whatever options and however it ends, keeps the constraints of the database, and every
  path that was valid and live stays valid, where live means kept by a root through references, kept outputs and kept
  derivations as the settings say.  What it reports as live is live and what it reports as dead is dead.
  When the roots cannot be determined nothing is invalidated.
\<close>

theorem gc_keeps_live:
  assumes "db_ok (de_gcrypt env) (de_store env) (ls_db s)"
    and "collectGarbage env options results s = ((r, res), t)"
  shows "case gather_roots env options (GCState_init env options results, s) of
      (Inl e, gs, s1) \<Rightarrow> r = Inl e \<and> ls_db t = ls_db s
    | (Inr _, gs, s1) \<Rightarrow>
        db_ok (de_gcrypt env) (de_store env) (ls_db t) \<and> part_of (ls_db t) (ls_db s) \<and>
        gc_live gs (ls_db s) \<inter> valid_set (ls_db s) \<subseteq> valid_set (ls_db t) \<and>
        (gc_action options = gcReturnLive \<and> r = Inr () \<longrightarrow> set (gc_paths res) \<subseteq> gc_live gs (ls_db s)) \<and>
        (gc_action options = gcReturnDead \<and> r = Inr () \<longrightarrow> set (gc_paths res) \<inter> gc_live gs (ls_db s) = {})"
proof -
  let ?init = "(GCState_init env options results, s)"
  obtain g gs s1 where gather: "gather_roots env options ?init = (g, gs, s1)" by (metis prod_cases3)
  obtain gs2 where run: "collect env options ?init = (r, gs2, t)" and res: "res = gs_results gs2"
    using assms(2) by (auto simp: collectGarbage_def split: prod.splits)
  show ?thesis
  proof (cases g)
    case (Inl e)
    have "ls_store s1 = ls_store s" using gather_roots_db gather by (metis snd_conv)
    moreover have "r = Inl e \<and> t = s1" using run gather Inl by (simp add: collect_split abind_def)
    ultimately show ?thesis using gather Inl by simp
  next
    case (Inr u)
    have inv: "gc_inv env gs (ls_db s) (gs, s1)" using gc_inv_start gather Inr assms(1) by simp
    have rest: "collect_rest env options (gs, s1) = (r, gs2, t)"
      using run gather Inr by (simp add: collect_split abind_def)
    have "gc_inv env gs (ls_db s) (gs2, t)"
      using keepsD [OF gc_keeps_collect_rest [OF assms(1), of gs options], of "(gs, s1)"] inv rest by (simp add: gc_keeps_def)
    moreover have "gc_action options = gcReturnLive \<and> r = Inr () \<longrightarrow> gc_paths res = gs_alive gs2"
      "gc_action options = gcReturnDead \<and> r = Inr () \<longrightarrow> gc_paths res = gs_dead gs2"
      using collect_rest_reports rest res by auto
    ultimately show ?thesis using gather Inr by (auto simp: gc_inv_def)
  qed
qed

section \<open>No dead path is left behind\<close>

lemma deletePathRecursive_done:
  assumes db0: "db_ok (de_gcrypt env) (de_store env) db0" and inv: "gc_inv env gs0 db0 st" and dead: "path \<notin> gc_live gs0 db0"
    and run: "deletePathRecursive fuel env path st = (Inr (), st')"
  shows "path \<notin> valid_set (ls_db (snd st'))"
proof (cases fuel)
  case 0
  then show ?thesis using run by (simp add: deletePathRecursive.simps action_run)
next
  case (Suc n)
  obtain gs s where st: "st = (gs, s)" by (cases st)
  show ?thesis
  proof (cases "path \<in> valid_set (ls_db s)")
    case False
    have "part_of (ls_db (snd st')) (ls_db s)"
      using keepsD [OF gc_keeps_deletePathRecursive [OF db0 dead, of fuel], of st] inv run st by (simp add: gc_keeps_def)
    then show ?thesis using False by (auto simp: part_of_def valid_set_def)
  next
    case True
    have v: "gc_ls (is_valid path) st = (Inr True, st)" by (simp add: st gc_ls_def is_valid_def ask_def True)
    obtain refs st1 where q: "gc_ls (ask (ls_queryReferrers (de_store env) path)) st = (Inr refs, st1)"
      and rest: "\<exists>st2 info st3 st4. aforeach refs (\<lambda>i. if i \<noteq> path then deletePathRecursive n env i else areturn ()) st1 = (Inr (), st2) \<and>
        gc_ls (ask (queryPathInfo (de_gcrypt env) (de_store env) path)) st2 = (Inr info, st3) \<and>
        gc_ls (on_store (invalidatePathChecked (de_store env) path)) st3 = (Inr (), st4) \<and>
        delete_contents env path (vpi_narSize info) st4 = (Inr (), st')"
      using run v unfolding Suc deletePathRecursive.simps by (auto simp: abind_Inr areturn_Inr)
    obtain st2 info st3 st4 where loop: "aforeach refs (\<lambda>i. if i \<noteq> path then deletePathRecursive n env i else areturn ()) st1 = (Inr (), st2)"
      and i: "gc_ls (ask (queryPathInfo (de_gcrypt env) (de_store env) path)) st2 = (Inr info, st3)"
      and iv: "gc_ls (on_store (invalidatePathChecked (de_store env) path)) st3 = (Inr (), st4)"
      and dc: "delete_contents env path (vpi_narSize info) st4 = (Inr (), st')" using rest by blast
    have st1: "st1 = st" "ls_queryReferrers (de_store env) path (ls_db s) = Inr refs" using q by (auto simp: st gc_ls_def ask_def)
    have db: "db_ok (de_gcrypt env) (de_store env) (ls_db s)" using inv by (simp add: gc_inv_def st)
    have "set refs = {q. (q, path) \<in> refs_rel (ls_db s)}"
      using st1(2) set_queryReferrers_raw [OF db, of path] by (auto simp: ls_queryReferrers_def rbind_Inr_iff)
    then have "keeps (gc_keeps env gs0 db0) (if i \<noteq> path then deletePathRecursive n env i else areturn ())" if "i \<in> set refs" for i
      using that dead_referrer [OF inv [unfolded st] db0 dead] gc_keeps_deletePathRecursive [OF db0]
      by (auto intro: keeps_if gc_keeps_pure)
    then have "keeps (gc_keeps env gs0 db0) (aforeach refs (\<lambda>i. if i \<noteq> path then deletePathRecursive n env i else areturn ()))"
      by (rule gc_keeps_aforeach)
    from keepsD [OF this, of st1] have "gc_inv env gs0 db0 st2" using loop inv st1(1) by (simp add: gc_keeps_def)
    moreover have "st3 = st2" using i by (cases st2) (auto simp: gc_ls_def ask_def)
    ultimately have inv3: "gc_inv env gs0 db0 st3" by simp
    have inv4: "gc_inv env gs0 db0 st4"
      using keepsD [OF gc_keeps_invalidate [OF dead], of env st3] iv inv3 by (simp add: gc_keeps_def)
    have "path \<notin> valid_set (ls_db (snd st4))"
    proof -
      obtain gs3 s3 where st3: "st3 = (gs3, s3)" by (cases st3)
      have "db_ok (de_gcrypt env) (de_store env) (st_db (ls_store s3))" using inv3 by (simp add: gc_inv_def st3)
      then show ?thesis using iv invalidatePathChecked_ok [of "de_gcrypt env" "de_store env" "ls_store s3" path]
        by (auto simp: st3 gc_ls_def on_store_def split: prod.splits)
    qed
    moreover have "part_of (ls_db (snd st')) (ls_db (snd st4))"
      using keepsD [OF gc_keeps_delete_contents [of env gs0 db0 path "vpi_narSize info"], of st4] dc inv4 by (simp add: gc_keeps_def)
    ultimately show ?thesis by (auto simp: part_of_def valid_set_def)
  qed
qed

lemma tryToDelete_done:
  assumes db0: "db_ok (de_gcrypt env) (de_store env) db0" and inv: "gc_inv env gs0 db0 st" and "gs_shouldDelete gs0"
    and special: "path \<noteq> links_dir env" "path \<noteq> gs_trashDir gs0"
    and run: "tryToDelete env path st = (Inr (), st')"
  shows "path \<in> gc_live gs0 db0 \<or> path \<notin> valid_set (ls_db (snd st'))"
proof (cases "path \<in> valid_set (ls_db (snd st))")
  case False
  have "part_of (ls_db (snd st')) (ls_db (snd st))"
    using keepsD [OF gc_keeps_tryToDelete [OF db0, of gs0 path], of st] inv run by (simp add: gc_keeps_def)
  then show ?thesis using False by (auto simp: part_of_def valid_set_def)
next
  case True
  obtain gs s where st: "st = (gs, s)" by (cases st)
  have fl: "gs_shouldDelete gs" "path \<noteq> gs_trashDir gs" using inv assms(3) special by (simp_all add: gc_inv_def st same_flags_def)
  obtain b seen alive where search: "canReachRoot (Suc (Suc (valid_count s))) env gs (ls_db s) path ([], gs_alive gs) = Inr (b, seen, alive)"
    using run True fl special by (auto simp: st tryToDelete_run split: if_splits sum.splits)
  note si = search_inv [OF db0 inv [unfolded st] search]
  show ?thesis
  proof (cases b)
    case False
    let ?gs = "gs \<lparr> gs_alive := alive, gs_dead := oinsert_all seen (gs_dead gs) \<rparr>"
    have "deletePathRecursive (Suc (valid_count s)) env path (?gs, s) = (Inr (), st')"
      using run True fl special search False by (simp add: st tryToDelete_run Let_def)
    then show ?thesis using deletePathRecursive_done [OF db0 si(3) [OF False]] si(1) False by simp
  qed (use si(1) in simp)
qed

text \<open>The first pass over the directory collects the valid paths; the second tries each of them.\<close>

lemma first_pass:
  assumes db0: "db_ok (de_gcrypt env) (de_store env) db0"
    and "afold (\<lambda>(name, _) entries.
         abind (gc_ls (is_valid (de_store env @ ''/'' @ name))) (\<lambda>v.
         if v then areturn (entries @ [de_store env @ ''/'' @ name])
         else abind (tryToDelete env (de_store env @ ''/'' @ name)) (\<lambda>_. areturn entries))) ds acc st = (Inr entries, st')"
    and "gc_inv env gs0 db0 st"
  shows "gc_inv env gs0 db0 st' \<and> part_of (ls_db (snd st')) (ls_db (snd st)) \<and> set acc \<subseteq> set entries \<and>
    (\<forall>d \<in> set ds. de_store env @ ''/'' @ fst d \<in> set entries \<or> de_store env @ ''/'' @ fst d \<notin> valid_set (ls_db (snd st')))"
  using assms(2,3)
proof (induction ds arbitrary: acc st)
  case Nil
  then show ?case by (cases st) (auto simp: areturn_Inr gc_inv_def intro: part_of_refl)
next
  case (Cons d ds)
  obtain gs s where st: "st = (gs, s)" by (cases st)
  let ?p = "de_store env @ ''/'' @ fst d"
  have v: "gc_ls (is_valid ?p) st = (Inr (?p \<in> valid_set (ls_db s)), st)"
    by (simp add: st gc_ls_def is_valid_def ask_def)
  have refl: "part_of (ls_db s) (ls_db s)" using Cons.prems(2) by (auto simp: st gc_inv_def intro: part_of_refl)
  show ?case
  proof (cases "?p \<in> valid_set (ls_db s)")
    case True
    then have "afold (\<lambda>(name, _) entries.
         abind (gc_ls (is_valid (de_store env @ ''/'' @ name))) (\<lambda>v.
         if v then areturn (entries @ [de_store env @ ''/'' @ name])
         else abind (tryToDelete env (de_store env @ ''/'' @ name)) (\<lambda>_. areturn entries))) ds (acc @ [?p]) st = (Inr entries, st')"
      using Cons.prems(1) v by (cases d) (auto simp: abind_Inr areturn_Inr)
    from Cons.IH [OF this Cons.prems(2)] show ?thesis by simp
  next
    case False
    obtain st1 where t: "tryToDelete env ?p st = (Inr (), st1)"
      and rest: "afold (\<lambda>(name, _) entries.
         abind (gc_ls (is_valid (de_store env @ ''/'' @ name))) (\<lambda>v.
         if v then areturn (entries @ [de_store env @ ''/'' @ name])
         else abind (tryToDelete env (de_store env @ ''/'' @ name)) (\<lambda>_. areturn entries))) ds acc st1 = (Inr entries, st')"
      using Cons.prems(1) v False by (cases d) (auto simp: abind_Inr areturn_Inr)
    have k: "gc_inv env gs0 db0 st1" "part_of (ls_db (snd st1)) (ls_db s)"
      using keepsD [OF gc_keeps_tryToDelete [OF db0, of gs0 ?p], of st] t Cons.prems(2) by (simp_all add: gc_keeps_def st)
    note ih = Cons.IH [OF rest k(1)]
    have p1: "part_of (ls_db (snd st')) (ls_db s)" using ih k(2) part_of_trans by blast
    then have "?p \<notin> valid_set (ls_db (snd st'))" using False by (auto simp: part_of_def valid_set_def)
    then show ?thesis using ih p1 by (auto simp: st)
  qed
qed

lemma second_pass:
  assumes db0: "db_ok (de_gcrypt env) (de_store env) db0" and "gs_shouldDelete gs0"
  shows "aforeach ps (tryToDelete env) st = (Inr (), st') \<Longrightarrow> gc_inv env gs0 db0 st \<Longrightarrow>
    part_of (ls_db (snd st')) (ls_db (snd st)) \<and>
    (\<forall>p \<in> set ps. p \<noteq> links_dir env \<and> p \<noteq> gs_trashDir gs0 \<longrightarrow> p \<in> gc_live gs0 db0 \<or> p \<notin> valid_set (ls_db (snd st')))"
proof (induction ps arbitrary: st)
  case Nil
  then show ?case by (cases st) (auto simp: areturn_Inr gc_inv_def intro: part_of_refl)
next
  case (Cons p ps)
  obtain st1 where t: "tryToDelete env p st = (Inr (), st1)" and rest: "aforeach ps (tryToDelete env) st1 = (Inr (), st')"
    using Cons.prems(1) by (auto simp: abind_Inr)
  have k: "gc_inv env gs0 db0 st1" "part_of (ls_db (snd st1)) (ls_db (snd st))"
    using keepsD [OF gc_keeps_tryToDelete [OF db0, of gs0 p], of st] t Cons.prems(2) by (simp_all add: gc_keeps_def)
  note ih = Cons.IH [OF rest k(1)]
  have "p \<noteq> links_dir env \<and> p \<noteq> gs_trashDir gs0 \<longrightarrow> p \<in> gc_live gs0 db0 \<or> p \<notin> valid_set (ls_db (snd st1))"
    using tryToDelete_done [OF db0 Cons.prems(2) assms(2) _ _ t] by blast
  moreover have "valid_set (ls_db (snd st')) \<subseteq> valid_set (ls_db (snd st1))" using ih by (auto simp: part_of_def valid_set_def)
  ultimately show ?case using ih k(2) part_of_trans by auto
qed

text \<open>
  C12: A pass over the store that comes to its end leaves no dead path behind: whatever the directory lists and is
  still valid is live.
\<close>

theorem delete_all_dead_complete:
  assumes db: "db_ok (de_gcrypt env) (de_store env) (ls_db s)"
    and gather: "gather_roots env options (GCState_init env options results, s) = (Inr (), gs, s1)"
    and delete: "gc_action options = gcDeleteDead" and shuffle: "\<And>xs. set (de_shuffle env xs) = set xs"
    and listing: "sys_readdir (de_store env) (ls_fs s1) = (Inr (Inr names), fs1)" and name: "name \<in> fst ` set names"
    and run: "delete_all_dead env (gs, s1) = (Inr (), gs2, t)"
    and special: "name \<noteq> ''trash''" "name \<noteq> ''.links''"
    and valid: "de_store env @ ''/'' @ name \<in> valid_set (ls_db t)"
  shows "de_store env @ ''/'' @ name \<in> gc_live gs (ls_db s)"
proof -
  let ?p = "de_store env @ ''/'' @ name"
  let ?s2 = "s1 \<lparr> ls_fs := fs1 \<rparr>"
  have inv: "gc_inv env gs (ls_db s) (gs, s1)" using gc_inv_start [OF gather db] .
  have inv2: "gc_inv env gs (ls_db s) (gs, ?s2)" using inv by (simp add: gc_inv_def)
  have sd: "gs_shouldDelete gs" and td: "gs_trashDir gs = de_store env @ ''/trash''"
    using gather_roots_flags [OF gather] delete by (simp_all add: GCState_init_def Let_def)
  have rd: "gc_ls (on_fs (or_throw ''opening directory'' (sys_readdir (de_store env)))) (gs, s1) = (Inr names, gs, ?s2)"
    using listing by (simp add: gc_ls_def on_fs_def or_throw_def abind_def action_run)
  obtain entries st3 where fold: "afold (\<lambda>(name, _) entries.
         abind (gc_ls (is_valid (de_store env @ ''/'' @ name))) (\<lambda>v.
         if v then areturn (entries @ [de_store env @ ''/'' @ name])
         else abind (tryToDelete env (de_store env @ ''/'' @ name)) (\<lambda>_. areturn entries))) names [] (gs, ?s2) = (Inr entries, st3)"
    and each: "aforeach (de_shuffle env entries) (tryToDelete env) st3 = (Inr (), gs2, t)"
    using run rd unfolding delete_all_dead_def Let_def by (auto simp: abind_Inr)
  note first = first_pass [OF db fold inv2]
  note second = second_pass [OF db sd each conjunct1 [OF first]]
  have "valid_set (ls_db t) \<subseteq> valid_set (ls_db (snd st3))" using second by (auto simp: part_of_def valid_set_def)
  then have "?p \<in> set entries" using first name valid by auto
  then have "?p \<in> set (de_shuffle env entries)" using shuffle by simp
  moreover have "?p \<noteq> links_dir env" "?p \<noteq> gs_trashDir gs" using special by (simp_all add: links_dir_def td)
  ultimately show ?thesis using second valid by auto
qed

section \<open>A collection of the sample store\<close>

abbreviation sample_start :: gc_state where
  "sample_start \<equiv> (GCState_init sample_daemon GCOptions_init GCResults_init, sample_ls)"

lemma sample_gather:
  "fst (gather_roots sample_daemon GCOptions_init sample_start) = Inr () \<and>
   gs_roots (fst (snd (gather_roots sample_daemon GCOptions_init sample_start))) = [''/s/x'']"
  by code_simp

lemma sample_collect:
  "fst (fst (collectGarbage sample_daemon GCOptions_init GCResults_init sample_ls)) = Inr () \<and>
   gc_paths (snd (fst (collectGarbage sample_daemon GCOptions_init GCResults_init sample_ls))) = [''/s/a'']"
  by code_simp

lemma sample_delete:
  "fst (delete_all_dead sample_daemon (snd (gather_roots sample_daemon GCOptions_init sample_start))) = Inr () \<and>
   ls_isValidPath ''/s/x'' (ls_db (snd (snd (delete_all_dead sample_daemon (snd (gather_roots sample_daemon GCOptions_init sample_start))))))"
  by code_simp

lemma sample_listing:
  "map_sum id (map_sum id (map fst)) (fst (sys_readdir ''/s'' (ls_fs (snd (snd (gather_roots sample_daemon GCOptions_init sample_start)))))) =
     Inr (Inr [''.links'', ''x'', ''a''])"
  by code_simp

lemma sample_daemon_ok: "db_ok (de_gcrypt sample_daemon) (de_store sample_daemon) (ls_db sample_ls)"
  using sample_state_ok by (simp add: sample_daemon_def sample_ls_def)

theorem gc_keeps_live_witness:
  "\<exists>res t. collectGarbage sample_daemon GCOptions_init GCResults_init sample_ls = ((Inr (), res), t) \<and>
     gc_paths res = [''/s/a''] \<and> ''/s/x'' \<in> valid_set (ls_db t)"
proof -
  obtain r res t where run: "collectGarbage sample_daemon GCOptions_init GCResults_init sample_ls = ((r, res), t)"
    by (metis prod_cases3 surj_pair)
  obtain g gs s1 where g: "gather_roots sample_daemon GCOptions_init sample_start = (g, gs, s1)" by (metis prod_cases3)
  have gs: "g = Inr ()" "gs_roots gs = [''/s/x'']" using sample_gather g by simp_all
  have "''/s/x'' \<in> gc_live gs (ls_db sample_ls)" using gs(2) live_root [of "''/s/x''" gs] by simp
  moreover have "''/s/x'' \<in> valid_set (ls_db sample_ls)"
    by (simp add: valid_set_def sample_ls_def sample_state_def info_row_def sample_info_def)
  ultimately have "''/s/x'' \<in> valid_set (ls_db t)"
    using gc_keeps_live [OF sample_daemon_ok run] gs(1) g by auto
  then show ?thesis using run sample_collect by auto
qed

theorem delete_all_dead_complete_witness:
  "\<exists>gs s1 gs2 t. gather_roots sample_daemon GCOptions_init sample_start = (Inr (), gs, s1) \<and>
     delete_all_dead sample_daemon (gs, s1) = (Inr (), gs2, t) \<and> ''/s/x'' \<in> gc_live gs (ls_db sample_ls)"
proof -
  obtain g gs s1 where g: "gather_roots sample_daemon GCOptions_init sample_start = (g, gs, s1)" by (metis prod_cases3)
  have gr: "gather_roots sample_daemon GCOptions_init sample_start = (Inr (), gs, s1)" using sample_gather g by simp
  obtain d gs2 t where d: "delete_all_dead sample_daemon (gs, s1) = (d, gs2, t)" by (metis prod_cases3)
  have dd: "delete_all_dead sample_daemon (gs, s1) = (Inr (), gs2, t)" "''/s/x'' \<in> valid_set (ls_db t)"
    using sample_delete d gr by simp_all
  obtain l fs1 where l: "sys_readdir ''/s'' (ls_fs s1) = (l, fs1)" by fastforce
  then obtain names where names: "l = Inr (Inr names)" "map fst names = [''.links'', ''x'', ''a'']"
    using sample_listing gr by (cases l; cases "projr l") auto
  have st: "de_store sample_daemon = ''/s''" by (simp add: sample_daemon_def)
  have "''x'' \<in> fst ` set names" using names(2) by (metis image_set list.set_intros(1,2))
  moreover have "gc_action GCOptions_init = gcDeleteDead" by (simp add: GCOptions_init_def)
  moreover have "set (de_shuffle sample_daemon xs) = set xs" for xs by (simp add: sample_daemon_def)
  ultimately have "de_store sample_daemon @ ''/'' @ ''x'' \<in> gc_live gs (ls_db sample_ls)"
    using l names(1) dd
    by (intro delete_all_dead_complete [OF sample_daemon_ok gr _ _ _ _ dd(1)]) (simp_all add: st)
  then show ?thesis using gr dd(1) by (simp add: st)
qed

end
