(* ===== verification/Metadata.thy ===== *)
theory Metadata
  imports FileSystem
begin

text \<open>
  Canonical metadata of store files, after \<^verbatim>\<open>canonicalisePathMetaData\<close> and its parts in
  \<^verbatim>\<open>src/nix/libstore/local-store.cc\<close>: read-only permissions, modification time 1 and the owner of the store.
  The system has \<^verbatim>\<open>lutimes\<close> and \<^verbatim>\<open>lchown\<close>.  The permission masks are octal 0444, 0555 and 0111.
\<close>

section \<open>Operations\<close>

definition mtimeStore :: int where
  "mtimeStore = 1"

fun is_link :: "fdata \<Rightarrow> bool" where
  "is_link (DLnk _) = True"
| "is_link _ = False"

definition canonical_mode :: "12 word \<Rightarrow> bool" where
  "canonical_mode perm \<longleftrightarrow> perm = 292 \<or> perm = 365"

definition canonicaliseTimestampAndPermissions_st :: "Path \<Rightarrow> stat \<Rightarrow> (unit, file_system) action" where
  "canonicaliseTimestampAndPermissions_st path st =
     abind
       (if \<not> is_link (st_data st) \<and> \<not> canonical_mode (st_perm st) then
          or_throw ''changing mode''
            (sys_chmod path (292 OR (if st_perm st AND S_IXUSR \<noteq> 0 then 73 else 0)))
        else areturn ()) (\<lambda>_.
     if st_mtime st \<noteq> mtimeStore then
       abind (sys_utimes False path mtimeStore) (\<lambda>r.
       case r of
         Inr _ \<Rightarrow> areturn ()
       | Inl e \<Rightarrow>
           if e \<noteq> ENOSYS then athrow (Throw (SysError e) ''changing modification time'')
           else if is_link (st_data st) then areturn ()
           else or_throw ''changing modification time'' (sys_utimes True path mtimeStore))
     else areturn ())"

definition canonicaliseTimestampAndPermissions :: "Path \<Rightarrow> (unit, file_system) action" where
  "canonicaliseTimestampAndPermissions path =
     abind (or_throw ''getting attributes of path'' (sys_lstat path)) (canonicaliseTimestampAndPermissions_st path)"

text \<open>\<open>fromUid\<close> is \<open>None\<close> for the user number -1.  All files are on one device.\<close>

primrec canonicalisePathMetaData_rec ::
  "nat \<Rightarrow> nat option \<Rightarrow> Path \<Rightarrow> nat list \<Rightarrow> (nat list, file_system) action" where
  "canonicalisePathMetaData_rec 0 fromUid path inodesSeen = athrow OutOfFuel"
| "canonicalisePathMetaData_rec (Suc fuel) fromUid path inodesSeen =
     abind (or_throw ''getting attributes of path'' (sys_lstat path)) (\<lambda>st.
     abind (aget fs_euid) (\<lambda>euid.
     abind (aget fs_egid) (\<lambda>egid.
     if st_data st = DSpecial then athrow (Throw Error ''file has an unsupported type'')
     else if fromUid \<noteq> None \<and> fromUid \<noteq> Some (st_uid st) then
       (if st_data st = DDir then athrow (Abort ''!S_ISDIR(st.st_mode)'')
        else if st_ino st \<notin> set inodesSeen then athrow (Throw BuildError ''invalid ownership on file'')
        else if is_link (st_data st) \<or>
          st_uid st = euid \<and> canonical_mode (st_perm st) \<and> st_mtime st = mtimeStore
        then areturn inodesSeen
        else athrow (Abort ''S_ISLNK(st.st_mode)''))
     else
       abind (canonicaliseTimestampAndPermissions_st path st) (\<lambda>_.
       abind (if st_uid st \<noteq> euid then or_throw ''changing owner'' (sys_lchown path (Some euid) (Some egid))
              else areturn ()) (\<lambda>_.
       if st_data st = DDir then
         abind (readDirectory path) (\<lambda>entries.
         afold (\<lambda>(name, _). canonicalisePathMetaData_rec fuel fromUid (path @ ''/'' @ name)) entries
           (st_ino st # inodesSeen))
       else areturn (st_ino st # inodesSeen))))))"

definition canonicalisePathMetaData :: "Path \<Rightarrow> nat option \<Rightarrow> nat list \<Rightarrow> (nat list, file_system) action" where
  "canonicalisePathMetaData path fromUid inodesSeen =
     abind (aget fs_depth) (\<lambda>depth.
     abind (canonicalisePathMetaData_rec (Suc depth) fromUid path inodesSeen) (\<lambda>inodesSeen.
     abind (or_throw ''getting attributes of path'' (sys_lstat path)) (\<lambda>st.
     abind (aget fs_euid) (\<lambda>euid.
     if st_uid st \<noteq> euid then
       (if is_link (st_data st) then athrow (Throw Error ''wrong ownership of top-level store path'')
        else athrow (Abort ''S_ISLNK(st.st_mode)''))
     else areturn inodesSeen))))"

definition canonicalisePathMetaData_fresh :: "Path \<Rightarrow> nat option \<Rightarrow> (unit, file_system) action" where
  "canonicalisePathMetaData_fresh path fromUid =
     abind (canonicalisePathMetaData path fromUid []) (\<lambda>_. areturn ())"

section \<open>What canonicalising does\<close>

text \<open>
  The file that an inode number stands for has canonical metadata.  The time of a symlink is not promised:
  a system that cannot set it is tolerated.
\<close>

definition canon :: "file_system \<Rightarrow> nat \<Rightarrow> bool" where
  "canon fs i \<longleftrightarrow>
     fs_uid fs i = fs_euid fs \<and>
     (is_link (fs_data fs i) \<or> canonical_mode (fs_perm fs i) \<and> fs_mtime fs i = mtimeStore)"

definition same_meta :: "file_system \<Rightarrow> file_system \<Rightarrow> nat \<Rightarrow> bool" where
  "same_meta fs t i \<longleftrightarrow>
     fs_perm t i = fs_perm fs i \<and> fs_mtime t i = fs_mtime fs i \<and> fs_uid t i = fs_uid fs i \<and> fs_gid t i = fs_gid fs i"

definition runnable :: "12 word \<Rightarrow> bool" where
  "runnable perm \<longleftrightarrow> perm AND S_IXUSR \<noteq> 0"

text \<open>
  A step towards canonical metadata: names and data stay, so do executable bits and what is already
  canonical; with an owner given, files of other owners stay as they are.
\<close>

definition canonises :: "nat option \<Rightarrow> file_system \<Rightarrow> file_system \<Rightarrow> bool" where
  "canonises from fs t \<longleftrightarrow>
     same_process fs t \<and> fs_names t = fs_names fs \<and> fs_data t = fs_data fs \<and> fs_next t = fs_next fs \<and>
     (\<forall>i. runnable (fs_perm t i) = runnable (fs_perm fs i)) \<and>
     (\<forall>i. canon fs i \<longrightarrow> canon t i) \<and>
     (\<forall>i. from \<noteq> None \<and> from \<noteq> Some (fs_uid fs i) \<longrightarrow> same_meta fs t i)"

lemma canonises_rel: "reflp (canonises from)" "transp (canonises from)"
proof -
  show "reflp (canonises from)" by (auto simp: reflp_def canonises_def same_meta_def)
  show "transp (canonises from)"
  proof (rule transpI)
    fix a b c assume ab: "canonises from a b" and bc: "canonises from b c"
    have "same_meta a c i" if "from \<noteq> None" "from \<noteq> Some (fs_uid a i)" for i
    proof -
      have "same_meta a b i" using ab that unfolding canonises_def by blast
      moreover have "same_meta b c i" using bc that calculation unfolding canonises_def by (metis same_meta_def)
      ultimately show ?thesis by (simp add: same_meta_def)
    qed
    then show "canonises from a c" using ab bc same_process_trans unfolding canonises_def by metis
  qed
qed

lemma canonises_fs_ok: "canonises from fs t \<Longrightarrow> fs_ok t = fs_ok fs" "canonises from fs t \<Longrightarrow> fs_ino t = fs_ino fs"
  "canonises from fs t \<Longrightarrow> fs_at t = fs_at fs" "canonises from fs t \<Longrightarrow> plain_path t = plain_path fs"
  "canonises from fs t \<Longrightarrow> fs_depth t = fs_depth fs" "canonises from fs t \<Longrightarrow> children k t = children k fs"
  by (simp_all add: canonises_def fs_ok_def fs_ino_def [abs_def] fs_at_def [abs_def] plain_path_def [abs_def]
      fs_depth_def children_def)

lemma canonises_faults: "canonises from fs (fs \<lparr> fs_faults := tl (fs_faults fs) \<rparr>)"
  by (auto simp: canonises_def canon_def same_meta_def)

text \<open>One system call that sets metadata of a plain path.\<close>

lemma meta_call:
  assumes ok: "fs_ok fs" "plain_path fs p k" "fs_ino fs k = Some i"
    and run: "or_throw w (sys (\<lambda>fs. ebind (lookup_ino follow p fs) (\<lambda>(_, i). Inr ((), f i fs)))) fs = (r, t)"
    and follow: "follow \<longrightarrow> \<not> is_link (fs_data fs i)"
  shows "r \<noteq> Inl OutOfFuel" "r = Inr x \<Longrightarrow> t = f i (fs \<lparr> fs_faults := tl (fs_faults fs) \<rparr>)"
    "r = Inl e \<Longrightarrow> t = fs \<lparr> fs_faults := tl (fs_faults fs) \<rparr>" "fs_faults fs = [] \<Longrightarrow> r = Inr ()"
proof -
  have "lookup_ino follow p fs = Inr (k, i)"
  proof (cases follow)
    case True
    then have "\<And>t. fs_at fs k \<noteq> Some (DLnk t)" using follow ok(3) by (auto simp: fs_at_def)
    from plain_path_follow [OF ok(1,2) this] show ?thesis using True ok(3) by (simp add: lookup_ino_def ebind_def)
  qed (use lookup_ino_plain [OF ok(1,2)] ok(3) in simp)
  with run show "r \<noteq> Inl OutOfFuel" "r = Inr x \<Longrightarrow> t = f i (fs \<lparr> fs_faults := tl (fs_faults fs) \<rparr>)"
    "r = Inl e \<Longrightarrow> t = fs \<lparr> fs_faults := tl (fs_faults fs) \<rparr>" "fs_faults fs = [] \<Longrightarrow> r = Inr ()"
    by (cases rule: or_throw_sys; auto simp: ebind_def)+
qed

lemma canonical_mode_runnable:
  "canonical_mode (292 OR (if perm AND S_IXUSR \<noteq> 0 then 73 else 0))"
  "runnable (292 OR (if perm AND S_IXUSR \<noteq> 0 then 73 else 0)) = runnable perm"
proof -
  have "(292 OR 73 :: 12 word) = 365" "(292 OR 0 :: 12 word) = 292" "(365 AND 64 :: 12 word) = 64" "(292 AND 64 :: 12 word) = 0"
    by simp_all
  then show "canonical_mode (292 OR (if perm AND S_IXUSR \<noteq> 0 then 73 else 0))"
    "runnable (292 OR (if perm AND S_IXUSR \<noteq> 0 then 73 else 0)) = runnable perm"
    by (auto simp: canonical_mode_def runnable_def S_IXUSR_def)
qed

lemma canonises_perm:
  assumes "\<not> canonical_mode (fs_perm fs i)" "\<not> is_link (fs_data fs i)" "runnable m = runnable (fs_perm fs i)"
    and "u = None \<or> u = Some (fs_uid fs i)"
  shows "canonises u fs (fs \<lparr> fs_faults := tl (fs_faults fs), fs_perm := (fs_perm fs)(i := m) \<rparr>)"
  using assms by (auto simp: canonises_def same_process_def canon_def same_meta_def)

lemma canonises_mtime:
  assumes "u = None \<or> u = Some (fs_uid fs i)"
  shows "canonises u fs (fs \<lparr> fs_faults := tl (fs_faults fs), fs_mtime := (fs_mtime fs)(i := mtimeStore) \<rparr>)"
  using assms by (auto simp: canonises_def same_process_def canon_def same_meta_def)

lemma canonises_owner:
  assumes "u = None \<or> u = Some (fs_uid fs i)" "fs_uid fs i \<noteq> fs_euid fs"
  shows "canonises u fs (fs \<lparr> fs_faults := tl (fs_faults fs), fs_uid := (fs_uid fs)(i := fs_euid fs), fs_gid := (fs_gid fs)(i := g) \<rparr>)"
  using assms by (auto simp: canonises_def same_process_def canon_def same_meta_def)

lemma chmod_canonises:
  assumes ok: "fs_ok fs" "plain_path fs p k" "fs_ino fs k = Some i" and link: "\<not> is_link (fs_data fs i)"
    and mode: "\<not> canonical_mode (fs_perm fs i)" and own: "u = None \<or> u = Some (fs_uid fs i)"
    and run: "or_throw w (sys_chmod p (292 OR (if fs_perm fs i AND S_IXUSR \<noteq> 0 then 73 else 0))) fs = (r, t)"
  shows "canonises u fs t" "r \<noteq> Inl OutOfFuel" "r = Inr x \<Longrightarrow> canonical_mode (fs_perm t i)" "fs_uid t = fs_uid fs"
    "fs_mtime t = fs_mtime fs" "fs_faults fs = [] \<Longrightarrow> r = Inr ()"
proof -
  let ?m = "292 OR (if fs_perm fs i AND S_IXUSR \<noteq> 0 then 73 else 0) :: 12 word"
  note call = meta_call [OF ok run [unfolded sys_chmod_def]]
  show "r \<noteq> Inl OutOfFuel" "fs_faults fs = [] \<Longrightarrow> r = Inr ()" using call(1,4) link by simp_all
  have good: "r = Inr () \<Longrightarrow> t = fs \<lparr> fs_faults := tl (fs_faults fs), fs_perm := (fs_perm fs)(i := ?m) \<rparr>"
    using call(2) link by simp
  show "canonises u fs t" "fs_uid t = fs_uid fs" "fs_mtime t = fs_mtime fs"
    using good canonises_perm [OF mode link canonical_mode_runnable(2) own] call(3) link canonises_faults [of u fs]
    by (cases r; simp)+
  show "r = Inr x \<Longrightarrow> canonical_mode (fs_perm t i)" using good canonical_mode_runnable(1) by simp
qed

lemma utimes_canonises:
  assumes ok: "fs_ok fs" "plain_path fs p k" "fs_ino fs k = Some i" and own: "u = None \<or> u = Some (fs_uid fs i)"
    and run: "(abind (sys_utimes False p mtimeStore) (\<lambda>r.
       case r of
         Inr _ \<Rightarrow> areturn ()
       | Inl e \<Rightarrow>
           if e \<noteq> ENOSYS then athrow (Throw (SysError e) w)
           else if is_link (fs_data fs i) then areturn ()
           else or_throw w' (sys_utimes True p mtimeStore))) fs = (r, t)"
  shows "canonises u fs t \<and> r \<noteq> Inl OutOfFuel \<and> fs_uid t = fs_uid fs \<and> fs_perm t = fs_perm fs \<and>
    (r = Inr () \<longrightarrow> is_link (fs_data fs i) \<or> fs_mtime t i = mtimeStore) \<and> (fs_faults fs = [] \<longrightarrow> r = Inr ())"
proof -
  let ?f = "fs \<lparr> fs_faults := tl (fs_faults fs) \<rparr>"
  obtain r1 s where s: "sys_utimes False p mtimeStore fs = (r1, s)" by fastforce
  have un: "lookup_ino False p fs = Inr (k, i)" using lookup_ino_plain [OF ok(1,2)] ok(3) by simp
  from s [unfolded sys_utimes_def] show ?thesis
  proof (cases rule: sys_cases)
    case (good x)
    then have "s = ?f \<lparr> fs_mtime := (fs_mtime fs)(i := mtimeStore) \<rparr>" using un by (simp add: ebind_def)
    moreover have "r = Inr ()" "t = s" using run s good(1) by (simp_all add: abind_def action_run)
    ultimately show ?thesis using canonises_mtime [OF own] by simp
  next
    case (failed e)
    have nf: "fs_faults fs \<noteq> []" using failed(3) un by (auto simp: ebind_def)
    show ?thesis
    proof (cases "e = ENOSYS \<and> \<not> is_link (fs_data fs i)")
      case False
      then have "t = s \<and> (r = Inr () \<and> is_link (fs_data fs i) \<or> (\<exists>e. r = Inl (Throw (SysError e) w)))"
        using run s failed(1) by (auto simp: abind_def action_run split: if_splits)
      then show ?thesis using failed(2) canonises_faults [of u fs] nf by auto
    next
      case True
      then have run2: "or_throw w' (sys_utimes True p mtimeStore) s = (r, t)"
        using run s failed(1) by (simp add: abind_def)
      have ok2: "fs_ok s" "plain_path s p k" "fs_ino s k = Some i" using ok failed(2) by simp_all
      have link2: "True \<longrightarrow> \<not> is_link (fs_data s i)" using True failed(2) by simp
      note call = meta_call [OF ok2 run2 [unfolded sys_utimes_def] link2]
      have cs: "canonises u fs s" using failed(2) canonises_faults by simp
      have own2: "u = None \<or> u = Some (fs_uid s i)" using own failed(2) by simp
      show ?thesis
      proof (cases r)
        case (Inl e)
        then have "t = s \<lparr> fs_faults := tl (fs_faults s) \<rparr>" using call(3) by blast
        then show ?thesis using call(1) Inl cs canonises_faults [of u s] nf failed(2) transpD [OF canonises_rel(2)] by auto
      next
        case (Inr x)
        then have "t = s \<lparr> fs_faults := tl (fs_faults s), fs_mtime := (fs_mtime s)(i := mtimeStore) \<rparr>" using call(2) by simp
        then show ?thesis using Inr cs canonises_mtime [OF own2] nf failed(2) transpD [OF canonises_rel(2) cs] by auto
      qed
    qed
  qed
qed

lemma stamp_canonises:
  assumes ok: "fs_ok fs" "plain_path fs p k" "fs_ino fs k = Some i" and own: "u = None \<or> u = Some (fs_uid fs i)"
    and st: "st = stat_of fs i" and run: "canonicaliseTimestampAndPermissions_st p st fs = (r, t)"
  shows "canonises u fs t \<and> r \<noteq> Inl OutOfFuel \<and> fs_uid t = fs_uid fs \<and>
    (r = Inr () \<longrightarrow> is_link (fs_data fs i) \<or> canonical_mode (fs_perm t i) \<and> fs_mtime t i = mtimeStore) \<and>
    (fs_faults fs = [] \<longrightarrow> r = Inr ())"
proof -
  define first where "first = (if \<not> is_link (fs_data fs i) \<and> \<not> canonical_mode (fs_perm fs i) then
          or_throw ''changing mode''
            (sys_chmod p (292 OR (if fs_perm fs i AND S_IXUSR \<noteq> 0 then 73 else 0)))
        else areturn ())"
  define second where "second = (if fs_mtime fs i \<noteq> mtimeStore then
       abind (sys_utimes False p mtimeStore) (\<lambda>r.
       case r of
         Inr _ \<Rightarrow> areturn ()
       | Inl e \<Rightarrow>
           if e \<noteq> ENOSYS then athrow (Throw (SysError e) ''changing modification time'')
           else if is_link (fs_data fs i) then areturn ()
           else or_throw ''changing modification time'' (sys_utimes True p mtimeStore))
     else areturn ())"
  have fields: "st_data st = fs_data fs i" "st_perm st = fs_perm fs i" "st_mtime st = fs_mtime fs i"
    by (simp_all add: st stat_of_def)
  have two: "abind first (\<lambda>_. second) fs = (r, t)"
    using run unfolding canonicaliseTimestampAndPermissions_st_def first_def second_def fields .
  obtain r1 s where s: "first fs = (r1, s)" by fastforce
  have f: "canonises u fs s \<and> r1 \<noteq> Inl OutOfFuel \<and> fs_uid s = fs_uid fs \<and> fs_mtime s = fs_mtime fs \<and>
    (r1 = Inr () \<longrightarrow> is_link (fs_data fs i) \<or> canonical_mode (fs_perm s i)) \<and> (fs_faults fs = [] \<longrightarrow> r1 = Inr ())"
  proof (cases "\<not> is_link (fs_data fs i) \<and> \<not> canonical_mode (fs_perm fs i)")
    case True
    then have "or_throw ''changing mode'' (sys_chmod p (292 OR (if fs_perm fs i AND S_IXUSR \<noteq> 0 then 73 else 0))) fs = (r1, s)"
      using s by (simp add: first_def)
    then show ?thesis using chmod_canonises [OF ok _ _ own] True by blast
  next
    case False
    then show ?thesis using s reflpD [OF canonises_rel(1)] by (auto simp: first_def action_run)
  qed
  have s_ok: "fs_ok s" "plain_path s p k" "fs_ino s k = Some i" "fs_data s = fs_data fs" "fs_faults fs = [] \<Longrightarrow> fs_faults s = []"
    using ok f canonises_fs_ok [of u fs s] by (auto simp: canonises_def same_process_def)
  show ?thesis
  proof (cases r1)
    case (Inl e)
    then have "r = Inl e" "t = s" using two s by (simp_all add: abind_def)
    then show ?thesis using f Inl by auto
  next
    case (Inr x)
    then have run2: "second s = (r, t)" using two s by (simp add: abind_def)
    have own2: "u = None \<or> u = Some (fs_uid s i)" using own f by simp
    show ?thesis
    proof (cases "fs_mtime fs i \<noteq> mtimeStore")
      case True
      note ut = utimes_canonises [OF s_ok(1-3) own2, unfolded s_ok(4), OF run2 [unfolded second_def if_P [OF True]]]
      then have "canonises u fs t" using f transpD [OF canonises_rel(2)] by blast
      then show ?thesis using ut f Inr s_ok(5) by auto
    next
      case False
      then show ?thesis using run2 f Inr by (simp add: second_def action_run)
    qed
  qed
qed

lemma own_canonises:
  assumes ok: "fs_ok fs" "plain_path fs p k" "fs_ino fs k = Some i" and own: "u = None \<or> u = Some (fs_uid fs i)"
    and run: "(if fs_uid fs i \<noteq> fs_euid fs then or_throw w (sys_lchown p (Some (fs_euid fs)) (Some g)) else areturn ()) fs = (r, t)"
  shows "canonises u fs t \<and> r \<noteq> Inl OutOfFuel \<and> fs_perm t = fs_perm fs \<and> fs_mtime t = fs_mtime fs \<and>
    (r = Inr () \<longrightarrow> fs_uid t i = fs_euid fs) \<and> (fs_faults fs = [] \<longrightarrow> r = Inr ())"
proof (cases "fs_uid fs i \<noteq> fs_euid fs")
  case True
  then have "or_throw w (sys_lchown p (Some (fs_euid fs)) (Some g)) fs = (r, t)" using run by simp
  note call = meta_call [OF ok this [unfolded sys_lchown_def]]
  show ?thesis
  proof (cases r)
    case (Inl e)
    then have "t = fs \<lparr> fs_faults := tl (fs_faults fs) \<rparr>" using call(3) by blast
    then show ?thesis using Inl call(1,4) canonises_faults by auto
  next
    case (Inr x)
    then have "t = fs \<lparr> fs_faults := tl (fs_faults fs), fs_uid := (fs_uid fs)(i := fs_euid fs), fs_gid := (fs_gid fs)(i := g) \<rparr>"
      using call(2) by simp
    then show ?thesis using canonises_owner [OF own True] Inr by simp
  qed
next
  case False
  then show ?thesis using run reflpD [OF canonises_rel(1)] by (auto simp: action_run)
qed

lemma attributes_plain:
  assumes "fs_ok fs" "plain_path fs p k" "or_throw w (sys_lstat p) fs = (r, t)"
  shows "t = fs \<lparr> fs_faults := tl (fs_faults fs) \<rparr>"
    "r = Inr st \<Longrightarrow> \<exists>i. fs_ino fs k = Some i \<and> st = stat_of t i"
    "fs_faults fs = [] \<Longrightarrow> fs_ino fs k \<noteq> None \<Longrightarrow> \<exists>st. r = Inr st"
    "r \<noteq> Inl OutOfFuel"
proof -
  note un = lookup_ino_plain [OF assms(1,2)]
  from assms(3) [unfolded sys_stat_def] show "t = fs \<lparr> fs_faults := tl (fs_faults fs) \<rparr>"
    "r = Inr st \<Longrightarrow> \<exists>i. fs_ino fs k = Some i \<and> st = stat_of t i"
    "fs_faults fs = [] \<Longrightarrow> fs_ino fs k \<noteq> None \<Longrightarrow> \<exists>st. r = Inr st" "r \<noteq> Inl OutOfFuel"
    by (cases rule: or_throw_sys; auto simp: un ebind_def split: option.splits)+
qed

text \<open>
  Canonicalising from \<open>fs\<close>, where the numbers in \<open>seen\<close> are canonical, the files named by \<open>names\<close>: on return their
  numbers have been added and all are canonical; only a foreign owner, a special file or a failing system call
  stops it.
\<close>

definition canonicalises ::
  "nat option \<Rightarrow> (string list \<Rightarrow> bool) \<Rightarrow> nat list \<Rightarrow> file_system \<Rightarrow> nat list result \<times> file_system \<Rightarrow> bool" where
  "canonicalises u names seen fs rt \<longleftrightarrow>
     canonises u fs (snd rt) \<and> fst rt \<noteq> Inl OutOfFuel \<and>
     (\<forall>seen'. fst rt = Inr seen' \<longrightarrow>
        set seen \<subseteq> set seen' \<and> (\<forall>j \<in> set seen'. canon (snd rt) j) \<and>
        (\<forall>k i. names k \<longrightarrow> fs_ino fs k = Some i \<longrightarrow> i \<in> set seen' \<and> fs_data fs i \<noteq> DSpecial)) \<and>
     (fs_faults fs = [] \<and> u = None \<and> (\<forall>k. names k \<longrightarrow> fs_at fs k \<noteq> Some DSpecial) \<longrightarrow> (\<exists>seen'. fst rt = Inr seen'))"

lemma canonises_seen: "canonises u fs t \<Longrightarrow> \<forall>j \<in> set seen. canon fs j \<Longrightarrow> \<forall>j \<in> set seen. canon t j"
  by (simp add: canonises_def)

lemma canonises_quiet: "canonises u fs t \<Longrightarrow> fs_faults fs = [] \<Longrightarrow> fs_faults t = []"
  by (simp add: canonises_def same_process_def)

lemma canonicalises_after:
  assumes step: "canonises u fs s" and rest: "canonicalises u N seen' s rt" and sub: "set seen \<subseteq> set seen'"
    and cover: "\<And>k i. N' k \<Longrightarrow> fs_ino fs k = Some i \<Longrightarrow> N k \<or> i \<in> set seen' \<and> fs_data fs i \<noteq> DSpecial"
    and only: "\<And>k. N k \<Longrightarrow> N' k"
  shows "canonicalises u N' seen fs rt"
proof -
  obtain r t where rt: "rt = (r, t)" by fastforce
  have st: "canonises u s t" and fuel: "r \<noteq> Inl OutOfFuel" using rest by (simp_all add: canonicalises_def rt)
  have same: "fs_ino s = fs_ino fs" "fs_at s = fs_at fs" "fs_data s = fs_data fs"
    using canonises_fs_ok [OF step] step by (simp_all add: canonises_def)
  have all: "set seen \<subseteq> set b \<and> (\<forall>j \<in> set b. canon t j) \<and>
      (\<forall>k i. N' k \<longrightarrow> fs_ino fs k = Some i \<longrightarrow> i \<in> set b \<and> fs_data fs i \<noteq> DSpecial)" if r: "r = Inr b" for b
  proof -
    have b: "set seen' \<subseteq> set b" "\<forall>j \<in> set b. canon t j"
      and more: "\<And>k i. N k \<Longrightarrow> fs_ino fs k = Some i \<Longrightarrow> i \<in> set b \<and> fs_data fs i \<noteq> DSpecial"
      using rest by (simp_all add: canonicalises_def rt r same)
    have "i \<in> set b \<and> fs_data fs i \<noteq> DSpecial" if "N' k" "fs_ino fs k = Some i" for k i
      using cover [OF that] more [OF _ that(2)] b(1) by blast
    then show ?thesis using b sub by blast
  qed
  have "\<exists>b. r = Inr b" if "fs_faults fs = []" "u = None" "\<forall>k. N' k \<longrightarrow> fs_at fs k \<noteq> Some DSpecial"
    using rest that only canonises_quiet [OF step] by (simp add: canonicalises_def rt same)
  then show ?thesis
    using transpD [OF canonises_rel(2) step st] fuel all unfolding canonicalises_def rt fst_conv snd_conv by blast
qed

lemma canonicalises_entries:
  assumes IH: "\<And>p k fs seen. fs_ok fs \<Longrightarrow> plain_path fs p k \<Longrightarrow> fs_ino fs k \<noteq> None \<Longrightarrow>
      \<forall>k'. fs_ino fs k' \<noteq> None \<longrightarrow> length k' < fuel + length k \<Longrightarrow> \<forall>j \<in> set seen. canon fs j \<Longrightarrow>
      canonicalises u (prefix k) seen fs (canonicalisePathMetaData_rec fuel u p seen fs)"
    and "path_components p = k"
  shows "fs_ok fs \<Longrightarrow> fs_at fs k = Some DDir \<Longrightarrow> \<forall>e \<in> set es. fs_ino fs (k @ [fst e]) \<noteq> None \<Longrightarrow>
      \<forall>k'. fs_ino fs k' \<noteq> None \<longrightarrow> length k' < Suc fuel + length k \<Longrightarrow> \<forall>j \<in> set seen. canon fs j \<Longrightarrow>
    canonicalises u (\<lambda>k'. \<exists>e \<in> set es. prefix (k @ [fst e]) k') seen fs
      (afold (\<lambda>(name, _). canonicalisePathMetaData_rec fuel u (p @ ''/'' @ name)) es seen fs)"
proof (induction es arbitrary: fs seen)
  case Nil
  then show ?case using reflpD [OF canonises_rel(1)] by (simp add: canonicalises_def action_run)
next
  case (Cons e es)
  let ?q = "p @ ''/'' @ fst e"
  have known: "fs_ino fs (k @ [fst e]) \<noteq> None" using Cons.prems(3) by simp
  then have "canonical_component (fst e)" using fs_okD(4) [OF Cons.prems(1), of "k @ [fst e]"] by auto
  then have plain: "plain_path fs ?q (k @ [fst e])" using plain_path_child assms(2) Cons.prems(2) by blast
  obtain r t where run: "canonicalisePathMetaData_rec fuel u ?q seen fs = (r, t)" by fastforce
  have one: "canonicalises u (prefix (k @ [fst e])) seen fs (r, t)"
    using IH [OF Cons.prems(1) plain known _ Cons.prems(5)] Cons.prems(4) unfolding run by simp
  then have ft: "canonises u fs t" by (simp add: canonicalises_def)
  note t_eq = canonises_fs_ok [OF ft]
  show ?case
  proof (cases r)
    case (Inl er)
    then have "afold (\<lambda>(name, _). canonicalisePathMetaData_rec fuel u (p @ ''/'' @ name)) (e # es) seen fs = (Inl er, t)"
      using run by (cases e) (simp add: abind_def)
    then show ?thesis using one Inl by (auto simp: canonicalises_def)
  next
    case (Inr b)
    let ?rest = "afold (\<lambda>(name, _). canonicalisePathMetaData_rec fuel u (p @ ''/'' @ name)) es b t"
    have eq: "afold (\<lambda>(name, _). canonicalisePathMetaData_rec fuel u (p @ ''/'' @ name)) (e # es) seen fs = ?rest"
      using run Inr by (cases e) (simp add: abind_def)
    have b: "\<forall>j \<in> set b. canon t j" "set seen \<subseteq> set b"
      "\<And>k' i. prefix (k @ [fst e]) k' \<Longrightarrow> fs_ino fs k' = Some i \<Longrightarrow> i \<in> set b \<and> fs_data fs i \<noteq> DSpecial"
      using one Inr by (simp_all add: canonicalises_def)
    have "fs_ok t" "fs_at t k = Some DDir" "\<forall>e \<in> set es. fs_ino t (k @ [fst e]) \<noteq> None"
      "\<forall>k'. fs_ino t k' \<noteq> None \<longrightarrow> length k' < Suc fuel + length k"
      using Cons.prems t_eq by simp_all
    from Cons.IH [OF this b(1)]
    have rest: "canonicalises u (\<lambda>k'. \<exists>e \<in> set es. prefix (k @ [fst e]) k') b t ?rest" .
    show ?thesis unfolding eq
      by (rule canonicalises_after [OF ft rest b(2)]) (use b(3) in \<open>auto split: if_splits\<close>)
  qed
qed

text \<open>One file: its own metadata, without what is below it.\<close>

lemma node_canonises:
  assumes ok: "fs_ok fs" "plain_path fs p k" "fs_ino fs k = Some i" and own: "u = None \<or> u = Some (fs_uid fs i)"
    and st: "st = stat_of fs i"
    and run: "abind (canonicaliseTimestampAndPermissions_st p st) (\<lambda>_.
       if st_uid st \<noteq> fs_euid fs then or_throw ''changing owner'' (sys_lchown p (Some (fs_euid fs)) (Some g)) else areturn ()) fs
       = (r, t)"
  shows "canonises u fs t \<and> r \<noteq> Inl OutOfFuel \<and> (r = Inr () \<longrightarrow> canon t i) \<and> (fs_faults fs = [] \<longrightarrow> r = Inr ())"
proof -
  obtain r1 s where s: "canonicaliseTimestampAndPermissions_st p st fs = (r1, s)" by fastforce
  note stamp = stamp_canonises [OF ok own st s]
  then have fs: "canonises u fs s" by blast
  have s_ok: "fs_ok s" "plain_path s p k" "fs_ino s k = Some i" "fs_data s = fs_data fs" "fs_euid s = fs_euid fs"
    using ok canonises_fs_ok [OF fs] fs by (simp_all add: canonises_def same_process_def)
  have own2: "u = None \<or> u = Some (fs_uid s i)" and uid: "st_uid st = fs_uid s i" using own stamp by (simp_all add: st stat_of_def)
  show ?thesis
  proof (cases r1)
    case (Inl e)
    then have "r = Inl e" "t = s" using run s by (simp_all add: abind_def)
    then show ?thesis using stamp Inl by auto
  next
    case (Inr x)
    then have "(if fs_uid s i \<noteq> fs_euid s then or_throw ''changing owner'' (sys_lchown p (Some (fs_euid s)) (Some g)) else areturn ()) s = (r, t)"
      using run s unfolding uid s_ok(5) by (simp add: abind_def)
    note owner = own_canonises [OF s_ok(1-3) own2 this]
    then have "canonises u fs t" "fs_data t = fs_data s" "fs_euid t = fs_euid s"
      using fs transpD [OF canonises_rel(2)] by (blast, simp_all add: canonises_def same_process_def)
    then show ?thesis using owner stamp Inr canonises_quiet [OF fs] by (auto simp: canon_def s_ok(4))
  qed
qed

lemma children_names:
  assumes "fs_ok fs" "fs_ino fs k' \<noteq> None" "prefix k k'" "k' \<noteq> k"
  shows "fs_at fs k = Some DDir \<and> (\<exists>e \<in> set (children k fs). prefix (k @ [fst e]) k')"
proof -
  obtain n q where k': "k' = k @ n # q" using assms(3,4) by (metis prefix_def append.right_neutral neq_Nil_conv)
  have "fs_ino fs (k @ [n]) \<noteq> None"
  proof (cases q)
    case (Cons a l)
    then show ?thesis using name_prefix [OF assms(1), of "k @ [n]" q] assms(2) k' by (auto simp: fs_at_def)
  qed (use assms(2) k' in simp)
  then obtain j where "fs_ino fs (k @ [n]) = Some j" by blast
  then have "(n, j) \<in> set (children k fs)" using children_iff [OF assms(1)] by blast
  moreover have "fs_at fs k = Some DDir" using name_prefix [OF assms(1), of k "n # q"] assms(2) k' by simp
  ultimately show ?thesis using k' by force
qed

lemma canonicalises_directory:
  assumes IH: "\<And>p k fs seen. fs_ok fs \<Longrightarrow> plain_path fs p k \<Longrightarrow> fs_ino fs k \<noteq> None \<Longrightarrow>
      \<forall>k'. fs_ino fs k' \<noteq> None \<longrightarrow> length k' < fuel + length k \<Longrightarrow> \<forall>j \<in> set seen. canon fs j \<Longrightarrow>
      canonicalises u (prefix k) seen fs (canonicalisePathMetaData_rec fuel u p seen fs)"
    and ok: "fs_ok fs" "plain_path fs p k" "fs_at fs k = Some DDir"
    and bound: "\<forall>k'. fs_ino fs k' \<noteq> None \<longrightarrow> length k' < Suc fuel + length k" and seen: "\<forall>j \<in> set seen. canon fs j"
  shows "canonicalises u (\<lambda>k'. prefix k k' \<and> k' \<noteq> k) seen fs
    (abind (readDirectory p) (\<lambda>entries. afold (\<lambda>(name, _). canonicalisePathMetaData_rec fuel u (p @ ''/'' @ name)) entries seen) fs)"
proof -
  obtain r s where s: "readDirectory p fs = (r, s)" by fastforce
  note rd = readDirectory_step [OF ok s]
  have fs: "canonises u fs s" using rd(1) canonises_faults by simp
  have pc: "path_components p = k" using ok(2) by (simp add: plain_path_def)
  show ?thesis
  proof (cases r)
    case (Inl e)
    then show ?thesis using s fs rd by (auto simp: canonicalises_def abind_def)
  next
    case (Inr es)
    have es: "es = map (\<lambda>(name, j). (name, j, fs_data fs j)) (children k fs)" using rd(4) Inr by blast
    have s_ok: "fs_ok s" "fs_at s k = Some DDir" "\<forall>k'. fs_ino s k' \<noteq> None \<longrightarrow> length k' < Suc fuel + length k"
      "fs_ino s = fs_ino fs" "fs_at s = fs_at fs" "fs_data s = fs_data fs"
      using ok bound rd(1) by simp_all
    have names: "(\<exists>e \<in> set es. prefix (k @ [fst e]) k') \<longleftrightarrow> (\<exists>e \<in> set (children k fs). prefix (k @ [fst e]) k')" for k'
      unfolding es by force
    have "\<forall>e \<in> set es. fs_ino s (k @ [fst e]) \<noteq> None"
      using children_iff [OF ok(1)] by (auto simp: es s_ok(4))
    from canonicalises_entries [OF IH pc s_ok(1,2) this s_ok(3) canonises_seen [OF fs seen]]
    have rest: "canonicalises u (\<lambda>k'. \<exists>e \<in> set (children k fs). prefix (k @ [fst e]) k') seen s
      (afold (\<lambda>(name, _). canonicalisePathMetaData_rec fuel u (p @ ''/'' @ name)) es seen s)"
      unfolding names by blast
    have "canonicalises u (\<lambda>k'. prefix k k' \<and> k' \<noteq> k) seen fs
      (afold (\<lambda>(name, _). canonicalisePathMetaData_rec fuel u (p @ ''/'' @ name)) es seen s)"
      by (rule canonicalises_after [OF fs rest]) (use children_names [OF ok(1)] in \<open>auto simp: prefix_def\<close>)
    then show ?thesis using s Inr by (simp add: abind_def)
  qed
qed

lemma canonicalises_rec:
  "fs_ok fs \<Longrightarrow> plain_path fs p k \<Longrightarrow> fs_ino fs k \<noteq> None \<Longrightarrow>
     \<forall>k'. fs_ino fs k' \<noteq> None \<longrightarrow> length k' < fuel + length k \<Longrightarrow> \<forall>j \<in> set seen. canon fs j \<Longrightarrow>
   canonicalises u (prefix k) seen fs (canonicalisePathMetaData_rec fuel u p seen fs)"
proof (induction fuel arbitrary: p k fs seen)
  case 0
  then show ?case by fastforce
next
  case (Suc fuel)
  note ok = Suc.prems(1) and plain = Suc.prems(2)
  obtain r0 s where s: "or_throw ''getting attributes of path'' (sys_lstat p) fs = (r0, s)" by fastforce
  note ls = attributes_plain [OF ok plain s]
  have fs: "canonises u fs s" using ls(1) canonises_faults by simp
  have s_ok: "fs_ok s" "plain_path s p k" "fs_ino s = fs_ino fs" "fs_data s = fs_data fs" "fs_uid s = fs_uid fs" "fs_at s = fs_at fs"
    using ls(1) ok plain by simp_all
  obtain i where i: "fs_ino fs k = Some i" using Suc.prems(3) by blast
  show ?case
  proof (cases r0)
    case (Inl e)
    then have "canonicalisePathMetaData_rec (Suc fuel) u p seen fs = (Inl e, s)" using s by (simp add: abind_def)
    then show ?thesis using ls Inl fs Suc.prems(3) by (auto simp: canonicalises_def)
  next
    case (Inr st)
    have st: "st = stat_of s i" using ls(2) Inr i by auto
    have fields: "st_data st = fs_data fs i" "st_uid st = fs_uid fs i" "st_ino st = i" by (simp_all add: st stat_of_def s_ok)
    have seen: "\<forall>j \<in> set seen. canon s j" using canonises_seen [OF fs Suc.prems(5)] .
    let ?own = "abind (canonicaliseTimestampAndPermissions_st p st) (\<lambda>_.
       if st_uid st \<noteq> fs_euid s then or_throw ''changing owner'' (sys_lchown p (Some (fs_euid s)) (Some (fs_egid s))) else areturn ())"
    let ?sub = "abind (readDirectory p) (\<lambda>entries.
       afold (\<lambda>(name, _). canonicalisePathMetaData_rec fuel u (p @ ''/'' @ name)) entries (i # seen))"
    have leaf: "j = i" if "prefix k k'" "fs_ino fs k' = Some j" "fs_data fs i \<noteq> DDir" for k' j
      using children_names [OF ok _ that(1)] that(2,3) i by (cases "k' = k") (auto simp: fs_at_def)
    have run: "canonicalisePathMetaData_rec (Suc fuel) u p seen fs =
       (if fs_data fs i = DSpecial then (Inl (Throw Error ''file has an unsupported type''), s)
        else if u \<noteq> None \<and> u \<noteq> Some (fs_uid fs i) then
          (if fs_data fs i = DDir then (Inl (Abort ''!S_ISDIR(st.st_mode)''), s)
           else if i \<notin> set seen then (Inl (Throw BuildError ''invalid ownership on file''), s)
           else (Inr seen, s))
        else abind ?own (\<lambda>_. if fs_data fs i = DDir then ?sub else areturn (i # seen)) s)" (is "_ = ?run")
    proof -
      have "canon s i \<Longrightarrow> is_link (st_data st) \<or> st_uid st = fs_euid s \<and> canonical_mode (st_perm st) \<and> st_mtime st = mtimeStore"
        by (auto simp: canon_def st stat_of_def)
      then show ?thesis
        using s Inr seen by (auto simp: abind_def action_run fields abind_assoc split: prod.splits sum.splits)
    qed
    show ?thesis
    proof (cases "fs_data fs i = DSpecial \<or> u \<noteq> None \<and> u \<noteq> Some (fs_uid fs i)")
      case True
      have special: "canonicalises u (prefix k) seen fs (Inl (Throw Error ''file has an unsupported type''), s)"
        if "fs_data fs i = DSpecial" using that i fs by (auto simp: canonicalises_def fs_at_def)
      have foreign: "canonicalises u (prefix k) seen fs (Inl e, s)" if "e \<noteq> OutOfFuel" "u \<noteq> None" for e
        using that fs by (simp add: canonicalises_def)
      have known: "canonicalises u (prefix k) seen fs (Inr seen, s)"
        if "i \<in> set seen" "fs_data fs i \<noteq> DDir" "fs_data fs i \<noteq> DSpecial"
        using leaf [OF _ _ that(2)] that fs seen by (auto simp: canonicalises_def)
      show ?thesis
      proof (cases "fs_data fs i = DSpecial")
        case False
        then have other: "u \<noteq> None \<and> u \<noteq> Some (fs_uid fs i)" using True by blast
        then have "u \<noteq> None" by blast
        then show ?thesis unfolding run if_not_P [OF False] if_P [OF other]
          using known [OF _ _ False] foreign by (auto split: if_split)
      qed (use special run in simp)
    next
      case False
      obtain r1 v where v: "?own s = (r1, v)" by fastforce
      have own: "u = None \<or> u = Some (fs_uid s i)" using False by (simp add: s_ok)
      have "fs_ino s k = Some i" using i by (simp add: s_ok)
      note node = node_canonises [OF s_ok(1,2) this own st v]
      then have fv: "canonises u fs v" using transpD [OF canonises_rel(2) fs] by blast
      note v_eq = canonises_fs_ok [OF fv]
      have rest: "?run = (case r1 of Inl e \<Rightarrow> (Inl e, v) | Inr _ \<Rightarrow> (if fs_data fs i = DDir then ?sub else areturn (i # seen)) v)"
        using False v by (auto simp: abind_def split: sum.split)
      show ?thesis
      proof (cases r1)
        case (Inl e)
        then show ?thesis unfolding run rest using node fv canonises_quiet [OF fs] by (auto simp: canonicalises_def)
      next
        case (Inr x)
        have seen2: "\<forall>j \<in> set (i # seen). canon v j" using node Inr canonises_seen [OF fv Suc.prems(5)] by simp
        show ?thesis
        proof (cases "fs_data fs i = DDir")
          case True
          then have dir: "fs_at v k = Some DDir" using i by (simp add: v_eq fs_at_def)
          have bound: "\<forall>k'. fs_ino v k' \<noteq> None \<longrightarrow> length k' < Suc fuel + length k" using Suc.prems(4) by (simp add: v_eq)
          have "fs_ok v" "plain_path v p k" using ok plain by (simp_all add: v_eq)
          from canonicalises_directory [OF Suc.IH this dir bound seen2]
          have "canonicalises u (\<lambda>k'. prefix k k' \<and> k' \<noteq> k) (i # seen) v (?sub v)" .
          then have "canonicalises u (prefix k) seen fs (?sub v)"
            by (rule canonicalises_after [OF fv]) (use i True in auto)
          then show ?thesis unfolding run rest using Inr True by simp
        next
          case leaf_case: False
          have "canonicalises u (prefix k) seen fs (Inr (i # seen), v)"
            using fv seen2 leaf [OF _ _ leaf_case] False by (auto simp: canonicalises_def)
          then show ?thesis unfolding run rest using Inr leaf_case by (simp add: action_run)
        qed
      qed
    qed
  qed
qed

lemma canonicalises_path:
  assumes "fs_ok fs" "plain_path fs p k" "fs_ino fs k \<noteq> None" "\<forall>j \<in> set seen. canon fs j"
  shows "canonicalises u (prefix k) seen fs (canonicalisePathMetaData p u seen fs)"
proof -
  obtain r t where run: "canonicalisePathMetaData_rec (Suc (fs_depth fs)) u p seen fs = (r, t)" by fastforce
  have "\<forall>k'. fs_ino fs k' \<noteq> None \<longrightarrow> length k' < Suc (fs_depth fs) + length k"
    using fs_depth_bound [of fs] by (meson le_imp_less_Suc trans_less_add1)
  from canonicalises_rec [OF assms(1-3) this assms(4), of u]
  have rec: "canonicalises u (prefix k) seen fs (r, t)" unfolding run .
  show ?thesis
  proof (cases r)
    case (Inl e)
    then show ?thesis using rec run by (simp add: canonicalisePathMetaData_def abind_def action_run)
  next
    case (Inr b)
    have ft: "canonises u fs t" using rec by (simp add: canonicalises_def)
    note t_eq = canonises_fs_ok [OF ft]
    obtain i where i: "fs_ino fs k = Some i" using assms(3) by blast
    have b: "canon t i" "\<forall>j \<in> set b. canon t j" "set seen \<subseteq> set b"
      and all: "\<And>k' j. prefix k k' \<Longrightarrow> fs_ino fs k' = Some j \<Longrightarrow> j \<in> set b \<and> fs_data fs j \<noteq> DSpecial"
      using rec Inr i by (auto simp: canonicalises_def)
    obtain r1 v where v: "or_throw ''getting attributes of path'' (sys_lstat p) t = (r1, v)" by fastforce
    have ok: "fs_ok t" "plain_path t p k" using assms by (simp_all add: t_eq)
    note ls = attributes_plain [OF ok v]
    have fv: "canonises u fs v" using transpD [OF canonises_rel(2) ft] ls(1) canonises_faults by simp
    have res: "canonicalisePathMetaData p u seen fs = (case r1 of Inl e \<Rightarrow> (Inl e, v) | Inr _ \<Rightarrow> (Inr b, v))"
    proof (cases r1)
      case (Inr st)
      then have "st = stat_of v i" using ls(2) i by (auto simp: t_eq)
      then have "st_uid st = fs_euid v" using b(1) ls(1) by (simp add: stat_of_def canon_def)
      then show ?thesis using run \<open>r = Inr b\<close> v Inr by (simp add: canonicalisePathMetaData_def abind_def action_run)
    qed (use run Inr v in \<open>simp add: canonicalisePathMetaData_def abind_def action_run\<close>)
    have "\<forall>j \<in> set b. canon v j" using b(2) ls(1) by (simp add: canon_def)
    moreover have "fs_faults fs = [] \<Longrightarrow> \<exists>st. r1 = Inr st" using ls(3) canonises_quiet [OF ft] assms(3) by (simp add: t_eq)
    ultimately show ?thesis unfolding res using fv ls(4) b(3) all
      by (cases r1) (auto simp: canonicalises_def)
  qed
qed


definition sample_built_fs :: file_system where
  "sample_built_fs = sample_fs \<lparr> fs_perm := (\<lambda>_. 493), fs_uid := (\<lambda>_. 1000), fs_mtime := (\<lambda>_. 9) \<rparr>"


end
