(* ===== verification/Content.thy ===== *)
theory Content
  imports Metadata
begin

text \<open>
  Archives of what is on disk: \<^verbatim>\<open>dumpPath\<close>, \<^verbatim>\<open>hashPath\<close> and \<^verbatim>\<open>restorePath\<close> of
  \<^verbatim>\<open>src/nix/libutil/archive.cc\<close> and \<^verbatim>\<open>hash.cc\<close> again, now as programs over the file system with its system
  calls.  A successful dump is the archive of the tree on disk (the functions of the theories on archives),
  and restoring an archive creates its tree.  \<^verbatim>\<open>posix_fallocate\<close> is not used.  The recursion of a dump is bounded
  by the depth of the file system.
\<close>

section \<open>Operations\<close>

definition fs_dumpContents :: "Path \<Rightarrow> nat \<Rightarrow> (sink_calls, file_system) action" where
  "fs_dumpContents path sz =
     abind (or_throw ''opening file'' (sys_open path None False False)) (\<lambda>fd.
     abind (or_throw ''reading from file'' (sys_read_all fd)) (\<lambda>s.
     if length s < sz then athrow (Throw EndOfFile ''unexpected end-of-file'')
     else areturn (dumpContents (take sz s))))"

primrec fs_dump :: "nat \<Rightarrow> (Path \<Rightarrow> bool) \<Rightarrow> Path \<Rightarrow> (sink_calls, file_system) action" where
  "fs_dump 0 flt path = athrow OutOfFuel"
| "fs_dump (Suc fuel) flt path =
     abind (or_throw ''getting attributes of path'' (sys_lstat path)) (\<lambda>st.
     case st_data st of
       DReg _ \<Rightarrow>
         abind (fs_dumpContents path (st_size st)) (\<lambda>contents.
         areturn (writeString ''('' @ writeString ''type'' @ writeString ''regular'' @
           (if st_perm st AND S_IXUSR \<noteq> 0 then writeString ''executable'' @ writeString [] else []) @
           contents @ writeString '')''))
     | DDir \<Rightarrow>
         abind (readDirectory path) (\<lambda>entries.
         abind (afold (\<lambda>(i_first, i_second) out.
             if flt (path @ ''/'' @ i_first) then
               abind (fs_dump fuel flt (path @ ''/'' @ i_second)) (\<lambda>node.
               areturn (out @ writeString ''entry'' @ writeString ''('' @ writeString ''name'' @ writeString i_first @
                 writeString ''node'' @ node @ writeString '')''))
             else areturn out)
           (fold (\<lambda>(name, _). oput name name) entries []) []) (\<lambda>out.
         areturn (writeString ''('' @ writeString ''type'' @ writeString ''directory'' @ out @ writeString '')'')))
     | DLnk _ \<Rightarrow>
         abind (readLink path) (\<lambda>target.
         areturn (writeString ''('' @ writeString ''type'' @ writeString ''symlink'' @
           writeString ''target'' @ writeString target @ writeString '')''))
     | DSpecial \<Rightarrow> athrow (Throw Error ''file has an unsupported type''))"

definition fs_dumpPath :: "(Path \<Rightarrow> bool) \<Rightarrow> Path \<Rightarrow> (sink_calls, file_system) action" where
  "fs_dumpPath flt path =
     abind (aget fs_depth) (\<lambda>depth.
     abind (fs_dump (Suc depth) flt path) (\<lambda>out. areturn (writeString archiveVersion1 @ out)))"

definition fs_hashPath ::
  "gcrypt \<Rightarrow> (Path \<Rightarrow> bool) \<Rightarrow> HashType \<Rightarrow> Path \<Rightarrow> (Hash \<times> 64 word, file_system) action" where
  "fs_hashPath gcrypt flt ht path =
     abind (fs_dumpPath flt path) (\<lambda>calls.
     alift (HashSink_finish gcrypt ht (fold BufferedSink_call calls (new_BufferedSink (32 * 1024)))))"

definition sys_create :: "Path \<Rightarrow> 12 word \<Rightarrow> (nat + nat, file_system) action" where
  "sys_create p perm =
     sys (\<lambda>fs. ebind (new_name p fs) (\<lambda>k. Inr (fs_next fs, add_file k (DReg []) (masked perm fs) fs)))"

definition sys_fstat :: "nat \<Rightarrow> (nat + stat, file_system) action" where
  "sys_fstat i = sys (\<lambda>fs. Inr (stat_of fs i, fs))"

definition sys_fchmod :: "nat \<Rightarrow> 12 word \<Rightarrow> (nat + unit, file_system) action" where
  "sys_fchmod i perm = sys (\<lambda>fs. Inr ((), fs \<lparr> fs_perm := (fs_perm fs)(i := perm) \<rparr>))"

record restore_fs =
  rf_fs :: file_system
  rf_fd :: "nat option"

definition on_rf :: "('a, file_system) action \<Rightarrow> ('a, restore_fs) action" where
  "on_rf m s = (case m (rf_fs s) of (r, t) \<Rightarrow> (r, s \<lparr> rf_fs := t \<rparr>))"

definition with_fd :: "(nat \<Rightarrow> (unit, file_system) action) \<Rightarrow> (unit, restore_fs) action" where
  "with_fd f =
     abind (aget rf_fd) (\<lambda>fd.
     case fd of None \<Rightarrow> athrow (Throw (SysError EBADF) ''file descriptor'') | Some i \<Rightarrow> on_rf (f i))"

definition fs_RestoreSink :: "Path \<Rightarrow> restore_fs parse_sink" where
  "fs_RestoreSink dstPath =
     \<lparr> createDirectory = (\<lambda>path. on_rf (or_throw ''creating directory'' (sys_mkdir (dstPath @ path) 511))),
       createRegularFile = (\<lambda>path.
         abind (amodify (rf_fd_update (\<lambda>_. None))) (\<lambda>_.
         abind (on_rf (or_throw ''creating file'' (sys_create (dstPath @ path) 438))) (\<lambda>fd.
         amodify (rf_fd_update (\<lambda>_. Some fd))))),
       isExecutable = with_fd (\<lambda>i.
         abind (or_throw ''fstat'' (sys_fstat i)) (\<lambda>st.
         or_throw ''fchmod'' (sys_fchmod i (st_perm st OR 73)))),
       preallocateContents = (\<lambda>len. areturn ()),
       receiveContents = (\<lambda>data. with_fd (\<lambda>i. or_throw ''writing to file'' (sys_append i data))),
       createSymlink = (\<lambda>path target. on_rf (fs_createSymlink target (dstPath @ path))) \<rparr>"

definition fs_restorePath :: "Path \<Rightarrow> source \<Rightarrow> (source, file_system) action" where
  "fs_restorePath path src fs =
     (case parseDump (fs_RestoreSink path) src \<lparr> rf_fs = fs, rf_fd = None \<rparr> of (r, s) \<Rightarrow> (r, rf_fs s))"

section \<open>A dump is the archive of the tree\<close>

text \<open>The tree that a name denotes.\<close>

primrec fs_node :: "nat \<Rightarrow> file_system \<Rightarrow> string list \<Rightarrow> node" where
  "fs_node 0 fs k = Special"
| "fs_node (Suc fuel) fs k =
     (case fs_ino fs k of
        None \<Rightarrow> Special
      | Some i \<Rightarrow>
          (case fs_data fs i of
             DReg s \<Rightarrow> Regular (fs_perm fs i AND S_IXUSR \<noteq> 0) s
           | DLnk t \<Rightarrow> Symlink t
           | DSpecial \<Rightarrow> Special
           | DDir \<Rightarrow> Directory (map (\<lambda>(name, _). (name, fs_node fuel fs (k @ [name]))) (children k fs))))"

definition fs_tree :: "file_system \<Rightarrow> string list \<Rightarrow> node" where
  "fs_tree fs k = fs_node (Suc (fs_depth fs)) fs k"

definition later :: "file_system \<Rightarrow> file_system \<Rightarrow> bool" where
  "later fs t \<longleftrightarrow> (\<exists>f. t = fs \<lparr> fs_faults := f \<rparr>) \<and> (fs_faults fs = [] \<longrightarrow> fs_faults t = [])"

lemma later_refl [simp]: "later fs fs"
  unfolding later_def by (intro conjI exI [of _ "fs_faults fs"]) simp_all

lemma later_tl [simp]: "later fs (fs \<lparr> fs_faults := tl (fs_faults fs) \<rparr>)"
  by (auto simp: later_def)

lemma later_trans: "later a b \<Longrightarrow> later b c \<Longrightarrow> later a c"
  by (auto simp: later_def)

lemma children_faults [simp]: "children k (fs \<lparr> fs_faults := f \<rparr>) = children k fs"
  by (simp add: children_def)

lemma fs_depth_faults [simp]: "fs_depth (fs \<lparr> fs_faults := f \<rparr>) = fs_depth fs"
  by (simp add: fs_depth_def)

lemma fs_node_faults [simp]: "fs_node n (fs \<lparr> fs_faults := f \<rparr>) k = fs_node n fs k"
  by (induction n arbitrary: k) (simp_all split: option.split fdata.split)

lemma later_eq:
  assumes "later fs t"
  shows "fs_ok t = fs_ok fs" "fs_ino t = fs_ino fs" "fs_data t = fs_data fs" "fs_perm t = fs_perm fs" "plain_path t = plain_path fs"
    "fs_node n t k = fs_node n fs k" "fs_faults fs = [] \<Longrightarrow> fs_faults t = []" "fs_depth t = fs_depth fs" "children k t = children k fs"
    "fs_at t = fs_at fs" "fs_names t = fs_names fs"
  using assms by (auto simp: later_def)

text \<open>
  A program over the file system agrees with a result: it changes nothing, what it returns is that result, and
  it returns it when no system call fails.
\<close>

definition agrees :: "'a result \<Rightarrow> ('a, file_system) action \<Rightarrow> file_system \<Rightarrow> bool" where
  "agrees r m fs \<longleftrightarrow>
     later fs (snd (m fs)) \<and> fst (m fs) \<noteq> Inl OutOfFuel \<and> (\<forall>x. fst (m fs) = Inr x \<longrightarrow> r = Inr x) \<and>
     (fs_faults fs = [] \<longrightarrow> fst (m fs) = r)"

lemma agrees_bind:
  assumes m: "agrees r m fs" and f: "\<And>x t. r = Inr x \<Longrightarrow> later fs t \<Longrightarrow> agrees (f x) (g x) t"
  shows "agrees (rbind r f) (abind m g) fs"
proof -
  obtain q t where t: "m fs = (q, t)" by fastforce
  have l: "later fs t" using m t by (simp add: agrees_def)
  show ?thesis
  proof (cases q)
    case (Inl e)
    then show ?thesis using m t by (auto simp: agrees_def abind_def)
  next
    case (Inr x)
    then have r: "r = Inr x" using m t by (simp add: agrees_def)
    obtain q2 u where u: "g x t = (q2, u)" by fastforce
    have fx: "agrees (f x) (g x) t" using f [OF r l] .
    then have "later t u" by (simp add: agrees_def u)
    with l have fu: "later fs u" by (rule later_trans)
    have run: "abind m g fs = (q2, u)" using t Inr u by (simp add: abind_def)
    show ?thesis unfolding agrees_def run r rbind_simps fst_conv snd_conv
      using fx [unfolded agrees_def u fst_conv snd_conv] later_eq(7) [OF l] fu by blast
  qed
qed

lemma agrees_return: "agrees (Inr x) (areturn x) fs"
  by (simp add: agrees_def action_run)

lemma agrees_throw: "e \<noteq> OutOfFuel \<Longrightarrow> agrees (Inl e) (athrow e) fs"
  by (simp add: agrees_def action_run)

lemma agrees_sys:
  assumes "call (fs \<lparr> fs_faults := tl (fs_faults fs) \<rparr>) = Inr (x, fs \<lparr> fs_faults := tl (fs_faults fs) \<rparr>)"
  shows "agrees (Inr x) (or_throw w (sys call)) fs"
proof -
  obtain r t where run: "or_throw w (sys call) fs = (r, t)" by fastforce
  then show ?thesis
  proof (cases rule: or_throw_sys)
    case (failed e)
    have "fs_faults fs \<noteq> []" using failed(3) unfolding assms by blast
    then show ?thesis by (simp add: agrees_def run failed(1,2))
  next
    case (good x')
    have "x' = x" "t = fs \<lparr> fs_faults := tl (fs_faults fs) \<rparr>" using good(2) unfolding assms by auto
    then show ?thesis by (simp add: agrees_def run good(1))
  qed
qed

lemma agrees_lookup:
  assumes "fs_ok fs" "plain_path fs p k" "fs_ino fs k = Some i" "follow \<longrightarrow> \<not> is_link (fs_data fs i)"
    and "\<And>f. call k i (fs \<lparr> fs_faults := f \<rparr>) = Inr (x, fs \<lparr> fs_faults := f \<rparr>)"
  shows "agrees (Inr x) (or_throw w (sys (\<lambda>fs. ebind (lookup_ino follow p fs) (\<lambda>(k, i). call k i fs)))) fs"
proof (rule agrees_sys)
  have "lookup_ino follow p fs = Inr (k, i)"
  proof (cases follow)
    case True
    then have "\<And>t. fs_at fs k \<noteq> Some (DLnk t)" using assms(3,4) by (auto simp: fs_at_def)
    from plain_path_follow [OF assms(1,2) this] show ?thesis using True assms(3) by (simp add: lookup_ino_def ebind_def)
  qed (use lookup_ino_plain [OF assms(1,2)] assms(3) in simp)
  then show "(ebind (lookup_ino follow p (fs \<lparr> fs_faults := tl (fs_faults fs) \<rparr>))
      (\<lambda>(k, i). call k i (fs \<lparr> fs_faults := tl (fs_faults fs) \<rparr>))) = Inr (x, fs \<lparr> fs_faults := tl (fs_faults fs) \<rparr>)"
    using assms(5) by (simp add: ebind_def)
qed
lemma agrees_lstat:
  assumes "fs_ok fs" "plain_path fs p k" "fs_ino fs k = Some i"
  shows "agrees (Inr (stat_of fs i)) (or_throw w (sys_lstat p)) fs"
  unfolding sys_stat_def
  by (rule agrees_lookup [OF assms]) (simp_all add: stat_of_def fs_nlink_def)

lemma agrees_readDirectory:
  assumes "fs_ok fs" "plain_path fs p k" "fs_ino fs k = Some i" "fs_data fs i = DDir"
  shows "agrees (Inr (map (\<lambda>(name, j). (name, j, fs_data fs j)) (children k fs))) (readDirectory p) fs"
proof -
  have es: "concat (map (\<lambda>(name, j). [(name, j, fs_data fs j)]) xs) = map (\<lambda>(name, j). (name, j, fs_data fs j)) xs"
    for xs :: "(string \<times> nat) list" by (induction xs) auto
  show ?thesis unfolding readDirectory_def sys_readdir_def
    by (rule agrees_lookup [OF assms(1-3)]) (simp_all add: assms(4) es)
qed

lemma agrees_readLink:
  assumes "fs_ok fs" "plain_path fs p k" "fs_ino fs k = Some i" "fs_data fs i = DLnk l"
  shows "agrees (Inr l) (readLink p) fs"
proof -
  have "agrees (rbind (Inr (stat_of fs i)) (\<lambda>st. Inr l)) (readLink p) fs"
    unfolding readLink_def lstat_def
  proof (rule agrees_bind [OF agrees_lstat [OF assms(1-3)]])
    fix st t assume st: "Inr (stat_of fs i) = (Inr st :: stat result)" and l: "later fs t"
    have t: "fs_ok t" "plain_path t p k" "fs_ino t k = Some i" "fs_data t i = DLnk l" using assms by (simp_all add: later_eq [OF l])
    have "st_data st = DLnk l" using st assms(4) by (auto simp: stat_of_def)
    moreover have "agrees (Inr l) (or_throw ''reading symbolic link'' (sys (\<lambda>fs. ebind (lookup_ino False p fs) (\<lambda>(_, i).
           case fs_data fs i of DLnk t \<Rightarrow> Inr (t, fs) | _ \<Rightarrow> Inl EINVAL)))) t"
      by (rule agrees_lookup [OF t(1-3)]) (simp_all add: t(4))
    ultimately show "agrees (Inr l) (case st_data st of
       DLnk target \<Rightarrow>
         or_throw ''reading symbolic link'' (sys (\<lambda>fs. ebind (lookup_ino False p fs) (\<lambda>(_, i).
           case fs_data fs i of DLnk t \<Rightarrow> Inr (t, fs) | _ \<Rightarrow> Inl EINVAL)))
     | _ \<Rightarrow> athrow (Throw Error ''is not a symlink'')) t" by simp
  qed
  then show ?thesis by simp
qed

lemma agrees_dumpContents:
  assumes "fs_ok fs" "plain_path fs p k" "fs_ino fs k = Some i" "fs_data fs i = DReg s"
  shows "agrees (Inr (dumpContents s)) (fs_dumpContents p (length s)) fs"
proof -
  have "\<And>t. fs_at fs k \<noteq> Some (DLnk t)" using assms(3,4) by (auto simp: fs_at_def)
  note un = plain_path_follow [OF assms(1,2) this]
  have 1: "agrees (Inr i) (or_throw ''opening file'' (sys_open p None False False)) fs"
    unfolding sys_open_def by (rule agrees_sys) (use un assms(3) in \<open>simp add: ebind_def\<close>)
  have 2: "agrees (Inr s) (or_throw ''reading from file'' (sys_read_all i)) t" if "later fs t" for t
    unfolding sys_read_all_def by (rule agrees_sys) (use assms(4) in \<open>simp add: later_eq [OF that]\<close>)
  have "agrees (rbind (Inr i) (\<lambda>_. rbind (Inr s) (\<lambda>s. Inr (dumpContents s)))) (fs_dumpContents p (length s)) fs"
    unfolding fs_dumpContents_def
  proof (intro agrees_bind [OF 1] agrees_bind)
    fix x t assume x: "Inr i = (Inr x :: nat result)" and l: "later fs t"
    show "agrees (Inr s) (or_throw ''reading from file'' (sys_read_all x)) t" using 2 [OF l] x by simp
    fix y u assume "Inr s = (Inr y :: string result)"
    then show "agrees (Inr (dumpContents y)) (if length y < length s then athrow (Throw EndOfFile ''unexpected end-of-file'')
        else areturn (dumpContents (take (length s) y))) u" using agrees_return by simp
  qed
  then show ?thesis by simp
qed

lemma agrees_entries:
  assumes "\<And>t name out. (name, name) \<in> set ns \<Longrightarrow> later fs t \<Longrightarrow> agrees (dump flt (p @ ''/'' @ name) (N name)) (d (p @ ''/'' @ name)) t"
    and "\<And>a b. (a, b) \<in> set ns \<Longrightarrow> a = b" and "later fs t"
  shows "agrees (rbind (dump_entries flt p (map (\<lambda>(a, b). (a, N b)) ns)) (\<lambda>outs. Inr (out @ outs)))
    (afold (\<lambda>(i_first, i_second) out.
             if flt (p @ ''/'' @ i_first) then
               abind (d (p @ ''/'' @ i_second)) (\<lambda>node.
               areturn (out @ writeString ''entry'' @ writeString ''('' @ writeString ''name'' @ writeString i_first @
                 writeString ''node'' @ node @ writeString '')''))
             else areturn out) ns out) t"
  using assms
proof (induction ns arbitrary: out t)
  case Nil
  then show ?case by (simp add: agrees_def action_run)
next
  case (Cons e ns)
  obtain n where e: "e = (n, n)" using Cons.prems(2) by (cases e) auto
  let ?fst = "if flt (p @ ''/'' @ n) then
       rbind (dump flt (p @ ''/'' @ n) (N n)) (\<lambda>node.
       Inr (out @ writeString ''entry'' @ writeString ''('' @ writeString ''name'' @ writeString n @ writeString ''node'' @ node @ writeString '')''))
     else Inr out"
  have 1: "agrees ?fst (if flt (p @ ''/'' @ n) then
               abind (d (p @ ''/'' @ n)) (\<lambda>node.
               areturn (out @ writeString ''entry'' @ writeString ''('' @ writeString ''name'' @ writeString n @
                 writeString ''node'' @ node @ writeString '')''))
             else areturn out) t"
  proof (cases "flt (p @ ''/'' @ n)")
    case True
    have "agrees (dump flt (p @ ''/'' @ n) (N n)) (d (p @ ''/'' @ n)) t" using Cons.prems(1) [OF _ Cons.prems(3)] e by simp
    then show ?thesis unfolding if_P [OF True] by (rule agrees_bind) (rule agrees_return)
  next
    case False
    then show ?thesis by (simp add: agrees_return)
  qed
  have "rbind (dump_entries flt p (map (\<lambda>(a, b). (a, N b)) (e # ns))) (\<lambda>outs. Inr (out @ outs)) =
      rbind ?fst (\<lambda>out. rbind (dump_entries flt p (map (\<lambda>(a, b). (a, N b)) ns)) (\<lambda>outs. Inr (out @ outs)))"
    by (simp add: e rbind_assoc split: if_split)
  moreover have "agrees (rbind ?fst (\<lambda>out. rbind (dump_entries flt p (map (\<lambda>(a, b). (a, N b)) ns)) (\<lambda>outs. Inr (out @ outs))))
      (afold (\<lambda>(i_first, i_second) out.
             if flt (p @ ''/'' @ i_first) then
               abind (d (p @ ''/'' @ i_second)) (\<lambda>node.
               areturn (out @ writeString ''entry'' @ writeString ''('' @ writeString ''name'' @ writeString i_first @
                 writeString ''node'' @ node @ writeString '')''))
             else areturn out) (e # ns) out) t"
    unfolding afold.simps e prod.case
  proof (rule agrees_bind [OF 1])
    fix o' t' assume "later t t'"
    then have "later fs t'" using Cons.prems(3) later_trans by blast
    then show "agrees (rbind (dump_entries flt p (map (\<lambda>(a, b). (a, N b)) ns)) (\<lambda>outs. Inr (o' @ outs)))
      (afold (\<lambda>(i_first, i_second) out.
             if flt (p @ ''/'' @ i_first) then
               abind (d (p @ ''/'' @ i_second)) (\<lambda>node.
               areturn (out @ writeString ''entry'' @ writeString ''('' @ writeString ''name'' @ writeString i_first @
                 writeString ''node'' @ node @ writeString '')''))
             else areturn out) ns o') t'"
      by (intro Cons.IH Cons.prems(1,2)) auto
  qed
  ultimately show ?case by simp
qed

lemma agrees_map: "agrees r m fs \<Longrightarrow> agrees (rbind r (\<lambda>x. Inr (h x))) (abind m (\<lambda>x. areturn (h x))) fs"
  by (erule agrees_bind) (rule agrees_return)

lemma unhacked_names:
  "unhacked (map (\<lambda>(name, j). (name, N name)) es) =
     map (\<lambda>(a, b). (a, N b)) (fold (\<lambda>(name, _). oput name name) (map (\<lambda>(name, j). (name, g name j)) es) [])"
proof -
  have "fold (\<lambda>(name, _). oput name name) (map (\<lambda>(name, j). (name, g name j)) es) m =
      fold (\<lambda>(k, v). oput k v) (map (\<lambda>(name, j). (name, name)) es) m" for m
    by (induction es arbitrary: m) auto
  moreover have e: "map (\<lambda>(name, j). (name, N name)) es = map (\<lambda>(k, v). (k, N v)) (map (\<lambda>(name, j). (name, name)) es)"
    by (induction es) auto
  ultimately show ?thesis
    using fold_oput_map [of N "map (\<lambda>(name, j). (name, name)) es" "[]"] unfolding unhacked_def e by simp
qed

lemma fold_oput_same:
  assumes "(a, b) \<in> set (fold (\<lambda>(name, _). oput name name) es [])"
  shows "a = b \<and> a \<in> fst ` set es"
proof -
  have oput: "set (oput n v m) \<subseteq> insert (n, v) (set m)" for n v and m :: "('a, 'a) omap"
    by (induction n v m rule: oput.induct) auto
  have "set (fold (\<lambda>(name, _). oput name name) es m) \<subseteq> set m \<union> (\<lambda>e. (fst e, fst e)) ` set es" for m
  proof (induction es arbitrary: m)
    case (Cons e es)
    show ?case using Cons.IH [of "oput (fst e) (fst e) m"] oput [of "fst e" "fst e" m] by (cases e) auto
  qed simp
  from subsetD [OF this assms] show ?thesis by auto
qed

lemma agrees_dump:
  "fs_ok fs \<Longrightarrow> plain_path fs p k \<Longrightarrow> fs_ino fs k \<noteq> None \<Longrightarrow>
     \<forall>k'. fs_ino fs k' \<noteq> None \<longrightarrow> length k' < fuel + length k \<Longrightarrow>
   agrees (dump flt p (fs_node fuel fs k)) (fs_dump fuel flt p) fs"
proof (induction fuel arbitrary: p k fs)
  case 0
  then show ?case by fastforce
next
  case (Suc fuel)
  note ok = Suc.prems(1,2)
  obtain i where i: "fs_ino fs k = Some i" using Suc.prems(3) by blast
  have "agrees (rbind (Inr (stat_of fs i)) (\<lambda>_. dump flt p (fs_node (Suc fuel) fs k))) (fs_dump (Suc fuel) flt p) fs"
    unfolding fs_dump.simps
  proof (rule agrees_bind [OF agrees_lstat [OF ok i]])
    fix st t assume "Inr (stat_of fs i) = (Inr st :: stat result)" and l: "later fs t"
    then have st: "st_data st = fs_data fs i" "st_perm st = fs_perm fs i" "st_size st = data_size (fs_data fs i)"
      by (auto simp: stat_of_def)
    note eq = later_eq [OF l]
    have t: "fs_ok t" "plain_path t p k" "fs_ino t k = Some i" using ok i by (simp_all add: eq)
    show "agrees (dump flt p (fs_node (Suc fuel) fs k)) (case st_data st of
       DReg _ \<Rightarrow>
         abind (fs_dumpContents p (st_size st)) (\<lambda>contents.
         areturn (writeString ''('' @ writeString ''type'' @ writeString ''regular'' @
           (if st_perm st AND S_IXUSR \<noteq> 0 then writeString ''executable'' @ writeString [] else []) @
           contents @ writeString '')''))
     | DDir \<Rightarrow>
         abind (readDirectory p) (\<lambda>entries.
         abind (afold (\<lambda>(i_first, i_second) out.
             if flt (p @ ''/'' @ i_first) then
               abind (fs_dump fuel flt (p @ ''/'' @ i_second)) (\<lambda>node.
               areturn (out @ writeString ''entry'' @ writeString ''('' @ writeString ''name'' @ writeString i_first @
                 writeString ''node'' @ node @ writeString '')''))
             else areturn out)
           (fold (\<lambda>(name, _). oput name name) entries []) []) (\<lambda>out.
         areturn (writeString ''('' @ writeString ''type'' @ writeString ''directory'' @ out @ writeString '')'')))
     | DLnk _ \<Rightarrow>
         abind (readLink p) (\<lambda>target.
         areturn (writeString ''('' @ writeString ''type'' @ writeString ''symlink'' @
           writeString ''target'' @ writeString target @ writeString '')''))
     | DSpecial \<Rightarrow> athrow (Throw Error ''file has an unsupported type'')) t" (is "agrees ?r ?m t")
    proof (cases "fs_data fs i")
      case (DReg s)
      have "fs_data t i = DReg s" using DReg by (simp add: eq)
      note agrees_map [OF agrees_dumpContents [OF t this],
          of "\<lambda>contents. writeString ''('' @ writeString ''type'' @ writeString ''regular'' @
           (if st_perm st AND S_IXUSR \<noteq> 0 then writeString ''executable'' @ writeString [] else []) @
           contents @ writeString '')''"]
      then show ?thesis using DReg i st by simp
    next
      case DDir
      have dir: "fs_data t i = DDir" using DDir by (simp add: eq)
      define es where "es = map (\<lambda>(name, j). (name, j, fs_data t j)) (children k t)"
      define ns where "ns = fold (\<lambda>(name, _). oput name name) es []"
      define N where "N = (\<lambda>name. fs_node fuel fs (k @ [name]))"
      have sub: "agrees (dump flt (p @ ''/'' @ name) (N name)) (fs_dump fuel flt (p @ ''/'' @ name)) u"
        if name: "(name, name) \<in> set ns" and lu: "later t u" for name u
      proof -
        note eq' = later_eq [OF later_trans [OF l lu]]
        obtain j where "(name, j) \<in> set (children k fs)"
          using fold_oput_same [OF name [unfolded ns_def]] by (auto simp: es_def eq)
        then have ino: "fs_ino fs (k @ [name]) \<noteq> None" using children_iff [OF ok(1)] by simp
        then have "canonical_component name" using fs_okD(4) [OF ok(1), of "k @ [name]"] by auto
        moreover have "path_components p = k" using ok(2) by (simp add: plain_path_def)
        moreover have "fs_at fs k = Some DDir" using i DDir by (simp add: fs_at_def)
        ultimately have "plain_path u (p @ ''/'' @ name) (k @ [name])" using plain_path_child eq'(5) by auto
        moreover have "fs_ok u" "fs_ino u (k @ [name]) \<noteq> None" "\<forall>k'. fs_ino u k' \<noteq> None \<longrightarrow> length k' < fuel + length (k @ [name])"
          using ok(1) ino Suc.prems(4) by (simp_all add: eq')
        ultimately show ?thesis using Suc.IH [of u "p @ ''/'' @ name" "k @ [name]"] by (simp add: eq' N_def)
      qed
      have same: "\<And>a b. (a, b) \<in> set ns \<Longrightarrow> a = b" using fold_oput_same by (auto simp: ns_def)
      have tree: "unhacked (map (\<lambda>(name, j). (name, N name)) (children k fs)) = map (\<lambda>(a, b). (a, N b)) ns"
        using unhacked_names [of N "children k fs" "\<lambda>_ j. (j, fs_data fs j)"] by (simp add: ns_def es_def eq)
      have list: "agrees (rbind (Inr es) (\<lambda>es. rbind (dump_entries flt p (map (\<lambda>(a, b). (a, N b)) ns))
          (\<lambda>out. Inr (writeString ''('' @ writeString ''type'' @ writeString ''directory'' @ out @ writeString '')'')))) ?m t"
        unfolding st DDir fdata.case
      proof (rule agrees_bind [OF agrees_readDirectory [OF t dir, folded es_def]])
        fix x u assume "Inr es = (Inr x :: _ result)" and lu: "later t u"
        then have x: "x = es" by simp
        have "agrees (rbind (dump_entries flt p (map (\<lambda>(a, b). (a, N b)) ns)) (\<lambda>outs. Inr ([] @ outs)))
          (afold (\<lambda>(i_first, i_second) out.
             if flt (p @ ''/'' @ i_first) then
               abind (fs_dump fuel flt (p @ ''/'' @ i_second)) (\<lambda>node.
               areturn (out @ writeString ''entry'' @ writeString ''('' @ writeString ''name'' @ writeString i_first @
                 writeString ''node'' @ node @ writeString '')''))
             else areturn out) ns []) u"
          by (rule agrees_entries [where fs = t]) (use sub same lu in auto)
        from agrees_map [OF this, of "\<lambda>out. writeString ''('' @ writeString ''type'' @ writeString ''directory'' @ out @ writeString '')''"]
        show "agrees (rbind (dump_entries flt p (map (\<lambda>(a, b). (a, N b)) ns))
          (\<lambda>out. Inr (writeString ''('' @ writeString ''type'' @ writeString ''directory'' @ out @ writeString '')'')))
          (abind (afold (\<lambda>(i_first, i_second) out.
             if flt (p @ ''/'' @ i_first) then
               abind (fs_dump fuel flt (p @ ''/'' @ i_second)) (\<lambda>node.
               areturn (out @ writeString ''entry'' @ writeString ''('' @ writeString ''name'' @ writeString i_first @
                 writeString ''node'' @ node @ writeString '')''))
             else areturn out) (fold (\<lambda>(name, _). oput name name) x []) [])
            (\<lambda>out. areturn (writeString ''('' @ writeString ''type'' @ writeString ''directory'' @ out @ writeString '')''))) u"
          unfolding x ns_def [symmetric] by (simp add: rbind_assoc)
      qed
      have "fs_node (Suc fuel) fs k = Directory (map (\<lambda>(name, j). (name, N name)) (children k fs))"
        using i DDir by (simp add: N_def)
      then have "dump flt p (fs_node (Suc fuel) fs k) = rbind (dump_entries flt p (map (\<lambda>(a, b). (a, N b)) ns))
          (\<lambda>out. Inr (writeString ''('' @ writeString ''type'' @ writeString ''directory'' @ out @ writeString '')''))"
        by (simp add: tree)
      with list show ?thesis by simp
    next
      case (DLnk target)
      have "fs_data t i = DLnk target" using DLnk by (simp add: eq)
      note agrees_map [OF agrees_readLink [OF t this],
          of "\<lambda>target. writeString ''('' @ writeString ''type'' @ writeString ''symlink'' @
           writeString ''target'' @ writeString target @ writeString '')''"]
      then show ?thesis using DLnk i st by simp
    next
      case DSpecial
      then show ?thesis using i st by (simp add: agrees_throw)
    qed
  qed
  then show ?case by simp
qed

lemma agrees_aget: "agrees r (g (f fs)) fs \<Longrightarrow> agrees r (abind (aget f) g) fs"
proof -
  have run: "abind (aget f) g fs = g (f fs) fs" by (simp add: abind_def action_run)
  show "agrees r (g (f fs)) fs \<Longrightarrow> ?thesis" unfolding agrees_def run .
qed

lemma agrees_dumpPath:
  assumes "fs_ok fs" "plain_path fs p k" "fs_ino fs k \<noteq> None"
  shows "agrees (dumpPath flt p (fs_tree fs k)) (fs_dumpPath flt p) fs"
proof -
  have b: "\<forall>k'. fs_ino fs k' \<noteq> None \<longrightarrow> length k' < Suc (fs_depth fs) + length k"
    using fs_depth_bound [of fs] by (meson le_imp_less_Suc trans_less_add1)
  show ?thesis unfolding fs_dumpPath_def dumpPath_def fs_tree_def
    by (rule agrees_aget) (rule agrees_map [OF agrees_dump [OF assms b]])
qed

lemma agrees_lift: "r \<noteq> Inl OutOfFuel \<Longrightarrow> agrees r (alift r) fs"
  by (simp add: agrees_def alift_def)

lemma agrees_hashPath:
  assumes "fs_ok fs" "plain_path fs p k" "fs_ino fs k \<noteq> None"
  shows "agrees (hashPath g ht flt p (fs_tree fs k)) (fs_hashPath g flt ht p) fs"
  unfolding hashPath_def fs_hashPath_def
proof (rule agrees_bind [OF agrees_dumpPath [OF assms(1-3)]])
  fix x t
  show "agrees (HashSink_finish g ht (fold BufferedSink_call x (new_BufferedSink (32 * 1024))))
     (alift (HashSink_finish g ht (fold BufferedSink_call x (new_BufferedSink (32 * 1024))))) t"
    by (rule agrees_lift) (auto simp: HashSink_finish_def Hash_new_def Let_def)
qed

end
