(* ===== verification/Optimise.thy ===== *)
theory Optimise
  imports GC Content
begin

text \<open>
  Deduplication of the store, after \<^verbatim>\<open>src/nix/libstore/optimise-store.cc\<close>: files with the same archive are replaced
  by hard links to one file in the directory \<^verbatim>\<open>.links\<close>.  The statistics leave out the blocks, which nothing reads, and the inode
  numbers loaded from \<^verbatim>\<open>.links\<close> leave out the entries . and .., which no store path contains.  A
  recursion over a directory is bounded by the depth of the file system.  The loop that removes a corrupted link
  and tries again ends at the latest when the script of faults is used up and one more link has been made, unless
  it never ends.
\<close>

section \<open>Operations\<close>

record OptimiseStats =
  filesLinked :: "64 word"
  os_bytesFreed :: "64 word"

definition OptimiseStats_init :: OptimiseStats where
  "OptimiseStats_init = \<lparr> filesLinked = 0, os_bytesFreed = 0 \<rparr>"

type_synonym InodeHash = "nat list"

definition makeWritable :: "Path \<Rightarrow> (unit, file_system) action" where
  "makeWritable path =
     abind (or_throw ''getting attributes of path'' (sys_lstat path)) (\<lambda>st.
     or_throw ''changing writability'' (sys_chmod path (st_perm st OR S_IWUSR)))"

text \<open>The scope of a \<^verbatim>\<open>MakeReadOnly\<close> object: its destructor runs however the scope is left and ignores exceptions.\<close>

definition MakeReadOnly :: "Path option \<Rightarrow> ('a, file_system) action \<Rightarrow> ('a, file_system) action" where
  "MakeReadOnly path body fs =
     (case body fs of (r, t) \<Rightarrow>
        (case path of None \<Rightarrow> (r, t) | Some p \<Rightarrow> (r, snd (canonicaliseTimestampAndPermissions p t))))"

definition loadInodeHash :: "Path \<Rightarrow> (InodeHash, file_system) action" where
  "loadInodeHash linksDir =
     abind (or_throw ''opening directory'' (sys_readdir linksDir)) (\<lambda>entries.
     areturn (map (\<lambda>(_, ino, _). ino) entries))"

definition readDirectoryIgnoringInodes :: "Path \<Rightarrow> InodeHash \<Rightarrow> (string list, file_system) action" where
  "readDirectoryIgnoringInodes path inodeHash =
     abind (or_throw ''opening directory'' (sys_readdir path)) (\<lambda>entries.
     areturn (map fst (filter (\<lambda>(_, ino, _). ino \<notin> set inodeHash) entries)))"

definition replace_by_link ::
  "daemon_env \<Rightarrow> Path \<Rightarrow> stat \<Rightarrow> Path \<Rightarrow> OptimiseStats \<Rightarrow> (OptimiseStats, file_system) action" where
  "replace_by_link env path st linkPath stats =
     abind (if isStorePath (de_store env) path then areturn None
            else abind (alift (dirOf path)) (\<lambda>dir. abind (makeWritable dir) (\<lambda>_. areturn (Some dir)))) (\<lambda>toggled.
     MakeReadOnly toggled (
       abind (aget fs_pid) (\<lambda>pid.
       abind next_rand (\<lambda>n.
       let tempLink = de_store env @ ''/.tmp-link-'' @ show_nat pid @ ''-'' @ show_nat n in
       abind (sys_link linkPath tempLink) (\<lambda>r.
       case r of
         Inl e \<Rightarrow> if e = EMLINK then areturn stats else athrow (Throw (SysError e) ''cannot link'')
       | Inr _ \<Rightarrow>
           abind (sys_rename tempLink path) (\<lambda>r.
           case r of
             Inl renameErrno \<Rightarrow>
               abind (sys_unlink tempLink) (\<lambda>_.
               if renameErrno = EMLINK then areturn stats else athrow (Throw (SysError renameErrno) ''cannot rename''))
           | Inr _ \<Rightarrow>
               areturn (stats \<lparr> filesLinked := filesLinked stats + 1,
                 os_bytesFreed := os_bytesFreed stats + word_of_nat (st_size st) \<rparr>)))))))"

primrec optimise_file ::
  "nat \<Rightarrow> daemon_env \<Rightarrow> Path \<Rightarrow> stat \<Rightarrow> Path \<Rightarrow> OptimiseStats \<times> InodeHash \<Rightarrow> (OptimiseStats \<times> InodeHash, file_system) action" where
  "optimise_file 0 env path st linkPath acc = athrow Diverges"
| "optimise_file (Suc fuel) env path st linkPath acc =
     abind (pathExists linkPath) (\<lambda>ex.
     abind
       (if ex then areturn None
        else abind (sys_link path linkPath) (\<lambda>r.
          case r of
            Inr _ \<Rightarrow> areturn (Some (fst acc, st_ino st # snd acc))
          | Inl e \<Rightarrow>
              if e = EEXIST then areturn None
              else if e = ENOSPC then areturn (Some acc)
              else athrow (Throw (SysError e) ''cannot link''))) (\<lambda>finished.
     case finished of
       Some acc \<Rightarrow> areturn acc
     | None \<Rightarrow>
         abind (or_throw ''getting attributes of path'' (sys_lstat linkPath)) (\<lambda>stLink.
         if st_ino st = st_ino stLink then areturn acc
         else if st_size st \<noteq> st_size stLink then
           abind (sys_unlink linkPath) (\<lambda>_. optimise_file fuel env path st linkPath acc)
         else
           abind (replace_by_link env path st linkPath (fst acc)) (\<lambda>stats. areturn (stats, snd acc)))))"

primrec optimisePath_rec ::
  "nat \<Rightarrow> daemon_env \<Rightarrow> Path \<Rightarrow> OptimiseStats \<times> InodeHash \<Rightarrow> (OptimiseStats \<times> InodeHash, file_system) action" where
  "optimisePath_rec 0 env path acc = athrow OutOfFuel"
| "optimisePath_rec (Suc fuel) env path acc =
     abind (or_throw ''getting attributes of path'' (sys_lstat path)) (\<lambda>st.
     case st_data st of
       DDir \<Rightarrow>
         abind (readDirectoryIgnoringInodes path (snd acc)) (\<lambda>names.
         afold (\<lambda>name. optimisePath_rec fuel env (path @ ''/'' @ name)) names acc)
     | DReg _ \<Rightarrow>
         if st_size st < deduplicationMinSize then areturn acc
         else if st_perm st AND S_IWUSR \<noteq> 0 then areturn acc
         else if 1 < st_nlink st \<and> st_ino st \<in> set (snd acc) then areturn acc
         else
           abind (fs_hashPath (de_gcrypt env) defaultPathFilter htSHA256 path) (\<lambda>(h, _).
           abind (aget (\<lambda>fs. length (fs_faults fs))) (\<lambda>n.
           optimise_file (Suc (Suc n)) env path st (links_dir env @ ''/'' @ printHash32 h) acc))
     | _ \<Rightarrow> areturn acc)"

definition optimisePath_acc ::
  "daemon_env \<Rightarrow> Path \<Rightarrow> OptimiseStats \<times> InodeHash \<Rightarrow> (OptimiseStats \<times> InodeHash, file_system) action" where
  "optimisePath_acc env path acc = abind (aget fs_depth) (\<lambda>depth. optimisePath_rec (Suc depth) env path acc)"

definition optimiseStore :: "daemon_env \<Rightarrow> (OptimiseStats, local_store) action" where
  "optimiseStore env =
     abind (ask (\<lambda>db. Inr (queryAllValidPaths db))) (\<lambda>paths.
     abind (on_fs (loadInodeHash (links_dir env))) (\<lambda>inodeHash.
     abind (afold (\<lambda>path acc.
       abind (addTempRoot env path) (\<lambda>_.
       abind (is_valid path) (\<lambda>v.
       if \<not> v then areturn acc else on_fs (optimisePath_acc env path acc)))) paths (OptimiseStats_init, inodeHash)) (\<lambda>(stats, _).
     areturn stats)))"

definition optimisePath :: "daemon_env \<Rightarrow> Path \<Rightarrow> (unit, file_system) action" where
  "optimisePath env path =
     (if autoOptimiseStore (de_settings env) then
        abind (optimisePath_acc env path (OptimiseStats_init, [])) (\<lambda>_. areturn ())
      else areturn ())"

end
