(* ===== verification/StoreOps.thy ===== *)
theory StoreOps
  imports Optimise
begin

text \<open>
  The operations of \<^verbatim>\<open>src/nix/libstore/local-store.cc\<close> that put the database and the file system together:
  adding to the store, exporting and importing, verification, the check of contents, and the questions to the
  substituter; with \<^verbatim>\<open>writeDerivation\<close> and \<^verbatim>\<open>derivationFromPath\<close>.

  The processes \<^verbatim>\<open>guix authenticate\<close> and \<^verbatim>\<open>guix substitute --query\<close> are arguments: functions from the requests they have
  received, the last one first, to what they then write.  Messages are left out.  Repairing a path is an
  argument of the verification.  Reading a derivation that is being registered does not fail.
\<close>

section \<open>Agents\<close>

record 'e agent =
  ag_requests :: "string list"
  ag_pending :: "'e list"

datatype agent_event = OnStderr "string option" | OnStdout char

record agents =
  ae_authenticate :: "string list \<Rightarrow> string"
  ae_query :: "string list \<Rightarrow> agent_event list"

record world =
  w_ls :: local_store
  w_authenticate :: "char agent"
  w_query :: "agent_event agent"

definition on_world :: "('a, local_store) action \<Rightarrow> ('a, world) action" where
  "on_world m w = (case m (w_ls w) of (r, t) \<Rightarrow> (r, w \<lparr> w_ls := t \<rparr>))"

definition send_line :: "(string list \<Rightarrow> 'e list) \<Rightarrow> string \<Rightarrow> 'e agent \<Rightarrow> 'e agent" where
  "send_line behave line a =
     \<lparr> ag_requests = line # ag_requests a, ag_pending = ag_pending a @ behave (line # ag_requests a) \<rparr>"

section \<open>Adding to the store\<close>

definition store_env_of :: "daemon_env \<Rightarrow> local_store \<Rightarrow> store_env" where
  "store_env_of env s =
     \<lparr> env_gcrypt = de_gcrypt env, env_store = de_store env,
       env_readFile = (\<lambda>p. fst (readFile p ((ls_fs s) \<lparr> fs_faults := [] \<rparr>))),
       env_time = fs_now (ls_fs s), env_fuel = Suc (length (tbl_ValidPaths (st_db (ls_store s)))) \<rparr>"

definition register_paths :: "daemon_env \<Rightarrow> ValidPathInfo list \<Rightarrow> (unit, local_store) action" where
  "register_paths env infos s = on_store (registerValidPaths (store_env_of env s) infos) s"

definition new_info :: "Path \<Rightarrow> Hash \<times> 64 word \<Rightarrow> Path oset \<Rightarrow> Path \<Rightarrow> ValidPathInfo" where
  "new_info path hr references deriver =
     \<lparr> vpi_path = path, vpi_deriver = deriver, vpi_hash = fst hr, vpi_references = references,
       vpi_registrationTime = 0, vpi_narSize = snd hr, vpi_id = 0 \<rparr>"

definition PathLocks_lock :: "Path oset \<Rightarrow> (unit, PathLocks \<times> local_store) action" where
  "PathLocks_lock paths = abind (lockPaths paths True) (\<lambda>_. areturn ())"

definition missing :: "bool \<Rightarrow> Path \<Rightarrow> (bool, local_store) action" where
  "missing repair path = (if repair then areturn True else abind (is_valid path) (\<lambda>v. areturn (\<not> v)))"

definition clear_path :: "Path \<Rightarrow> (unit, file_system) action" where
  "clear_path path =
     abind (pathExists path) (\<lambda>ex.
     if ex then abind (deletePath path 1) (\<lambda>_. areturn ()) else areturn ())"

text \<open>The frame that the three ways of adding share: lock the path, look again, add it, and delete the lock file.\<close>

definition locked_add :: "bool \<Rightarrow> Path \<Rightarrow> (unit, local_store) action \<Rightarrow> (unit, local_store) action" where
  "locked_add repair dstPath add =
     abind (missing repair dstPath) (\<lambda>todo.
     if \<not> todo then areturn ()
     else with_PathLocks (
       abind (PathLocks_lock [dstPath]) (\<lambda>_.
       abind (on_ls (missing repair dstPath)) (\<lambda>todo.
       abind (if todo then on_ls add else areturn ()) (\<lambda>_.
       PathLocks_setDeletion True)))))"

definition sha256_of_path :: "daemon_env \<Rightarrow> Path \<Rightarrow> (Hash \<times> 64 word, file_system) action" where
  "sha256_of_path env path = fs_hashPath (de_gcrypt env) defaultPathFilter htSHA256 path"

definition addToStoreFromDump ::
  "daemon_env \<Rightarrow> string \<Rightarrow> string \<Rightarrow> bool \<Rightarrow> HashType \<Rightarrow> bool \<Rightarrow> (Path, local_store) action" where
  "addToStoreFromDump env contents name recursive hashAlgo repair =
     abind (alift (hashString (de_gcrypt env) hashAlgo contents)) (\<lambda>h.
     abind (alift (makeFixedOutputPath (de_gcrypt env) (de_store env) recursive hashAlgo h name)) (\<lambda>dstPath.
     abind (addTempRoot env dstPath) (\<lambda>_.
     abind (locked_add repair dstPath (
       abind (on_fs (clear_path dstPath)) (\<lambda>_.
       abind (on_fs (if recursive then abind (fs_restorePath dstPath contents) (\<lambda>_. areturn ()) else writeFile dstPath contents)) (\<lambda>_.
       abind (on_fs (canonicalisePathMetaData_fresh dstPath None)) (\<lambda>_.
       abind (if recursive then
                abind (if hashAlgo = htSHA256 then areturn h
                       else alift (hashString (de_gcrypt env) htSHA256 contents)) (\<lambda>first.
                areturn (first, word_of_nat (length contents)))
              else on_fs (sha256_of_path env dstPath)) (\<lambda>hr.
       abind (on_fs (optimisePath env dstPath)) (\<lambda>_.
       register_paths env [new_info dstPath hr [] []]))))))) (\<lambda>_.
     areturn dstPath))))"

definition addToStore ::
  "daemon_env \<Rightarrow> string \<Rightarrow> Path \<Rightarrow> bool \<Rightarrow> HashType \<Rightarrow> (Path \<Rightarrow> bool) \<Rightarrow> bool \<Rightarrow> (Path, local_store) action" where
  "addToStore env name srcPath0 recursive hashAlgo flt repair =
     abind (alift (absPath (Inr ''/'') srcPath0 [])) (\<lambda>srcPath.
     abind (on_fs (if recursive then abind (fs_dumpPath flt srcPath) (\<lambda>calls. areturn (bytes_of calls)) else readFile srcPath)) (\<lambda>contents.
     addToStoreFromDump env contents name recursive hashAlgo repair))"

definition addTextToStore :: "daemon_env \<Rightarrow> string \<Rightarrow> string \<Rightarrow> Path oset \<Rightarrow> bool \<Rightarrow> (Path, local_store) action" where
  "addTextToStore env name s references repair =
     abind (alift (computeStorePathForText (de_gcrypt env) (de_store env) name s references)) (\<lambda>dstPath.
     abind (addTempRoot env dstPath) (\<lambda>_.
     abind (locked_add repair dstPath (
       abind (on_fs (clear_path dstPath)) (\<lambda>_.
       abind (on_fs (writeFile dstPath s)) (\<lambda>_.
       abind (on_fs (canonicalisePathMetaData_fresh dstPath None)) (\<lambda>_.
       abind (on_fs (sha256_of_path env dstPath)) (\<lambda>hr.
       abind (on_fs (optimisePath env dstPath)) (\<lambda>_.
       register_paths env [new_info dstPath hr references []]))))))) (\<lambda>_.
     areturn dstPath)))"

definition writeDerivation :: "daemon_env \<Rightarrow> Derivation \<Rightarrow> string \<Rightarrow> bool \<Rightarrow> (Path, local_store) action" where
  "writeDerivation env drv name repair =
     (let references = oinsert_all (map fst (inputDrvs drv)) (oinsert_all (inputSrcs drv) []);
          suffix = name @ drvExtension;
          contents = unparseDerivation drv
      in if readOnlyMode (de_settings env) then
           alift (computeStorePathForText (de_gcrypt env) (de_store env) suffix contents references)
         else addTextToStore env suffix contents references repair)"

definition derivationFromPath :: "daemon_env \<Rightarrow> (Path \<Rightarrow> (unit, local_store) action) \<Rightarrow> Path \<Rightarrow> (Derivation, local_store) action" where
  "derivationFromPath env ensurePath drvPath =
     abind (alift (assertStorePath (de_store env) drvPath)) (\<lambda>_.
     abind (ensurePath drvPath) (\<lambda>_.
     abind (on_fs (readFile drvPath)) (\<lambda>s. alift (returned (readDerivation (\<lambda>_. Inr s) drvPath)))))"

definition separators :: string where
  "separators = [CHR '' '', CHR 0x09, CHR 0x0A, CHR 0x0D]"

section \<open>The authentication agent\<close>

text \<open>\<^verbatim>\<open>stoi\<close> on a string of digits.\<close>

definition stoi :: "string \<Rightarrow> int result" where
  "stoi s =
     (if s = [] then Inl (Throw StdException ''invalid_argument'')
      else if digits_value s > 2 ^ 31 - 1 then Inl (Throw StdException ''out_of_range'')
      else Inr (digits_value s))"

definition readInteger :: "string \<Rightarrow> (int \<times> string) result" where
  "readInteger fd =
     (let ds = takeWhile is_digit fd in
      if length ds = length fd then Inl (Throw EndOfFile ''unexpected EOF reading an integer'')
      else rbind (stoi ds) (\<lambda>n. Inr (n, drop (Suc (length ds)) fd)))"

definition readAuthenticateReply :: "string \<Rightarrow> (string \<times> string) result" where
  "readAuthenticateReply fd =
     rbind (readInteger fd) (\<lambda>(code, fd).
     rbind (readInteger fd) (\<lambda>(len, fd).
     if length fd < nat len then Inl (Throw EndOfFile ''unexpected end-of-file'')
     else if code = 0 then Inr (take (nat len) fd, drop (nat len) fd)
     else Inl (Throw Error (take (nat len) fd))))"

text \<open>A request to the agent and its reply; a reply that is an error has been read all the same.\<close>

definition reply_rest :: "string \<Rightarrow> string" where
  "reply_rest fd =
     (case rbind (readInteger fd) (\<lambda>(_, fd). readInteger fd) of Inl _ \<Rightarrow> [] | Inr (len, fd) \<Rightarrow> drop (nat len) fd)"

definition authenticate :: "agents \<Rightarrow> string \<Rightarrow> (string, world) action" where
  "authenticate ag request w =
     (let a = send_line (ae_authenticate ag) request (w_authenticate w) in
      (rbind (readAuthenticateReply (ag_pending a)) (\<lambda>(s, _). Inr s),
       w \<lparr> w_authenticate := a \<lparr> ag_pending := reply_rest (ag_pending a) \<rparr> \<rparr>))"

definition signHash :: "agents \<Rightarrow> string \<Rightarrow> Hash \<Rightarrow> (string, world) action" where
  "signHash ag secretKey h =
     (let hexHash = printHash h in
      authenticate ag (''sign '' @ show_nat (length secretKey) @ '':'' @ secretKey @ '' '' @
        show_nat (length hexHash) @ '':'' @ hexHash))"

definition verifySignature :: "agents \<Rightarrow> string \<Rightarrow> (string, world) action" where
  "verifySignature ag signature = authenticate ag (''verify '' @ show_nat (length signature) @ '':'' @ signature)"

section \<open>Exporting and importing\<close>

definition EXPORT_MAGIC :: "32 word" where
  "EXPORT_MAGIC = 0x4558494e"

definition checkSecrecy :: "Path \<Rightarrow> (unit, file_system) action" where
  "checkSecrecy path =
     abind (or_throw ''getting status'' (sys_stat True path)) (\<lambda>st.
     if st_perm st AND 63 \<noteq> 0 then athrow (Throw Error ''file should be secret (inaccessible to everybody else)!'')
     else areturn ())"

text \<open>
  The sink that hashes what it writes is the list of calls made so far; its hash is that of their bytes,
  however they are cut.
\<close>

definition exportPath :: "daemon_env \<Rightarrow> agents \<Rightarrow> Path \<Rightarrow> bool \<Rightarrow> (sink_calls, world) action" where
  "exportPath env ag path sign =
     abind (alift (assertStorePath (de_store env) path)) (\<lambda>_.
     abind (on_world (is_valid path)) (\<lambda>v.
     if \<not> v then athrow (Throw Error ''path is not valid'')
     else
     abind (on_world (on_fs (fs_dumpPath defaultPathFilter path))) (\<lambda>calls.
     abind (alift (hashString (de_gcrypt env) htSHA256 (bytes_of calls))) (\<lambda>h.
     abind (on_world (ask (queryPathHash (de_gcrypt env) (de_store env) path))) (\<lambda>storedHash.
     abind (if Hash_neq h storedHash then alift (Hash_new (de_gcrypt env) (htype storedHash)) else areturn storedHash) (\<lambda>nullHash.
     if Hash_neq h storedHash \<and> Hash_neq storedHash nullHash then athrow (Throw Error ''hash of path has changed'')
     else
     abind (on_world (ask (ls_queryReferences (de_gcrypt env) (de_store env) path))) (\<lambda>references.
     abind (on_world (ask (ls_queryDeriver (de_gcrypt env) (de_store env) path))) (\<lambda>deriver.
     let calls = calls @ writeInt EXPORT_MAGIC @ writeString path @ writeStrings references @ writeString deriver in
     if sign then
       abind (alift (hashString (de_gcrypt env) htSHA256 (bytes_of calls))) (\<lambda>h.
       let secretKey = nixConfDir (de_settings env) @ ''/signing-key.sec'' in
       abind (on_world (on_fs (checkSecrecy secretKey))) (\<lambda>_.
       abind (signHash ag secretKey h) (\<lambda>signature.
       areturn (calls @ writeInt 1 @ writeString signature))))
     else areturn (calls @ writeInt 0)))))))))"

primrec createTempDirInStore_loop :: "nat \<Rightarrow> daemon_env \<Rightarrow> (Path, local_store) action" where
  "createTempDirInStore_loop 0 env = athrow Diverges"
| "createTempDirInStore_loop (Suc fuel) env =
     abind (on_fs (createTempDir (de_getenv env) (de_store env) ''nix'' True True 493)) (\<lambda>tmpDir.
     abind (addTempRoot env tmpDir) (\<lambda>_.
     abind (on_fs (pathExists tmpDir)) (\<lambda>ex.
     if ex then areturn tmpDir else createTempDirInStore_loop fuel env)))"

definition createTempDirInStore :: "daemon_env \<Rightarrow> (Path, local_store) action" where
  "createTempDirInStore env =
     abind (aget (\<lambda>s. length (fs_faults (ls_fs s)))) (\<lambda>n. createTempDirInStore_loop (Suc (Suc n)) env)"

text \<open>The scope of an \<^verbatim>\<open>AutoDelete\<close> object.\<close>

definition AutoDelete :: "Path \<Rightarrow> ('a, world) action \<Rightarrow> ('a, world) action" where
  "AutoDelete path body w =
     (case body w of (r, t) \<Rightarrow> (r, snd (on_world (on_fs (deletePath path 1)) t)))"

definition import_unpacked ::
  "daemon_env \<Rightarrow> Path \<Rightarrow> Path \<Rightarrow> Path oset \<Rightarrow> Path \<Rightarrow> (unit, local_store) action" where
  "import_unpacked env unpacked dstPath references deriver =
     abind (missing False dstPath) (\<lambda>todo.
     if \<not> todo then areturn ()
     else with_PathLocks (
       abind (if dstPath \<in> set (tokenizeString (getEnv (de_getenv env) ''NIX_HELD_LOCKS'' []) separators)
              then areturn () else PathLocks_lock [dstPath]) (\<lambda>_.
       abind (on_ls (missing False dstPath)) (\<lambda>todo.
       abind (if \<not> todo then areturn ()
              else on_ls (
                abind (on_fs (clear_path dstPath)) (\<lambda>_.
                abind (on_fs (or_throw ''cannot move'' (sys_rename unpacked dstPath))) (\<lambda>_.
                abind (on_fs (canonicalisePathMetaData_fresh dstPath None)) (\<lambda>_.
                abind (on_fs (sha256_of_path env dstPath)) (\<lambda>hr.
                abind (on_fs (optimisePath env dstPath)) (\<lambda>_.
                abind (if deriver \<noteq> [] then is_valid deriver else areturn False) (\<lambda>v.
                register_paths env [new_info dstPath hr references (if v then deriver else [])])))))))) (\<lambda>_.
       PathLocks_setDeletion True)))))"

definition importPath :: "daemon_env \<Rightarrow> agents \<Rightarrow> bool \<Rightarrow> source \<Rightarrow> (Path \<times> source, world) action" where
  "importPath env ag requireSignature src =
     abind (on_world (createTempDirInStore env)) (\<lambda>tmpDir.
     AutoDelete tmpDir (
       let unpacked = tmpDir @ ''/unpacked'' in
       abind (on_world (on_fs (fs_restorePath unpacked src))) (\<lambda>rest.
       abind (alift (readInt rest)) (\<lambda>(magic, rest).
       if magic \<noteq> EXPORT_MAGIC then athrow (Throw Error ''normalized archive cannot be imported; wrong format'')
       else
       abind (alift (readStorePath (de_store env) rest)) (\<lambda>(dstPath, rest).
       abind (alift (readStorePaths (de_store env) rest)) (\<lambda>(references, rest).
       abind (alift (readString rest)) (\<lambda>(deriver, rest).
       abind (if deriver \<noteq> [] then alift (assertStorePath (de_store env) deriver) else areturn ()) (\<lambda>_.
       abind (alift (hashString (de_gcrypt env) htSHA256 (take (length src - length rest) src))) (\<lambda>h.
       abind (alift (readInt rest)) (\<lambda>(n, rest).
       if requireSignature \<and> n \<noteq> 1 then athrow (Throw Error ''imported archive lacks a signature'')
       else
       abind (if n = 1 then
                abind (alift (readString rest)) (\<lambda>(signature, rest).
                if requireSignature then
                  abind (verifySignature ag signature) (\<lambda>hash2.
                  if printHash h \<noteq> hash2 then
                    athrow (Throw Error ''signed hash does not match actual contents of imported archive'')
                  else areturn rest)
                else areturn rest)
              else areturn rest) (\<lambda>rest.
       abind (on_world (addTempRoot env dstPath)) (\<lambda>_.
       abind (on_world (import_unpacked env unpacked dstPath references deriver)) (\<lambda>_.
       areturn (dstPath, rest))))))))))))))"

text \<open>Every round reads at least the number in front of the archive.\<close>

primrec importPaths_loop :: "nat \<Rightarrow> daemon_env \<Rightarrow> agents \<Rightarrow> bool \<Rightarrow> source \<Rightarrow> Path list \<Rightarrow> (Path list \<times> source, world) action" where
  "importPaths_loop 0 env ag requireSignature src res = athrow OutOfFuel"
| "importPaths_loop (Suc fuel) env ag requireSignature src res =
     abind (alift (readLongLong src)) (\<lambda>(n, src).
     if n = 0 then areturn (res, src)
     else if n \<noteq> 1 then athrow (Throw Error ''input does not look like something created by nix-store --export'')
     else
       abind (importPath env ag requireSignature src) (\<lambda>(path, src).
       importPaths_loop fuel env ag requireSignature src (res @ [path])))"

definition importPaths :: "daemon_env \<Rightarrow> agents \<Rightarrow> bool \<Rightarrow> source \<Rightarrow> (Path list \<times> source, world) action" where
  "importPaths env ag requireSignature src = importPaths_loop (Suc (length src)) env ag requireSignature src []"

section \<open>Questions to the substituter\<close>

text \<open>
  What \<^verbatim>\<open>select\<close> and \<^verbatim>\<open>read\<close> deliver: pieces of standard error, its end, or one character of standard output.  When nothing
  more comes the daemon waits for ever.
\<close>

fun getLineFromSubstituter :: "agent_event list \<Rightarrow> string \<Rightarrow> (string \<times> agent_event list) result" where
  "getLineFromSubstituter [] res = Inl Diverges"
| "getLineFromSubstituter (OnStderr None # run) res = Inl (Throw EndOfFile ''substitute died unexpectedly'')"
| "getLineFromSubstituter (OnStderr (Some _) # run) res = getLineFromSubstituter run res"
| "getLineFromSubstituter (OnStdout c # run) res =
     (if c = CHR 0x0A then Inr (res, run) else getLineFromSubstituter run (res @ [c]))"

definition get_line :: "agent_event list \<Rightarrow> (string \<times> agent_event list) result" where
  "get_line run = getLineFromSubstituter run []"

definition getIntLineFromSubstituter :: "num_type \<Rightarrow> agent_event list \<Rightarrow> (int \<times> agent_event list) result" where
  "getIntLineFromSubstituter t run =
     rbind (get_line run) (\<lambda>(s, run).
     case string2Int t s 0 of
       (True, n) \<Rightarrow> Inr (n, run)
     | (False, _) \<Rightarrow> Inl (Throw Error ''integer expected from stream''))"

lemma getLine_shorter: "getLineFromSubstituter run res = Inr (s, run') \<Longrightarrow> length run' < length run"
  by (induction run res rule: getLineFromSubstituter.induct) (auto split: if_splits)

function read_path_lines :: "agent_event list \<Rightarrow> Path oset \<Rightarrow> (Path oset \<times> agent_event list) result" where
  "read_path_lines run res =
     (case get_line run of
        Inl e \<Rightarrow> Inl e
      | Inr (path, run) \<Rightarrow> if path = [] then Inr (res, run) else read_path_lines run (oinsert path res))"
  by pat_completeness auto
termination
  by (relation "measure (length \<circ> fst)") (auto simp: get_line_def dest: getLine_shorter)

declare read_path_lines.simps [simp del]

primrec read_references :: "nat \<Rightarrow> Path \<Rightarrow> agent_event list \<Rightarrow> Path oset \<Rightarrow> (Path oset \<times> agent_event list) result" where
  "read_references 0 store run refs = Inr (refs, run)"
| "read_references (Suc n) store run refs =
     rbind (get_line run) (\<lambda>(p, run).
     rbind (assertStorePath store p) (\<lambda>_. read_references n store run (oinsert p refs)))"

text \<open>The count of references is decremented to 0, so that a negative one counts as a large unsigned number.\<close>

definition read_info :: "Path \<Rightarrow> SubstitutablePathInfo \<Rightarrow> agent_event list \<Rightarrow> (SubstitutablePathInfo \<times> agent_event list) result" where
  "read_info store info run =
     rbind (get_line run) (\<lambda>(deriver, run).
     rbind (if deriver \<noteq> [] then assertStorePath store deriver else Inr ()) (\<lambda>_.
     rbind (getIntLineFromSubstituter S32 run) (\<lambda>(nrRefs, run).
     rbind (read_references (nat (nrRefs mod 2 ^ 32)) store run (sub_references info)) (\<lambda>(refs, run).
     rbind (getIntLineFromSubstituter U64 run) (\<lambda>(downloadSize, run).
     rbind (getIntLineFromSubstituter U64 run) (\<lambda>(narSize, run).
     Inr (\<lparr> sub_deriver = deriver, sub_references = refs, sub_downloadSize = word_of_int downloadSize,
            sub_narSize = word_of_int narSize \<rparr>, run)))))))"

type_synonym SubstitutablePathInfos = "(Path, SubstitutablePathInfo) omap"

definition SubstitutablePathInfo_init :: SubstitutablePathInfo where
  "SubstitutablePathInfo_init = \<lparr> sub_deriver = [], sub_references = [], sub_downloadSize = 0, sub_narSize = 0 \<rparr>"

text \<open>Every round takes one path away from the ones asked for.\<close>

primrec read_infos ::
  "nat \<Rightarrow> Path \<Rightarrow> Path oset \<Rightarrow> SubstitutablePathInfos \<Rightarrow> agent_event list \<Rightarrow> (SubstitutablePathInfos \<times> agent_event list) result" where
  "read_infos 0 store paths infos run = Inl OutOfFuel"
| "read_infos (Suc fuel) store paths infos run =
     rbind (get_line run) (\<lambda>(path, run).
     if path = [] then Inr (infos, run)
     else if path \<notin> set paths then Inl (Throw Error ''got unexpected path from substituter'')
     else
       rbind (read_info store (case map_of infos path of None \<Rightarrow> SubstitutablePathInfo_init | Some i \<Rightarrow> i) run) (\<lambda>(info, run).
       read_infos fuel store (oerase path paths) (oput path info infos) run))"

text \<open>A question; when reading the answer fails, what was written is left as it is.\<close>

definition query_substituter ::
  "agents \<Rightarrow> string \<Rightarrow> (agent_event list \<Rightarrow> ('a \<times> agent_event list) result) \<Rightarrow> ('a, world) action" where
  "query_substituter ag line f w =
     (let a = send_line (ae_query ag) line (w_query w) in
      case f (ag_pending a) of
        Inl e \<Rightarrow> (Inl e, w \<lparr> w_query := a \<rparr>)
      | Inr (x, run) \<Rightarrow> (Inr x, w \<lparr> w_query := a \<lparr> ag_pending := run \<rparr> \<rparr>))"

definition querySubstitutablePaths :: "daemon_env \<Rightarrow> agents \<Rightarrow> Path oset \<Rightarrow> (Path oset, world) action" where
  "querySubstitutablePaths env ag paths =
     (if \<not> useSubstitutes (de_settings env) \<or> paths = [] then areturn []
      else query_substituter ag (''have '' @ concat (map (\<lambda>p. p @ '' '') paths)) (\<lambda>run. read_path_lines run []))"

definition querySubstitutablePathInfos ::
  "daemon_env \<Rightarrow> agents \<Rightarrow> Path oset \<Rightarrow> SubstitutablePathInfos \<Rightarrow> (SubstitutablePathInfos, world) action" where
  "querySubstitutablePathInfos env ag paths infos =
     (if paths = [] \<or> \<not> useSubstitutes (de_settings env) then areturn infos
      else
        query_substituter ag (''info '' @ concat (map (\<lambda>p. if map_of infos p = None then p @ '' '' else []) paths))
          (read_infos (Suc (length paths)) (de_store env) paths infos))"

section \<open>Verification\<close>

definition pathContentsGood :: "daemon_env \<Rightarrow> Path \<Rightarrow> (bool, local_store) action" where
  "pathContentsGood env path =
     abind (aget (\<lambda>s. map_of (ls_pathContentsGoodCache s) path)) (\<lambda>cached.
     case cached of
       Some res \<Rightarrow> areturn res
     | None \<Rightarrow>
         abind (ask (queryPathInfo (de_gcrypt env) (de_store env) path)) (\<lambda>info.
         abind (on_fs (pathExists path)) (\<lambda>ex.
         abind (if \<not> ex then areturn False
                else
                  abind (on_fs (fs_hashPath (de_gcrypt env) defaultPathFilter (htype (vpi_hash info)) path)) (\<lambda>(current, _).
                  abind (alift (Hash_new (de_gcrypt env) htSHA256)) (\<lambda>nullHash.
                  areturn (Hash_eq (vpi_hash info) nullHash \<or> Hash_eq (vpi_hash info) current)))) (\<lambda>res.
         abind (amodify (\<lambda>s. s \<lparr> ls_pathContentsGoodCache := oput path res (ls_pathContentsGoodCache s) \<rparr>)) (\<lambda>_.
         areturn res)))))"

definition markContentsGood :: "Path \<Rightarrow> (unit, local_store) action" where
  "markContentsGood path =
     amodify (\<lambda>s. s \<lparr> ls_pathContentsGoodCache := oput path True (ls_pathContentsGoodCache s) \<rparr>)"

record verify_state =
  vs_done :: "Path oset"
  vs_validPaths :: "Path oset"
  vs_errors :: bool

text \<open>Every call that goes on marks one more path as done, so the number of valid paths is enough fuel.\<close>

primrec verifyPath ::
  "nat \<Rightarrow> daemon_env \<Rightarrow> (Path \<Rightarrow> (unit, world) action) \<Rightarrow> bool \<Rightarrow> string oset \<Rightarrow> Path \<Rightarrow> verify_state \<Rightarrow>
   (verify_state, world) action" where
  "verifyPath 0 env repairPath repair store path vs = athrow OutOfFuel"
| "verifyPath (Suc fuel) env repairPath repair store path vs =
     (if path \<in> set (vs_done vs) then areturn vs
      else
        let vs = vs \<lparr> vs_done := oinsert path (vs_done vs) \<rparr> in
        if \<not> isStorePath (de_store env) path then
          abind (on_world (on_store (invalidatePath path))) (\<lambda>_. areturn vs)
        else
          abind (alift (baseNameOf path)) (\<lambda>base.
          if base \<notin> set store then
            abind (on_world (ask (ls_queryReferrers (de_store env) path))) (\<lambda>referrers.
            abind (afold (\<lambda>i (canInvalidate, vs).
                if i \<noteq> path then
                  abind (verifyPath fuel env repairPath repair store i vs) (\<lambda>vs.
                  areturn (canInvalidate \<and> i \<notin> set (vs_validPaths vs), vs))
                else areturn (canInvalidate, vs)) referrers (True, vs)) (\<lambda>(canInvalidate, vs).
            if canInvalidate then abind (on_world (on_store (invalidatePath path))) (\<lambda>_. areturn vs)
            else if repair then
              acatch (abind (repairPath path) (\<lambda>_. areturn vs)) (\<lambda>_ _. areturn (vs \<lparr> vs_errors := True \<rparr>))
            else areturn (vs \<lparr> vs_errors := True \<rparr>)))
          else areturn (vs \<lparr> vs_validPaths := oinsert path (vs_validPaths vs) \<rparr>)))"

definition verify_contents :: "daemon_env \<Rightarrow> (Path \<Rightarrow> (unit, world) action) \<Rightarrow> bool \<Rightarrow> Path \<Rightarrow> bool \<Rightarrow> (bool, world) action" where
  "verify_contents env repairPath repair path errors =
     abind (alift (Hash_new (de_gcrypt env) htSHA256)) (\<lambda>nullHash.
     acatch
       (abind (on_world (ask (queryPathInfo (de_gcrypt env) (de_store env) path))) (\<lambda>info.
        abind (on_world (on_fs (fs_hashPath (de_gcrypt env) defaultPathFilter (htype (vpi_hash info)) path))) (\<lambda>(current, narSize).
        if Hash_neq (vpi_hash info) nullHash \<and> Hash_neq (vpi_hash info) current then
          (if repair then abind (repairPath path) (\<lambda>_. areturn errors) else areturn True)
        else
          let noHash = Hash_eq (vpi_hash info) nullHash;
              noSize = (vpi_narSize info = 0);
              info = info \<lparr> vpi_hash := (if noHash then current else vpi_hash info),
                            vpi_narSize := (if noSize then narSize else vpi_narSize info) \<rparr>
          in abind (if noHash \<or> noSize then on_world (on_store (updatePathInfo info)) else areturn ()) (\<lambda>_. areturn errors))))
       (\<lambda>_ _. areturn True))"

definition verifyStore :: "daemon_env \<Rightarrow> (Path \<Rightarrow> (unit, world) action) \<Rightarrow> bool \<Rightarrow> bool \<Rightarrow> (bool, world) action" where
  "verifyStore env repairPath checkContents repair =
     abind (on_world (openGCLock env ltWrite)) (\<lambda>_.
     abind (on_world (on_fs (readDirectory (de_store env)))) (\<lambda>entries.
     let store = oinsert_all (map fst entries) [] in
     abind (on_world (ask (\<lambda>db. Inr (queryAllValidPaths db)))) (\<lambda>validPaths2.
     abind (aget (\<lambda>w. length (tbl_ValidPaths (st_db (ls_store (w_ls w)))))) (\<lambda>n.
     abind (afold (verifyPath (Suc n) env repairPath repair store) validPaths2
       \<lparr> vs_done = [], vs_validPaths = [], vs_errors = False \<rparr>) (\<lambda>vs.
     if checkContents then afold (verify_contents env repairPath repair) (vs_validPaths vs) (vs_errors vs)
     else areturn (vs_errors vs))))))"

definition sys_chown :: "Path \<Rightarrow> nat \<Rightarrow> (nat + unit, file_system) action" where
  "sys_chown p uid =
     sys (\<lambda>fs. ebind (lookup_ino True p fs) (\<lambda>(_, i). Inr ((), fs \<lparr> fs_uid := (fs_uid fs)(i := uid) \<rparr>)))"

definition createUser :: "daemon_env \<Rightarrow> string \<Rightarrow> nat \<Rightarrow> (unit, file_system) action" where
  "createUser env userName userId =
     (let dir = nixStateDir (de_settings env) @ ''/profiles/per-user/'' @ userName in
      abind (createDirs dir) (\<lambda>created.
      if created = [] then areturn ()
      else
        abind (or_throw ''changing permissions of directory'' (sys_chmod dir 493)) (\<lambda>_.
        abind (sys_chown dir userId) (\<lambda>r.
        case r of
          Inr _ \<Rightarrow> areturn ()
        | Inl _ \<Rightarrow> abind (sys_rmdir dir) (\<lambda>_. areturn ())))))"

end
