(* ===== verification/Building.thy ===== *)
theory Building
  imports StoreOps
begin

text \<open>
  What building a derivation uses apart from the goals of \<^verbatim>\<open>src/nix/libstore/build.cc\<close>: hash rewriting, the
  replacement of a store path, the permissions and the ownership of what a build leaves behind, reference
  specifiers, the build users and the copying of a tree in \<^verbatim>\<open>src/nix/libutil/util.cc\<close>.  The users and groups
  of the system are an argument.
\<close>

section \<open>Hash rewriting\<close>

type_synonym HashRewrites = "(string, string) omap"

text \<open>\<^verbatim>\<open>s.find(pattern, j)\<close>.\<close>

fun find_at :: "string \<Rightarrow> string \<Rightarrow> nat option" where
  "find_at pattern s =
     (if take (length pattern) s = pattern then Some 0
      else case s of [] \<Rightarrow> None | _ # s' \<Rightarrow> map_option Suc (find_at pattern s'))"

declare find_at.simps [simp del]

definition find_from :: "string \<Rightarrow> string \<Rightarrow> nat \<Rightarrow> nat option" where
  "find_from pattern s j = (if length s < j then None else map_option ((+) j) (find_at pattern (drop j s)))"

text \<open>One pair of the map: the search goes on where the last replacement was made.\<close>

partial_function (option) rewrite_from :: "string \<Rightarrow> string \<Rightarrow> nat \<Rightarrow> string \<Rightarrow> string option" where
  [code]: "rewrite_from h1 h2 j s =
     (case find_from h1 s j of
        None \<Rightarrow> Some s
      | Some k \<Rightarrow> rewrite_from h1 h2 k (take k s @ h2 @ drop (k + length h2) s))"

definition rewriteHashes :: "string \<Rightarrow> HashRewrites \<Rightarrow> string result" where
  "rewriteHashes s rewrites =
     rfold (\<lambda>(h1, h2) s.
       if length h1 \<noteq> length h2 then Inl (Abort ''i->first.size() == i->second.size()'')
       else case rewrite_from h1 h2 0 s of None \<Rightarrow> Inl Diverges | Some s' \<Rightarrow> Inr s') rewrites s"

section \<open>Files that a build leaves behind\<close>

definition replaceValidPath :: "Path \<Rightarrow> Path \<Rightarrow> (unit, file_system) action" where
  "replaceValidPath storePath tmpPath =
     abind (aget fs_pid) (\<lambda>pid.
     abind next_rand (\<lambda>n.
     let oldPath = storePath @ ''.old-'' @ show_nat pid @ ''-'' @ show_nat n in
     abind (pathExists storePath) (\<lambda>ex.
     abind (if ex then abind (sys_rename storePath oldPath) (\<lambda>_. areturn ()) else areturn ()) (\<lambda>_.
     abind (or_throw ''moving'' (sys_rename tmpPath storePath)) (\<lambda>_.
     abind (pathExists oldPath) (\<lambda>ex.
     if ex then abind (deletePath oldPath 1) (\<lambda>_. areturn ()) else areturn ()))))))"

text \<open>The bits \<^verbatim>\<open>S_ISUID\<close>, \<^verbatim>\<open>S_ISGID\<close> and \<^verbatim>\<open>S_IWOTH\<close>.\<close>

definition insecure_bits :: "12 word" where
  "insecure_bits = 3074"

primrec secureFilePerms_rec :: "nat \<Rightarrow> Path \<Rightarrow> (unit, file_system) action" where
  "secureFilePerms_rec 0 path = athrow OutOfFuel"
| "secureFilePerms_rec (Suc fuel) path =
     abind (sys_lstat path) (\<lambda>r.
     case r of
       Inl _ \<Rightarrow> areturn ()
     | Inr st \<Rightarrow>
         let secure = abind (sys_chmod path (st_perm st AND NOT insecure_bits)) (\<lambda>_. areturn ()) in
         (case st_data st of
            DLnk _ \<Rightarrow> areturn ()
          | DDir \<Rightarrow>
              abind (readDirectory path) (\<lambda>entries.
              abind (aforeach entries (\<lambda>(name, _). secureFilePerms_rec fuel (path @ ''/'' @ name))) (\<lambda>_. secure))
          | DReg _ \<Rightarrow> secure
          | DSpecial \<Rightarrow> athrow (Throw Error ''file has an unsupported type'')))"

definition secureFilePerms :: "Path \<Rightarrow> (unit, file_system) action" where
  "secureFilePerms path = abind (aget fs_depth) (\<lambda>depth. secureFilePerms_rec (Suc depth) path)"

primrec chown_rec :: "nat \<Rightarrow> Path \<Rightarrow> nat option \<Rightarrow> nat option \<Rightarrow> (unit, file_system) action" where
  "chown_rec 0 path uid gid = athrow OutOfFuel"
| "chown_rec (Suc fuel) path uid gid =
     abind (or_throw ''change owner and group'' (sys_lchown path uid gid)) (\<lambda>_.
     abind (lstat path) (\<lambda>st.
     if st_data st = DDir then
       abind (readDirectory path) (\<lambda>entries.
       aforeach entries (\<lambda>(name, _). chown_rec fuel (path @ ''/'' @ name) uid gid))
     else areturn ()))"

definition chown_tree :: "Path \<Rightarrow> nat option \<Rightarrow> nat option \<Rightarrow> (unit, file_system) action" where
  "chown_tree path uid gid = abind (aget fs_depth) (\<lambda>depth. chown_rec (Suc depth) path uid gid)"

definition chmod_or_throw :: "Path \<Rightarrow> 12 word \<Rightarrow> (unit, file_system) action" where
  "chmod_or_throw path mode = or_throw ''setting permissions'' (sys_chmod path mode)"

definition sys_chown_group :: "Path \<Rightarrow> nat option \<Rightarrow> nat option \<Rightarrow> (nat + unit, file_system) action" where
  "sys_chown_group p uid gid =
     sys (\<lambda>fs. ebind (lookup_ino True p fs) (\<lambda>(_, i).
       Inr ((), fs \<lparr> fs_uid := (fs_uid fs)(i := case uid of None \<Rightarrow> fs_uid fs i | Some u \<Rightarrow> u),
                     fs_gid := (fs_gid fs)(i := case gid of None \<Rightarrow> fs_gid fs i | Some g \<Rightarrow> g) \<rparr>)))"

section \<open>Copying a tree\<close>

text \<open>
  Descriptors of files are inode numbers.  A short count of \<^verbatim>\<open>copy_file_range\<close> is followed by another call, so a call
  that succeeds copies everything; on a system without it the contents are read and written.
\<close>

definition sys_fchown :: "nat \<Rightarrow> nat \<Rightarrow> nat \<Rightarrow> (nat + unit, file_system) action" where
  "sys_fchown i uid gid =
     sys (\<lambda>fs. Inr ((), fs \<lparr> fs_uid := (fs_uid fs)(i := uid), fs_gid := (fs_gid fs)(i := gid) \<rparr>))"

definition copy_file_range :: "nat \<Rightarrow> nat \<Rightarrow> (nat + unit, file_system) action" where
  "copy_file_range i j =
     sys (\<lambda>fs. case (fs_data fs i, fs_data fs j) of
       (DReg s, DReg t) \<Rightarrow>
         Inr ((), fs \<lparr> fs_data := (fs_data fs)(j := DReg (t @ s)), fs_mtime := (fs_mtime fs)(j := fs_now fs) \<rparr>)
     | _ \<Rightarrow> Inl EINVAL)"

definition copyFile :: "nat \<Rightarrow> nat \<Rightarrow> (unit, file_system) action" where
  "copyFile sourceFd destinationFd =
     abind (or_throw ''statting file'' (sys_fstat sourceFd)) (\<lambda>st.
     abind (copy_file_range sourceFd destinationFd) (\<lambda>r.
     case r of
       Inr _ \<Rightarrow> areturn ()
     | Inl e \<Rightarrow>
         if e = ENOSYS then
           abind (or_throw ''reading from file'' (sys_read_all sourceFd)) (\<lambda>s.
           or_throw ''writing to file'' (sys_append destinationFd s))
         else athrow (Throw (SysError e) ''copy_file_range'')))"

text \<open>
  A directory descriptor with a name relative to it is the path of both.  A failure to open the new directory goes
  unnoticed, since the code tests the result of \<^verbatim>\<open>mkdirat\<close> a second time: the descriptor is then -1 and
  creating anything below it fails with \<^verbatim>\<open>EBADF\<close>.
\<close>

definition below_fd :: "bool \<Rightarrow> (nat + 'a, file_system) action \<Rightarrow> (nat + 'a, file_system) action" where
  "below_fd opened call = (if opened then call else areturn (Inl EBADF))"

primrec copyFileRecursively_rec :: "nat \<Rightarrow> bool \<Rightarrow> Path \<Rightarrow> Path \<Rightarrow> bool \<Rightarrow> (unit, file_system) action" where
  "copyFileRecursively_rec 0 dest_ok source destination deleteSource = athrow OutOfFuel"
| "copyFileRecursively_rec (Suc fuel) dest_ok source destination deleteSource =
     abind (or_throw ''statting file'' (sys_lstat source)) (\<lambda>st.
     abind
       (case st_data st of
          DReg _ \<Rightarrow>
            abind (or_throw ''opening'' (sys_open source None False False)) (\<lambda>sourceFd.
            abind (or_throw ''opening'' (below_fd dest_ok (sys_open destination (Some (st_perm st)) True True))) (\<lambda>destinationFd.
            abind (copyFile sourceFd destinationFd) (\<lambda>_.
            abind (sys_fchown destinationFd (st_uid st) (st_gid st)) (\<lambda>_. areturn ()))))
        | DLnk target \<Rightarrow>
            abind (or_throw ''reading symlink target'' (sys (\<lambda>fs. ebind (lookup_ino False source fs) (\<lambda>(_, i). Inr ((), fs))))) (\<lambda>_.
            abind (or_throw ''creating symlink'' (below_fd dest_ok (sys_symlink target destination))) (\<lambda>_.
            abind (below_fd dest_ok (sys_lchown destination (Some (st_uid st)) (Some (st_gid st)))) (\<lambda>_. areturn ())))
        | DDir \<Rightarrow>
            abind (or_throw ''creating directory'' (below_fd dest_ok (sys_mkdir destination 493))) (\<lambda>_.
            abind (sys_open destination None False False) (\<lambda>destinationFd.
            abind (or_throw ''opening'' (sys_open source None False False)) (\<lambda>sourceFd.
            abind (if deleteSource \<and> st_perm st AND S_IWUSR = 0 then
                     or_throw ''making directory writable'' (sys_fchmod sourceFd (st_perm st OR S_IWUSR))
                   else areturn ()) (\<lambda>_.
            abind (readDirectory source) (\<lambda>entries.
            abind (aforeach entries (\<lambda>(name, _).
              copyFileRecursively_rec fuel (\<not> isl destinationFd) (source @ ''/'' @ name) (destination @ ''/'' @ name) deleteSource)) (\<lambda>_.
            case destinationFd of
              Inl _ \<Rightarrow> areturn ()
            | Inr fd \<Rightarrow> abind (sys_fchown fd (st_uid st) (st_gid st)) (\<lambda>_. areturn ())))))))
        | DSpecial \<Rightarrow> athrow (Throw Error ''refusing to copy irregular file'')) (\<lambda>_.
     if deleteSource then
       abind (if st_data st = DDir then sys_rmdir source else sys_unlink source) (\<lambda>_. areturn ())
     else areturn ()))"

definition copyFileRecursively :: "Path \<Rightarrow> Path \<Rightarrow> bool \<Rightarrow> (unit, file_system) action" where
  "copyFileRecursively source destination deleteSource =
     abind (aget fs_depth) (\<lambda>depth. copyFileRecursively_rec (Suc depth) True source destination deleteSource)"

section \<open>Reference specifiers\<close>

definition parseReferenceSpecifiers :: "Path \<Rightarrow> Derivation \<Rightarrow> string \<Rightarrow> Path oset result" where
  "parseReferenceSpecifiers store drv attr =
     rfold (\<lambda>i res.
       if isStorePath store i then Inr (oinsert i res)
       else
         (case map_of (drv_outputs drv) i of
            Some out \<Rightarrow> Inr (oinsert (do_path out) res)
          | None \<Rightarrow> Inl (Throw BuildError ''derivation contains an invalid reference specifier'')))
       (tokenizeString attr separators) []"

section \<open>Predicates on derivations\<close>

definition get_env :: "(string, string) omap \<Rightarrow> string \<Rightarrow> string \<Rightarrow> string" where
  "get_env m key d = (case map_of m key of None \<Rightarrow> d | Some v \<Rightarrow> v)"

definition canBuildLocally :: "Settings \<Rightarrow> string \<Rightarrow> bool" where
  "canBuildLocally settings p \<longleftrightarrow>
     p = thisSystem settings \<or>
     p = ''i686-linux'' \<and> thisSystem settings = ''x86_64-linux'' \<or>
     p = ''armhf-linux'' \<and> thisSystem settings = ''aarch64-linux''"

definition willBuildLocally :: "Settings \<Rightarrow> Derivation \<Rightarrow> bool" where
  "willBuildLocally settings drv \<longleftrightarrow>
     get_env (drv_env drv) ''preferLocalBuild'' [] = ''1'' \<and> canBuildLocally settings (platform drv)"

definition substitutesAllowed :: "Derivation \<Rightarrow> bool" where
  "substitutesAllowed drv \<longleftrightarrow> get_env (drv_env drv) ''allowSubstitutes'' ''1'' = ''1''"

definition isBuiltin :: "Derivation \<Rightarrow> bool" where
  "isBuiltin drv \<longleftrightarrow> take 8 (builder drv) = ''builtin:''"

section \<open>Build users\<close>

record passwd =
  pw_name :: string
  pw_uid :: nat
  pw_gid :: nat

record accounts =
  getgrnam :: "string \<Rightarrow> (nat \<times> string list) option"
  getpwnam :: "string \<Rightarrow> passwd option"
  getgrouplist :: "string \<Rightarrow> nat list"
  acc_uid :: nat
  acc_gid :: nat

record UserLock =
  ul_fnUserLock :: Path
  ul_fdUserLock :: "nat option"
  ul_user :: string
  ul_uid :: nat
  ul_gid :: nat
  ul_supplementaryGIDs :: "nat list"

definition UserLock_init :: UserLock where
  "UserLock_init =
     \<lparr> ul_fnUserLock = [], ul_fdUserLock = None, ul_user = [], ul_uid = 0, ul_gid = 0, ul_supplementaryGIDs = [] \<rparr>"

definition UserLock_enabled :: "UserLock \<Rightarrow> bool" where
  "UserLock_enabled l \<longleftrightarrow> ul_uid l \<noteq> 0"

text \<open>The methods work on the object, the set \<^verbatim>\<open>UserLock::lockedPaths\<close> and the store.\<close>

type_synonym user_lock_state = "UserLock \<times> Path oset \<times> local_store"

definition ul_ls :: "('a, local_store) action \<Rightarrow> ('a, user_lock_state) action" where
  "ul_ls m = (\<lambda>(l, locked, s). case m s of (r, t) \<Rightarrow> (r, l, locked, t))"

text \<open>An account is taken over only once its lock file is locked; at most ten groups are supported.\<close>

fun acquire_loop :: "daemon_env \<Rightarrow> accounts \<Rightarrow> string list \<Rightarrow> (unit, user_lock_state) action" where
  "acquire_loop env acc [] = athrow (Throw Error ''all build users are currently in use'')"
| "acquire_loop env acc (i # users) =
     (case getpwnam acc i of
        None \<Rightarrow> athrow (Throw Error ''the user in the group does not exist'')
      | Some pw \<Rightarrow>
          let fn = nixStateDir (de_settings env) @ ''/userpool/'' @ show_nat (pw_uid pw) in
          abind (ul_ls (on_fs (createDirs (nixStateDir (de_settings env) @ ''/userpool'')))) (\<lambda>_.
          abind (amodify (\<lambda>(l, st). (l \<lparr> ul_fnUserLock := fn \<rparr>, st))) (\<lambda>_.
          abind (aget (\<lambda>(l, locked, s). locked)) (\<lambda>locked.
          if fn \<in> set locked then acquire_loop env acc users
          else
            abind (ul_ls (on_fs (or_throw ''opening user lock'' (sys_open fn (Some 384) True False)))) (\<lambda>fd.
            abind (ul_ls (lockFile fd ltWrite False)) (\<lambda>got.
            if \<not> got then acquire_loop env acc users
            else
              abind (amodify (\<lambda>(l, locked, s).
                (l \<lparr> ul_fdUserLock := Some fd, ul_user := i, ul_uid := pw_uid pw \<rparr>, oinsert fn locked, s))) (\<lambda>_.
              abind (aget (\<lambda>(l, locked, s). fs_euid (ls_fs s))) (\<lambda>euid.
              if pw_uid pw = acc_uid acc \<or> pw_uid pw = euid then
                athrow (Throw Error ''the build user should not be a member of the group'')
              else if 10 < length (getgrouplist acc (pw_name pw)) then
                athrow (Throw Error ''failed to get list of supplementary groups'')
              else
                amodify (\<lambda>(l, st). (l \<lparr> ul_supplementaryGIDs := getgrouplist acc (pw_name pw) \<rparr>, st))))))))))"

definition UserLock_acquire :: "daemon_env \<Rightarrow> accounts \<Rightarrow> (unit, user_lock_state) action" where
  "UserLock_acquire env acc =
     abind (aget (ul_uid \<circ> fst)) (\<lambda>uid.
     if uid \<noteq> 0 then athrow (Abort ''uid == 0'')
     else if buildUsersGroup (de_settings env) = [] then athrow (Abort ''settings.buildUsersGroup != \"\"'')
     else
       (case getgrnam acc (buildUsersGroup (de_settings env)) of
          None \<Rightarrow> athrow (Throw Error ''the group specified in `build-users-group' does not exist'')
        | Some (gid, users) \<Rightarrow>
            abind (amodify (\<lambda>(l, st). (l \<lparr> ul_gid := gid \<rparr>, st))) (\<lambda>_.
            if users = [] then athrow (Throw Error ''the build users group has no members'')
            else acquire_loop env acc users)))"

definition UserLock_release :: "(unit, user_lock_state) action" where
  "UserLock_release =
     abind (aget (\<lambda>(l, locked, s). (l, locked))) (\<lambda>(l, locked).
     if ul_uid l = 0 then areturn ()
     else
       abind (amodify (\<lambda>(l, st). (l \<lparr> ul_fdUserLock := None \<rparr>, st))) (\<lambda>_.
       if ul_fnUserLock l \<notin> set locked then athrow (Abort ''lockedPaths.find(fnUserLock) != lockedPaths.end()'')
       else
         amodify (\<lambda>(l', locked, s).
           (l' \<lparr> ul_fnUserLock := [], ul_uid := 0 \<rparr>, oerase (ul_fnUserLock l) locked, s))))"

end
