(* ===== verification/Goals.thy ===== *)
theory Goals
  imports Building
begin

text \<open>
  The goals of \<^verbatim>\<open>src/nix/libstore/build.cc\<close> and the part of the \<^verbatim>\<open>Worker\<close> that they use.

  Goals are shared objects: here they live in a heap and are named by numbers that are not used again.  A weak
  pointer is such a number; it can be locked as long as the goal is in the heap.  A goal leaves the heap,
  after its destructor has run, when no shared pointer is left: it is not a top-level goal, no
  goal in the heap waits for it, and no function that is running holds it (\<open>wk_pinned\<close>).

  The processes that the worker starts are arguments: the process numbers and descriptors they get, what the
  offload hook answers, what a builder says about its set-up, and how they exit.  What happens while the worker waits
  in \<^verbatim>\<open>select\<close> is a script: for every call, given its timeout, the error or the data that becomes available on each descriptor, and how
  the file system has changed by then.  When the script is used up the call never returns.
  The compression of logs and the size of file systems are arguments too.  Messages are left out.
\<close>

section \<open>Processes\<close>

record Agent =
  agt_pid :: "nat option"
  agt_fromAgent :: nat
  agt_builderOut :: nat
  agt_io :: "char agent"

datatype fd_event = ReadFails nat | Gets string

record select_event =
  se_error :: "nat option"
  se_ready :: "nat \<Rightarrow> fd_event option"
  se_effect :: "file_system \<Rightarrow> file_system"

record build_env =
  be_daemon :: daemon_env
  be_agents :: agents
  be_accounts :: accounts
  be_spawn :: "nat \<Rightarrow> Agent result"
  be_hook :: "nat option \<Rightarrow> string list \<Rightarrow> string"
  be_setup :: "nat \<Rightarrow> string result"
  be_status :: "nat option \<Rightarrow> 32 word"
  be_compress :: "CompressionType \<Rightarrow> string \<Rightarrow> string"
  be_available :: "Path \<Rightarrow> nat option"
  be_chrootDirs :: string

abbreviation be_settings :: "build_env \<Rightarrow> Settings" where
  "be_settings env \<equiv> de_settings (be_daemon env)"

abbreviation be_store :: "build_env \<Rightarrow> Path" where
  "be_store env \<equiv> de_store (be_daemon env)"

abbreviation be_gcrypt :: "build_env \<Rightarrow> gcrypt" where
  "be_gcrypt env \<equiv> de_gcrypt (be_daemon env)"

section \<open>Goals\<close>

datatype ExitCode = ecBusy | ecSuccess | ecFailed | ecNoSubstituters | ecIncompleteClosure

datatype subst_pc = S_init | S_referencesValid | S_tryToRun | S_finished

record SubstitutionGoal =
  sg_storePath :: Path
  sg_info :: SubstitutablePathInfo
  sg_outputLock :: "PathLocks option"
  sg_repair :: bool
  sg_destPath :: Path
  sg_state :: subst_pc
  sg_substituter :: "Agent option"
  sg_status :: string

definition SubstitutionGoal_new :: "Path \<Rightarrow> bool \<Rightarrow> SubstitutionGoal" where
  "SubstitutionGoal_new storePath repair =
     \<lparr> sg_storePath = storePath, sg_info = SubstitutablePathInfo_init, sg_outputLock = None, sg_repair = repair,
       sg_destPath = [], sg_state = S_init, sg_substituter = None, sg_status = [] \<rparr>"

datatype drv_pc =
  D_init | D_haveDerivation | D_outputsSubstituted | D_closureRepaired | D_inputsRealised | D_tryToBuild | D_buildDone

text \<open>A log file: its name, how it is compressed, its inode and the data that the compressor has received.\<close>

record log_file =
  lf_name :: Path
  lf_compression :: CompressionType
  lf_fd :: nat
  lf_data :: string

record DerivationGoal_plan =
  dg_drvPath :: Path
  dg_wantedOutputs :: "string oset"
  dg_needRestart :: bool
  dg_retrySubstitution :: bool
  dg_drv :: Derivation
  dg_state :: drv_pc
  dg_buildMode :: BuildMode
  dg_result :: BuildResult

record DerivationGoal_paths = DerivationGoal_plan +
  dg_outputLocks :: PathLocks
  dg_inputPaths :: "Path oset"
  dg_allPaths :: "Path oset"
  dg_validPaths :: "Path oset"
  dg_missingPaths :: "Path oset"
  dg_fixedOutput :: bool
  dg_curRound :: "32 word"
  dg_nrRounds :: "32 word"
  dg_prevInfos :: "ValidPathInfo list"

record DerivationGoal_process = DerivationGoal_paths +
  dg_buildUser :: UserLock
  dg_pid :: "nat option"
  dg_builderOut :: "nat option"
  dg_hook :: "Agent option"
  dg_tmpDir :: Path
  dg_tmpDirInSandbox :: Path
  dg_log :: "log_file option"
  dg_logSize :: "64 word"

record DerivationGoal = DerivationGoal_process +
  dg_useChroot :: bool
  dg_chrootRootDir :: Path
  dg_autoDelChroot :: "Path option"
  dg_dirsInChroot :: "(Path, Path) omap"
  dg_env :: "(string, string) omap"
  dg_rewritesToTmp :: HashRewrites
  dg_rewritesFromTmp :: HashRewrites
  dg_redirectedOutputs :: "(Path, Path) omap"
  dg_redirectedBadOutputs :: "Path oset"

definition Derivation_init :: Derivation where
  "Derivation_init =
     \<lparr> drv_outputs = [], inputDrvs = [], inputSrcs = [], platform = [], builder = [], drv_args = [], drv_env = [] \<rparr>"

definition DerivationGoal_new :: "Path \<Rightarrow> string oset \<Rightarrow> BuildMode \<Rightarrow> DerivationGoal" where
  "DerivationGoal_new drvPath wantedOutputs buildMode =
     \<lparr> dg_drvPath = drvPath, dg_wantedOutputs = wantedOutputs, dg_needRestart = False, dg_retrySubstitution = False,
       dg_drv = Derivation_init, dg_state = D_init, dg_buildMode = buildMode,
       dg_result = \<lparr> br_status = MiscFailure, br_errorMsg = [] \<rparr>,
       dg_outputLocks = PathLocks_init, dg_inputPaths = [], dg_allPaths = [], dg_validPaths = [], dg_missingPaths = [],
       dg_fixedOutput = False, dg_curRound = 1, dg_nrRounds = 0, dg_prevInfos = [],
       dg_buildUser = UserLock_init, dg_pid = None, dg_builderOut = None, dg_hook = None, dg_tmpDir = [],
       dg_tmpDirInSandbox = [], dg_log = None, dg_logSize = 0,
       dg_useChroot = False, dg_chrootRootDir = [], dg_autoDelChroot = None, dg_dirsInChroot = [], dg_env = [],
       dg_rewritesToTmp = [], dg_rewritesFromTmp = [], dg_redirectedOutputs = [], dg_redirectedBadOutputs = [] \<rparr>"

datatype goal_body = Subst SubstitutionGoal | Drv DerivationGoal

record goal =
  g_waitees :: "nat list"
  g_waiters :: "nat list"
  g_nrFailed :: nat
  g_nrNoSubstituters :: nat
  g_nrIncompleteClosure :: nat
  g_exitCode :: ExitCode
  g_body :: goal_body

definition Goal_new :: "goal_body \<Rightarrow> goal" where
  "Goal_new b =
     \<lparr> g_waitees = [], g_waiters = [], g_nrFailed = 0, g_nrNoSubstituters = 0, g_nrIncompleteClosure = 0,
       g_exitCode = ecBusy, g_body = b \<rparr>"

text \<open>The key by which goals are ordered.\<close>

fun goal_key :: "Path \<Rightarrow> goal_body \<Rightarrow> string result" where
  "goal_key store (Subst b) =
     rbind (storePathToName store (sg_storePath b)) (\<lambda>n. Inr (''a$'' @ n @ ''$'' @ sg_storePath b))"
| "goal_key store (Drv b) =
     rbind (storePathToName store (dg_drvPath b)) (\<lambda>n. Inr (''b$'' @ n @ ''$'' @ dg_drvPath b))"

section \<open>The worker\<close>

record Child =
  ch_goal :: nat
  ch_fds :: "nat oset"
  ch_respectTimeouts :: bool
  ch_inBuildSlot :: bool
  ch_lastOutput :: int
  ch_timeStarted :: int

record Worker_goals =
  wk_goals :: "nat \<Rightarrow> goal option"
  wk_next :: nat
  wk_pinned :: "nat list"
  wk_topGoals :: "nat list"
  wk_awake :: "nat list"
  wk_wantingToBuild :: "nat list"
  wk_waitingForAnyGoal :: "nat list"
  wk_waitingForAWhile :: "nat list"
  wk_derivationGoals :: "(Path, nat) omap"
  wk_substitutionGoals :: "(Path, nat) omap"

record Worker = Worker_goals +
  wk_children :: "(nat, Child) omap"
  wk_nrLocalBuilds :: nat
  wk_lastWokenUp :: int
  wk_permanentFailure :: bool
  wk_timedOut :: bool
  wk_hook :: "Agent option"
  wk_substituter :: "Agent option"
  wk_world :: world
  wk_lockedUsers :: "Path oset"
  wk_spawned :: nat
  wk_selects :: "(int option \<Rightarrow> select_event) list"

definition on_w :: "('a, world) action \<Rightarrow> ('a, Worker) action" where
  "on_w m w = (case m (wk_world w) of (r, t) \<Rightarrow> (r, w \<lparr> wk_world := t \<rparr>))"

definition on_l :: "('a, local_store) action \<Rightarrow> ('a, Worker) action" where
  "on_l m = on_w (on_world m)"

definition on_f :: "('a, file_system) action \<Rightarrow> ('a, Worker) action" where
  "on_f m = on_l (on_fs m)"

definition worker_time :: "Worker \<Rightarrow> int" where
  "worker_time w = fs_now (ls_fs (w_ls (wk_world w)))"

text \<open>Reading and changing a goal of the heap.\<close>

definition the_goal :: "nat \<Rightarrow> (goal, Worker) action" where
  "the_goal g w = (case wk_goals w g of Some x \<Rightarrow> (Inr x, w) | None \<Rightarrow> (Inl (Abort ''dangling pointer''), w))"

definition mod_goal :: "nat \<Rightarrow> (goal \<Rightarrow> goal) \<Rightarrow> (unit, Worker) action" where
  "mod_goal g f = amodify (\<lambda>w. w \<lparr> wk_goals := (wk_goals w)(g := map_option f (wk_goals w g)) \<rparr>)"

definition the_sub :: "nat \<Rightarrow> (SubstitutionGoal, Worker) action" where
  "the_sub g = abind (the_goal g) (\<lambda>x. case g_body x of Subst b \<Rightarrow> areturn b | Drv _ \<Rightarrow> athrow (Abort ''bad cast''))"

definition the_drv :: "nat \<Rightarrow> (DerivationGoal, Worker) action" where
  "the_drv g = abind (the_goal g) (\<lambda>x. case g_body x of Drv b \<Rightarrow> areturn b | Subst _ \<Rightarrow> athrow (Abort ''bad cast''))"

fun body_sub :: "(SubstitutionGoal \<Rightarrow> SubstitutionGoal) \<Rightarrow> goal_body \<Rightarrow> goal_body" where
  "body_sub f (Subst b) = Subst (f b)"
| "body_sub f (Drv b) = Drv b"

fun body_drv :: "(DerivationGoal \<Rightarrow> DerivationGoal) \<Rightarrow> goal_body \<Rightarrow> goal_body" where
  "body_drv f (Drv b) = Drv (f b)"
| "body_drv f (Subst b) = Subst b"

definition mod_sub :: "nat \<Rightarrow> (SubstitutionGoal \<Rightarrow> SubstitutionGoal) \<Rightarrow> (unit, Worker) action" where
  "mod_sub g f = mod_goal g (g_body_update (body_sub f))"

definition mod_drv :: "nat \<Rightarrow> (DerivationGoal \<Rightarrow> DerivationGoal) \<Rightarrow> (unit, Worker) action" where
  "mod_drv g f = mod_goal g (g_body_update (body_drv f))"

section \<open>Waking and sleeping\<close>

definition addToWeakGoals :: "nat \<Rightarrow> nat list \<Rightarrow> nat list" where
  "addToWeakGoals p goals = (if p \<in> set goals then goals else goals @ [p])"

definition wakeUp :: "nat \<Rightarrow> (unit, Worker) action" where
  "wakeUp g = amodify (\<lambda>w. w \<lparr> wk_awake := addToWeakGoals g (wk_awake w) \<rparr>)"

definition wake_all :: "nat list \<Rightarrow> (unit, Worker) action" where
  "wake_all goals =
     aforeach goals (\<lambda>i.
       abind (aget (\<lambda>w. wk_goals w i)) (\<lambda>r. case r of None \<Rightarrow> areturn () | Some _ \<Rightarrow> wakeUp i))"

definition childStarted :: "nat \<Rightarrow> nat \<Rightarrow> nat oset \<Rightarrow> bool \<Rightarrow> bool \<Rightarrow> (unit, Worker) action" where
  "childStarted g pid fds inBuildSlot respectTimeouts =
     amodify (\<lambda>w. w \<lparr>
       wk_children := oput pid
         \<lparr> ch_goal = g, ch_fds = fds, ch_respectTimeouts = respectTimeouts, ch_inBuildSlot = inBuildSlot,
           ch_lastOutput = worker_time w, ch_timeStarted = worker_time w \<rparr> (wk_children w),
       wk_nrLocalBuilds := (if inBuildSlot then Suc (wk_nrLocalBuilds w) else wk_nrLocalBuilds w) \<rparr>)"

definition childTerminated :: "nat option \<Rightarrow> bool \<Rightarrow> (unit, Worker) action" where
  "childTerminated pid wakeSleepers =
     (case pid of
        None \<Rightarrow> athrow (Abort ''pid != -1'')
      | Some pid \<Rightarrow>
          abind (aget (\<lambda>w. map_of (wk_children w) pid)) (\<lambda>r.
          case r of
            None \<Rightarrow> athrow (Abort ''i != children.end()'')
          | Some child \<Rightarrow>
              abind (aget wk_nrLocalBuilds) (\<lambda>n.
              if ch_inBuildSlot child \<and> n = 0 then athrow (Abort ''nrLocalBuilds > 0'')
              else
                abind (amodify (\<lambda>w. w \<lparr>
                  wk_nrLocalBuilds := (if ch_inBuildSlot child then n - 1 else n),
                  wk_children := filter (\<lambda>e. fst e \<noteq> pid) (wk_children w) \<rparr>)) (\<lambda>_.
                if wakeSleepers then
                  abind (aget wk_wantingToBuild) (\<lambda>goals.
                  abind (wake_all goals) (\<lambda>_. amodify (\<lambda>w. w \<lparr> wk_wantingToBuild := [] \<rparr>)))
                else areturn ()))))"

definition waitForBuildSlot :: "build_env \<Rightarrow> nat \<Rightarrow> (unit, Worker) action" where
  "waitForBuildSlot env g =
     abind (aget wk_nrLocalBuilds) (\<lambda>n.
     if int n < maxBuildJobs (be_settings env) then wakeUp g
     else amodify (\<lambda>w. w \<lparr> wk_wantingToBuild := addToWeakGoals g (wk_wantingToBuild w) \<rparr>))"

definition waitForAnyGoal :: "nat \<Rightarrow> (unit, Worker) action" where
  "waitForAnyGoal g = amodify (\<lambda>w. w \<lparr> wk_waitingForAnyGoal := addToWeakGoals g (wk_waitingForAnyGoal w) \<rparr>)"

definition waitForAWhile :: "nat \<Rightarrow> (unit, Worker) action" where
  "waitForAWhile g = amodify (\<lambda>w. w \<lparr> wk_waitingForAWhile := addToWeakGoals g (wk_waitingForAWhile w) \<rparr>)"

section \<open>Locks and users of a goal\<close>

definition on_drv_locks :: "nat \<Rightarrow> ('a, PathLocks \<times> local_store) action \<Rightarrow> ('a, Worker) action" where
  "on_drv_locks g m =
     abind (the_drv g) (\<lambda>b w.
       case m (dg_outputLocks b, w_ls (wk_world w)) of
         (r, l, s) \<Rightarrow> (r, snd (mod_drv g (dg_outputLocks_update (\<lambda>_. l)) (w \<lparr> wk_world := (wk_world w) \<lparr> w_ls := s \<rparr> \<rparr>))))"

definition on_build_user :: "nat \<Rightarrow> ('a, user_lock_state) action \<Rightarrow> ('a, Worker) action" where
  "on_build_user g m =
     abind (the_drv g) (\<lambda>b w.
       case m (dg_buildUser b, wk_lockedUsers w, w_ls (wk_world w)) of
         (r, l, locked, s) \<Rightarrow>
           (r, snd (mod_drv g (dg_buildUser_update (\<lambda>_. l))
                 (w \<lparr> wk_world := (wk_world w) \<lparr> w_ls := s \<rparr>, wk_lockedUsers := locked \<rparr>))))"

text \<open>The lock of a substitution goal is a shared pointer: the methods of the object it points to, and \<^verbatim>\<open>reset\<close>.\<close>

definition on_sub_lock :: "nat \<Rightarrow> ('a, PathLocks \<times> local_store) action \<Rightarrow> ('a, Worker) action" where
  "on_sub_lock g m =
     abind (the_sub g) (\<lambda>b.
     case sg_outputLock b of
       None \<Rightarrow> athrow (Abort ''null pointer'')
     | Some l \<Rightarrow> (\<lambda>w.
         case m (l, w_ls (wk_world w)) of
           (r, l', s) \<Rightarrow> (r, snd (mod_sub g (sg_outputLock_update (\<lambda>_. Some l')) (w \<lparr> wk_world := (wk_world w) \<lparr> w_ls := s \<rparr> \<rparr>)))))"

definition reset_sub_lock :: "nat \<Rightarrow> (unit, Worker) action" where
  "reset_sub_lock g =
     abind (the_sub g) (\<lambda>b.
     case sg_outputLock b of
       None \<Rightarrow> areturn ()
     | Some _ \<Rightarrow>
         abind (on_sub_lock g PathLocks_destroy) (\<lambda>_. mod_sub g (sg_outputLock_update (\<lambda>_. None))))"

section \<open>The end of a goal\<close>

definition ignoring :: "(unit, 's) action \<Rightarrow> (unit, 's) action" where
  "ignoring m = acatch m (\<lambda>_ _. areturn ())"

definition killChild :: "nat \<Rightarrow> (unit, Worker) action" where
  "killChild g =
     abind (the_drv g) (\<lambda>b.
     abind (case dg_pid b of
              None \<Rightarrow> areturn ()
            | Some pid \<Rightarrow> abind (childTerminated (Some pid) True) (\<lambda>_. mod_drv g (dg_pid_update (\<lambda>_. None)))) (\<lambda>_.
     abind (case dg_hook b of
              None \<Rightarrow> areturn ()
            | Some hook \<Rightarrow> if agt_pid hook \<noteq> None then childTerminated (agt_pid hook) True else areturn ()) (\<lambda>_.
     mod_drv g (dg_hook_update (\<lambda>_. None)))))"

text \<open>The user and group number -1 leave the owner as it is.\<close>

definition id_arg :: "int \<Rightarrow> nat option" where
  "id_arg n = (if n = 4294967295 then None else Some (nat n))"

definition keep_tmpDir :: "build_env \<Rightarrow> Path \<Rightarrow> Path \<Rightarrow> (unit, file_system) action" where
  "keep_tmpDir env tmpDir topDir =
     (let clientUid = clientUid (be_settings env);
          clientGid = clientGid (be_settings env);
          gid = (if clientGid \<noteq> 0 then id_arg clientGid else None)
      in
      abind (sys_chmod tmpDir 493) (\<lambda>_.
      if id_arg clientUid = None \<or> clientUid = 0 then areturn ()
      else
        abind (secureFilePerms tmpDir) (\<lambda>_.
        abind (acatch (abind (chown_tree tmpDir (id_arg clientUid) gid) (\<lambda>_. areturn (acc_uid (be_accounts env) \<noteq> 0)))
                 (\<lambda>c msg. case c of SysError _ \<Rightarrow> areturn False | _ \<Rightarrow> athrow (Throw c msg))) (\<lambda>reown.
        if topDir = tmpDir then areturn ()
        else
          abind (if reown then
                   abind (sys_chown_group tmpDir (Some (acc_uid (be_accounts env))) (Some (acc_gid (be_accounts env)))) (\<lambda>_. areturn ())
                 else areturn ()) (\<lambda>_.
          let pivot = topDir @ ''.pivot'' in
          abind (or_throw ''pivoting failed build tree'' (sys_rename topDir pivot)) (\<lambda>_.
          abind (or_throw ''renaming failed build tree'' (sys_rename (pivot @ ''/top'') topDir)) (\<lambda>_.
          abind (if reown then abind (sys_chown_group topDir (id_arg clientUid) gid) (\<lambda>_. areturn ()) else areturn ()) (\<lambda>_.
          abind (sys_rmdir pivot) (\<lambda>_. areturn ())))))))))"

definition top_of :: "bool \<Rightarrow> Path \<Rightarrow> Path result" where
  "top_of chroot tmpDir =
     (if chroot then
        rbind (baseNameOf tmpDir) (\<lambda>base. if base \<noteq> ''top'' then Inl (Abort ''abort'') else dirOf tmpDir)
      else Inr tmpDir)"

definition deleteTmpDir :: "build_env \<Rightarrow> nat \<Rightarrow> bool \<Rightarrow> (unit, Worker) action" where
  "deleteTmpDir env g force =
     abind (the_drv g) (\<lambda>b.
     let tmpDir = dg_tmpDir b in
     if tmpDir = [] then areturn ()
     else
       abind (alift (top_of (dg_useChroot b) tmpDir)) (\<lambda>topDir.
       abind (on_f (if keepFailed (be_settings env) \<and> \<not> force then keep_tmpDir env tmpDir topDir
                    else
                      abind (deletePath tmpDir 1) (\<lambda>_.
                      if topDir \<noteq> tmpDir then
                        abind (alift (dirOf tmpDir)) (\<lambda>dir. abind (sys_rmdir dir) (\<lambda>_. areturn ()))
                      else areturn ()))) (\<lambda>_.
       mod_drv g (dg_tmpDir_update (\<lambda>_. [])))))"

definition closeLogFile :: "build_env \<Rightarrow> nat \<Rightarrow> (unit, Worker) action" where
  "closeLogFile env g =
     abind (the_drv g) (\<lambda>b.
     case dg_log b of
       None \<Rightarrow> areturn ()
     | Some lf \<Rightarrow>
         abind (mod_drv g (dg_log_update (\<lambda>_. None))) (\<lambda>_.
         if lf_compression lf = COMPRESSION_NONE then areturn ()
         else
           abind (on_f (sys_append (lf_fd lf) (be_compress env (lf_compression lf) (lf_data lf)))) (\<lambda>r.
           case r of
             Inl _ \<Rightarrow> athrow (Throw Error ''cannot close compressed log file'')
           | Inr _ \<Rightarrow> areturn ())))"

text \<open>The members are destroyed after the body of the destructor: the chroot directory, the build user, the locks.\<close>

definition reset_autoDelChroot :: "nat \<Rightarrow> (unit, Worker) action" where
  "reset_autoDelChroot g =
     abind (the_drv g) (\<lambda>b.
     case dg_autoDelChroot b of
       None \<Rightarrow> areturn ()
     | Some dir \<Rightarrow>
         abind (on_w (AutoDelete dir (areturn ()))) (\<lambda>_. mod_drv g (dg_autoDelChroot_update (\<lambda>_. None))))"

definition DerivationGoal_destroy :: "build_env \<Rightarrow> nat \<Rightarrow> (unit, Worker) action" where
  "DerivationGoal_destroy env g =
     abind (ignoring (killChild g)) (\<lambda>_.
     abind (ignoring (deleteTmpDir env g False)) (\<lambda>_.
     abind (ignoring (closeLogFile env g)) (\<lambda>_.
     abind (reset_autoDelChroot g) (\<lambda>_.
     abind (on_build_user g UserLock_release) (\<lambda>_.
     on_drv_locks g PathLocks_destroy)))))"

definition SubstitutionGoal_destroy :: "nat \<Rightarrow> (unit, Worker) action" where
  "SubstitutionGoal_destroy g =
     abind (the_sub g) (\<lambda>b.
     abind (case sg_substituter b of None \<Rightarrow> areturn () | Some a \<Rightarrow> childTerminated (agt_pid a) True) (\<lambda>_.
     reset_sub_lock g))"

definition Goal_destroy :: "build_env \<Rightarrow> nat \<Rightarrow> (unit, Worker) action" where
  "Goal_destroy env g =
     abind (the_goal g) (\<lambda>x.
     abind (case g_body x of Subst _ \<Rightarrow> SubstitutionGoal_destroy g | Drv _ \<Rightarrow> DerivationGoal_destroy env g) (\<lambda>_.
     amodify (\<lambda>w. w \<lparr> wk_goals := (wk_goals w)(g := None) \<rparr>)))"

text \<open>The goals to which no shared pointer is left are destroyed one by one.\<close>

definition owned :: "Worker \<Rightarrow> nat \<Rightarrow> bool" where
  "owned w g \<longleftrightarrow>
     g \<in> set (wk_topGoals w) \<or> g \<in> set (wk_pinned w) \<or>
     list_ex (\<lambda>h. case wk_goals w h of None \<Rightarrow> False | Some x \<Rightarrow> g \<in> set (g_waitees x)) [0..<wk_next w]"

definition unowned :: "Worker \<Rightarrow> nat list" where
  "unowned w = filter (\<lambda>g. wk_goals w g \<noteq> None \<and> \<not> owned w g) [0..<wk_next w]"

primrec release_loop :: "nat \<Rightarrow> build_env \<Rightarrow> (unit, Worker) action" where
  "release_loop 0 env = athrow OutOfFuel"
| "release_loop (Suc fuel) env =
     abind (aget unowned) (\<lambda>gs.
     case gs of [] \<Rightarrow> areturn () | g # _ \<Rightarrow> abind (Goal_destroy env g) (\<lambda>_. release_loop fuel env))"

text \<open>Every step takes a goal off the heap, so the number of goals ever made is enough fuel.\<close>

definition release_unowned :: "build_env \<Rightarrow> (unit, Worker) action" where
  "release_unowned env = abind (aget wk_next) (\<lambda>n. release_loop (Suc n) env)"

definition with_pinned :: "build_env \<Rightarrow> nat list \<Rightarrow> ('a, Worker) action \<Rightarrow> ('a, Worker) action" where
  "with_pinned env gs m =
     abind (aget wk_pinned) (\<lambda>old.
     abind (amodify (\<lambda>w. w \<lparr> wk_pinned := gs @ old \<rparr>)) (\<lambda>_ w.
       case m w of
         (Inl e, w') \<Rightarrow> (Inl e, w' \<lparr> wk_pinned := old \<rparr>)
       | (Inr x, w') \<Rightarrow> abind (release_unowned env) (\<lambda>_. areturn x) (w' \<lparr> wk_pinned := old \<rparr>)))"

section \<open>Finishing\<close>

definition removeGoal :: "build_env \<Rightarrow> nat \<Rightarrow> (unit, Worker) action" where
  "removeGoal env g =
     abind (the_goal g) (\<lambda>x.
     abind (amodify (\<lambda>w. w \<lparr>
       wk_derivationGoals := filter (\<lambda>e. snd e \<noteq> g) (wk_derivationGoals w),
       wk_substitutionGoals := filter (\<lambda>e. snd e \<noteq> g) (wk_substitutionGoals w),
       wk_topGoals :=
         (if g \<in> set (wk_topGoals w) then
            (if g_exitCode x = ecFailed \<and> \<not> keepGoing (be_settings env) then []
             else filter (\<lambda>h. h \<noteq> g) (wk_topGoals w))
          else wk_topGoals w) \<rparr>)) (\<lambda>_.
     abind (aget wk_waitingForAnyGoal) (\<lambda>goals.
     abind (wake_all goals) (\<lambda>_.
     amodify (\<lambda>w. w \<lparr> wk_waitingForAnyGoal := [] \<rparr>)))))"

definition is_failure :: "ExitCode \<Rightarrow> bool" where
  "is_failure r \<longleftrightarrow> r = ecFailed \<or> r = ecNoSubstituters \<or> r = ecIncompleteClosure"

definition waiteeDone :: "build_env \<Rightarrow> nat \<Rightarrow> nat \<Rightarrow> ExitCode \<Rightarrow> (unit, Worker) action" where
  "waiteeDone env g waitee res =
     abind (the_goal g) (\<lambda>x.
     if waitee \<notin> set (g_waitees x) then athrow (Abort ''waitees.find(waitee) != waitees.end()'')
     else
       let left = filter (\<lambda>h. h \<noteq> waitee) (g_waitees x) in
       abind (mod_goal g (\<lambda>x. x \<lparr>
         g_waitees := left,
         g_nrFailed := g_nrFailed x + (if is_failure res then 1 else 0),
         g_nrNoSubstituters := g_nrNoSubstituters x + (if res = ecNoSubstituters then 1 else 0),
         g_nrIncompleteClosure := g_nrIncompleteClosure x + (if res = ecIncompleteClosure then 1 else 0) \<rparr>)) (\<lambda>_.
       if left = [] \<or> res = ecFailed \<and> \<not> keepGoing (be_settings env) then
         abind (aforeach left (\<lambda>h. mod_goal h (g_waiters_update (filter (\<lambda>j. j \<noteq> g))))) (\<lambda>_.
         abind (mod_goal g (g_waitees_update (\<lambda>_. []))) (\<lambda>_.
         abind (release_unowned env) (\<lambda>_.
         wakeUp g)))
       else areturn ()))"

definition amDone :: "build_env \<Rightarrow> nat \<Rightarrow> ExitCode \<Rightarrow> (unit, Worker) action" where
  "amDone env g res =
     abind (the_goal g) (\<lambda>x.
     if g_exitCode x \<noteq> ecBusy then athrow (Abort ''exitCode == ecBusy'')
     else if res = ecBusy then athrow (Abort ''result == ecSuccess'')
     else
       abind (mod_goal g (g_exitCode_update (\<lambda>_. res))) (\<lambda>_.
       abind (aforeach (g_waiters x) (\<lambda>i.
         abind (aget (\<lambda>w. wk_goals w i)) (\<lambda>r.
         case r of None \<Rightarrow> areturn () | Some _ \<Rightarrow> waiteeDone env i g res))) (\<lambda>_.
       abind (mod_goal g (g_waiters_update (\<lambda>_. []))) (\<lambda>_.
       removeGoal env g))))"

section \<open>Making goals\<close>

text \<open>
  Sets of goals are ordered by key; of two goals with the same key the first one stays.  Inserting into a set that
  is not empty compares keys, and computing a key fails for a goal whose path is not a store path.
\<close>

fun insert_by_key :: "('a \<Rightarrow> string) \<Rightarrow> 'a \<Rightarrow> 'a list \<Rightarrow> 'a list" where
  "insert_by_key k x [] = [x]"
| "insert_by_key k x (y # ys) =
     (if k x < k y then x # y # ys else if k x = k y then y # ys else y # insert_by_key k x ys)"

definition key_of :: "build_env \<Rightarrow> Worker \<Rightarrow> nat \<Rightarrow> string result" where
  "key_of env w g =
     (case wk_goals w g of None \<Rightarrow> Inl (Abort ''dangling pointer'') | Some x \<Rightarrow> goal_key (be_store env) (g_body x))"

definition key_text :: "build_env \<Rightarrow> Worker \<Rightarrow> nat \<Rightarrow> string" where
  "key_text env w g = (case key_of env w g of Inl _ \<Rightarrow> [] | Inr k \<Rightarrow> k)"

definition goals_insert :: "build_env \<Rightarrow> nat \<Rightarrow> nat list \<Rightarrow> (nat list, Worker) action" where
  "goals_insert env g goals w =
     (if goals = [] then (Inr [g], w)
      else
        (case rfold (\<lambda>h _. rbind (key_of env w h) (\<lambda>_. Inr ())) (g # goals) () of
           Inl e \<Rightarrow> (Inl e, w)
         | Inr _ \<Rightarrow> (Inr (insert_by_key (key_text env w) g goals), w)))"

definition addWaitee :: "build_env \<Rightarrow> nat \<Rightarrow> nat \<Rightarrow> (unit, Worker) action" where
  "addWaitee env g waitee =
     abind (the_goal g) (\<lambda>x.
     abind (goals_insert env waitee (g_waitees x)) (\<lambda>waitees.
     abind (mod_goal g (g_waitees_update (\<lambda>_. waitees))) (\<lambda>_.
     mod_goal waitee (g_waiters_update (addToWeakGoals g)))))"

definition new_goal :: "goal_body \<Rightarrow> (nat, Worker) action" where
  "new_goal b w =
     (Inr (wk_next w), w \<lparr> wk_goals := (wk_goals w)(wk_next w \<mapsto> Goal_new b), wk_next := Suc (wk_next w) \<rparr>)"

definition lock_weak :: "(Path, nat) omap \<Rightarrow> Path \<Rightarrow> Worker \<Rightarrow> nat option" where
  "lock_weak m path w =
     (case map_of m path of None \<Rightarrow> None | Some g \<Rightarrow> if wk_goals w g = None then None else Some g)"

definition addWantedOutputs :: "string oset \<Rightarrow> DerivationGoal \<Rightarrow> DerivationGoal" where
  "addWantedOutputs outputs b =
     (if dg_wantedOutputs b = [] then b
      else if outputs = [] then b \<lparr> dg_wantedOutputs := [], dg_needRestart := True \<rparr>
      else
        fold (\<lambda>i b. if i \<in> set (dg_wantedOutputs b) then b
                    else b \<lparr> dg_wantedOutputs := oinsert i (dg_wantedOutputs b), dg_needRestart := True \<rparr>) outputs b)"

definition makeDerivationGoal :: "build_env \<Rightarrow> Path \<Rightarrow> string oset \<Rightarrow> BuildMode \<Rightarrow> (nat, Worker) action" where
  "makeDerivationGoal env path wantedOutputs buildMode =
     abind (aget (\<lambda>w. lock_weak (wk_derivationGoals w) path w)) (\<lambda>r.
     case r of
       Some g \<Rightarrow> abind (mod_drv g (addWantedOutputs wantedOutputs)) (\<lambda>_. areturn g)
     | None \<Rightarrow>
         abind (on_l (addTempRoot (be_daemon env) path)) (\<lambda>_.
         abind (new_goal (Drv (DerivationGoal_new path wantedOutputs buildMode))) (\<lambda>g.
         abind (amodify (\<lambda>w. w \<lparr> wk_derivationGoals := oput path g (wk_derivationGoals w) \<rparr>)) (\<lambda>_.
         abind (wakeUp g) (\<lambda>_. areturn g)))))"

definition makeSubstitutionGoal :: "Path \<Rightarrow> bool \<Rightarrow> (nat, Worker) action" where
  "makeSubstitutionGoal path repair =
     abind (aget (\<lambda>w. lock_weak (wk_substitutionGoals w) path w)) (\<lambda>r.
     case r of
       Some g \<Rightarrow> areturn g
     | None \<Rightarrow>
         abind (new_goal (Subst (SubstitutionGoal_new path repair))) (\<lambda>g.
         abind (amodify (\<lambda>w. w \<lparr> wk_substitutionGoals := oput path g (wk_substitutionGoals w) \<rparr>)) (\<lambda>_.
         abind (wakeUp g) (\<lambda>_. areturn g))))"

end
