(* ===== verification/Substitution.thy ===== *)
theory Substitution
  imports Goals
begin

text \<open>
  The states of a \<^verbatim>\<open>SubstitutionGoal\<close> of \<^verbatim>\<open>src/nix/libstore/build.cc\<close>.  Writing to the substituter succeeds; what it
  answers arrives through the descriptors of the process.
\<close>

section \<open>The states\<close>

definition spawn :: "build_env \<Rightarrow> (Agent, Worker) action" where
  "spawn env =
     abind (aget wk_spawned) (\<lambda>n.
     abind (amodify (\<lambda>w. w \<lparr> wk_spawned := Suc n \<rparr>)) (\<lambda>_. alift (be_spawn env n)))"

definition SubstitutionGoal_timedOut :: "build_env \<Rightarrow> nat \<Rightarrow> (unit, Worker) action" where
  "SubstitutionGoal_timedOut env g =
     abind (the_sub g) (\<lambda>b.
     abind (case sg_substituter b of
              None \<Rightarrow> areturn ()
            | Some a \<Rightarrow>
                abind (mod_sub g (sg_substituter_update (\<lambda>_. None))) (\<lambda>_. childTerminated (agt_pid a) True)) (\<lambda>_.
     amDone env g ecFailed))"

definition referencesValid :: "build_env \<Rightarrow> nat \<Rightarrow> (unit, Worker) action" where
  "referencesValid env g =
     abind (the_goal g) (\<lambda>x.
     if 0 < g_nrFailed x then
       amDone env g (if 0 < g_nrNoSubstituters x \<or> 0 < g_nrIncompleteClosure x then ecIncompleteClosure else ecFailed)
     else
       abind (the_sub g) (\<lambda>b.
       abind (aforeach (sub_references (sg_info b)) (\<lambda>i.
         if i = sg_storePath b then areturn ()
         else
           abind (on_l (is_valid i)) (\<lambda>v.
           if v then areturn () else athrow (Abort ''worker.store.isValidPath(*i)'')))) (\<lambda>_.
       abind (mod_sub g (sg_state_update (\<lambda>_. S_tryToRun))) (\<lambda>_.
       wakeUp g))))"

definition tryNext :: "build_env \<Rightarrow> nat \<Rightarrow> (unit, Worker) action" where
  "tryNext env g =
     abind (the_sub g) (\<lambda>b.
     abind (on_w (querySubstitutablePathInfos (be_daemon env) (be_agents env) [sg_storePath b] [])) (\<lambda>infos.
     case map_of infos (sg_storePath b) of
       None \<Rightarrow> amDone env g ecNoSubstituters
     | Some info \<Rightarrow>
         abind (mod_sub g (sg_info_update (\<lambda>_. info))) (\<lambda>_.
         abind (aforeach (sub_references info) (\<lambda>i.
           if i = sg_storePath b then areturn ()
           else abind (makeSubstitutionGoal i False) (addWaitee env g))) (\<lambda>_.
         abind (the_goal g) (\<lambda>x.
         if g_waitees x = [] then referencesValid env g
         else mod_sub g (sg_state_update (\<lambda>_. S_referencesValid)))))))"

definition SubstitutionGoal_start :: "build_env \<Rightarrow> nat \<Rightarrow> (unit, Worker) action" where
  "SubstitutionGoal_start env g =
     abind (the_sub g) (\<lambda>b.
     abind (on_l (addTempRoot (be_daemon env) (sg_storePath b))) (\<lambda>_.
     abind (if sg_repair b then areturn False else on_l (is_valid (sg_storePath b))) (\<lambda>v.
     if v then amDone env g ecSuccess
     else if readOnlyMode (be_settings env) then
       athrow (Throw Error ''cannot substitute path - no write access to the store'')
     else tryNext env g)))"

definition slots_for_substitution :: "build_env \<Rightarrow> int" where
  "slots_for_substitution env =
     (if maxBuildJobs (be_settings env) = 0 then 1 else maxBuildJobs (be_settings env))"

text \<open>The second half of \<^verbatim>\<open>tryToRun\<close>: the lock is held and the path is still to be fetched.\<close>

definition run_substituter :: "build_env \<Rightarrow> nat \<Rightarrow> (unit, Worker) action" where
  "run_substituter env g =
     abind (mod_sub g (\<lambda>b. b \<lparr> sg_destPath := (if sg_repair b then sg_storePath b @ ''.tmp'' else sg_storePath b) \<rparr>)) (\<lambda>_.
     abind (the_sub g) (\<lambda>b.
     abind (on_f (clear_path (sg_destPath b))) (\<lambda>_.
     abind (aget wk_substituter) (\<lambda>r.
     abind (case r of
              Some _ \<Rightarrow> areturn ()
            | None \<Rightarrow>
                abind (alift (Settings_pack (be_settings env))) (\<lambda>_.
                abind (spawn env) (\<lambda>a. amodify (\<lambda>w. w \<lparr> wk_substituter := Some a \<rparr>)))) (\<lambda>_.
     abind (aget wk_substituter) (\<lambda>r.
     abind (case sg_substituter b of
              Some _ \<Rightarrow> areturn ()
            | None \<Rightarrow>
                abind (mod_sub g (sg_substituter_update (\<lambda>_. r))) (\<lambda>_.
                amodify (\<lambda>w. w \<lparr> wk_substituter := None \<rparr>))) (\<lambda>_.
     abind (mod_sub g (sg_substituter_update (map_option (agt_io_update
       (send_line (\<lambda>_. []) (''substitute '' @ sg_storePath b @ '' '' @ sg_destPath b)))))) (\<lambda>_.
     abind (the_sub g) (\<lambda>b.
     abind (case sg_substituter b of
              Some a \<Rightarrow>
                (case agt_pid a of
                   Some pid \<Rightarrow> childStarted g pid (oinsert (agt_builderOut a) [agt_fromAgent a]) True True
                 | None \<Rightarrow> athrow (Abort ''no process''))
            | None \<Rightarrow> athrow (Abort ''null pointer'')) (\<lambda>_.
     mod_sub g (sg_state_update (\<lambda>_. S_finished))))))))))))"

definition tryToRun :: "build_env \<Rightarrow> nat \<Rightarrow> (unit, Worker) action" where
  "tryToRun env g =
     abind (aget wk_nrLocalBuilds) (\<lambda>n.
     if slots_for_substitution env \<le> int n then waitForBuildSlot env g
     else
       abind (reset_sub_lock g) (\<lambda>_.
       abind (the_sub g) (\<lambda>b.
       abind (on_l (aget (pathIsLockedByMe (sg_storePath b)))) (\<lambda>mine.
       if mine then waitForAnyGoal g
       else
         abind (mod_sub g (sg_outputLock_update (\<lambda>_. Some PathLocks_init))) (\<lambda>_.
         abind (on_sub_lock g (lockPaths [sg_storePath b] False)) (\<lambda>got.
         if \<not> got then waitForAWhile g
         else
           abind (if sg_repair b then areturn False else on_l (is_valid (sg_storePath b))) (\<lambda>v.
           if v then
             abind (on_sub_lock g (PathLocks_setDeletion True)) (\<lambda>_.
             abind (reset_sub_lock g) (\<lambda>_.
             amDone env g ecSuccess))
           else run_substituter env g)))))))"

section \<open>The result\<close>

definition nth_token :: "string list \<Rightarrow> nat \<Rightarrow> string result" where
  "nth_token ts i = (if i < length ts then Inr (ts ! i) else Inl (Abort ''index out of range''))"

definition substitute_hash :: "build_env \<Rightarrow> Path \<Rightarrow> string list \<Rightarrow> (Hash \<times> 64 word, file_system) action" where
  "substitute_hash env destPath statusList =
     abind (alift (nth_token statusList 1)) (\<lambda>hashStr.
     let n = length (takeWhile (\<lambda>c. c \<noteq> CHR '':'') hashStr) in
     if n = length hashStr then athrow (Throw Error ''bad hash from substituter'')
     else
       let hashType = parseHashType (take n hashStr) in
       if hashType = htUnknown then athrow (Throw Error ''unknown hash algorithm'')
       else if hashType = htSHA256 then
         abind (alift (parseHash16or32 (be_gcrypt env) hashType (drop (n + 1) hashStr))) (\<lambda>h.
         abind (alift (nth_token statusList 2)) (\<lambda>narSize.
         case string2Int U64 narSize 0 of
           (ok, v) \<Rightarrow> if ok then areturn (h, word_of_int v) else athrow (Throw Error ''invalid nar size'')))
       else sha256_of_path (be_daemon env) destPath)"

definition substitute_result :: "build_env \<Rightarrow> Path \<Rightarrow> string \<Rightarrow> (Hash \<times> 64 word, file_system) action" where
  "substitute_result env destPath status =
     (case tokenizeString status separators of
        [] \<Rightarrow> athrow (Throw SubstError ''fetching path (empty status)'')
      | word # rest \<Rightarrow>
          if word = ''hash-mismatch'' then
            abind (alift (if printBuildTrace (be_settings env) then nth_token (word # rest) 3 else Inr [])) (\<lambda>_.
            athrow (Throw SubstError ''hash mismatch for substituted item''))
          else if word = ''success'' then
            abind (pathExists destPath) (\<lambda>ex.
            if \<not> ex then athrow (Throw SubstError ''substitute did not produce path'')
            else substitute_hash env destPath (word # rest))
          else athrow (Throw SubstError ''fetching path''))"

definition finish_substitution :: "build_env \<Rightarrow> nat \<Rightarrow> Hash \<times> 64 word \<Rightarrow> (unit, Worker) action" where
  "finish_substitution env g hr =
     abind (the_sub g) (\<lambda>b.
     abind (if sg_repair b then on_f (replaceValidPath (sg_storePath b) (sg_destPath b)) else areturn ()) (\<lambda>_.
     abind (on_l (register_paths (be_daemon env)
       [new_info (sg_storePath b) hr (sub_references (sg_info b)) (sub_deriver (sg_info b))])) (\<lambda>_.
     abind (on_sub_lock g (PathLocks_setDeletion True)) (\<lambda>_.
     abind (reset_sub_lock g) (\<lambda>_.
     abind (on_l (markContentsGood (sg_storePath b))) (\<lambda>_.
     amDone env g ecSuccess))))))"

text \<open>The substituter goes back to the worker unless the worker has another one by now.\<close>

definition finished :: "build_env \<Rightarrow> nat \<Rightarrow> (unit, Worker) action" where
  "finished env g =
     abind (the_sub g) (\<lambda>b.
     case sg_substituter b of
       None \<Rightarrow> athrow (Abort ''null pointer'')
     | Some a \<Rightarrow>
         abind (childTerminated (agt_pid a) True) (\<lambda>_.
         abind (amodify (\<lambda>w. w \<lparr> wk_substituter := (case wk_substituter w of None \<Rightarrow> Some a | Some a' \<Rightarrow> Some a') \<rparr>)) (\<lambda>_.
         abind (mod_sub g (sg_substituter_update (\<lambda>_. None))) (\<lambda>_.
         abind (acatch (abind (on_f (substitute_result env (sg_destPath b) (sg_status b))) (\<lambda>hr. areturn (Some hr)))
                  (\<lambda>c msg. if c = SubstError then areturn None else athrow (Throw c msg))) (\<lambda>r.
         case r of
           None \<Rightarrow> amDone env g ecFailed
         | Some hr \<Rightarrow> finish_substitution env g hr)))))"

definition SubstitutionGoal_work :: "build_env \<Rightarrow> nat \<Rightarrow> (unit, Worker) action" where
  "SubstitutionGoal_work env g =
     abind (the_sub g) (\<lambda>b.
     case sg_state b of
       S_init \<Rightarrow> SubstitutionGoal_start env g
     | S_referencesValid \<Rightarrow> referencesValid env g
     | S_tryToRun \<Rightarrow> tryToRun env g
     | S_finished \<Rightarrow> finished env g)"

section \<open>Output of the substituter\<close>

text \<open>The first line is the status; further lines are only reported.\<close>

function status_lines :: "nat \<Rightarrow> string \<Rightarrow> (unit, Worker) action" where
  "status_lines g input =
     (if input = [] then areturn ()
      else
        let trimmed = takeWhile (\<lambda>c. c \<noteq> CHR 0x0A) input in
        abind (the_sub g) (\<lambda>b.
        abind (if sg_status b = [] then
                 abind (mod_sub g (sg_status_update (\<lambda>_. trimmed))) (\<lambda>_. wakeUp g)
               else areturn ()) (\<lambda>_.
        status_lines g (drop (Suc (length trimmed)) input))))"
  by pat_completeness auto
termination
  by (relation "measure (length \<circ> snd)") auto

declare status_lines.simps [simp del]

definition SubstitutionGoal_handleChildOutput :: "nat \<Rightarrow> nat \<Rightarrow> string \<Rightarrow> (unit, Worker) action" where
  "SubstitutionGoal_handleChildOutput g fd input =
     abind (the_sub g) (\<lambda>b.
     case sg_substituter b of
       None \<Rightarrow> athrow (Abort ''null pointer'')
     | Some a \<Rightarrow> if fd = agt_builderOut a then status_lines g input else areturn ())"

definition SubstitutionGoal_handleEOF :: "nat \<Rightarrow> nat \<Rightarrow> (unit, Worker) action" where
  "SubstitutionGoal_handleEOF g fd = wakeUp g"

end
