(* ===== verification/Derivation_Goal.thy ===== *)
theory Derivation_Goal
  imports Substitution
begin

text \<open>
  The states of a \<^verbatim>\<open>DerivationGoal\<close> of \<^verbatim>\<open>src/nix/libstore/build.cc\<close>, from its creation to the registration of the outputs.

  A state that calls the next one directly gets it as an argument: \<open>jump\<close> is the call of the method for a
  state.  The set-up of the sandbox in the child process is not part of the model: the builder is a process that
  reports whether its set-up has failed, changes the file system while the worker waits, and exits.
  Killing the processes of a build user has no effect on the state.
\<close>

section \<open>Common steps\<close>

definition goal_done :: "build_env \<Rightarrow> nat \<Rightarrow> BuildStatus \<Rightarrow> string \<Rightarrow> (unit, Worker) action" where
  "goal_done env g status msg =
     (let res = \<lparr> br_status = status, br_errorMsg = msg \<rparr> in
      abind (mod_drv g (dg_result_update (\<lambda>_. res))) (\<lambda>_.
      abind (amDone env g (if BuildResult_success res then ecSuccess else ecFailed)) (\<lambda>_.
      amodify (\<lambda>w. w \<lparr>
        wk_timedOut := (wk_timedOut w \<or> status = TimedOut),
        wk_permanentFailure := (wk_permanentFailure w \<or> status = PermanentFailure \<or> status = CachedFailure) \<rparr>))))"

definition DerivationGoal_timedOut :: "build_env \<Rightarrow> nat \<Rightarrow> (unit, Worker) action" where
  "DerivationGoal_timedOut env g = abind (killChild g) (\<lambda>_. goal_done env g TimedOut [])"

definition checkPathValidity :: "build_env \<Rightarrow> nat \<Rightarrow> bool \<Rightarrow> bool \<Rightarrow> (Path oset, Worker) action" where
  "checkPathValidity env g returnValid checkHash =
     abind (the_drv g) (\<lambda>b.
     afold (\<lambda>(name, out) res.
       if \<not> wantOutput name (dg_wantedOutputs b) then areturn res
       else
         abind (on_l (is_valid (do_path out))) (\<lambda>v.
         abind (if v \<and> checkHash then on_l (pathContentsGood (be_daemon env) (do_path out)) else areturn v) (\<lambda>good.
         areturn (if good = returnValid then oinsert (do_path out) res else res))))
       (drv_outputs (dg_drv b)) [])"

definition pathFailed :: "build_env \<Rightarrow> nat \<Rightarrow> Path \<Rightarrow> (bool, Worker) action" where
  "pathFailed env g path =
     (if \<not> cacheFailure (be_settings env) then areturn False
      else
        abind (on_l (ask (\<lambda>db. Inr (hasPathFailed path db)))) (\<lambda>failed.
        if \<not> failed then areturn False
        else abind (goal_done env g CachedFailure []) (\<lambda>_. areturn True)))"

definition any_failed :: "build_env \<Rightarrow> nat \<Rightarrow> Path list \<Rightarrow> (bool, Worker) action" where
  "any_failed env g paths = afold (\<lambda>i failed. if failed then areturn True else pathFailed env g i) paths False"

text \<open>
  Reading a derivation first makes sure that it is valid; within a worker a second one must not be
  created, so an invalid derivation ends in \<^verbatim>\<open>abort\<close>.
\<close>

definition nested_ensurePath :: "Path \<Rightarrow> (unit, local_store) action" where
  "nested_ensurePath path = abind (is_valid path) (\<lambda>v. if v then areturn () else athrow (Abort ''abort''))"

definition drv_from_path :: "build_env \<Rightarrow> Path \<Rightarrow> (Derivation, Worker) action" where
  "drv_from_path env path = on_l (derivationFromPath (be_daemon env) nested_ensurePath path)"

definition fs_closure :: "build_env \<Rightarrow> Path \<Rightarrow> Path oset \<Rightarrow> (Path oset, Worker) action" where
  "fs_closure env path paths =
     on_l (ask (\<lambda>db.
       computeFSClosure (Suc (length (tbl_ValidPaths db))) (db_queries (be_gcrypt env) (be_store env) db)
         False False False path paths))"

definition sub_waitee :: "build_env \<Rightarrow> nat \<Rightarrow> Path \<Rightarrow> bool \<Rightarrow> (unit, Worker) action" where
  "sub_waitee env g path repair = abind (makeSubstitutionGoal path repair) (addWaitee env g)"

definition drv_waitee :: "build_env \<Rightarrow> nat \<Rightarrow> Path \<Rightarrow> string oset \<Rightarrow> BuildMode \<Rightarrow> (unit, Worker) action" where
  "drv_waitee env g path wanted mode = abind (makeDerivationGoal env path wanted mode) (addWaitee env g)"

type_synonym jump = "drv_pc \<Rightarrow> nat \<Rightarrow> (unit, Worker) action"

definition set_state :: "nat \<Rightarrow> drv_pc \<Rightarrow> (unit, Worker) action" where
  "set_state g st = mod_drv g (dg_state_update (\<lambda>_. st))"

text \<open>Go on at once when there is nothing to wait for.\<close>

definition next_state :: "jump \<Rightarrow> nat \<Rightarrow> drv_pc \<Rightarrow> (unit, Worker) action" where
  "next_state jump g st =
     abind (the_goal g) (\<lambda>x. if g_waitees x = [] then jump st g else set_state g st)"

section \<open>Before the build\<close>

definition DerivationGoal_start :: "build_env \<Rightarrow> jump \<Rightarrow> nat \<Rightarrow> (unit, Worker) action" where
  "DerivationGoal_start env jump g =
     (if readOnlyMode (be_settings env) then
        athrow (Throw Error ''cannot build derivation - no write access to the store'')
      else
        abind (the_drv g) (\<lambda>b.
        abind (if dg_buildMode b = bmNormal then on_l (is_valid (dg_drvPath b)) else areturn False) (\<lambda>v.
        if v then jump D_haveDerivation g
        else
          abind (sub_waitee env g (dg_drvPath b) False) (\<lambda>_. set_state g D_haveDerivation))))"

definition haveDerivation :: "build_env \<Rightarrow> jump \<Rightarrow> nat \<Rightarrow> (unit, Worker) action" where
  "haveDerivation env jump g =
     abind (the_goal g) (\<lambda>x.
     if g_nrFailed x \<noteq> 0 then goal_done env g MiscFailure []
     else
       abind (the_drv g) (\<lambda>b.
       abind (on_l (addTempRoot (be_daemon env) (dg_drvPath b))) (\<lambda>_.
       abind (on_l (is_valid (dg_drvPath b))) (\<lambda>v.
       if \<not> v then athrow (Abort ''worker.store.isValidPath(drvPath)'')
       else
         abind (drv_from_path env (dg_drvPath b)) (\<lambda>drv.
         abind (mod_drv g (dg_drv_update (\<lambda>_. drv))) (\<lambda>_.
         abind (aforeach (drv_outputs drv) (\<lambda>(_, out). on_l (addTempRoot (be_daemon env) (do_path out)))) (\<lambda>_.
         abind (checkPathValidity env g False (dg_buildMode b = bmRepair)) (\<lambda>invalidOutputs.
         if invalidOutputs = [] \<and> dg_buildMode b = bmNormal then goal_done env g AlreadyValid []
         else
           abind (any_failed env g invalidOutputs) (\<lambda>failed.
           if failed then areturn ()
           else
             abind (if useSubstitutes (be_settings env) \<and> substitutesAllowed drv then
                      aforeach invalidOutputs (\<lambda>i. sub_waitee env g i (dg_buildMode b = bmRepair))
                    else areturn ()) (\<lambda>_.
             next_state jump g D_outputsSubstituted))))))))))"

definition output_closure :: "build_env \<Rightarrow> DerivationGoal \<Rightarrow> (Path oset, Worker) action" where
  "output_closure env b =
     abind (afold (\<lambda>(name, out) paths.
       if \<not> wantOutput name (dg_wantedOutputs b) then areturn paths else fs_closure env (do_path out) paths)
       (drv_outputs (dg_drv b)) []) (\<lambda>paths.
     areturn (fold (\<lambda>(_, out). oerase (do_path out)) (drv_outputs (dg_drv b)) paths))"

definition outputs_to_drv :: "build_env \<Rightarrow> Path \<Rightarrow> ((Path, Path) omap, Worker) action" where
  "outputs_to_drv env drvPath =
     abind (fs_closure env drvPath []) (\<lambda>inputClosure.
     afold (\<lambda>i m.
       if isDerivation i then
         abind (drv_from_path env i) (\<lambda>drv.
         areturn (fold (\<lambda>(_, out). oput (do_path out) i) (drv_outputs drv) m))
       else areturn m) inputClosure [])"

definition repairClosure :: "build_env \<Rightarrow> nat \<Rightarrow> (unit, Worker) action" where
  "repairClosure env g =
     abind (the_drv g) (\<lambda>b.
     abind (output_closure env b) (\<lambda>outputClosure.
     abind (outputs_to_drv env (dg_drvPath b)) (\<lambda>outputsToDrv.
     abind (aforeach outputClosure (\<lambda>i.
       abind (on_l (pathContentsGood (be_daemon env) i)) (\<lambda>good.
       if good then areturn ()
       else
         (case map_of outputsToDrv i of
            None \<Rightarrow> sub_waitee env g i True
          | Some drvPath2 \<Rightarrow>
              if drvPath2 = [] then sub_waitee env g i True else drv_waitee env g drvPath2 [] bmRepair)))) (\<lambda>_.
     abind (the_goal g) (\<lambda>x.
     if g_waitees x = [] then goal_done env g AlreadyValid [] else set_state g D_closureRepaired)))))"

definition closureRepaired :: "build_env \<Rightarrow> nat \<Rightarrow> (unit, Worker) action" where
  "closureRepaired env g =
     abind (the_goal g) (\<lambda>x.
     if 0 < g_nrFailed x then athrow (Throw Error ''some paths in the output closure could not be repaired'')
     else goal_done env g AlreadyValid [])"

definition outputsSubstituted :: "build_env \<Rightarrow> jump \<Rightarrow> nat \<Rightarrow> (unit, Worker) action" where
  "outputsSubstituted env jump g =
     abind (the_goal g) (\<lambda>x.
     if 0 < g_nrFailed x \<and> g_nrNoSubstituters x + g_nrIncompleteClosure x < g_nrFailed x \<and> \<not> tryFallback (be_settings env)
     then athrow (Throw Error ''some substitutes for the outputs of derivation failed'')
     else
       abind (if 0 < g_nrIncompleteClosure x then mod_drv g (dg_retrySubstitution_update (\<lambda>_. True)) else areturn ()) (\<lambda>_.
       abind (mod_goal g (\<lambda>x. x \<lparr> g_nrFailed := 0, g_nrNoSubstituters := 0, g_nrIncompleteClosure := 0 \<rparr>)) (\<lambda>_.
       abind (the_drv g) (\<lambda>b.
       if dg_needRestart b then
         abind (mod_drv g (dg_needRestart_update (\<lambda>_. False))) (\<lambda>_. jump D_haveDerivation g)
       else
         abind (checkPathValidity env g False (dg_buildMode b = bmRepair)) (\<lambda>invalid.
         if dg_buildMode b = bmNormal \<and> invalid = [] then goal_done env g Substituted []
         else if dg_buildMode b = bmRepair \<and> invalid = [] then repairClosure env g
         else if dg_buildMode b = bmCheck \<and> invalid \<noteq> [] then
           athrow (Throw Error ''derivation is missing outputs'')
         else
           abind (mod_drv g (dg_wantedOutputs_update (\<lambda>_. []))) (\<lambda>_.
           abind (aforeach (inputDrvs (dg_drv b)) (\<lambda>(i, outs).
             drv_waitee env g i outs (if dg_buildMode b = bmRepair then bmRepair else bmNormal))) (\<lambda>_.
           abind (aforeach (inputSrcs (dg_drv b)) (\<lambda>i. sub_waitee env g i False)) (\<lambda>_.
           next_state jump g D_inputsRealised))))))))"

definition input_closure :: "build_env \<Rightarrow> DerivationGoal \<Rightarrow> (Path oset, Worker) action" where
  "input_closure env b =
     abind (afold (\<lambda>(i, outs) paths.
       abind (on_l (is_valid i)) (\<lambda>v.
       if \<not> v then athrow (Abort ''worker.store.isValidPath(i->first)'')
       else
         abind (drv_from_path env i) (\<lambda>inDrv.
         afold (\<lambda>j paths.
           case map_of (drv_outputs inDrv) j of
             None \<Rightarrow> athrow (Throw Error ''derivation requires non-existent output from input derivation'')
           | Some out \<Rightarrow> fs_closure env (do_path out) paths) outs paths)))
       (inputDrvs (dg_drv b)) (dg_inputPaths b)) (\<lambda>paths.
     afold (fs_closure env) (inputSrcs (dg_drv b)) paths)"

definition all_fixed :: "Derivation \<Rightarrow> bool" where
  "all_fixed drv \<longleftrightarrow> list_all (\<lambda>(_, out). do_hash out \<noteq> []) (drv_outputs drv)"

definition inputsRealised :: "build_env \<Rightarrow> jump \<Rightarrow> nat \<Rightarrow> (unit, Worker) action" where
  "inputsRealised env jump g =
     abind (the_goal g) (\<lambda>x.
     if g_nrFailed x \<noteq> 0 then goal_done env g DependencyFailed []
     else
       abind (the_drv g) (\<lambda>b.
       if dg_retrySubstitution b then jump D_haveDerivation g
       else
         abind (input_closure env b) (\<lambda>inputPaths.
         let drv = dg_drv b;
             own = map (do_path \<circ> snd) (drv_outputs drv);
             fixed = all_fixed drv
         in
         abind (mod_drv g (\<lambda>b. b \<lparr>
           dg_inputPaths := inputPaths, dg_allPaths := oinsert_all inputPaths (oinsert_all own (dg_allPaths b)),
           dg_fixedOutput := fixed \<rparr>)) (\<lambda>_.
         abind (alift (if fixed then Inr 0 else Settings_get_int ''build-repeat'' 0 (be_settings env))) (\<lambda>repeat.
         abind (mod_drv g (dg_nrRounds_update (\<lambda>_. word_of_int (repeat + 1)))) (\<lambda>_.
         abind (set_state g D_tryToBuild) (\<lambda>_. wakeUp g)))))))"

end
