(* ===== verification/Start_Build.thy ===== *)
theory Start_Build
  imports Derivation_Goal
begin

text \<open>
  Starting a build, from \<^verbatim>\<open>src/nix/libstore/build.cc\<close>: the log file, the offload hook, the environment, the files and
  the chroot directory of the builder, and the state \<^verbatim>\<open>tryToBuild\<close>.
\<close>

section \<open>The log file\<close>

definition log_extension :: "CompressionType \<Rightarrow> string" where
  "log_extension c = (case c of COMPRESSION_GZIP \<Rightarrow> ''.gz'' | COMPRESSION_BZIP2 \<Rightarrow> ''.bz2'' | COMPRESSION_NONE \<Rightarrow> [])"

definition openLogFile :: "build_env \<Rightarrow> nat \<Rightarrow> (Path, Worker) action" where
  "openLogFile env g =
     abind (mod_drv g (dg_logSize_update (\<lambda>_. 0))) (\<lambda>_.
     if \<not> keepLog (be_settings env) then areturn []
     else
       abind (the_drv g) (\<lambda>b.
       abind (alift (baseNameOf (dg_drvPath b))) (\<lambda>baseName.
       let dir = nixLogDir (be_settings env) @ ''/drvs/'' @ take 2 baseName @ ''/'';
           logFileName = dir @ ''/'' @ drop 2 baseName @ log_extension (logCompression (be_settings env))
       in
       abind (on_f (createDirs dir)) (\<lambda>_.
       abind (on_f (or_throw ''creating log file'' (sys_open logFileName (Some 438) True True))) (\<lambda>fd.
       abind (mod_drv g (dg_log_update (\<lambda>_.
         Some \<lparr> lf_name = logFileName, lf_compression = logCompression (be_settings env), lf_fd = fd, lf_data = [] \<rparr>))) (\<lambda>_.
       areturn logFileName))))))"

section \<open>The offload hook\<close>

datatype HookReply = rpAccept | rpDecline | rpPostpone

text \<open>Lines up to the first one that begins with a number sign are messages.\<close>

function hook_reply :: "string \<Rightarrow> (string \<times> string) result" where
  "hook_reply pending =
     (let s = takeWhile (\<lambda>c. c \<noteq> CHR 0x0A) pending in
      if length s = length pending then Inl (Throw EndOfFile ''unexpected EOF reading a line'')
      else
        let rest = drop (Suc (length s)) pending in
        if take 2 s = ''# '' then Inr (drop 2 s, rest) else hook_reply rest)"
  by pat_completeness auto
termination
  by (relation "measure length") (auto intro!: diff_less)

declare hook_reply.simps [simp del]

definition send_to_hook :: "build_env \<Rightarrow> string \<Rightarrow> Agent \<Rightarrow> Agent" where
  "send_to_hook env line a = a \<lparr> agt_io := send_line (be_hook env (agt_pid a)) line (agt_io a) \<rparr>"

definition spaced :: "Path list \<Rightarrow> string" where
  "spaced paths = concat (map (\<lambda>p. p @ '' '') paths)"

definition accept_hook :: "build_env \<Rightarrow> nat \<Rightarrow> (unit, Worker) action" where
  "accept_hook env g =
     abind (aget wk_hook) (\<lambda>hook.
     abind (mod_drv g (dg_hook_update (\<lambda>_. hook))) (\<lambda>_.
     abind (amodify (\<lambda>w. w \<lparr> wk_hook := None \<rparr>)) (\<lambda>_.
     abind (the_drv g) (\<lambda>b.
     abind (fs_closure env (dg_drvPath b) (dg_inputPaths b)) (\<lambda>allInputs.
     abind (mod_drv g (dg_hook_update (map_option
       (send_to_hook env (spaced (dg_missingPaths b)) \<circ> send_to_hook env (spaced allInputs))))) (\<lambda>_.
     abind (openLogFile env g) (\<lambda>_.
     case hook of
       None \<Rightarrow> athrow (Abort ''null pointer'')
     | Some a \<Rightarrow>
         (case agt_pid a of
            None \<Rightarrow> athrow (Abort ''no process'')
          | Some pid \<Rightarrow> childStarted g pid (oinsert (agt_builderOut a) [agt_fromAgent a]) False True))))))))"

definition tryBuildHook :: "build_env \<Rightarrow> nat \<Rightarrow> (HookReply, Worker) action" where
  "tryBuildHook env g =
     (if \<not> useBuildHook (be_settings env) then areturn rpDecline
      else
        abind (aget wk_hook) (\<lambda>r.
        abind (case r of
                 Some _ \<Rightarrow> areturn ()
               | None \<Rightarrow> abind (spawn env) (\<lambda>a. amodify (\<lambda>w. w \<lparr> wk_hook := Some a \<rparr>))) (\<lambda>_.
        abind (the_drv g) (\<lambda>b.
        let drv = dg_drv b;
            features = tokenizeString (get_env (drv_env drv) ''requiredSystemFeatures'' []) separators
        in
        abind (alift (rfold (\<lambda>i _. checkStoreName i) features ())) (\<lambda>_.
        abind (aget wk_nrLocalBuilds) (\<lambda>n.
        abind (amodify (\<lambda>w. w \<lparr> wk_hook := map_option (send_to_hook env
          ((if int n < maxBuildJobs (be_settings env) then ''1'' else ''0'') @ '' '' @ platform drv @ '' '' @ dg_drvPath b @ '' '' @
           concatStringsSep '','' features)) (wk_hook w) \<rparr>)) (\<lambda>_.
        abind (aget wk_hook) (\<lambda>r.
        case r of
          None \<Rightarrow> athrow (Abort ''null pointer'')
        | Some a \<Rightarrow>
            abind (alift (hook_reply (ag_pending (agt_io a)))) (\<lambda>(reply, rest).
            abind (amodify (\<lambda>w. w \<lparr> wk_hook := Some (a \<lparr> agt_io := (agt_io a) \<lparr> ag_pending := rest \<rparr> \<rparr>) \<rparr>)) (\<lambda>_.
            if reply = ''decline'' then areturn rpDecline
            else if reply = ''postpone'' then areturn rpPostpone
            else if reply \<noteq> ''accept'' then athrow (Throw Error ''bad hook reply'')
            else abind (accept_hook env g) (\<lambda>_. areturn rpAccept)))))))))))"

section \<open>Preparing the builder\<close>

definition builder_env :: "build_env \<Rightarrow> Derivation \<Rightarrow> (string, string) omap" where
  "builder_env env drv =
     fold (\<lambda>(k, v). oput k v) (drv_env drv)
       (oput ''NIX_BUILD_CORES'' (show_nat (nat (buildCores (be_settings env))))
       (oput ''NIX_STORE'' (be_store env)
       (oput ''HOME'' ''/homeless-shelter''
       (oput ''PATH'' ''/path-not-set'' []))))"

definition tmp_env :: "Path \<Rightarrow> (string, string) omap \<Rightarrow> (string, string) omap" where
  "tmp_env dir m =
     fold (\<lambda>k. oput k dir) [''NIX_BUILD_TOP'', ''TEMP'', ''TMP'', ''TEMPDIR'', ''TMPDIR'', ''PWD''] m"

definition impure_env :: "build_env \<Rightarrow> Derivation \<Rightarrow> (string, string) omap \<Rightarrow> (string, string) omap" where
  "impure_env env drv m =
     fold (\<lambda>i. oput i (getEnv (de_getenv (be_daemon env)) i []))
       (tokenizeString (get_env (drv_env drv) ''impureEnvVars'' []) separators) m"

text \<open>
  The temporary directory: with a chroot it is a subdirectory; that creating it has failed is not noticed,
  since the result of \<^verbatim>\<open>mkdir\<close> is compared with 1.
\<close>

definition make_tmpDir :: "build_env \<Rightarrow> nat \<Rightarrow> (unit, Worker) action" where
  "make_tmpDir env g =
     abind (the_drv g) (\<lambda>b.
     let drv = dg_drv b in
     abind (alift (storePathToName (be_store env) (dg_drvPath b))) (\<lambda>drvName.
     abind (on_f (createTempDir (de_getenv (be_daemon env)) [] (''guix-build-'' @ drvName) False False 448)) (\<lambda>dir.
     let tmpDir = (if dg_useChroot b then dir @ ''/top'' else dir) in
     abind (mod_drv g (dg_tmpDir_update (\<lambda>_. tmpDir))) (\<lambda>_.
     abind (if dg_useChroot b then abind (on_f (sys_mkdir tmpDir 448)) (\<lambda>_. areturn ()) else areturn ()) (\<lambda>_.
     abind (if dg_useChroot b then
              abind (on_f (fs_canonPath ''/tmp'')) (\<lambda>root. areturn (root @ ''/guix-build-'' @ drvName @ ''-0''))
            else areturn tmpDir) (\<lambda>inSandbox.
     mod_drv g (\<lambda>b. b \<lparr>
       dg_tmpDirInSandbox := inSandbox,
       dg_env := (if dg_fixedOutput b then impure_env env drv (tmp_env inSandbox (dg_env b))
                  else tmp_env inSandbox (dg_env b)) \<rparr>)))))))"

text \<open>The references graphs that the derivation asks for, one file for every pair of a name and a path.\<close>

definition export_graph :: "build_env \<Rightarrow> Path \<Rightarrow> string \<Rightarrow> Path \<Rightarrow> (unit, Worker) action" where
  "export_graph env tmpDir fileName storePath0 =
     abind (alift (checkStoreName fileName)) (\<lambda>_.
     if \<not> isInStore (be_store env) storePath0 then
       athrow (Throw BuildError ''`exportReferencesGraph' contains a non-store path'')
     else
       abind (alift (toStorePath (be_store env) storePath0)) (\<lambda>storePath.
       abind (on_l (is_valid storePath)) (\<lambda>v.
       if \<not> v then athrow (Throw BuildError ''`exportReferencesGraph' contains an invalid path'')
       else
         abind (fs_closure env storePath []) (\<lambda>paths2.
         abind (afold (\<lambda>j paths.
           if isDerivation j then
             abind (drv_from_path env j) (\<lambda>drv.
             afold (\<lambda>(_, out). fs_closure env (do_path out)) (drv_outputs drv) paths)
           else areturn paths) paths2 paths2) (\<lambda>paths.
         abind (on_l (ask (\<lambda>db.
           makeValidityRegistration (\<lambda>p. queryPathInfo (be_gcrypt env) (be_store env) p db) paths False False))) (\<lambda>text.
         on_f (writeFile (tmpDir @ ''/'' @ fileName) text)))))))"

fun export_graphs :: "build_env \<Rightarrow> Path \<Rightarrow> string list \<Rightarrow> (unit, Worker) action" where
  "export_graphs env tmpDir (fileName # path # ss) =
     abind (export_graph env tmpDir fileName path) (\<lambda>_. export_graphs env tmpDir ss)"
| "export_graphs env tmpDir ss = areturn ()"

definition exportReferencesGraph :: "build_env \<Rightarrow> nat \<Rightarrow> (unit, Worker) action" where
  "exportReferencesGraph env g =
     abind (the_drv g) (\<lambda>b.
     let ss = tokenizeString (get_env (drv_env (dg_drv b)) ''exportReferencesGraph'' []) separators in
     if length ss mod 2 \<noteq> 0 then athrow (Throw BuildError ''odd number of tokens in exportReferencesGraph'')
     else export_graphs env (dg_tmpDir b) ss)"

definition take_build_user :: "build_env \<Rightarrow> nat \<Rightarrow> (unit, Worker) action" where
  "take_build_user env g =
     (if buildUsersGroup (be_settings env) = [] then areturn ()
      else
        abind (on_build_user g (UserLock_acquire (be_daemon env) (be_accounts env))) (\<lambda>_.
        abind (the_drv g) (\<lambda>b.
        if ul_uid (dg_buildUser b) = 0 then athrow (Abort ''buildUser.getUID() != 0'')
        else if ul_gid (dg_buildUser b) = 0 then athrow (Abort ''buildUser.getGID() != 0'')
        else
          on_f (or_throw ''cannot change ownership''
            (sys_chown_group (dg_tmpDir b) (Some (ul_uid (dg_buildUser b))) (Some (ul_gid (dg_buildUser b))))))))"

section \<open>The chroot directory\<close>

definition guestUID :: nat where "guestUID = 30001"
definition guestGID :: nat where "guestGID = 30000"

definition chroot_etc :: "build_env \<Rightarrow> DerivationGoal \<Rightarrow> Path \<Rightarrow> (unit, file_system) action" where
  "chroot_etc env b root =
     (let enabled = UserLock_enabled (dg_buildUser b);
          uid = (if enabled then ul_uid (dg_buildUser b) else guestUID);
          gid = (if enabled then ul_gid (dg_buildUser b) else guestGID)
      in
      abind (createDirs (root @ ''/etc'')) (\<lambda>_.
      abind (writeFile (root @ ''/etc/passwd'')
        (''nixbld:x:'' @ show_nat uid @ '':'' @ show_nat gid @ '':Nix build user:/:/noshell'' @ [CHR 0x0A] @
         ''nobody:x:65534:65534:Nobody:/:/noshell'' @ [CHR 0x0A])) (\<lambda>_.
      abind (writeFile (root @ ''/etc/group'')
        (''nixbld:!:'' @ show_nat (if enabled then ul_gid (dg_buildUser b) else acc_gid (be_accounts env)) @ '':'' @ [CHR 0x0A])) (\<lambda>_.
      if dg_fixedOutput b then areturn ()
      else writeFile (root @ ''/etc/hosts'') (''127.0.0.1 localhost'' @ [CHR 0x0A])))))"

definition chroot_dirs :: "build_env \<Rightarrow> (Path, Path) omap \<Rightarrow> (Path, Path) omap" where
  "chroot_dirs env m =
     fold (\<lambda>i m.
       let p = length (takeWhile (\<lambda>c. c \<noteq> CHR ''='') i) in
       if p = length i then oput i i m else oput (take p i) (drop (Suc p) i) m)
       (oinsert_all (tokenizeString (Settings_get_string ''build-extra-chroot-dirs'' [] (be_settings env)) separators)
         (oinsert_all (tokenizeString
           (Settings_get_string ''build-chroot-dirs'' (be_chrootDirs env) (be_settings env)) separators) [])) m"

text \<open>The inputs: symbolic links are made anew in the chroot, everything else will be mounted there.\<close>

definition chroot_input :: "Path \<Rightarrow> Path \<Rightarrow> (Path, Path) omap \<Rightarrow> ((Path, Path) omap, file_system) action" where
  "chroot_input root i m =
     abind (or_throw ''getting attributes of path'' (sys_lstat i)) (\<lambda>st.
     if is_link (st_data st) then
       abind (readLink i) (\<lambda>target.
       abind (or_throw ''failed to create symlink'' (sys_symlink target (root @ i))) (\<lambda>_. areturn m))
     else areturn (oput i i m))"

definition own_group :: "DerivationGoal \<Rightarrow> Path \<Rightarrow> (unit, file_system) action" where
  "own_group b path =
     (if UserLock_enabled (dg_buildUser b) then
        or_throw ''cannot change ownership'' (sys_chown_group path (Some 0) (Some (ul_gid (dg_buildUser b))))
      else areturn ())"

definition make_chroot :: "build_env \<Rightarrow> nat \<Rightarrow> (unit, Worker) action" where
  "make_chroot env g =
     abind (mod_drv g (\<lambda>b. b \<lparr> dg_chrootRootDir := dg_drvPath b @ ''.chroot'' \<rparr>)) (\<lambda>_.
     abind (the_drv g) (\<lambda>b.
     let root = dg_chrootRootDir b in
     abind (on_f (clear_path root)) (\<lambda>_.
     abind (mod_drv g (dg_autoDelChroot_update (\<lambda>_. Some root))) (\<lambda>_.
     abind (on_f (or_throw ''cannot create'' (sys_mkdir root 488))) (\<lambda>_.
     abind (on_f (own_group b root)) (\<lambda>_.
     abind (on_f (createDirs (root @ ''/tmp''))) (\<lambda>_.
     abind (on_f (chmod_or_throw (root @ ''/tmp'') 1023)) (\<lambda>_.
     abind (on_f (chroot_etc env b root)) (\<lambda>_.
     let dirs = oput (dg_tmpDirInSandbox b) (dg_tmpDir b) (chroot_dirs env (dg_dirsInChroot b)) in
     abind (on_f (createDirs (root @ be_store env))) (\<lambda>_.
     abind (on_f (chmod_or_throw (root @ be_store env) 1021)) (\<lambda>_.
     abind (on_f (own_group b (root @ be_store env))) (\<lambda>_.
     abind (on_f (afold (chroot_input root) (dg_inputPaths b) dirs)) (\<lambda>dirs.
     mod_drv g (dg_dirsInChroot_update (\<lambda>_.
       filter (\<lambda>(p, _). p \<notin> (do_path \<circ> snd) ` set (drv_outputs (dg_drv b))) dirs)))))))))))))))"

section \<open>Redirected outputs\<close>

definition addHashRewrite :: "build_env \<Rightarrow> nat \<Rightarrow> Path \<Rightarrow> (Path, Worker) action" where
  "addHashRewrite env g path =
     abind (the_drv g) (\<lambda>b.
     let n = length (be_store env) in
     if length path < n + 33 then athrow (Throw StdException ''out_of_range'')
     else
       let h1 = take 32 (drop (n + 1) path) in
       abind (alift (hashString (be_gcrypt env) htSHA256 (''rewrite:'' @ dg_drvPath b @ '':'' @ path))) (\<lambda>h.
       let h2 = take 32 (printHash32 h);
           p = be_store env @ ''/'' @ h2 @ drop (n + 33) path
       in
       abind (on_f (clear_path p)) (\<lambda>_.
       if length path \<noteq> length p then athrow (Abort ''path.size() == p.size()'')
       else
         abind (mod_drv g (\<lambda>b. b \<lparr>
           dg_rewritesToTmp := oput h1 h2 (dg_rewritesToTmp b),
           dg_rewritesFromTmp := oput h2 h1 (dg_rewritesFromTmp b),
           dg_redirectedOutputs := oput path p (dg_redirectedOutputs b) \<rparr>)) (\<lambda>_.
         areturn p))))"

definition redirect_outputs :: "build_env \<Rightarrow> nat \<Rightarrow> (unit, Worker) action" where
  "redirect_outputs env g =
     abind (on_f (pathExists ''/homeless-shelter'')) (\<lambda>ex.
     if ex then athrow (Throw Error ''directory exists; please remove it'')
     else
       abind (the_drv g) (\<lambda>b.
       abind (aforeach (dg_validPaths b) (\<lambda>i. abind (addHashRewrite env g i) (\<lambda>_. areturn ()))) (\<lambda>_.
       if dg_buildMode b = bmRepair then
         aforeach (dg_missingPaths b) (\<lambda>i.
           abind (on_l (is_valid i)) (\<lambda>v.
           abind (if v then on_f (pathExists i) else areturn False) (\<lambda>bad.
           if bad then
             abind (addHashRewrite env g i) (\<lambda>_.
             mod_drv g (\<lambda>b. b \<lparr> dg_redirectedBadOutputs := oinsert i (dg_redirectedBadOutputs b) \<rparr>))
           else areturn ())))
       else areturn ())))"

section \<open>Starting\<close>

definition startBuilder :: "build_env \<Rightarrow> nat \<Rightarrow> (unit, Worker) action" where
  "startBuilder env g =
     abind (mod_drv g (\<lambda>b. b \<lparr>
       dg_useChroot := useChroot (be_settings env) \<and> \<not> isBuiltin (dg_drv b),
       dg_env := builder_env env (dg_drv b) \<rparr>)) (\<lambda>_.
     abind (make_tmpDir env g) (\<lambda>_.
     abind (exportReferencesGraph env g) (\<lambda>_.
     abind (take_build_user env g) (\<lambda>_.
     abind (the_drv g) (\<lambda>b.
     abind (if dg_useChroot b then make_chroot env g else redirect_outputs env g) (\<lambda>_.
     abind (openLogFile env g) (\<lambda>_.
     abind (spawn env) (\<lambda>a.
     case agt_pid a of
       None \<Rightarrow> athrow (Throw (SysError 0) ''unable to fork'')
     | Some pid \<Rightarrow>
         abind (mod_drv g (\<lambda>b. b \<lparr> dg_pid := Some pid, dg_builderOut := Some (agt_builderOut a) \<rparr>)) (\<lambda>_.
         abind (childStarted g pid [agt_builderOut a] True True) (\<lambda>_.
         abind (alift (be_setup env pid)) (\<lambda>msg.
         if msg \<noteq> [] then athrow (Throw Error msg) else areturn ())))))))))))"

definition clear_invalid :: "Derivation \<Rightarrow> (unit, Worker) action" where
  "clear_invalid drv =
     aforeach (drv_outputs drv) (\<lambda>(_, out).
       abind (on_l (is_valid (do_path out))) (\<lambda>v.
       if v then areturn () else on_f (clear_path (do_path out))))"

text \<open>The last part of \<^verbatim>\<open>tryToBuild\<close>: build here if there is a slot.\<close>

definition build_here :: "build_env \<Rightarrow> nat \<Rightarrow> bool \<Rightarrow> (unit, Worker) action" where
  "build_here env g buildLocally =
     abind (aget wk_nrLocalBuilds) (\<lambda>curBuilds.
     if maxBuildJobs (be_settings env) \<le> int curBuilds \<and> \<not> (buildLocally \<and> curBuilds = 0) then
       abind (waitForBuildSlot env g) (\<lambda>_. on_drv_locks g PathLocks_unlock)
     else
       abind (acatch (abind (startBuilder env g) (\<lambda>_. areturn None))
                (\<lambda>c msg. if c = BuildError then areturn (Some msg) else athrow (Throw c msg))) (\<lambda>r.
       case r of
         None \<Rightarrow> set_state g D_buildDone
       | Some msg \<Rightarrow>
           abind (on_drv_locks g PathLocks_unlock) (\<lambda>_.
           abind (on_build_user g UserLock_release) (\<lambda>_.
           abind (amodify (\<lambda>w. w \<lparr> wk_permanentFailure := True \<rparr>)) (\<lambda>_.
           goal_done env g InputRejected msg)))))"

definition tryToBuild :: "build_env \<Rightarrow> nat \<Rightarrow> (unit, Worker) action" where
  "tryToBuild env g =
     abind (the_drv g) (\<lambda>b.
     let drv = dg_drv b in
     abind (on_l (aget (\<lambda>s. list_ex (\<lambda>(_, out). pathIsLockedByMe (do_path out) s) (drv_outputs drv)))) (\<lambda>mine.
     if mine then waitForAnyGoal g
     else
       abind (on_drv_locks g (lockPaths (outputPaths drv) False)) (\<lambda>got.
       if \<not> got then waitForAWhile g
       else
         abind (checkPathValidity env g True (dg_buildMode b = bmRepair)) (\<lambda>validPaths.
         abind (mod_drv g (dg_validPaths_update (\<lambda>_. validPaths))) (\<lambda>_.
         if dg_buildMode b \<noteq> bmCheck \<and> length validPaths = length (drv_outputs drv) then
           abind (on_drv_locks g (PathLocks_setDeletion True)) (\<lambda>_.
           abind (on_drv_locks g PathLocks_unlock) (\<lambda>_.
           goal_done env g AlreadyValid []))
         else
           abind (mod_drv g (dg_missingPaths_update (\<lambda>_.
             if dg_buildMode b \<noteq> bmCheck then filter (\<lambda>p. p \<notin> set validPaths) (outputPaths drv)
             else outputPaths drv))) (\<lambda>_.
           abind (clear_invalid drv) (\<lambda>_.
           abind (any_failed env g (map (do_path \<circ> snd) (drv_outputs drv))) (\<lambda>failed.
           if failed then areturn ()
           else
             let buildLocally = (dg_buildMode b \<noteq> bmNormal \<or> willBuildLocally (be_settings env) drv) in
             if buildLocally then build_here env g True
             else
               abind (tryBuildHook env g) (\<lambda>reply.
               case reply of
                 rpAccept \<Rightarrow> set_state g D_buildDone
               | rpPostpone \<Rightarrow> abind (waitForAWhile g) (\<lambda>_. on_drv_locks g PathLocks_unlock)
               | rpDecline \<Rightarrow> build_here env g False)))))))))"

end
