(* ===== verification/Finish_Build.thy ===== *)
theory Finish_Build
  imports Start_Build References
begin

text \<open>
  The end of a build, from \<^verbatim>\<open>src/nix/libstore/build.cc\<close>: the checks on the outputs and their registration, the state
  \<^verbatim>\<open>buildDone\<close>, the output of the builder, and the dispatch on the states.
\<close>

section \<open>One output\<close>

text \<open>Where the build has left an output.\<close>

definition actual_path :: "DerivationGoal \<Rightarrow> Path \<Rightarrow> (Path, file_system) action" where
  "actual_path b path =
     (if dg_useChroot b then areturn (dg_chrootRootDir b @ path)
      else
        let redirected = (case map_of (dg_redirectedOutputs b) path of None \<Rightarrow> [] | Some p \<Rightarrow> p) in
        abind (if dg_buildMode b = bmRepair \<and> path \<in> set (dg_redirectedBadOutputs b) then
                 abind (pathExists redirected) (\<lambda>ex. if ex then replaceValidPath path redirected else areturn ())
               else areturn ()) (\<lambda>_.
        areturn (if dg_buildMode b = bmCheck \<and> redirected \<noteq> [] then redirected else path)))"

definition output_stat :: "Path \<Rightarrow> (stat, file_system) action" where
  "output_stat actualPath =
     abind (sys_lstat actualPath) (\<lambda>r. case r of
       Inr st \<Rightarrow> areturn st
     | Inl e \<Rightarrow>
         if e = ENOENT then athrow (Throw BuildError ''builder failed to produce output path'')
         else athrow (Throw (SysError e) ''getting attributes of path''))"

definition from_uid :: "DerivationGoal \<Rightarrow> nat option" where
  "from_uid b = (if UserLock_enabled (dg_buildUser b) then Some (ul_uid (dg_buildUser b)) else None)"

text \<open>The output must not be writable by group or others, and it must belong to the build user.\<close>

definition suspicious :: "DerivationGoal \<Rightarrow> stat \<Rightarrow> bool" where
  "suspicious b st \<longleftrightarrow>
     \<not> is_link (st_data st) \<and> st_perm st AND 18 \<noteq> 0 \<or>
     UserLock_enabled (dg_buildUser b) \<and> st_uid st \<noteq> ul_uid (dg_buildUser b)"

definition rewrite_output :: "DerivationGoal \<Rightarrow> Path \<Rightarrow> nat list \<Rightarrow> (nat list, file_system) action" where
  "rewrite_output b actualPath inodesSeen =
     abind (canonicalisePathMetaData actualPath (from_uid b) inodesSeen) (\<lambda>inodesSeen.
     abind (fs_dumpPath defaultPathFilter actualPath) (\<lambda>calls.
     abind (deletePath actualPath 1) (\<lambda>_.
     abind (alift (rewriteHashes (bytes_of calls) (dg_rewritesFromTmp b))) (\<lambda>s.
     abind (fs_restorePath actualPath s) (\<lambda>_. areturn inodesSeen)))))"

definition hash_file :: "build_env \<Rightarrow> HashType \<Rightarrow> Path \<Rightarrow> (Hash, file_system) action" where
  "hash_file env ht path = abind (readFile path) (\<lambda>s. alift (hashString (be_gcrypt env) ht s))"

text \<open>A fixed output has the declared contents; when it is hashed as a file it is a regular file without execute permission.\<close>

definition check_fixed :: "build_env \<Rightarrow> DerivationOutput \<Rightarrow> stat \<Rightarrow> Path \<Rightarrow> (unit, file_system) action" where
  "check_fixed env out st actualPath =
     (if do_hash out = [] then areturn ()
      else
        abind (alift (parseHashInfo (be_gcrypt env) out)) (\<lambda>(recursive, ht, h).
        if \<not> recursive \<and> ((case st_data st of DReg _ \<Rightarrow> False | _ \<Rightarrow> True) \<or> st_perm st AND S_IXUSR \<noteq> 0) then
          athrow (Throw BuildError ''output path should be a non-executable regular file'')
        else
          abind (if recursive then
                   abind (fs_hashPath (be_gcrypt env) defaultPathFilter ht actualPath) (\<lambda>(h2, _). areturn h2)
                 else hash_file env ht actualPath) (\<lambda>h2.
          if Hash_neq h h2 then athrow (Throw BuildError ''hash mismatch for store item'') else areturn ())))"

definition move_output :: "DerivationGoal \<Rightarrow> Path \<Rightarrow> Path \<Rightarrow> stat \<Rightarrow> (unit, file_system) action" where
  "move_output b path actualPath st =
     abind (pathExists actualPath) (\<lambda>ex.
     if \<not> ex then areturn ()
     else if dg_buildMode b = bmRepair then replaceValidPath path actualPath
     else if dg_buildMode b = bmCheck then areturn ()
     else
       abind (if st_data st = DDir then abind (sys_chmod actualPath (st_perm st OR 448)) (\<lambda>_. areturn ()) else areturn ()) (\<lambda>_.
       abind (or_throw ''moving build output from the chroot to the store'' (sys_rename actualPath path)) (\<lambda>_.
       if st_data st = DDir then or_throw ''restoring permissions on directory'' (sys_chmod path (st_perm st))
       else areturn ())))"

text \<open>The scan for references of \<^verbatim>\<open>references.cc\<close> on a tree in the file system.\<close>

definition fs_scanForReferences :: "build_env \<Rightarrow> Path \<Rightarrow> Path oset \<Rightarrow> (Path oset \<times> Hash \<times> 64 word, file_system) action" where
  "fs_scanForReferences env path refs =
     abind (alift (rfold add_ref refs ([], []))) (\<lambda>(hashes, backMap).
     abind (fs_dumpPath defaultPathFilter path) (\<lambda>calls.
     let sink = fold RefScanSink_call calls (RefScanSink_init \<lparr> rs_hashes := hashes \<rparr>) in
     abind (alift (rfold (map_back backMap) (rs_seen sink) [])) (\<lambda>found.
     abind (alift (HashSink_finish (be_gcrypt env) htSHA256 (rs_hashSink sink))) (\<lambda>h. areturn (found, h)))))"

definition check_same :: "build_env \<Rightarrow> Path \<Rightarrow> Path \<Rightarrow> Hash \<Rightarrow> (unit, Worker) action" where
  "check_same env path actualPath h =
     abind (on_l (is_valid path)) (\<lambda>v.
     if \<not> v then areturn ()
     else
       abind (on_l (ask (queryPathInfo (be_gcrypt env) (be_store env) path))) (\<lambda>info.
       if Hash_neq h (vpi_hash info) then
         (if keepFailed (be_settings env) then
            let dst = path @ ''-check'' in
            abind (on_f (clear_path dst)) (\<lambda>_.
            abind (on_f (or_throw ''renaming'' (sys_rename actualPath dst))) (\<lambda>_.
            athrow (Throw Error ''derivation may not be deterministic'')))
          else athrow (Throw Error ''derivation may not be deterministic''))
       else areturn ()))"

definition checkRefs ::
  "build_env \<Rightarrow> Derivation \<Rightarrow> Path \<Rightarrow> Path oset \<Rightarrow> string \<times> bool \<times> bool \<Rightarrow> (unit, Worker) action" where
  "checkRefs env drv actualPath references =
     (\<lambda>(attrName, allowed, recursive).
       case map_of (drv_env drv) attrName of
         None \<Rightarrow> areturn ()
       | Some attr \<Rightarrow>
           abind (alift (parseReferenceSpecifiers (be_store env) drv attr)) (\<lambda>spec.
           abind (if recursive then
                    afold (\<lambda>i used. if actualPath \<noteq> i then fs_closure env i used else areturn used) references []
                  else areturn references) (\<lambda>used.
           if list_all (\<lambda>i. (i \<in> set spec) = allowed) used then areturn ()
           else athrow (Throw BuildError ''output is not allowed to refer to path''))))"

definition reference_checks :: "(string \<times> bool \<times> bool) list" where
  "reference_checks =
     [(''allowedReferences'', True, False), (''allowedRequisites'', True, True),
      (''disallowedReferences'', False, False), (''disallowedRequisites'', False, True)]"

text \<open>The first half of the loop body, on the file system: where the output is and what it refers to.\<close>

definition accept_output ::
  "build_env \<Rightarrow> DerivationGoal \<Rightarrow> DerivationOutput \<Rightarrow> nat list \<Rightarrow>
   (Path \<times> Path oset \<times> (Hash \<times> 64 word) \<times> nat list, file_system) action" where
  "accept_output env b out inodesSeen =
     (let path = do_path out;
          rewritten = (dg_rewritesFromTmp b \<noteq> [])
      in
      abind (actual_path b path) (\<lambda>actualPath.
      abind (output_stat actualPath) (\<lambda>st.
      if suspicious b st then athrow (Throw BuildError ''suspicious ownership or permission'')
      else
        abind (if rewritten then rewrite_output b actualPath inodesSeen else areturn inodesSeen) (\<lambda>inodesSeen.
        abind (check_fixed env out st actualPath) (\<lambda>_.
        abind (canonicalisePathMetaData actualPath (if rewritten then None else from_uid b) inodesSeen) (\<lambda>inodesSeen.
        abind (if dg_useChroot b then move_output b path actualPath st else areturn ()) (\<lambda>_.
        let actualPath = (if dg_useChroot b \<and> dg_buildMode b \<noteq> bmCheck then path else actualPath) in
        abind (fs_scanForReferences env actualPath (dg_allPaths b)) (\<lambda>(references, hr).
        areturn (actualPath, references, hr, inodesSeen)))))))))"

definition register_output ::
  "build_env \<Rightarrow> DerivationGoal \<Rightarrow> string \<times> DerivationOutput \<Rightarrow> ValidPathInfo list \<times> nat list \<Rightarrow>
   (ValidPathInfo list \<times> nat list, Worker) action" where
  "register_output env b =
     (\<lambda>(_, out) (infos, inodesSeen).
       let path = do_path out in
       if path \<notin> set (dg_missingPaths b) then areturn (infos, inodesSeen)
       else
         abind (on_f (accept_output env b out inodesSeen)) (\<lambda>(actualPath, references, hr, inodesSeen).
         if dg_buildMode b = bmCheck then
           abind (check_same env path actualPath (fst hr)) (\<lambda>_. areturn (infos, inodesSeen))
         else
           abind (aforeach reference_checks (checkRefs env (dg_drv b) actualPath references)) (\<lambda>_.
           abind (if dg_curRound b = dg_nrRounds b then
                    abind (on_f (optimisePath (be_daemon env) path)) (\<lambda>_. on_l (markContentsGood path))
                  else areturn ()) (\<lambda>_.
           areturn (infos @ [new_info path hr references (dg_drvPath b)], inodesSeen)))))"

section \<open>All outputs\<close>

definition same_infos :: "ValidPathInfo list \<Rightarrow> ValidPathInfo list \<Rightarrow> bool" where
  "same_infos xs ys \<longleftrightarrow> list_all2 ValidPathInfo_eq xs ys"

definition compare_rounds :: "DerivationGoal \<Rightarrow> ValidPathInfo list \<Rightarrow> (unit, file_system) action" where
  "compare_rounds b infos =
     (if 1 < dg_curRound b \<and> \<not> same_infos (dg_prevInfos b) infos then
        (if length (dg_prevInfos b) \<noteq> length infos then athrow (Abort ''prevInfos.size() == infos.size()'')
         else
           abind (aforeach (zip (dg_prevInfos b) infos) (\<lambda>(i, j).
             if ValidPathInfo_eq i j then areturn ()
             else
               abind (pathExists (vpi_path i @ ''-check'')) (\<lambda>_.
               athrow (Throw BuildError ''output differs from previous round'')))) (\<lambda>_.
           athrow (Abort ''false'')))
      else areturn ())"

definition keep_round :: "build_env \<Rightarrow> DerivationGoal \<Rightarrow> (unit, file_system) action" where
  "keep_round env b =
     (if \<not> keepFailed (be_settings env) then areturn ()
      else
        aforeach (drv_outputs (dg_drv b)) (\<lambda>(_, out).
          let prev = do_path out @ ''-check'' in
          abind (clear_path prev) (\<lambda>_.
          if dg_curRound b < dg_nrRounds b then or_throw ''renaming'' (sys_rename (do_path out) prev)
          else areturn ())))"

definition registerOutputs :: "build_env \<Rightarrow> nat \<Rightarrow> (unit, Worker) action" where
  "registerOutputs env g =
     abind (the_drv g) (\<lambda>b.
     abind (if dg_hook b \<noteq> None then
              on_l (ask (\<lambda>db. Inr (list_all (\<lambda>(_, out). ls_isValidPath (do_path out) db) (drv_outputs (dg_drv b)))))
            else areturn False) (\<lambda>allValid.
     if allValid then areturn ()
     else
       abind (afold (register_output env b) (drv_outputs (dg_drv b)) ([], [])) (\<lambda>(infos, _).
       abind (on_f (compare_rounds b infos)) (\<lambda>_.
       abind (on_f (keep_round env b)) (\<lambda>_.
       if dg_curRound b < dg_nrRounds b then mod_drv g (dg_prevInfos_update (\<lambda>_. infos))
       else on_l (register_paths (be_daemon env) infos))))))"

section \<open>The end of the process\<close>

text \<open>A class derived from \<^verbatim>\<open>Error\<close>.\<close>

fun is_Error :: "exn \<Rightarrow> bool" where
  "is_Error StdException = False"
| "is_Error _ = True"

definition salvage_outputs :: "DerivationGoal \<Rightarrow> (unit, file_system) action" where
  "salvage_outputs b =
     (if dg_useChroot b \<and> dg_buildMode b = bmNormal then
        aforeach (dg_missingPaths b) (\<lambda>i.
          abind (pathExists (dg_chrootRootDir b @ i)) (\<lambda>ex.
          if ex then
            acatch (abind (secureFilePerms (dg_chrootRootDir b @ i)) (\<lambda>_.
                    abind (sys_rename (dg_chrootRootDir b @ i) i) (\<lambda>_. areturn ())))
              (\<lambda>c msg. if is_Error c then areturn () else athrow (Throw c msg))
          else areturn ()))
      else areturn ())"

text \<open>A fixed output is replaced by a copy, so that a descriptor somebody still has open does not reach it.\<close>

definition fresh_copies :: "DerivationGoal \<Rightarrow> (unit, file_system) action" where
  "fresh_copies b =
     (if dg_fixedOutput b then
        aforeach (drv_outputs (dg_drv b)) (\<lambda>(_, out).
          let output = dg_chrootRootDir b @ do_path out in
          abind (pathExists output) (\<lambda>ex.
          if ex then
            abind (copyFileRecursively output (output @ ''.tmp'') True) (\<lambda>_.
            or_throw ''renaming'' (sys_rename (output @ ''.tmp'') output))
          else areturn ()))
      else areturn ())"

definition disk_full :: "build_env \<Rightarrow> DerivationGoal \<Rightarrow> bool" where
  "disk_full env b \<longleftrightarrow>
     list_ex (\<lambda>p. case be_available env p of None \<Rightarrow> False | Some n \<Rightarrow> n < 8 * 1024 * 1024)
       [be_store env, dg_tmpDir b]"

definition wait_builder :: "build_env \<Rightarrow> nat \<Rightarrow> (nat option \<times> 32 word, Worker) action" where
  "wait_builder env g =
     abind (the_drv g) (\<lambda>b.
     let pid = (case dg_hook b of Some hook \<Rightarrow> agt_pid hook | None \<Rightarrow> dg_pid b) in
     if pid = None then athrow (Abort ''pid != -1'')
     else
       abind (mod_drv g (\<lambda>b. case dg_hook b of
           Some hook \<Rightarrow> b \<lparr> dg_hook := Some (hook \<lparr> agt_pid := None \<rparr>) \<rparr>
         | None \<Rightarrow> b \<lparr> dg_pid := None \<rparr>)) (\<lambda>_.
       areturn (pid, be_status env pid)))"

text \<open>The \<^verbatim>\<open>try\<close> block: whether the build is to be repeated.\<close>

definition build_outcome :: "build_env \<Rightarrow> nat \<Rightarrow> 32 word \<Rightarrow> (bool, Worker) action" where
  "build_outcome env g status =
     abind (the_drv g) (\<lambda>b.
     if \<not> statusOk status then
       abind (deleteTmpDir env g False) (\<lambda>_.
       abind (on_f (salvage_outputs b)) (\<lambda>_.
       athrow (Throw BuildError ''builder failed'')))
     else
       abind (on_f (fresh_copies b)) (\<lambda>_.
       abind (registerOutputs env g) (\<lambda>_.
       abind (on_f (aforeach (dg_redirectedOutputs b) (\<lambda>(_, p). clear_path p))) (\<lambda>_.
       abind (reset_autoDelChroot g) (\<lambda>_.
       abind (deleteTmpDir env g True) (\<lambda>_.
       abind (mod_drv g (\<lambda>b. b \<lparr> dg_curRound := dg_curRound b + 1 \<rparr>)) (\<lambda>_.
       if dg_curRound b < dg_nrRounds b then
         abind (on_drv_locks g PathLocks_unlock) (\<lambda>_.
         abind (on_build_user g UserLock_release) (\<lambda>_.
         abind (set_state g D_tryToBuild) (\<lambda>_.
         abind (wakeUp g) (\<lambda>_. areturn True))))
       else
         abind (on_drv_locks g (PathLocks_setDeletion True)) (\<lambda>_.
         abind (on_drv_locks g PathLocks_unlock) (\<lambda>_. areturn False)))))))))"

definition failure_status :: "DerivationGoal \<Rightarrow> 32 word \<Rightarrow> bool \<Rightarrow> BuildStatus" where
  "failure_status b status diskFull =
     (if dg_hook b \<noteq> None \<and> WIFEXITED status \<and> WEXITSTATUS status = 101 then TimedOut
      else if dg_hook b \<noteq> None \<and> (\<not> WIFEXITED status \<or> WEXITSTATUS status \<noteq> 100) then MiscFailure
      else if statusOk status then OutputRejected
      else if dg_fixedOutput b \<or> diskFull then TransientFailure
      else PermanentFailure)"

definition build_failed :: "build_env \<Rightarrow> nat \<Rightarrow> 32 word \<Rightarrow> bool \<Rightarrow> string \<Rightarrow> (unit, Worker) action" where
  "build_failed env g status diskFull msg =
     abind (on_drv_locks g PathLocks_unlock) (\<lambda>_.
     abind (on_build_user g UserLock_release) (\<lambda>_.
     abind (the_drv g) (\<lambda>b.
     let st = failure_status b status diskFull in
     abind (if cacheFailure (be_settings env) \<and> \<not> dg_fixedOutput b \<and> \<not> diskFull \<and>
               (dg_hook b \<noteq> None \<longrightarrow> WIFEXITED status \<and> WEXITSTATUS status = 100) then
              aforeach (drv_outputs (dg_drv b)) (\<lambda>(_, out).
                on_l (\<lambda>s. on_store (registerFailedPath (store_env_of (be_daemon env) s) (do_path out)) s))
            else areturn ()) (\<lambda>_.
     goal_done env g st msg))))"

definition buildDone :: "build_env \<Rightarrow> nat \<Rightarrow> (unit, Worker) action" where
  "buildDone env g =
     abind (wait_builder env g) (\<lambda>(savedPid, status).
     abind (childTerminated savedPid True) (\<lambda>_.
     abind (mod_drv g (\<lambda>b. if dg_hook b = None then b \<lparr> dg_builderOut := None \<rparr> else b)) (\<lambda>_.
     abind (closeLogFile env g) (\<lambda>_.
     abind (the_drv g) (\<lambda>b.
     let diskFull = (\<not> statusOk status \<and> disk_full env b) in
     abind (acatch (abind (build_outcome env g status) (\<lambda>repeat. areturn (Inr repeat)))
              (\<lambda>c msg. if c = BuildError then areturn (Inl msg) else athrow (Throw c msg))) (\<lambda>r.
     case r of
       Inl msg \<Rightarrow> build_failed env g status diskFull msg
     | Inr repeat \<Rightarrow>
         if repeat then areturn ()
         else abind (on_build_user g UserLock_release) (\<lambda>_. goal_done env g Built [])))))))"

section \<open>Output of the builder\<close>

definition write_log :: "nat \<Rightarrow> string \<Rightarrow> (unit, Worker) action" where
  "write_log g input =
     abind (the_drv g) (\<lambda>b.
     case dg_log b of
       None \<Rightarrow> areturn ()
     | Some lf \<Rightarrow>
         if lf_compression lf = COMPRESSION_NONE then on_f (or_throw ''writing to file'' (sys_append (lf_fd lf) input))
         else mod_drv g (dg_log_update (\<lambda>_. Some (lf \<lparr> lf_data := lf_data lf @ input \<rparr>))))"

definition DerivationGoal_handleChildOutput :: "build_env \<Rightarrow> nat \<Rightarrow> nat \<Rightarrow> string \<Rightarrow> (unit, Worker) action" where
  "DerivationGoal_handleChildOutput env g fd input =
     abind (the_drv g) (\<lambda>b.
     if (case dg_hook b of Some hook \<Rightarrow> fd = agt_builderOut hook | None \<Rightarrow> Some fd = dg_builderOut b) then
       let logSize = dg_logSize b + word_of_nat (length input) in
       abind (mod_drv g (dg_logSize_update (\<lambda>_. logSize))) (\<lambda>_.
       if maxLogSize (be_settings env) \<noteq> 0 \<and> maxLogSize (be_settings env) < uint logSize then
         DerivationGoal_timedOut env g
       else write_log g input)
     else areturn ())"

definition DerivationGoal_handleEOF :: "nat \<Rightarrow> nat \<Rightarrow> (unit, Worker) action" where
  "DerivationGoal_handleEOF g fd = wakeUp g"

section \<open>Dispatch\<close>

text \<open>
  The method for a state.  The fuel bounds the direct calls from one state to the next: \<open>haveDerivation\<close>, \<open>outputsSubstituted\<close> and
  \<open>inputsRealised\<close> may call each other, but only when there is nothing to wait for.  The theorems hold for every bound.
\<close>

primrec DerivationGoal_enter :: "nat \<Rightarrow> build_env \<Rightarrow> jump" where
  "DerivationGoal_enter 0 env = (\<lambda>st g. athrow OutOfFuel)"
| "DerivationGoal_enter (Suc fuel) env = (\<lambda>st g.
     case st of
       D_init \<Rightarrow> DerivationGoal_start env (DerivationGoal_enter fuel env) g
     | D_haveDerivation \<Rightarrow> haveDerivation env (DerivationGoal_enter fuel env) g
     | D_outputsSubstituted \<Rightarrow> outputsSubstituted env (DerivationGoal_enter fuel env) g
     | D_closureRepaired \<Rightarrow> closureRepaired env g
     | D_inputsRealised \<Rightarrow> inputsRealised env (DerivationGoal_enter fuel env) g
     | D_tryToBuild \<Rightarrow> tryToBuild env g
     | D_buildDone \<Rightarrow> buildDone env g)"

end
