(* ===== verification/Worker.thy ===== *)
theory Worker
  imports Finish_Build
begin

text \<open>
  The main loop of the \<^verbatim>\<open>Worker\<close> of \<^verbatim>\<open>src/nix/libstore/build.cc\<close>, and the operations of the store that start one:
  \<^verbatim>\<open>buildPaths\<close>, \<^verbatim>\<open>ensurePath\<close> and \<^verbatim>\<open>repairPath\<close>.

  The loop need not end: goals may wait for locks of other processes for ever.  It has a bound, and the theorems
  hold for every bound.
\<close>

section \<open>Virtual methods\<close>

definition Goal_work :: "nat \<Rightarrow> build_env \<Rightarrow> nat \<Rightarrow> (unit, Worker) action" where
  "Goal_work fuel env g =
     abind (the_goal g) (\<lambda>x.
     case g_body x of
       Subst _ \<Rightarrow> SubstitutionGoal_work env g
     | Drv b \<Rightarrow> DerivationGoal_enter fuel env (dg_state b) g)"

definition Goal_timedOut :: "build_env \<Rightarrow> nat \<Rightarrow> (unit, Worker) action" where
  "Goal_timedOut env g =
     abind (the_goal g) (\<lambda>x.
     case g_body x of Subst _ \<Rightarrow> SubstitutionGoal_timedOut env g | Drv _ \<Rightarrow> DerivationGoal_timedOut env g)"

definition Goal_handleChildOutput :: "build_env \<Rightarrow> nat \<Rightarrow> nat \<Rightarrow> string \<Rightarrow> (unit, Worker) action" where
  "Goal_handleChildOutput env g fd input =
     abind (the_goal g) (\<lambda>x.
     case g_body x of
       Subst _ \<Rightarrow> SubstitutionGoal_handleChildOutput g fd input
     | Drv _ \<Rightarrow> DerivationGoal_handleChildOutput env g fd input)"

definition Goal_handleEOF :: "nat \<Rightarrow> nat \<Rightarrow> (unit, Worker) action" where
  "Goal_handleEOF g fd =
     abind (the_goal g) (\<lambda>x.
     case g_body x of Subst _ \<Rightarrow> SubstitutionGoal_handleEOF g fd | Drv _ \<Rightarrow> DerivationGoal_handleEOF g fd)"

section \<open>Waiting for input\<close>

definition nearest_deadline :: "build_env \<Rightarrow> Worker \<Rightarrow> int" where
  "nearest_deadline env w =
     fold (\<lambda>(_, c) nearest.
       if \<not> ch_respectTimeouts c then nearest
       else
         let silent = maxSilentTime (be_settings env);
             total = buildTimeout (be_settings env);
             nearest = (if silent \<noteq> 0 then min nearest (ch_lastOutput c + silent) else nearest)
         in if total \<noteq> 0 then min nearest (ch_timeStarted c + total) else nearest)
       (wk_children w) (2 ^ 63 - 1)"

definition select_timeout :: "build_env \<Rightarrow> Worker \<Rightarrow> int option" where
  "select_timeout env w =
     (if wk_waitingForAWhile w \<noteq> [] then
        Some (max 1 (wk_lastWokenUp w + pollInterval (be_settings env) - worker_time w))
      else if nearest_deadline env w \<noteq> 2 ^ 63 - 1 then Some (max 1 (nearest_deadline env w - worker_time w))
      else None)"

definition start_polling :: "Worker \<Rightarrow> Worker" where
  "start_polling w =
     w \<lparr> wk_lastWokenUp :=
       (if wk_waitingForAWhile w = [] then 0
        else if wk_lastWokenUp w = 0 \<or> worker_time w < wk_lastWokenUp w then worker_time w
        else wk_lastWokenUp w) \<rparr>"

text \<open>\<^verbatim>\<open>select\<close>: while the worker waits for at most the timeout, the other processes change the file system.\<close>

definition select_call :: "build_env \<Rightarrow> (select_event, Worker) action" where
  "select_call env w =
     (case wk_selects w of
        [] \<Rightarrow> (Inl Diverges, w)
      | answer # rest \<Rightarrow>
          let ev = answer (select_timeout env w) in
          (Inr ev, snd (on_f (amodify (se_effect ev)) (w \<lparr> wk_selects := rest \<rparr>))))"

text \<open>The worker keeps an iterator to the entry of the child; once that is erased its use is undefined.\<close>

definition mod_child :: "nat \<Rightarrow> (Child \<Rightarrow> Child) \<Rightarrow> (unit, Worker) action" where
  "mod_child pid f =
     abind (aget (\<lambda>w. map_of (wk_children w) pid)) (\<lambda>r.
     case r of
       None \<Rightarrow> athrow (Abort ''dangling iterator'')
     | Some c \<Rightarrow>
         amodify (\<lambda>w. w \<lparr> wk_children := map (\<lambda>(p, c). (p, if p = pid then f c else c)) (wk_children w) \<rparr>))"

definition handle_fd :: "build_env \<Rightarrow> select_event \<Rightarrow> int \<Rightarrow> nat \<Rightarrow> nat \<Rightarrow> nat \<Rightarrow> (unit, Worker) action" where
  "handle_fd env ev after pid g k =
     (case se_ready ev k of
        None \<Rightarrow> areturn ()
      | Some (ReadFails e) \<Rightarrow> if e = EINTR then areturn () else athrow (Throw (SysError e) ''reading'')
      | Some (Gets input) \<Rightarrow>
          if input = [] then
            abind (Goal_handleEOF g k) (\<lambda>_. mod_child pid (ch_fds_update (oerase k)))
          else
            abind (mod_child pid (ch_lastOutput_update (\<lambda>_. after))) (\<lambda>_. Goal_handleChildOutput env g k input))"

definition expired :: "int \<Rightarrow> Child \<Rightarrow> int \<Rightarrow> int \<Rightarrow> bool" where
  "expired limit c since after \<longleftrightarrow> limit \<noteq> 0 \<and> ch_respectTimeouts c \<and> limit \<le> after - since"

definition check_timeouts :: "build_env \<Rightarrow> int \<Rightarrow> nat \<Rightarrow> nat \<Rightarrow> (unit, Worker) action" where
  "check_timeouts env after pid g =
     abind (the_goal g) (\<lambda>x.
     if g_exitCode x \<noteq> ecBusy then areturn ()
     else
       abind (aget (\<lambda>w. map_of (wk_children w) pid)) (\<lambda>r.
       case r of
         None \<Rightarrow> athrow (Abort ''dangling iterator'')
       | Some c \<Rightarrow>
           if expired (maxSilentTime (be_settings env)) c (ch_lastOutput c) after \<or>
              expired (buildTimeout (be_settings env)) c (ch_timeStarted c) after
           then Goal_timedOut env g
           else areturn ()))"

definition handle_child :: "build_env \<Rightarrow> select_event \<Rightarrow> int \<Rightarrow> nat \<Rightarrow> (unit, Worker) action" where
  "handle_child env ev after pid =
     abind (aget (\<lambda>w. map_of (wk_children w) pid)) (\<lambda>r.
     case r of
       None \<Rightarrow> areturn ()
     | Some c \<Rightarrow>
         let g = ch_goal c in
         abind (the_goal g) (\<lambda>_.
         with_pinned env [g]
           (abind (aforeach (ch_fds c) (handle_fd env ev after pid g)) (\<lambda>_. check_timeouts env after pid g))))"

definition wake_pollers :: "build_env \<Rightarrow> int \<Rightarrow> (unit, Worker) action" where
  "wake_pollers env after =
     abind (aget (\<lambda>w. (wk_waitingForAWhile w, wk_lastWokenUp w))) (\<lambda>(goals, lastWokenUp).
     if goals \<noteq> [] \<and> lastWokenUp + pollInterval (be_settings env) \<le> after then
       abind (amodify (\<lambda>w. w \<lparr> wk_lastWokenUp := after \<rparr>)) (\<lambda>_.
       abind (wake_all goals) (\<lambda>_.
       amodify (\<lambda>w. w \<lparr> wk_waitingForAWhile := [] \<rparr>)))
     else areturn ())"

definition waitForInput :: "build_env \<Rightarrow> (unit, Worker) action" where
  "waitForInput env =
     abind (amodify start_polling) (\<lambda>_.
     abind (select_call env) (\<lambda>ev.
     case se_error ev of
       Some e \<Rightarrow> if e = EINTR then areturn () else athrow (Throw (SysError e) ''waiting for input'')
     | None \<Rightarrow>
         abind (aget worker_time) (\<lambda>after.
         abind (aget (\<lambda>w. map fst (wk_children w))) (\<lambda>pids.
         abind (aforeach pids (handle_child env ev after)) (\<lambda>_.
         wake_pollers env after)))))"

section \<open>The main loop\<close>

primrec work_each :: "nat \<Rightarrow> build_env \<Rightarrow> nat list \<Rightarrow> (unit, Worker) action" where
  "work_each fuel env [] = areturn ()"
| "work_each fuel env (g # gs) =
     abind (Goal_work fuel env g) (\<lambda>_.
     abind (aget wk_topGoals) (\<lambda>topGoals.
     if topGoals = [] then areturn () else work_each fuel env gs))"

text \<open>The shared pointers to the awake goals are taken first; only then the list is emptied.\<close>

definition work_round :: "nat \<Rightarrow> build_env \<Rightarrow> (unit, Worker) action" where
  "work_round fuel env =
     abind (aget (\<lambda>w. filter (\<lambda>g. wk_goals w g \<noteq> None) (wk_awake w))) (\<lambda>live.
     abind (afold (goals_insert env) live []) (\<lambda>awake2.
     with_pinned env awake2
       (abind (amodify (\<lambda>w. w \<lparr> wk_awake := [] \<rparr>)) (\<lambda>_. work_each fuel env awake2))))"

primrec run_loop :: "nat \<Rightarrow> build_env \<Rightarrow> (unit, Worker) action" where
  "run_loop 0 env = athrow OutOfFuel"
| "run_loop (Suc fuel) env =
     abind (aget (\<lambda>w. w)) (\<lambda>w.
     if wk_topGoals w = [] then areturn ()
     else if wk_awake w \<noteq> [] then abind (work_round fuel env) (\<lambda>_. run_loop fuel env)
     else if wk_children w \<noteq> [] \<or> wk_waitingForAWhile w \<noteq> [] then
       abind (waitForInput env) (\<lambda>_. run_loop fuel env)
     else if maxBuildJobs (be_settings env) = 0 then
       athrow (Throw Error ''unable to start any build'')
     else athrow (Abort ''!awake.empty()''))"

definition worker_run :: "nat \<Rightarrow> build_env \<Rightarrow> nat list \<Rightarrow> (unit, Worker) action" where
  "worker_run fuel env goals =
     abind (aget wk_topGoals) (\<lambda>topGoals.
     abind (afold (goals_insert env) goals topGoals) (\<lambda>topGoals.
     abind (amodify (\<lambda>w. w \<lparr> wk_topGoals := topGoals \<rparr>)) (\<lambda>_.
     abind (run_loop fuel env) (\<lambda>_.
     abind (aget (\<lambda>w. keepGoing (be_settings env) \<longrightarrow>
       wk_awake w = [] \<and> wk_wantingToBuild w = [] \<and> wk_children w = [])) (\<lambda>quiet.
     if quiet then areturn () else athrow (Abort ''!settings.keepGoing || awake.empty()''))))))"

definition exitStatus :: "Worker \<Rightarrow> nat" where
  "exitStatus w = (if wk_timedOut w then 101 else if wk_permanentFailure w then 100 else 1)"

section \<open>Operations of the store\<close>

definition Worker_new :: "(int option \<Rightarrow> select_event) list \<Rightarrow> world \<Rightarrow> Worker" where
  "Worker_new selects s =
     \<lparr> wk_goals = (\<lambda>_. None), wk_next = 0, wk_pinned = [], wk_topGoals = [], wk_awake = [], wk_wantingToBuild = [],
       wk_waitingForAnyGoal = [], wk_waitingForAWhile = [], wk_derivationGoals = [], wk_substitutionGoals = [],
       wk_children = [], wk_nrLocalBuilds = 0, wk_lastWokenUp = 0, wk_permanentFailure = False, wk_timedOut = False,
       wk_hook = None, wk_substituter = None, wk_world = s, wk_lockedUsers = [], wk_spawned = 0, wk_selects = selects \<rparr>"

text \<open>The life of a worker: at its end, also after an exception, all goals are destroyed.\<close>

definition with_worker ::
  "build_env \<Rightarrow> (int option \<Rightarrow> select_event) list \<Rightarrow> ('a, Worker) action \<Rightarrow> ('a, world) action" where
  "with_worker env selects body s =
     (case body (Worker_new selects s) of
        (r, w) \<Rightarrow>
          if (case r of Inr _ \<Rightarrow> True | Inl (Throw _ _) \<Rightarrow> True | _ \<Rightarrow> False) then
            (case release_unowned env (w \<lparr> wk_topGoals := [], wk_pinned := [] \<rparr>) of
               (Inl e, w') \<Rightarrow> (Inl e, wk_world w')
             | (Inr _, w') \<Rightarrow> (r, wk_world w'))
          else (r, wk_world w))"

definition make_goals :: "build_env \<Rightarrow> BuildMode \<Rightarrow> Path list \<Rightarrow> (nat list, Worker) action" where
  "make_goals env buildMode drvPaths =
     afold (\<lambda>i goals.
       let (drvPath, outputs) = parseDrvPathWithOutputs i in
       abind (if isDerivation drvPath then makeDerivationGoal env drvPath outputs buildMode
              else makeSubstitutionGoal i (buildMode \<noteq> bmNormal)) (\<lambda>g.
       goals_insert env g goals)) drvPaths []"

definition buildPaths ::
  "nat \<Rightarrow> build_env \<Rightarrow> (int option \<Rightarrow> select_event) list \<Rightarrow> Path oset \<Rightarrow> BuildMode \<Rightarrow> (unit, world) action" where
  "buildPaths fuel env selects drvPaths buildMode =
     with_worker env selects (
       abind (make_goals env buildMode drvPaths) (\<lambda>goals.
       with_pinned env goals (
         abind (worker_run fuel env goals) (\<lambda>_.
         abind (aget (\<lambda>w. filter (\<lambda>g. map_option g_exitCode (wk_goals w g) = Some ecFailed) goals)) (\<lambda>failed.
         if failed \<noteq> [] then athrow (Throw Error ''build failed'') else areturn ())))))"

definition ensurePath :: "nat \<Rightarrow> build_env \<Rightarrow> (int option \<Rightarrow> select_event) list \<Rightarrow> Path \<Rightarrow> (unit, world) action" where
  "ensurePath fuel env selects path =
     abind (on_world (is_valid path)) (\<lambda>v.
     if v then areturn ()
     else
       with_worker env selects (
         abind (makeSubstitutionGoal path False) (\<lambda>g.
         with_pinned env [g] (
           abind (worker_run fuel env [g]) (\<lambda>_.
           abind (the_goal g) (\<lambda>x.
           if g_exitCode x \<noteq> ecSuccess then athrow (Throw Error ''path does not exist and cannot be created'')
           else areturn ()))))))"

text \<open>The outcome of building the deriver is not looked at.\<close>

definition repairPath :: "nat \<Rightarrow> build_env \<Rightarrow> (int option \<Rightarrow> select_event) list \<Rightarrow> Path \<Rightarrow> (unit, world) action" where
  "repairPath fuel env selects path =
     with_worker env selects (
       abind (makeSubstitutionGoal path True) (\<lambda>g.
       with_pinned env [g] (
         abind (worker_run fuel env [g]) (\<lambda>_.
         abind (the_goal g) (\<lambda>x.
         if g_exitCode x = ecSuccess then areturn ()
         else
           abind (on_l (ask (ls_queryDeriver (be_gcrypt env) (be_store env) path))) (\<lambda>deriver.
           abind (if deriver \<noteq> [] then on_l (is_valid deriver) else areturn False) (\<lambda>v.
           if v then
             abind (makeDerivationGoal env deriver [] bmRepair) (\<lambda>g2.
             with_pinned env [g2] (worker_run fuel env [g2]))
           else athrow (Throw Error ''cannot repair path''))))))))"

end
