(* ===== verification/Goal_Steps.thy ===== *)
theory Goal_Steps
  imports Worker Action_Rules
begin

text \<open>
  How the methods of the goals and the main loop change the worker.  Most steps are quiet: they leave the children, the
  links between goals and what a goal is about alone.  The others are named in the interface of the locale
  \<open>goal_steps\<close>, which says of a relation between states what each of these steps has to keep; the locale
  shows that every method and the loop then keep it.  The locale \<open>free_steps\<close> is the case of relations that do not look
  at the links between goals.
\<close>

section \<open>Quiet steps\<close>

text \<open>
  Most steps of a goal change neither the other goals nor the children of the worker.  A step is quiet when it keeps the
  goals apart from details of their bodies, the maps that find them, and the children.
\<close>

fun quiet_body :: "goal_body \<Rightarrow> goal_body \<Rightarrow> bool" where
  "quiet_body (Subst b) (Subst c) \<longleftrightarrow> sg_storePath b = sg_storePath c"
| "quiet_body (Drv b) (Drv c) \<longleftrightarrow>
     dg_drvPath b = dg_drvPath c \<and> dg_retrySubstitution b = dg_retrySubstitution c \<and> dg_state b = dg_state c"
| "quiet_body _ _ \<longleftrightarrow> False"

definition quiet_goal :: "goal \<Rightarrow> goal \<Rightarrow> bool" where
  "quiet_goal x y \<longleftrightarrow>
     g_waitees x = g_waitees y \<and> g_waiters x = g_waiters y \<and> g_exitCode x = g_exitCode y \<and>
     quiet_body (g_body x) (g_body y)"

definition quiet :: "Worker \<Rightarrow> Worker \<Rightarrow> bool" where
  "quiet w v \<longleftrightarrow>
     (\<forall>g. rel_option quiet_goal (wk_goals w g) (wk_goals v g)) \<and>
     wk_next w = wk_next v \<and> wk_derivationGoals w = wk_derivationGoals v \<and>
     wk_substitutionGoals w = wk_substitutionGoals v \<and>
     wk_children w = wk_children v \<and> wk_nrLocalBuilds w = wk_nrLocalBuilds v"

lemma quiet_body_refl [simp]: "quiet_body b b"
  by (cases b) simp_all

lemma quiet_body_trans: "quiet_body a b \<Longrightarrow> quiet_body b c \<Longrightarrow> quiet_body a c"
  by (cases a; cases b; cases c) simp_all

lemma quiet_goal_refl [simp]: "quiet_goal x x"
  by (simp add: quiet_goal_def)

lemma quiet_goal_trans: "quiet_goal x y \<Longrightarrow> quiet_goal y z \<Longrightarrow> quiet_goal x z"
  by (auto simp: quiet_goal_def intro: quiet_body_trans)

lemma quiet_reflp: "reflp quiet"
  by (auto simp: reflp_def quiet_def intro: option.rel_refl_strong)

lemma quiet_transp: "transp quiet"
proof (rule transpI)
  fix a b c assume "quiet a b" "quiet b c"
  moreover have "rel_option quiet_goal (wk_goals a g) (wk_goals c g)"
    if "rel_option quiet_goal (wk_goals a g) (wk_goals b g)" "rel_option quiet_goal (wk_goals b g) (wk_goals c g)" for g
    using that by (cases "wk_goals a g"; cases "wk_goals b g"; cases "wk_goals c g") (auto intro: quiet_goal_trans)
  ultimately show "quiet a c" by (simp add: quiet_def)
qed

lemma quietI: "(\<And>w. quiet w (snd (m w))) \<Longrightarrow> keeps quiet m"
  by (rule keepsI)

lemma quiet_pure [keeps_intros]:
  "keeps quiet (areturn x)" "keeps quiet (athrow e)" "keeps quiet (alift r)" "keeps quiet (aget f)"
  by (simp_all add: keeps_pure quiet_reflp)

lemma quiet_bind [keeps_intros]:
  "keeps quiet m \<Longrightarrow> (\<And>x. keeps quiet (f x)) \<Longrightarrow> keeps quiet (abind m f)"
  by (rule keeps_abind [OF quiet_transp])

lemma quiet_foreach [keeps_intros]:
  "(\<And>x. keeps quiet (f x)) \<Longrightarrow> keeps quiet (aforeach xs f)"
  by (rule keeps_aforeach [OF quiet_reflp quiet_transp])

lemma quiet_update: "(\<And>w. quiet w (f w)) \<Longrightarrow> keeps quiet (amodify f)"
  by (rule quietI) (simp add: action_run)
lemma quiet_fold [keeps_intros]:
  "(\<And>x acc. keeps quiet (f x acc)) \<Longrightarrow> keeps quiet (afold f xs acc)"
  by (rule keeps_afold [OF quiet_reflp quiet_transp])

lemma quiet_catch [keeps_intros]:
  "keeps quiet m \<Longrightarrow> (\<And>c msg. keeps quiet (h c msg)) \<Longrightarrow> keeps quiet (acatch m h)"
  by (rule keeps_acatch [OF quiet_transp])

lemmas quiet_rules = quiet_pure quiet_bind quiet_foreach quiet_fold quiet_catch keeps_cases keeps_prod_app keeps_list

lemma quiet_same: "wk_goals w = wk_goals v \<Longrightarrow> wk_next w = wk_next v \<Longrightarrow> wk_derivationGoals w = wk_derivationGoals v \<Longrightarrow>
  wk_substitutionGoals w = wk_substitutionGoals v \<Longrightarrow> wk_children w = wk_children v \<Longrightarrow>
  wk_nrLocalBuilds w = wk_nrLocalBuilds v \<Longrightarrow> quiet w v"
  by (auto simp: quiet_def intro: option.rel_refl_strong)

lemma quiet_on_w: "keeps quiet (on_w m)"
  by (rule quietI) (auto simp: on_w_def split: prod.split intro: quiet_same)

lemma quiet_on_l: "keeps quiet (on_l m)"
  by (simp add: on_l_def quiet_on_w)

lemma quiet_on_f: "keeps quiet (on_f m)"
  by (simp add: on_f_def quiet_on_l)

lemma quiet_the_goal: "keeps quiet (the_goal g)"
  by (rule quietI) (auto simp: the_goal_def split: option.split intro: quiet_same)

lemma quiet_the_sub: "keeps quiet (the_sub g)"
  unfolding the_sub_def by (rule quiet_bind [OF quiet_the_goal]) (auto intro: quiet_pure split: goal_body.split)

lemma quiet_the_drv: "keeps quiet (the_drv g)"
  unfolding the_drv_def by (rule quiet_bind [OF quiet_the_goal]) (auto intro: quiet_pure split: goal_body.split)

lemma quiet_mod_goal: "(\<And>x. quiet_goal x (f x)) \<Longrightarrow> keeps quiet (mod_goal g f)"
  unfolding mod_goal_def
  by (rule quiet_update)
    (auto simp: quiet_def option.rel_map rel_option_reflI intro: option.rel_refl_strong)

lemma quiet_mod_sub: "(\<And>b. sg_storePath (f b) = sg_storePath b) \<Longrightarrow> keeps quiet (mod_sub g f)"
  unfolding mod_sub_def
proof (rule quiet_mod_goal)
  fix x assume f: "\<And>b. sg_storePath (f b) = sg_storePath b"
  then show "quiet_goal x (g_body_update (body_sub f) x)" by (cases "g_body x") (simp_all add: quiet_goal_def)
qed

lemma quiet_mod_drv:
  "(\<And>b. dg_drvPath (f b) = dg_drvPath b \<and> dg_retrySubstitution (f b) = dg_retrySubstitution b \<and> dg_state (f b) = dg_state b) \<Longrightarrow>
   keeps quiet (mod_drv g f)"
  unfolding mod_drv_def
proof (rule quiet_mod_goal)
  fix x assume f: "\<And>b. dg_drvPath (f b) = dg_drvPath b \<and> dg_retrySubstitution (f b) = dg_retrySubstitution b \<and> dg_state (f b) = dg_state b"
  then show "quiet_goal x (g_body_update (body_drv f) x)" by (cases "g_body x") (simp_all add: quiet_goal_def)
qed

lemma quiet_wakeUp: "keeps quiet (wakeUp g)"
  unfolding wakeUp_def by (rule quiet_update) (simp add: quiet_same)

lemma quiet_wake_all: "keeps quiet (wake_all gs)"
  unfolding wake_all_def by (intro quiet_rules quiet_wakeUp)

lemma quiet_waits: "keeps quiet (waitForBuildSlot env g)" "keeps quiet (waitForAnyGoal g)" "keeps quiet (waitForAWhile g)"
  unfolding waitForBuildSlot_def waitForAnyGoal_def waitForAWhile_def
  by (intro quiet_rules quiet_wakeUp quiet_update, simp_all add: quiet_same) (intro quiet_update quiet_same, simp_all)+

text \<open>The locks, the build user and the log of a goal.\<close>

lemma quiet_after: "keeps quiet m \<Longrightarrow> quiet w v \<Longrightarrow> quiet w (snd (m v))"
  using keepsD transpD [OF quiet_transp] by metis

lemma quiet_on_drv_locks: "keeps quiet (on_drv_locks g m)"
  unfolding on_drv_locks_def
  by (rule quiet_bind [OF quiet_the_drv], rule quietI)
    (auto split: prod.split intro!: quiet_after [OF quiet_mod_drv] quiet_same)

lemma quiet_on_build_user: "keeps quiet (on_build_user g m)"
  unfolding on_build_user_def
  by (rule quiet_bind [OF quiet_the_drv], rule quietI)
    (auto split: prod.split intro!: quiet_after [OF quiet_mod_drv] quiet_same)

lemma quiet_on_sub_lock: "keeps quiet (on_sub_lock g m)"
  unfolding on_sub_lock_def
  by (intro quiet_rules quiet_the_sub, rule quietI)
    (auto split: prod.split intro!: quiet_after [OF quiet_mod_sub] quiet_same)

lemma quiet_reset_sub_lock: "keeps quiet (reset_sub_lock g)"
  unfolding reset_sub_lock_def
  by (intro quiet_rules quiet_the_sub quiet_on_sub_lock quiet_mod_sub, simp_all)

lemmas quiet_basic = quiet_on_w quiet_on_l quiet_on_f quiet_the_goal quiet_the_sub quiet_the_drv quiet_wakeUp quiet_waits
  quiet_wake_all quiet_on_drv_locks quiet_on_build_user quiet_on_sub_lock quiet_reset_sub_lock quiet_mod_drv quiet_mod_sub

lemma quiet_tmpDir: "keeps quiet (deleteTmpDir env g force)"
  unfolding deleteTmpDir_def Let_def by (intro quiet_rules quiet_basic, simp_all)

lemma quiet_closeLogFile: "keeps quiet (closeLogFile env g)"
  unfolding closeLogFile_def by (intro quiet_rules quiet_basic, simp_all)

lemma quiet_reset_autoDelChroot: "keeps quiet (reset_autoDelChroot g)"
  unfolding reset_autoDelChroot_def by (intro quiet_rules quiet_basic, simp_all)

lemma quiet_spawn: "keeps quiet (spawn env)"
  unfolding spawn_def by (intro quiet_rules quiet_update, simp_all add: quiet_same)

lemma quiet_checkPathValidity: "keeps quiet (checkPathValidity env g v h)"
  unfolding checkPathValidity_def by (intro quiet_rules quiet_basic)

lemma quiet_closures: "keeps quiet (drv_from_path env p)" "keeps quiet (fs_closure env p ps)"
  unfolding drv_from_path_def fs_closure_def by (intro quiet_basic)+

lemma quiet_closure_sets:
  "keeps quiet (output_closure env b)" "keeps quiet (outputs_to_drv env p)" "keeps quiet (input_closure env b)"
  unfolding output_closure_def outputs_to_drv_def input_closure_def by (intro quiet_rules quiet_basic quiet_closures)+

lemma quiet_openLogFile: "keeps quiet (openLogFile env g)"
  unfolding openLogFile_def Let_def by (intro quiet_rules quiet_basic, simp_all)

lemma quiet_make_tmpDir: "keeps quiet (make_tmpDir env g)"
  unfolding make_tmpDir_def Let_def by (intro quiet_rules quiet_basic, simp_all)

lemma quiet_export_graph: "keeps quiet (export_graph env tmp f p)"
  unfolding export_graph_def by (intro quiet_rules quiet_basic quiet_closures)

lemma quiet_export_graphs: "keeps quiet (export_graphs env tmp ss)"
  by (induction env tmp ss rule: export_graphs.induct) (simp_all add: quiet_pure quiet_bind quiet_export_graph)

lemma quiet_exportReferencesGraph: "keeps quiet (exportReferencesGraph env g)"
  unfolding exportReferencesGraph_def Let_def by (intro quiet_rules quiet_basic quiet_export_graphs)

lemma quiet_take_build_user: "keeps quiet (take_build_user env g)"
  unfolding take_build_user_def by (intro quiet_rules quiet_basic)

lemma quiet_make_chroot: "keeps quiet (make_chroot env g)"
  unfolding make_chroot_def Let_def by (intro quiet_rules quiet_basic, simp_all)

lemma quiet_addHashRewrite: "keeps quiet (addHashRewrite env g p)"
  unfolding addHashRewrite_def Let_def by (intro quiet_rules quiet_basic, simp_all)

lemma quiet_redirect_outputs: "keeps quiet (redirect_outputs env g)"
  unfolding redirect_outputs_def by (intro quiet_rules quiet_basic quiet_addHashRewrite, simp_all)

lemma quiet_clear_invalid: "keeps quiet (clear_invalid drv)"
  unfolding clear_invalid_def by (intro quiet_rules quiet_basic)

lemma quiet_check_same: "keeps quiet (check_same env p a h)"
  unfolding check_same_def Let_def by (intro quiet_rules quiet_basic)

lemma quiet_checkRefs: "keeps quiet (checkRefs env drv p refs c)"
  unfolding checkRefs_def by (intro quiet_rules quiet_basic quiet_closures)

lemma quiet_register_output: "keeps quiet (register_output env b out acc)"
  unfolding register_output_def Let_def
  by (intro quiet_rules quiet_basic quiet_check_same quiet_checkRefs)

lemma quiet_registerOutputs: "keeps quiet (registerOutputs env g)"
  unfolding registerOutputs_def
  by (intro quiet_rules quiet_basic quiet_register_output, simp_all)

lemma quiet_status_lines: "keeps quiet (status_lines g input)"
proof (induction g input rule: status_lines.induct)
  case (1 g input)
  show ?case
    unfolding status_lines.simps [of g input] Let_def
    by (cases "input = []", simp add: quiet_pure, simp only: if_False, intro quiet_rules quiet_basic 1, simp_all)
qed

lemma quiet_write_log: "keeps quiet (write_log g input)"
  unfolding write_log_def by (intro quiet_rules quiet_basic, simp_all)

lemma quiet_wait_builder: "keeps quiet (wait_builder env g)"
  unfolding wait_builder_def Let_def by (intro quiet_rules quiet_basic, simp_all split: option.split)

section \<open>Every method is made of a few kinds of steps\<close>

text \<open>
  A derivation goal that is to try its substitutes again and is not building.
\<close>

definition retrying :: "nat \<Rightarrow> Worker \<Rightarrow> bool" where
  "retrying g w \<longleftrightarrow>
     (case wk_goals w g of
        Some x \<Rightarrow>
          (case g_body x of
             Drv b \<Rightarrow> dg_retrySubstitution b \<and> dg_state b \<notin> {D_tryToBuild, D_buildDone}
           | Subst _ \<Rightarrow> False)
      | None \<Rightarrow> False)"

definition job_limit :: "build_env \<Rightarrow> int" where
  "job_limit env = max 1 (maxBuildJobs (be_settings env))"

definition slot_free :: "build_env \<Rightarrow> Worker \<Rightarrow> bool" where
  "slot_free env w \<longleftrightarrow> int (wk_nrLocalBuilds w) < job_limit env"

text \<open>Bodies of goals: what a quiet step, a started and a terminated child leave as it is.\<close>

definition same_bodies :: "Worker \<Rightarrow> Worker \<Rightarrow> bool" where
  "same_bodies w v \<longleftrightarrow> (\<forall>g. rel_option quiet_goal (wk_goals w g) (wk_goals v g))"

lemma quiet_same_bodies: "quiet w v \<Longrightarrow> same_bodies w v"
  by (simp add: quiet_def same_bodies_def)

lemma same_bodies_reflp: "reflp same_bodies"
  using quiet_reflp by (auto simp: reflp_def intro: quiet_same_bodies)

lemma same_bodies_transp: "transp same_bodies"
proof (rule transpI)
  fix a b c assume "same_bodies a b" "same_bodies b c"
  moreover have "rel_option quiet_goal (wk_goals a g) (wk_goals c g)"
    if "rel_option quiet_goal (wk_goals a g) (wk_goals b g)" "rel_option quiet_goal (wk_goals b g) (wk_goals c g)" for g
    using that by (cases "wk_goals a g"; cases "wk_goals b g"; cases "wk_goals c g") (auto intro: quiet_goal_trans)
  ultimately show "same_bodies a c" by (simp add: same_bodies_def)
qed

lemma retrying_same_bodies: "same_bodies w v \<Longrightarrow> retrying g w = retrying g v"
proof -
  assume "same_bodies w v"
  then have "rel_option quiet_goal (wk_goals w g) (wk_goals v g)" by (simp add: same_bodies_def)
  then show ?thesis
  proof cases
    case None then show ?thesis by (simp add: retrying_def)
  next
    case (Some x y)
    then have "quiet_body (g_body x) (g_body y)" by (simp add: quiet_goal_def)
    with Some(1,2) show ?thesis by (cases "g_body x"; cases "g_body y") (auto simp: retrying_def)
  qed
qed

lemma stays_idle: "keeps same_bodies m \<Longrightarrow> keeps (stays (\<lambda>w. \<not> retrying g w)) m"
  by (erule keeps_mono) (auto simp: stays_def retrying_same_bodies)

lemma quiet_idle: "keeps quiet m \<Longrightarrow> keeps (stays (\<lambda>w. \<not> retrying g w)) m"
  by (rule stays_idle, erule keeps_mono) (rule quiet_same_bodies)

lemma quiet_slot: "keeps quiet m \<Longrightarrow> keeps (stays (slot_free env)) m"
  by (erule keeps_mono) (auto simp: stays_def quiet_def slot_free_def)

lemma same_bodies_children:
  "keeps same_bodies (childStarted g pid fds slot resp)" "keeps same_bodies (childTerminated pid' wake)"
proof -
  show "keeps same_bodies (childStarted g pid fds slot resp)"
    by (rule keepsI) (auto simp: childStarted_def action_run same_bodies_def intro: option.rel_refl_strong)
  note rules = keeps_pure [OF same_bodies_reflp] keeps_abind [OF same_bodies_transp] keeps_cases
  have "keeps same_bodies (amodify f)" if "\<And>w. wk_goals (f w) = wk_goals w" for f
    using that by (auto simp: keeps_def action_run same_bodies_def intro: option.rel_refl_strong)
  moreover have "keeps same_bodies (wake_all gs)" for gs
    using quiet_wake_all by (rule keeps_mono) (rule quiet_same_bodies)
  ultimately show "keeps same_bodies (childTerminated pid' wake)"
    unfolding childTerminated_def by (intro rules, simp_all)
qed

text \<open>
  The contract between the methods of the goals and a relation on states.  The methods consist of quiet
  steps and of the steps listed here: a child is started, in a build slot only if one is free; a child is
  terminated; the state of a derivation goal changes, to building only if it is not retrying; a goal finishes; a
  goal gets something to wait for; goals without owner are destroyed.  A relation that these keep is kept by
  every method and by the main loop, however they end.
\<close>

locale goal_steps =
  fixes env :: build_env and c :: bool and R :: "Worker \<Rightarrow> Worker \<Rightarrow> bool"
  assumes R_reflp: "reflp R"
    and R_transp: "transp R"
    and R_quiet: "quiet w v \<Longrightarrow> R w v"
    and R_started: "(slot \<Longrightarrow> slot_free env w) \<Longrightarrow> R w (snd (childStarted g pid fds slot resp w))"
    and R_terminated: "carries c R (childTerminated pid' wake)"
    and R_child: "(\<And>c. ch_inBuildSlot (f c) = ch_inBuildSlot c) \<Longrightarrow> carries c R (mod_child pid f)"
    and R_state: "(st \<in> {D_tryToBuild, D_buildDone} \<Longrightarrow> \<not> retrying g w) \<Longrightarrow> R w (snd (set_state g st w))"
    and R_retry: "carries c R (mod_drv g (dg_retrySubstitution_update (\<lambda>_. True)))"
    and R_done: "carries c R (amDone env g res)"
    and R_sub_goal: "carries c R (makeSubstitutionGoal p repair)"
    and R_drv_goal: "carries c R (makeDerivationGoal env p outs mode)"
    and R_sub_waitee: "carries c R (abind (makeSubstitutionGoal p repair) (addWaitee env g))"
    and R_drv_waitee: "carries c R (abind (makeDerivationGoal env p outs mode) (addWaitee env g))"
    and R_release: "carries c R (release_unowned env)"
begin

lemma of_quiet: "keeps quiet m \<Longrightarrow> carries c R m"
  by (rule carries_keeps, erule keeps_mono) (rule R_quiet)

lemmas basic_steps = quiet_basic [THEN of_quiet]

lemmas rules = carries_pure [OF R_reflp] carries_abind [OF R_transp] carries_aforeach [OF R_reflp R_transp]
  carries_afold [OF R_reflp R_transp] carries_acatch [OF R_transp] carries_cases

lemmas when_rules = when_if when_option when_prod

lemma when_quiet_slot:
  "keeps quiet m \<Longrightarrow> (\<And>x. carries_when (slot_free env) c R (f x)) \<Longrightarrow> carries_when (slot_free env) c R (abind m f)"
  by (rule when_bind [OF R_transp when_carries [OF of_quiet] quiet_slot])

lemma when_quiet_idle:
  "keeps quiet m \<Longrightarrow> (\<And>x. carries_when (\<lambda>w. \<not> retrying g w) c R (f x)) \<Longrightarrow> carries_when (\<lambda>w. \<not> retrying g w) c R (abind m f)"
  by (rule when_bind [OF R_transp when_carries [OF of_quiet] quiet_idle])

lemma started_when: "carries_when (slot_free env) c R (childStarted g pid fds slot resp)"
  by (simp add: carries_when_def R_started)

lemma started_outside: "carries c R (childStarted g pid fds False resp)"
  by (simp add: carries_def R_started)

lemma state_when: "carries_when (\<lambda>w. \<not> retrying g w) c R (set_state g st)"
  by (simp add: carries_when_def R_state)

lemma state_plain: "st \<notin> {D_tryToBuild, D_buildDone} \<Longrightarrow> carries c R (set_state g st)"
  by (rule carriesI, rule disjI2, rule R_state) auto

text \<open>Substitution goals.\<close>

lemma sub_timedOut: "carries c R (SubstitutionGoal_timedOut env g)"
  unfolding SubstitutionGoal_timedOut_def by (intro rules basic_steps R_terminated R_done, simp_all)

lemma sub_referencesValid: "carries c R (referencesValid env g)"
  unfolding referencesValid_def by (intro rules basic_steps R_done, simp_all)

lemma sub_tryNext: "carries c R (tryNext env g)"
  unfolding tryNext_def by (intro rules basic_steps R_done R_sub_waitee sub_referencesValid, simp_all)

lemma sub_start: "carries c R (SubstitutionGoal_start env g)"
  unfolding SubstitutionGoal_start_def by (intro rules basic_steps R_done sub_tryNext)

lemma quiet_substituter: "keeps quiet (amodify (\<lambda>w. w \<lparr> wk_substituter := f w \<rparr>))"
  by (rule quiet_update) (simp add: quiet_same)

lemma sub_run: "carries_when (slot_free env) c R (run_substituter env g)"
proof -
  have start: "carries_when (slot_free env) c R
    (abind (case sg_substituter b of
              Some a \<Rightarrow>
                (case agt_pid a of
                   Some pid \<Rightarrow> childStarted g pid (oinsert (agt_builderOut a) [agt_fromAgent a]) True True
                 | None \<Rightarrow> athrow (Abort ''no process''))
            | None \<Rightarrow> athrow (Abort ''null pointer'')) (\<lambda>_.
     mod_sub g (sg_state_update (\<lambda>_. S_finished))))" for b
    by (intro when_last [OF R_transp] when_rules started_when when_carries rules basic_steps) simp_all
  show ?thesis
    unfolding run_substituter_def
    by (intro start when_quiet_slot quiet_rules quiet_basic quiet_spawn quiet_substituter) simp_all
qed

lemma sub_tryToRun: "carries c R (tryToRun env g)"
proof (rule carriesI)
  fix w
  show "c \<and> aborted (fst (tryToRun env g w)) \<or> R w (snd (tryToRun env g w))"
  proof (cases "slots_for_substitution env \<le> int (wk_nrLocalBuilds w)")
    case True
    then have "tryToRun env g w = waitForBuildSlot env g w" by (simp add: tryToRun_def)
    then show ?thesis using carriesD [OF basic_steps(8)] by simp
  next
    case False
    then have free: "slot_free env w" by (auto simp: slot_free_def job_limit_def slots_for_substitution_def split: if_splits)
    have k: "carries_when (slot_free env) c R (abind (reset_sub_lock g) (\<lambda>_.
       abind (the_sub g) (\<lambda>b.
       abind (on_l (aget (pathIsLockedByMe (sg_storePath b)))) (\<lambda>mine.
       if mine then waitForAnyGoal g
       else
         abind (mod_sub g (sg_outputLock_update (\<lambda>_. Some PathLocks_init))) (\<lambda>_.
         abind (on_sub_lock g (lockPaths [sg_storePath b] False)) (\<lambda>got.
         if \<not> got then waitForAWhile g
         else
           abind (if sg_repair b then areturn False else on_l (is_valid (sg_storePath b))) (\<lambda>v.
           if v then
             abind (on_sub_lock g (PathLocks_setDeletion True)) (\<lambda>_.
             abind (reset_sub_lock g) (\<lambda>_.
             amDone env g ecSuccess))
           else run_substituter env g)))))))" (is "carries_when _ _ _ ?m")
      by (intro when_quiet_slot when_rules quiet_rules quiet_basic sub_run when_carries R_done basic_steps, simp_all)
    have "tryToRun env g w = ?m w" using False by (simp add: tryToRun_def)
    with whenD [OF k free] show ?thesis by simp
  qed
qed

lemma sub_finish: "carries c R (finish_substitution env g hr)"
  unfolding finish_substitution_def by (intro rules basic_steps R_done)

lemma sub_finished: "carries c R (finished env g)"
  unfolding finished_def
  by (intro rules basic_steps R_terminated R_done sub_finish quiet_substituter [THEN of_quiet], simp_all)

lemma sub_work: "carries c R (SubstitutionGoal_work env g)"
  unfolding SubstitutionGoal_work_def
  by (intro rules basic_steps) (auto split: subst_pc.split intro: sub_start sub_referencesValid sub_tryToRun sub_finished)

lemma sub_output: "carries c R (SubstitutionGoal_handleChildOutput g fd input)"
  unfolding SubstitutionGoal_handleChildOutput_def by (intro rules basic_steps quiet_status_lines [THEN of_quiet])

text \<open>Derivation goals.\<close>

lemma quiet_flags: "keeps quiet (amodify (\<lambda>w. w \<lparr> wk_timedOut := a w, wk_permanentFailure := b w \<rparr>))"
  "keeps quiet (amodify (\<lambda>w. w \<lparr> wk_permanentFailure := b w \<rparr>))"
  by (rule quiet_update, simp add: quiet_same)+

lemma drv_done: "carries c R (goal_done env g st msg)"
  unfolding goal_done_def Let_def by (intro rules basic_steps R_done quiet_flags [THEN of_quiet], simp_all)

lemma drv_killChild: "carries c R (killChild g)"
  unfolding killChild_def by (intro rules basic_steps R_terminated, simp_all)

lemma drv_timedOut: "carries c R (DerivationGoal_timedOut env g)"
  unfolding DerivationGoal_timedOut_def by (intro rules drv_killChild drv_done)

lemma drv_any_failed: "carries c R (any_failed env g ps)"
  unfolding any_failed_def pathFailed_def by (intro rules basic_steps drv_done)

lemma drv_sub_waitee: "carries c R (sub_waitee env g p r)"
  by (simp add: sub_waitee_def R_sub_waitee)

lemma drv_drv_waitee: "carries c R (drv_waitee env g p outs mode)"
  by (simp add: drv_waitee_def R_drv_waitee)

lemmas drv_queries = quiet_checkPathValidity [THEN of_quiet] quiet_closures [THEN of_quiet] quiet_closure_sets [THEN of_quiet]

lemma drv_next:
  assumes "st \<notin> {D_tryToBuild, D_buildDone}" "carries c R (jump st g)"
  shows "carries c R (next_state jump g st)"
  unfolding next_state_def using assms by (intro rules basic_steps state_plain) simp_all

lemma drv_start:
  assumes "carries c R (jump D_haveDerivation g)"
  shows "carries c R (DerivationGoal_start env jump g)"
  unfolding DerivationGoal_start_def using assms by (intro rules basic_steps drv_sub_waitee state_plain, simp_all)

lemma drv_haveDerivation:
  assumes "carries c R (jump D_outputsSubstituted g)"
  shows "carries c R (haveDerivation env jump g)"
  unfolding haveDerivation_def using assms
  by (intro rules basic_steps drv_done drv_queries drv_any_failed drv_sub_waitee drv_next, simp_all)

lemma drv_repairClosure: "carries c R (repairClosure env g)"
  unfolding repairClosure_def
  by (intro rules basic_steps drv_queries drv_done drv_sub_waitee drv_drv_waitee state_plain, simp_all)

lemma drv_closureRepaired: "carries c R (closureRepaired env g)"
  unfolding closureRepaired_def by (intro rules basic_steps drv_done)

lemma drv_outputsSubstituted:
  assumes "carries c R (jump D_haveDerivation g)" "carries c R (jump D_inputsRealised g)"
  shows "carries c R (outputsSubstituted env jump g)"
proof -
  have "carries c R (mod_goal g (\<lambda>x. x \<lparr> g_nrFailed := 0, g_nrNoSubstituters := 0, g_nrIncompleteClosure := 0 \<rparr>))"
    by (rule of_quiet, rule quiet_mod_goal) (simp add: quiet_goal_def)
  then show ?thesis
    unfolding outputsSubstituted_def using assms
    by (intro rules R_retry basic_steps drv_queries drv_done drv_repairClosure drv_sub_waitee drv_drv_waitee drv_next, simp_all)
qed

lemma drv_inputsRealised:
  assumes jump: "carries c R (jump D_haveDerivation g)"
  shows "carries c R (inputsRealised env jump g)"
proof (rule carriesI)
  fix w
  show "c \<and> aborted (fst (inputsRealised env jump g w)) \<or> R w (snd (inputsRealised env jump g w))"
  proof (cases "retrying g w")
    case False
    have "carries_when (\<lambda>w. \<not> retrying g w) c R (inputsRealised env jump g)"
      unfolding inputsRealised_def Let_def using jump
      by (intro when_if when_carries drv_done when_quiet_idle state_when when_last [OF R_transp state_when]
          quiet_rules quiet_basic quiet_closure_sets basic_steps) simp_all
    then show ?thesis using False by (rule whenD)
  next
    case True
    then obtain x b where x: "wk_goals w g = Some x" "g_body x = Drv b" "dg_retrySubstitution b"
      by (auto simp: retrying_def split: option.splits goal_body.splits)
    then have "inputsRealised env jump g w =
      (if g_nrFailed x \<noteq> 0 then goal_done env g DependencyFailed [] w else jump D_haveDerivation g w)"
      by (simp add: inputsRealised_def the_goal_def the_drv_def abind_def areturn_def)
    then show ?thesis using carriesD [OF drv_done] carriesD [OF jump] by simp
  qed
qed

lemma quiet_hook: "keeps quiet (amodify (\<lambda>w. w \<lparr> wk_hook := f w \<rparr>))"
  by (rule quiet_update) (simp add: quiet_same)

lemma drv_accept_hook: "carries c R (accept_hook env g)"
  unfolding accept_hook_def
  by (intro rules basic_steps quiet_hook [THEN of_quiet] drv_queries quiet_openLogFile [THEN of_quiet] started_outside, simp_all)

lemma drv_tryBuildHook: "carries c R (tryBuildHook env g)"
  unfolding tryBuildHook_def Let_def
  by (intro rules basic_steps quiet_hook [THEN of_quiet] quiet_spawn [THEN of_quiet] drv_accept_hook)

lemma drv_startBuilder: "carries_when (slot_free env) c R (startBuilder env g)"
proof -
  have start: "carries_when (slot_free env) c R
    (abind (childStarted g pid fds True True) (\<lambda>_.
     abind (alift (be_setup env pid)) (\<lambda>msg. if msg \<noteq> [] then athrow (Throw Error msg) else areturn ())))" for pid fds
    by (intro when_last [OF R_transp] started_when rules)
  show ?thesis
    unfolding startBuilder_def
    by (intro start when_quiet_slot when_rules when_carries quiet_rules quiet_basic quiet_make_tmpDir quiet_exportReferencesGraph
        quiet_take_build_user quiet_make_chroot quiet_redirect_outputs quiet_openLogFile quiet_spawn rules) simp_all
qed

end

lemmas quiet_bodies = keeps_mono [OF _ quiet_same_bodies]

lemmas same_bodies_rules = keeps_pure [OF same_bodies_reflp] keeps_abind [OF same_bodies_transp]
  keeps_acatch [OF same_bodies_transp] keeps_cases

lemma bodies_accept_hook: "keeps same_bodies (accept_hook env g)"
proof -
  have "keeps quiet (amodify (\<lambda>w. w \<lparr> wk_hook := None \<rparr>))" by (rule quiet_update) (simp add: quiet_same)
  then show ?thesis
    unfolding accept_hook_def
    by (intro same_bodies_rules same_bodies_children quiet_basic [THEN quiet_bodies] quiet_bodies
        quiet_closures [THEN quiet_bodies] quiet_openLogFile [THEN quiet_bodies]) simp_all
qed

lemma bodies_tryBuildHook: "keeps same_bodies (tryBuildHook env g)"
proof -
  have hook: "keeps quiet (amodify (\<lambda>w. w \<lparr> wk_hook := f w \<rparr>))" for f by (rule quiet_update) (simp add: quiet_same)
  show ?thesis
    unfolding tryBuildHook_def Let_def
    by (intro same_bodies_rules bodies_accept_hook quiet_basic [THEN quiet_bodies] hook [THEN quiet_bodies]
        quiet_spawn [THEN quiet_bodies])
qed

lemma bodies_startBuilder: "keeps same_bodies (startBuilder env g)"
  unfolding startBuilder_def
  by (intro same_bodies_rules same_bodies_children quiet_basic [THEN quiet_bodies] quiet_make_tmpDir [THEN quiet_bodies]
      quiet_exportReferencesGraph [THEN quiet_bodies] quiet_take_build_user [THEN quiet_bodies]
      quiet_make_chroot [THEN quiet_bodies] quiet_redirect_outputs [THEN quiet_bodies]
      quiet_openLogFile [THEN quiet_bodies] quiet_spawn [THEN quiet_bodies]) simp_all

lemma any_failed_none: "any_failed env g ps w = (Inr False, v) \<Longrightarrow> v = w"
proof -
  have fold: "afold (\<lambda>i failed. if failed then areturn True else pathFailed env g i) ps acc w = (Inr False, v) \<Longrightarrow> v = w \<and> \<not> acc"
    for acc v
  proof (induction ps arbitrary: acc w)
    case Nil
    then show ?case by (simp add: areturn_def)
  next
    case (Cons i ps)
    have none: "u = w \<and> b = False" if "pathFailed env g i w = (Inr b, u)" "\<not> b" for b u
      using that
      by (auto simp: pathFailed_def abind_def areturn_def on_l_def on_w_def on_world_def ask_def split: if_splits sum.splits prod.splits)
    from Cons.prems show ?case
      by (auto simp: abind_def areturn_def split: if_splits sum.splits prod.splits dest!: Cons.IH none)
  qed
  show "any_failed env g ps w = (Inr False, v) \<Longrightarrow> v = w" using fold by (simp add: any_failed_def)
qed

context goal_steps
begin

lemma drv_build_here: "carries_when (\<lambda>w. \<not> retrying g w) c R (build_here env g buildLocally)"
  unfolding carries_when_def
proof (intro allI impI)
  fix w assume idle: "\<not> retrying g w"
  show "c \<and> aborted (fst (build_here env g buildLocally w)) \<or> R w (snd (build_here env g buildLocally w))"
  proof (cases "maxBuildJobs (be_settings env) \<le> int (wk_nrLocalBuilds w) \<and> \<not> (buildLocally \<and> wk_nrLocalBuilds w = 0)")
    case True
    have "carries c R (abind (waitForBuildSlot env g) (\<lambda>_. on_drv_locks g PathLocks_unlock))" by (intro rules basic_steps)
    from carriesD [OF this, of w] True show ?thesis by (auto simp: build_here_def)
  next
    case False
    then have free: "slot_free env w" by (auto simp: slot_free_def job_limit_def)
    let ?start = "acatch (abind (startBuilder env g) (\<lambda>_. areturn None))
                (\<lambda>c msg. if c = BuildError then areturn (Some msg) else athrow (Throw c msg))"
    let ?rest = "\<lambda>r. case r of
         None \<Rightarrow> set_state g D_buildDone
       | Some msg \<Rightarrow>
           abind (on_drv_locks g PathLocks_unlock) (\<lambda>_.
           abind (on_build_user g UserLock_release) (\<lambda>_.
           abind (amodify (\<lambda>w. w \<lparr> wk_permanentFailure := True \<rparr>)) (\<lambda>_.
           goal_done env g InputRejected msg)))"
    have start: "carries_when (slot_free env) c R ?start"
      by (intro when_catch [OF R_transp] when_last [OF R_transp] drv_startBuilder rules)
    have idle_after: "keeps (stays (\<lambda>w. \<not> retrying g w)) ?start"
      by (rule stays_idle) (intro same_bodies_rules bodies_startBuilder)
    have rest: "carries_when (\<lambda>w. \<not> retrying g w) c R (?rest r)" for r
      by (intro when_option state_when when_carries rules basic_steps drv_done quiet_flags [THEN of_quiet])
    have "build_here env g buildLocally w = abind ?start ?rest w"
      unfolding build_here_def abind_simps(5) if_not_P [OF False] by (rule refl)
    moreover have both: "carries_when (\<lambda>w. slot_free env w \<and> \<not> retrying g w) c R (abind ?start ?rest)"
      by (rule when_then [OF R_transp start idle_after rest])
    ultimately show ?thesis using whenD [OF both conjI [OF free idle]] by simp
  qed
qed


lemma drv_tryToBuild: "carries_when (\<lambda>w. \<not> retrying g w) c R (tryToBuild env g)"
proof -
  let ?P = "\<lambda>w. \<not> retrying g w"
  have hook: "carries_when ?P c R (abind (tryBuildHook env g) (\<lambda>reply.
               case reply of
                 rpAccept \<Rightarrow> set_state g D_buildDone
               | rpPostpone \<Rightarrow> abind (waitForAWhile g) (\<lambda>_. on_drv_locks g PathLocks_unlock)
               | rpDecline \<Rightarrow> build_here env g False))"
  proof (rule when_bind [OF R_transp when_carries [OF drv_tryBuildHook] stays_idle [OF bodies_tryBuildHook]])
    fix reply
    show "carries_when ?P c R (case reply of
                 rpAccept \<Rightarrow> set_state g D_buildDone
               | rpPostpone \<Rightarrow> abind (waitForAWhile g) (\<lambda>_. on_drv_locks g PathLocks_unlock)
               | rpDecline \<Rightarrow> build_here env g False)"
      by (cases reply, simp_all only: HookReply.case)
        (intro state_when drv_build_here when_carries rules basic_steps)+
  qed
  have failed: "carries_when ?P c R (abind (any_failed env g ps) (\<lambda>failed. if failed then areturn () else m))"
    if m: "carries_when ?P c R m" for ps m
    unfolding carries_when_def
  proof (intro allI impI)
    fix w assume w: "\<not> retrying g w"
    obtain r v where v: "any_failed env g ps w = (r, v)" by fastforce
    show "c \<and> aborted (fst (abind (any_failed env g ps) (\<lambda>failed. if failed then areturn () else m) w)) \<or>
        R w (snd (abind (any_failed env g ps) (\<lambda>failed. if failed then areturn () else m) w))"
    proof (cases "r = Inr False")
      case True
      have "v = w" using any_failed_none v True by blast
      then show ?thesis using v True whenD [OF m w] by (simp add: abind_def)
    next
      case False
      have "carries c R (abind (any_failed env g ps) (\<lambda>_. areturn ()))" by (intro rules drv_any_failed)
      from carriesD [OF this, of w] show ?thesis using v False by (cases r) (auto simp: abind_def)
    qed
  qed
  show ?thesis
    unfolding tryToBuild_def Let_def
    by (intro failed hook drv_build_here when_if when_quiet_idle when_carries basic_steps rules drv_done
        quiet_rules quiet_basic quiet_checkPathValidity quiet_clear_invalid) simp_all
qed

lemma drv_build_outcome: "carries_when (\<lambda>w. \<not> retrying g w) c R (build_outcome env g status)"
proof -
  have again: "carries_when (\<lambda>w. \<not> retrying g w) c R
    (abind (set_state g D_tryToBuild) (\<lambda>_. abind (wakeUp g) (\<lambda>_. areturn True)))"
    by (intro when_last [OF R_transp state_when] rules basic_steps)
  show ?thesis
    unfolding build_outcome_def
    by (intro again when_quiet_idle when_if when_carries rules quiet_rules quiet_basic quiet_tmpDir quiet_registerOutputs
        quiet_reset_autoDelChroot) simp_all
qed

lemma drv_build_failed: "carries c R (build_failed env g status diskFull msg)"
  unfolding build_failed_def Let_def by (intro rules basic_steps drv_done)

lemma drv_buildDone: "carries_when (\<lambda>w. \<not> retrying g w) c R (buildDone env g)"
proof -
  let ?P = "\<lambda>w. \<not> retrying g w"
  have outcome: "carries_when ?P c R (abind (acatch (abind (build_outcome env g status) (\<lambda>repeat. areturn (Inr repeat)))
              (\<lambda>c msg. if c = BuildError then areturn (Inl msg) else athrow (Throw c msg))) (\<lambda>r.
     case r of
       Inl msg \<Rightarrow> build_failed env g status diskFull msg
     | Inr repeat \<Rightarrow>
         if repeat then areturn ()
         else abind (on_build_user g UserLock_release) (\<lambda>_. goal_done env g Built [])))" for status diskFull
    by (intro when_last [OF R_transp] when_catch [OF R_transp] drv_build_outcome rules drv_build_failed drv_done basic_steps)
  have terminated: "carries_when ?P c R (abind (childTerminated pid wake) f)" if "\<And>x. carries_when ?P c R (f x)" for pid wake f
    by (rule when_bind [OF R_transp when_carries [OF R_terminated] stays_idle [OF same_bodies_children(2)] that])
  show ?thesis
    unfolding buildDone_def Let_def
    by (intro outcome terminated when_prod when_quiet_idle quiet_basic quiet_wait_builder quiet_closeLogFile) simp_all
qed

lemma drv_output: "carries c R (DerivationGoal_handleChildOutput env g fd input)"
  unfolding DerivationGoal_handleChildOutput_def Let_def
  by (intro rules basic_steps drv_timedOut quiet_write_log [THEN of_quiet], simp_all)

text \<open>The methods for all states, and the loop.\<close>

lemma drv_enter:
  "carries_when (\<lambda>w. st \<in> {D_tryToBuild, D_buildDone} \<longrightarrow> \<not> retrying g w) c R (DerivationGoal_enter fuel env st g)"
proof (induction fuel arbitrary: st g)
  case 0
  show ?case by (simp add: when_carries carries_pure [OF R_reflp])
next
  case (Suc fuel)
  have jump: "carries c R (DerivationGoal_enter fuel env st g)" if "st \<notin> {D_tryToBuild, D_buildDone}" for st g
    using Suc [of st g] that by (auto simp: carries_when_def carries_def)
  show ?case
    by (cases st) (auto intro!: when_carries drv_start drv_haveDerivation drv_outputsSubstituted drv_closureRepaired
        drv_inputsRealised drv_tryToBuild drv_buildDone jump)
qed

lemma any_work: "carries c R (Goal_work fuel env g)"
proof (rule carriesI)
  fix w
  show "c \<and> aborted (fst (Goal_work fuel env g w)) \<or> R w (snd (Goal_work fuel env g w))"
  proof (cases "wk_goals w g")
    case None
    then show ?thesis using R_reflp by (simp add: Goal_work_def the_goal_def abind_def reflpD)
  next
    case (Some x)
    then have "Goal_work fuel env g w = (case g_body x of
        Subst _ \<Rightarrow> SubstitutionGoal_work env g w | Drv b \<Rightarrow> DerivationGoal_enter fuel env (dg_state b) g w)"
      by (simp add: Goal_work_def the_goal_def abind_def split: goal_body.split)
    moreover have "dg_state b \<in> {D_tryToBuild, D_buildDone} \<longrightarrow> \<not> retrying g w" if "g_body x = Drv b" for b
      using that Some by (simp add: retrying_def)
    ultimately show ?thesis
      using carriesD [OF sub_work] whenD [OF drv_enter] by (auto split: goal_body.split)
  qed
qed

lemma carries_body:
  "(\<And>b. carries c R (f b)) \<Longrightarrow> (\<And>b. carries c R (h b)) \<Longrightarrow> carries c R (case x of Subst b \<Rightarrow> f b | Drv b \<Rightarrow> h b)"
  by (cases x) simp_all

lemma any_timedOut: "carries c R (Goal_timedOut env g)"
  unfolding Goal_timedOut_def by (intro rules basic_steps carries_body sub_timedOut drv_timedOut)

lemma any_output: "carries c R (Goal_handleChildOutput env g fd input)"
  unfolding Goal_handleChildOutput_def by (intro rules basic_steps carries_body sub_output drv_output)

lemma any_EOF: "carries c R (Goal_handleEOF g fd)"
  unfolding Goal_handleEOF_def SubstitutionGoal_handleEOF_def DerivationGoal_handleEOF_def
  by (intro rules basic_steps carries_body)

lemma quiet_lists: "keeps quiet (amodify (\<lambda>w. w \<lparr> wk_pinned := f w \<rparr>))" "keeps quiet (amodify (\<lambda>w. w \<lparr> wk_awake := f w \<rparr>))"
  "keeps quiet (amodify (\<lambda>w. w \<lparr> wk_topGoals := f w \<rparr>))" "keeps quiet (amodify (\<lambda>w. w \<lparr> wk_waitingForAWhile := f w \<rparr>))"
  "keeps quiet (amodify (\<lambda>w. w \<lparr> wk_lastWokenUp := t w \<rparr>))" "keeps quiet (amodify start_polling)"
  by (rule quiet_update, simp add: quiet_same start_polling_def)+

lemma pinned: "carries c R m \<Longrightarrow> carries c R (with_pinned env gs m)"
proof -
  assume m: "carries c R m"
  have free: "R v (v \<lparr> wk_pinned := old \<rparr>)" for v old by (rule R_quiet) (simp add: quiet_same)
  have release: "carries c R (abind (release_unowned env) (\<lambda>_. areturn x))" for x :: 'a by (intro rules R_release)
  have "carries c R (\<lambda>w. case m w of (Inl e, w') \<Rightarrow> (Inl e, w' \<lparr> wk_pinned := old \<rparr>)
       | (Inr x, w') \<Rightarrow> abind (release_unowned env) (\<lambda>_. areturn x) (w' \<lparr> wk_pinned := old \<rparr>))" for old
  proof (rule carriesI)
    fix v
    obtain r u where u: "m v = (r, u)" by fastforce
    have first: "c \<and> aborted r \<or> R v u" using carriesD [OF m, of v] u by simp
    show "c \<and> aborted (fst (case m v of (Inl e, w') \<Rightarrow> (Inl e, w' \<lparr> wk_pinned := old \<rparr>)
         | (Inr x, w') \<Rightarrow> abind (release_unowned env) (\<lambda>_. areturn x) (w' \<lparr> wk_pinned := old \<rparr>))) \<or>
        R v (snd (case m v of (Inl e, w') \<Rightarrow> (Inl e, w' \<lparr> wk_pinned := old \<rparr>)
         | (Inr x, w') \<Rightarrow> abind (release_unowned env) (\<lambda>_. areturn x) (w' \<lparr> wk_pinned := old \<rparr>)))"
    proof (cases r)
      case (Inl e)
      then show ?thesis using first free [of u old] u transpD [OF R_transp] by (cases e) auto
    next
      case (Inr x)
      then have "R v (u \<lparr> wk_pinned := old \<rparr>)" using first free [of u old] transpD [OF R_transp] by auto
      then show ?thesis using carriesD [OF release [of x], of "u \<lparr> wk_pinned := old \<rparr>"] u Inr transpD [OF R_transp] by auto
    qed
  qed
  then show ?thesis unfolding with_pinned_def by (intro rules quiet_lists [THEN of_quiet])
qed

lemma quiet_insert: "keeps quiet (goals_insert env g gs)"
  by (rule quietI) (auto simp: goals_insert_def split: sum.split intro: quiet_same)

lemma loop_fd: "carries c R (handle_fd env ev after pid g k)"
  unfolding handle_fd_def
  by (intro rules any_EOF any_output R_child, simp_all add: carries_pure [OF R_reflp] split: fd_event.split)
    (auto intro!: rules any_EOF any_output R_child)

lemma loop_timeouts: "carries c R (check_timeouts env after pid g)"
  unfolding check_timeouts_def by (intro rules basic_steps any_timedOut)

lemma loop_child: "carries c R (handle_child env ev after pid)"
  unfolding handle_child_def Let_def by (intro rules basic_steps pinned loop_fd loop_timeouts)

lemma loop_pollers: "carries c R (wake_pollers env after)"
  unfolding wake_pollers_def by (intro rules basic_steps quiet_lists [THEN of_quiet])

lemma loop_select: "carries c R (select_call env)"
proof (rule of_quiet, rule quietI)
  fix w
  have "quiet (w \<lparr> wk_selects := s \<rparr>) (snd (on_f m (w \<lparr> wk_selects := s \<rparr>)))" for s and m :: "(unit, file_system) action"
    by (rule keepsD [OF quiet_on_f])
  moreover have "quiet w (w \<lparr> wk_selects := s \<rparr>)" for s by (simp add: quiet_same)
  ultimately show "quiet w (snd (select_call env w))"
    using transpD [OF quiet_transp] quiet_reflp by (auto simp: select_call_def Let_def reflpD split: list.split; metis)
qed

lemma loop_wait: "carries c R (waitForInput env)"
  unfolding waitForInput_def by (intro rules quiet_lists [THEN of_quiet] loop_select loop_child loop_pollers)

lemma loop_work: "carries c R (work_each fuel env gs)"
proof (induction gs)
  case Nil
  show ?case by (simp add: carries_pure [OF R_reflp])
next
  case (Cons g gs)
  then show ?case unfolding work_each.simps by (intro rules any_work)
qed

lemma loop_round: "carries c R (work_round fuel env)"
  unfolding work_round_def
  by (intro rules pinned loop_work quiet_lists [THEN of_quiet] quiet_insert [THEN of_quiet])

lemma loop_run: "carries c R (run_loop fuel env)"
proof (induction fuel)
  case 0
  show ?case by (simp add: carries_pure [OF R_reflp])
next
  case (Suc fuel)
  then show ?case unfolding run_loop.simps by (intro rules loop_round loop_wait)
qed

theorem loop_keeps: "carries c R (worker_run fuel env gs)"
  unfolding worker_run_def
  by (intro rules loop_run quiet_lists [THEN of_quiet] quiet_insert [THEN of_quiet])

lemma loop_make_goals: "carries c R (make_goals env mode paths)"
  unfolding make_goals_def Let_def
  by (intro rules R_sub_goal R_drv_goal quiet_insert [THEN of_quiet])

end

text \<open>
  A stronger contract, for relations that do not look at who waits for whom: any change to the bookkeeping of a
  goal keeps them, and so does a goal that appears or disappears.
\<close>

locale free_steps =
  fixes env :: build_env and R :: "Worker \<Rightarrow> Worker \<Rightarrow> bool"
  assumes R_reflp: "reflp R"
    and R_transp: "transp R"
    and R_quiet: "quiet w v \<Longrightarrow> R w v"
    and R_started: "(slot \<Longrightarrow> slot_free env w) \<Longrightarrow> R w (snd (childStarted g pid fds slot resp w))"
    and R_terminated: "keeps R (childTerminated pid' wake)"
    and R_child: "(\<And>c. ch_inBuildSlot (f c) = ch_inBuildSlot c) \<Longrightarrow> keeps R (mod_child pid f)"
    and R_state: "(st \<in> {D_tryToBuild, D_buildDone} \<Longrightarrow> \<not> retrying g w) \<Longrightarrow> R w (snd (set_state g st w))"
    and R_retry: "keeps R (mod_drv g (dg_retrySubstitution_update (\<lambda>_. True)))"
    and R_book: "(\<And>x. g_body (h x) = g_body x) \<Longrightarrow> keeps R (mod_goal g h)"
    and R_maps: "wk_goals w = wk_goals v \<Longrightarrow> wk_next w = wk_next v \<Longrightarrow> wk_children w = wk_children v \<Longrightarrow>
      wk_nrLocalBuilds w = wk_nrLocalBuilds v \<Longrightarrow> R w v"
    and R_drop: "R w (w \<lparr> wk_goals := (wk_goals w)(g := None) \<rparr>)"
    and R_new: "keeps R (new_goal b)"
begin

lemma of_quiet: "keeps quiet m \<Longrightarrow> keeps R m"
  by (erule keeps_mono) (rule R_quiet)

lemmas basic_steps = quiet_basic [THEN of_quiet]

lemmas rules = keeps_pure [OF R_reflp] keeps_abind [OF R_transp] keeps_aforeach [OF R_reflp R_transp]
  keeps_acatch [OF R_transp] keeps_cases keeps_list

lemma maps: "(\<And>w. wk_goals (f w) = wk_goals w \<and> wk_next (f w) = wk_next w \<and> wk_children (f w) = wk_children w \<and>
    wk_nrLocalBuilds (f w) = wk_nrLocalBuilds w) \<Longrightarrow> keeps R (amodify f)"
  by (rule keepsI) (simp add: action_run R_maps)

lemma destroy: "keeps R (Goal_destroy env g)"
proof -
  have "keeps R (amodify (\<lambda>w. w \<lparr> wk_goals := (wk_goals w)(g := None) \<rparr>))"
    by (rule keepsI) (simp add: action_run R_drop)
  moreover have "keeps R (SubstitutionGoal_destroy g)"
    unfolding SubstitutionGoal_destroy_def by (intro rules basic_steps R_terminated)
  moreover have "keeps R (killChild g)"
    unfolding killChild_def by (intro rules basic_steps R_terminated) simp_all
  then have "keeps R (DerivationGoal_destroy env g)"
    unfolding DerivationGoal_destroy_def ignoring_def
    by (intro rules basic_steps quiet_tmpDir [THEN of_quiet] quiet_closeLogFile [THEN of_quiet]
        quiet_reset_autoDelChroot [THEN of_quiet])
  ultimately show ?thesis
    unfolding Goal_destroy_def by (intro rules basic_steps) (auto split: goal_body.split)
qed

lemma release: "keeps R (release_unowned env)"
proof -
  have "keeps R (release_loop fuel env)" for fuel
  proof (induction fuel)
    case 0
    show ?case by (simp add: keeps_pure [OF R_reflp])
  next
    case (Suc fuel)
    then show ?case unfolding release_loop.simps by (intro rules destroy)
  qed
  then show ?thesis unfolding release_unowned_def by (intro rules)
qed

lemma amDone: "keeps R (amDone env g res)"
proof -
  have "keeps R (waiteeDone env i g res)" for i
    unfolding waiteeDone_def Let_def by (intro rules basic_steps R_book release) simp_all
  moreover have "keeps R (removeGoal env g)"
    unfolding removeGoal_def by (intro rules basic_steps maps) simp_all
  ultimately show ?thesis
    unfolding amDone_def by (intro rules basic_steps R_book) simp_all
qed

lemma addWantedOutputs_keeps:
  "dg_drvPath (addWantedOutputs outs b) = dg_drvPath b \<and>
   dg_retrySubstitution (addWantedOutputs outs b) = dg_retrySubstitution b \<and> dg_state (addWantedOutputs outs b) = dg_state b"
proof -
  have "dg_drvPath (fold f outs b) = dg_drvPath b \<and> dg_retrySubstitution (fold f outs b) = dg_retrySubstitution b \<and>
      dg_state (fold f outs b) = dg_state b"
    if f: "\<And>i b. dg_drvPath (f i b) = dg_drvPath b \<and> dg_retrySubstitution (f i b) = dg_retrySubstitution b \<and> dg_state (f i b) = dg_state b"
    for f :: "string \<Rightarrow> DerivationGoal \<Rightarrow> DerivationGoal"
    by (induction outs arbitrary: b) (simp_all add: f)
  then show ?thesis by (simp add: addWantedOutputs_def)
qed

lemma make_goals:
  "keeps R (makeSubstitutionGoal p repair)" "keeps R (makeDerivationGoal env p outs mode)"
  unfolding makeSubstitutionGoal_def makeDerivationGoal_def
  by (intro rules basic_steps maps R_new, simp_all add: addWantedOutputs_keeps)+

lemma waitee: "keeps R (addWaitee env g h)"
proof -
  have "keeps quiet (goals_insert env h gs)" for gs
    by (rule quietI) (auto simp: goals_insert_def split: sum.split intro: quiet_same)
  then have "keeps R (goals_insert env h gs)" for gs by (rule of_quiet)
  then show ?thesis unfolding addWaitee_def by (intro rules basic_steps R_book) simp_all
qed

end

sublocale free_steps \<subseteq> steps: goal_steps env False R
proof (unfold_locales, unfold carries_False)
  show "reflp R" "transp R" by (rule R_reflp, rule R_transp)
  show "keeps R (abind (makeSubstitutionGoal p repair) (addWaitee env g))"
    "keeps R (abind (makeDerivationGoal env p outs mode) (addWaitee env g))" for p repair g outs mode
    by (intro rules make_goals waitee)+
qed (blast intro: R_quiet R_started R_terminated R_child R_state R_retry amDone make_goals release
    keepsD [OF R_terminated])+

end
