(* ===== verification/Sample_Build.thy ===== *)
theory Sample_Build
  imports Sample_Store Worker
begin

text \<open>The sample store with processes that do nothing.\<close>

definition sample_build :: build_env where
  "sample_build =
     \<lparr> be_daemon = sample_daemon, be_agents = \<lparr> ae_authenticate = (\<lambda>_. []), ae_query = (\<lambda>_. []) \<rparr>,
       be_accounts = \<lparr> getgrnam = (\<lambda>_. None), getpwnam = (\<lambda>_. None), getgrouplist = (\<lambda>_. []), acc_uid = 0, acc_gid = 0 \<rparr>,
       be_spawn = (\<lambda>_. Inl (Throw Error ''cannot fork'')), be_hook = (\<lambda>_ _. []), be_setup = (\<lambda>_. Inr []), be_status = (\<lambda>_. 0),
       be_compress = (\<lambda>_ s. s), be_available = (\<lambda>_. None), be_chrootDirs = [] \<rparr>"

definition sample_world :: world where
  "sample_world =
     \<lparr> w_ls = sample_ls, w_authenticate = \<lparr> ag_requests = [], ag_pending = [] \<rparr>,
       w_query = \<lparr> ag_requests = [], ag_pending = [] \<rparr> \<rparr>"

end
