(* ===== verification/Worker_Correct.thy ===== *)
theory Worker_Correct
  imports Goal_Steps Sample_Build
begin

text \<open>
  What the main loop guarantees, whatever the processes, the file system and the events do: it keeps to the
  limit on jobs, and a goal that has to retry its substitutes does not build.
\<close>

section \<open>The number of jobs\<close>

text \<open>The children that take up a build slot.\<close>

definition slot_children :: "Worker \<Rightarrow> nat list" where
  "slot_children w = map fst (filter (ch_inBuildSlot \<circ> snd) (wk_children w))"

definition jobs_ok :: "build_env \<Rightarrow> Worker \<Rightarrow> bool" where
  "jobs_ok env w \<longleftrightarrow>
     is_omap (wk_children w) \<and> length (slot_children w) \<le> wk_nrLocalBuilds w \<and>
     int (wk_nrLocalBuilds w) \<le> job_limit env"

lemma slots_oput:
  "length (filter (Q \<circ> snd) (oput k v m)) \<le> length (filter (Q \<circ> snd) m) + (if Q v then 1 else 0)"
  by (induction k v m rule: oput.induct) auto

lemma slots_removed:
  assumes "is_omap m" "map_of m k = Some c" "Q c"
  shows "Suc (length (filter (Q \<circ> snd) (filter (\<lambda>e. fst e \<noteq> k) m))) = length (filter (Q \<circ> snd) m)"
  using assms
proof (induction m)
  case (Cons e m)
  show ?case
  proof (cases "fst e = k")
    case True
    then have "k \<notin> fst ` set m" using Cons.prems(1) by auto
    then have "filter (\<lambda>e. fst e \<noteq> k) m = m" by (auto intro: filter_True)
    then show ?thesis using True Cons.prems by (cases e) auto
  next
    case False
    then have "map_of m k = Some c" using Cons.prems(2) by (cases e) auto
    moreover have "is_omap m" using Cons.prems(1) by simp
    ultimately show ?thesis using Cons.IH Cons.prems(3) False by auto
  qed
qed simp

definition keeps_jobs :: "build_env \<Rightarrow> Worker \<Rightarrow> Worker \<Rightarrow> bool" where
  "keeps_jobs env w v \<longleftrightarrow> (jobs_ok env w \<longrightarrow> jobs_ok env v)"

lemma keeps_jobs_same:
  "wk_children w = wk_children v \<Longrightarrow> wk_nrLocalBuilds w = wk_nrLocalBuilds v \<Longrightarrow> keeps_jobs env w v"
  by (simp add: keeps_jobs_def jobs_ok_def slot_children_def)

lemma keeps_jobs_rel: "reflp (keeps_jobs env)" "transp (keeps_jobs env)"
  by (auto simp: keeps_jobs_def reflp_def transp_def)

lemma jobs_started:
  assumes "slot \<Longrightarrow> slot_free env w"
  shows "keeps_jobs env w (snd (childStarted g pid fds slot resp w))"
proof -
  let ?c = "\<lparr> ch_goal = g, ch_fds = fds, ch_respectTimeouts = resp, ch_inBuildSlot = slot,
    ch_lastOutput = worker_time w, ch_timeStarted = worker_time w \<rparr>"
  have "length (filter (ch_inBuildSlot \<circ> snd) (oput pid ?c (wk_children w))) \<le>
      length (filter (ch_inBuildSlot \<circ> snd) (wk_children w)) + (if slot then 1 else 0)"
    using slots_oput [of ch_inBuildSlot pid ?c "wk_children w"] by simp
  then show ?thesis
    using assms by (auto simp: keeps_jobs_def jobs_ok_def slot_children_def childStarted_def action_run slot_free_def)
qed

lemma jobs_terminated: "keeps (keeps_jobs env) (childTerminated pid wake)"
proof (cases pid)
  case None
  then show ?thesis by (simp add: childTerminated_def keeps_pure [OF keeps_jobs_rel(1)])
next
  case (Some p)
  note rules = keeps_pure [OF keeps_jobs_rel(1)] keeps_abind [OF keeps_jobs_rel(2)] keeps_cases
  have mono: "keeps quiet m \<Longrightarrow> keeps (keeps_jobs env) m" for m :: "(unit, Worker) action"
    by (erule keeps_mono) (simp add: quiet_def keeps_jobs_same)
  have wake_rest: "keeps (keeps_jobs env) (if wake then
      abind (aget wk_wantingToBuild) (\<lambda>goals.
      abind (wake_all goals) (\<lambda>_. amodify (\<lambda>w. w \<lparr> wk_wantingToBuild := [] \<rparr>))) else areturn ())" (is "keeps _ ?rest")
    by (intro rules mono quiet_wake_all quiet_update) (simp add: quiet_same)
  show ?thesis
  proof
    fix w
    show "keeps_jobs env w (snd (childTerminated pid wake w))"
    proof (cases "map_of (wk_children w) p")
      case None
      then show ?thesis using Some keeps_jobs_rel(1) by (simp add: childTerminated_def action_run reflpD)
    next
      case (Some c)
      let ?v = "w \<lparr> wk_nrLocalBuilds := (if ch_inBuildSlot c then wk_nrLocalBuilds w - 1 else wk_nrLocalBuilds w),
          wk_children := filter (\<lambda>e. fst e \<noteq> p) (wk_children w) \<rparr>"
      have run: "childTerminated pid wake w =
          (if ch_inBuildSlot c \<and> wk_nrLocalBuilds w = 0 then (Inl (Abort ''nrLocalBuilds > 0''), w) else ?rest ?v)"
        using Some \<open>pid = Some p\<close> by (simp add: childTerminated_def action_run)
      have v: "keeps_jobs env w ?v"
        unfolding keeps_jobs_def
      proof
        assume ok: "jobs_ok env w"
        have om: "is_omap (filter (\<lambda>e. fst e \<noteq> p) (wk_children w))"
          using ok by (simp add: jobs_ok_def sorted_wrt_filter filter_map [symmetric] comp_def sorted_wrt_map)
        have "length (filter (ch_inBuildSlot \<circ> snd) (filter (\<lambda>e. fst e \<noteq> p) (wk_children w)))
            \<le> (if ch_inBuildSlot c then wk_nrLocalBuilds w - 1 else wk_nrLocalBuilds w)"
        proof (cases "ch_inBuildSlot c")
          case True
          then show ?thesis
            using slots_removed [of "wk_children w" p c ch_inBuildSlot] Some ok by (auto simp: jobs_ok_def slot_children_def)
        next
          case False
          have "length (filter (ch_inBuildSlot \<circ> snd) (filter (\<lambda>e. fst e \<noteq> p) (wk_children w)))
              \<le> length (filter (ch_inBuildSlot \<circ> snd) (wk_children w))"
            using length_filter_le [of "\<lambda>e. fst e \<noteq> p" "filter (ch_inBuildSlot \<circ> snd) (wk_children w)"]
            by (simp add: conj_commute)
          then show ?thesis using False ok by (simp add: jobs_ok_def slot_children_def)
        qed
        then show "jobs_ok env ?v" using om ok by (auto simp: jobs_ok_def slot_children_def)
      qed
      have "keeps_jobs env w (snd (?rest ?v))"
        using v keepsD [OF wake_rest, of ?v] transpD [OF keeps_jobs_rel(2)] by blast
      then show ?thesis unfolding run using keeps_jobs_rel(1) by (simp add: reflpD)
    qed
  qed
qed

lemma jobs_child:
  assumes "\<And>c. ch_inBuildSlot (f c) = ch_inBuildSlot c"
  shows "keeps (keeps_jobs env) (mod_child pid f)"
proof
  fix w
  have "fst \<circ> (\<lambda>(p, c). (p, if p = pid then f c else c)) = fst"
    by auto
  moreover have "length (filter (ch_inBuildSlot \<circ> snd) (map (\<lambda>(p, c). (p, if p = pid then f c else c)) m)) =
      length (filter (ch_inBuildSlot \<circ> snd) m)" for m
    by (simp add: filter_map comp_def case_prod_unfold assms)
  ultimately show "keeps_jobs env w (snd (mod_child pid f w))"
    by (auto simp: mod_child_def action_run keeps_jobs_def jobs_ok_def slot_children_def split: option.split)
qed

interpretation jobs: free_steps env "keeps_jobs env" for env
proof unfold_locales
  show "reflp (keeps_jobs env)" "transp (keeps_jobs env)" by (rule keeps_jobs_rel)+
  show "quiet w v \<Longrightarrow> keeps_jobs env w v" for w v by (simp add: quiet_def keeps_jobs_same)
  show "keeps (keeps_jobs env) (childTerminated pid wake)" for pid wake by (rule jobs_terminated)
  show "keeps (keeps_jobs env) (mod_child pid f)" if "\<And>c. ch_inBuildSlot (f c) = ch_inBuildSlot c" for pid f
    using that by (rule jobs_child)
qed (simp_all add: jobs_started keeps_jobs_same keeps_def set_state_def mod_drv_def mod_goal_def
    action_run new_goal_def)

lemma jobs_ok_new: "jobs_ok env (Worker_new selects s)"
  by (simp add: jobs_ok_def Worker_new_def slot_children_def job_limit_def)

text \<open>
  C6: The worker never runs more jobs than it may: at any moment of its life, whatever the builders, the
  substituter, the file system and the script of events do, the children in build slots, which are distinct processes,
  are at most as many as the setting allows, and one if that is zero.
\<close>

theorem job_limit_holds:
  "let w = snd (abind (make_goals env mode paths) (worker_run fuel env) (Worker_new selects s))
   in distinct (slot_children w) \<and> int (length (slot_children w)) \<le> max 1 (maxBuildJobs (be_settings env))"
proof -
  let ?w = "snd (abind (make_goals env mode paths) (worker_run fuel env) (Worker_new selects s))"
  have "keeps (keeps_jobs env) (abind (make_goals env mode paths) (worker_run fuel env))"
    by (intro keeps_abind [OF keeps_jobs_rel(2)] jobs.steps.loop_make_goals [unfolded carries_False]
        jobs.steps.loop_keeps [unfolded carries_False])
  then have ok: "jobs_ok env ?w" using keepsD jobs_ok_new by (fastforce simp: keeps_jobs_def)
  then have "distinct (map fst (wk_children ?w))" by (auto simp: jobs_ok_def dest: is_omap_distinct)
  then have "distinct (slot_children ?w)" by (simp add: slot_children_def distinct_map_filter)
  then show ?thesis using ok by (simp add: jobs_ok_def job_limit_def Let_def)
qed

section \<open>Substitutes that have to be tried again\<close>

definition gone :: "nat \<Rightarrow> Worker \<Rightarrow> bool" where
  "gone g w \<longleftrightarrow> g < wk_next w \<and> wk_goals w g = None"

definition stays_retrying :: "Worker \<Rightarrow> Worker \<Rightarrow> bool" where
  "stays_retrying w v \<longleftrightarrow>
     wk_next w \<le> wk_next v \<and> (\<forall>g. gone g w \<longrightarrow> gone g v) \<and>
     (\<forall>g < wk_next w. retrying g w \<longrightarrow> retrying g v \<or> gone g v)"

lemma stays_retrying_rel: "reflp stays_retrying" "transp stays_retrying"
  by (auto simp: stays_retrying_def reflp_def transp_def) (meson gone_def less_le_trans)+

lemma stays_retrying_bodies:
  assumes "same_bodies w v" "wk_next w = wk_next v"
  shows "stays_retrying w v"
proof -
  have "wk_goals v g = None" if "wk_goals w g = None" for g
  proof -
    have "rel_option quiet_goal (wk_goals w g) (wk_goals v g)" using assms(1) by (simp add: same_bodies_def)
    then show ?thesis using that by (cases "wk_goals v g") simp_all
  qed
  then show ?thesis
    using assms by (auto simp: stays_retrying_def gone_def retrying_same_bodies)
qed

lemma stays_retrying_mod:
  assumes "retrying g w \<Longrightarrow> retrying g (w \<lparr> wk_goals := (wk_goals w)(g := map_option f (wk_goals w g)) \<rparr>)"
  shows "stays_retrying w (w \<lparr> wk_goals := (wk_goals w)(g := map_option f (wk_goals w g)) \<rparr>)"
  unfolding stays_retrying_def
proof (intro conjI allI impI)
  fix h assume "retrying h w" then show "retrying h (w \<lparr> wk_goals := (wk_goals w)(g := map_option f (wk_goals w g)) \<rparr>) \<or>
      gone h (w \<lparr> wk_goals := (wk_goals w)(g := map_option f (wk_goals w g)) \<rparr>)"
    using assms by (cases "h = g") (auto simp: retrying_def)
qed (auto simp: gone_def)

lemma retrying_cases:
  assumes "retrying g w"
  obtains x b where "wk_goals w g = Some x" "g_body x = Drv b" "dg_retrySubstitution b"
    "dg_state b \<notin> {D_tryToBuild, D_buildDone}"
  using assms by (auto simp: retrying_def split: option.splits goal_body.splits)

lemma same_next:
  "wk_next (snd (childStarted g pid fds slot resp w)) = wk_next w" "wk_next (snd (childTerminated pid' wake w)) = wk_next w"
proof -
  have rel: "reflp (\<lambda>w v. wk_next v = wk_next w)" "transp (\<lambda>w v. wk_next v = wk_next w)"
    by (auto simp: reflp_def transp_def)
  have wake: "keeps (\<lambda>w v. wk_next v = wk_next w) (wake_all gs)" for gs
    using quiet_wake_all by (rule keeps_mono) (simp add: quiet_def)
  have modify: "keeps (\<lambda>w v. wk_next v = wk_next w) (amodify f)" if "\<And>w. wk_next (f w) = wk_next w" for f
    using that by (simp add: keeps_def action_run)
  have "keeps (\<lambda>w v. wk_next v = wk_next w) (childTerminated pid' wake)"
    unfolding childTerminated_def
    by (intro keeps_pure [OF rel(1)] keeps_abind [OF rel(2)] keeps_cases wake modify) simp_all
  then show "wk_next (snd (childTerminated pid' wake w)) = wk_next w" by (rule keepsD)
  show "wk_next (snd (childStarted g pid fds slot resp w)) = wk_next w" by (simp add: childStarted_def action_run)
qed

interpretation retry: free_steps env stays_retrying for env
proof unfold_locales
  show "reflp stays_retrying" "transp stays_retrying" by (rule stays_retrying_rel)+
  show "quiet w v \<Longrightarrow> stays_retrying w v" for w v
    by (rule stays_retrying_bodies) (simp_all add: quiet_same_bodies quiet_def)
  show "stays_retrying w (snd (childStarted g pid fds slot resp w))" for g pid fds slot resp w
    by (rule stays_retrying_bodies [OF keepsD [OF same_bodies_children(1)]]) (simp add: same_next)
  show "keeps stays_retrying (childTerminated pid wake)" for pid wake
    by (rule keepsI, rule stays_retrying_bodies [OF keepsD [OF same_bodies_children(2)]]) (simp add: same_next)
  show "keeps stays_retrying (mod_child pid f)" for pid f
    by (rule keepsI, rule stays_retrying_bodies)
      (auto simp: mod_child_def action_run same_bodies_def intro: option.rel_refl_strong split: option.split)
  show "stays_retrying w (snd (set_state g st w))"
    if "st \<in> {D_tryToBuild, D_buildDone} \<Longrightarrow> \<not> retrying g w" for st g w
    unfolding set_state_def mod_drv_def mod_goal_def action_run snd_conv
    by (rule stays_retrying_mod) (use that in \<open>auto simp: retrying_def split: option.splits goal_body.splits\<close>)
  show "keeps stays_retrying (mod_drv g (dg_retrySubstitution_update (\<lambda>_. True)))" for g
    unfolding mod_drv_def mod_goal_def
    by (rule keepsI, unfold action_run snd_conv, rule stays_retrying_mod) (auto simp: retrying_def split: option.splits goal_body.splits)
  show "keeps stays_retrying (mod_goal g h)" if "\<And>x. g_body (h x) = g_body x" for g h
    unfolding mod_goal_def
    by (rule keepsI, unfold action_run snd_conv, rule stays_retrying_mod) (auto simp: retrying_def that split: option.splits goal_body.splits)
  show "stays_retrying w v" if "wk_goals w = wk_goals v" "wk_next w = wk_next v" for w v
    using that by (intro stays_retrying_bodies) (simp_all add: same_bodies_def option.rel_refl)
  show "stays_retrying w (w \<lparr> wk_goals := (wk_goals w)(g := None) \<rparr>)" for w g
    by (auto simp: stays_retrying_def gone_def retrying_def)
  show "keeps stays_retrying (new_goal b)" for b
    by (rule keepsI) (auto simp: new_goal_def stays_retrying_def gone_def retrying_def)
qed

text \<open>
  C17: A derivation goal whose substitutes were found to have an incomplete closure sets a flag to try them again once its
  inputs are there.  Nothing resets the flag: whatever the processes and the file system do, the goal never
  gets to building its derivation.  It can only be found valid, fail, or go round in circles.
\<close>

theorem retry_never_builds:
  assumes "g < wk_next w" "wk_goals w g = Some x" "g_body x = Drv b" "dg_retrySubstitution b"
    and "dg_state b \<noteq> D_tryToBuild" "dg_state b \<noteq> D_buildDone"
    and "wk_goals (snd (worker_run fuel env gs w)) g = Some x'" "g_body x' = Drv b'"
  shows "dg_retrySubstitution b' \<and> dg_state b' \<noteq> D_tryToBuild \<and> dg_state b' \<noteq> D_buildDone"
proof -
  have "retrying g w" using assms(2-6) by (simp add: retrying_def)
  moreover have "stays_retrying w (snd (worker_run fuel env gs w))"
    by (rule keepsD [OF retry.steps.loop_keeps [unfolded carries_False]])
  ultimately have "retrying g (snd (worker_run fuel env gs w))"
    using assms(1,7) by (auto simp: stays_retrying_def gone_def)
  then show ?thesis using assms(7,8) by (auto elim!: retrying_cases)
qed

definition retrying_worker :: Worker where
  "retrying_worker =
     (Worker_new [] sample_world) \<lparr>
       wk_goals := [0 \<mapsto> Goal_new (Drv ((DerivationGoal_new ''/s/x.drv'' [] bmNormal) \<lparr> dg_retrySubstitution := True \<rparr>))],
       wk_next := 1 \<rparr>"

theorem retry_never_builds_witness:
  "\<exists>x b. wk_goals (snd (worker_run 0 sample_build [] retrying_worker)) 0 = Some x \<and> g_body x = Drv b \<and>
     dg_retrySubstitution b \<and> dg_state b \<noteq> D_tryToBuild \<and> dg_state b \<noteq> D_buildDone"
proof -
  let ?b = "(DerivationGoal_new ''/s/x.drv'' [] bmNormal) \<lparr> dg_retrySubstitution := True \<rparr>"
  have run: "wk_goals (snd (worker_run 0 sample_build [] retrying_worker)) 0 = Some (Goal_new (Drv ?b))"
    by (simp add: worker_run_def retrying_worker_def Worker_new_def athrow_def abind_def aget_def amodify_def areturn_def)
  have "dg_retrySubstitution ?b \<and> dg_state ?b \<noteq> D_tryToBuild \<and> dg_state ?b \<noteq> D_buildDone"
    by (rule retry_never_builds [of 0 retrying_worker "Goal_new (Drv ?b)" ?b 0 sample_build "[]" "Goal_new (Drv ?b)" ?b])
      (simp_all add: run, simp_all add: retrying_worker_def Goal_new_def DerivationGoal_new_def)
  with run show ?thesis by (auto simp: Goal_new_def)
qed

end
