(* ===== verification/Open_Store.thy ===== *)
theory Open_Store
  imports Worker
begin

text \<open>
  Opening and closing a store, after the constructor and the destructor of \<^verbatim>\<open>LocalStore\<close> in
  \<^verbatim>\<open>src/nix/libstore/local-store.cc\<close>.  The tables of the database are part of the state, so that opening the
  database file has no effect on them; that SQLite cannot open it is left out, and so are mounts that are read-only.
\<close>

text \<open>The store and the directories above it; \<^verbatim>\<open>dirOf\<close> gives a shorter path.\<close>

primrec checkStoreNotSymlink_loop :: "nat \<Rightarrow> Path \<Rightarrow> (unit, file_system) action" where
  "checkStoreNotSymlink_loop 0 path = athrow OutOfFuel"
| "checkStoreNotSymlink_loop (Suc fuel) path =
     (if path = ''/'' then areturn ()
      else
        abind (or_throw ''getting status'' (sys_lstat path)) (\<lambda>st.
        if (case st_data st of DLnk _ \<Rightarrow> True | _ \<Rightarrow> False) then
          athrow (Throw Error ''the path is a symlink; this is not allowed for the store and its parent directories'')
        else abind (alift (dirOf path)) (checkStoreNotSymlink_loop fuel)))"

definition checkStoreNotSymlink :: "daemon_env \<Rightarrow> (unit, file_system) action" where
  "checkStoreNotSymlink env =
     (if getEnv (de_getenv env) ''NIX_IGNORE_SYMLINK_STORE'' [] = ''1'' then areturn ()
      else checkStoreNotSymlink_loop (Suc (length (de_store env))) (de_store env))"

definition nixSchemaVersion :: int where
  "nixSchemaVersion = 7"

definition schemaPath :: "daemon_env \<Rightarrow> Path" where
  "schemaPath env = nixDBPath (de_settings env) @ ''/schema''"

definition getSchema :: "daemon_env \<Rightarrow> (int, file_system) action" where
  "getSchema env =
     abind (pathExists (schemaPath env)) (\<lambda>ex.
     if \<not> ex then areturn 0
     else
       abind (readFile (schemaPath env)) (\<lambda>s.
       case string2Int S32 s 0 of
         (True, n) \<Rightarrow> areturn n
       | (False, _) \<Rightarrow> athrow (Throw Error ''schema file is corrupt'')))"

text \<open>\<^verbatim>\<open>access\<close> looks at the path; the daemon may read and write what exists.\<close>

definition openDB :: "daemon_env \<Rightarrow> (unit, file_system) action" where
  "openDB env =
     abind (or_throw ''store database directory is not writable'' (sys_stat True (nixDBPath (de_settings env)))) (\<lambda>_.
     areturn ())"

text \<open>The directories of the state, with a root for the profiles when the directory of roots is new.\<close>

definition state_directories :: "daemon_env \<Rightarrow> (unit, file_system) action" where
  "state_directories env =
     (let state = nixStateDir (de_settings env);
          profilesDir = state @ ''/profiles'';
          gcRootsDir = state @ ''/gcroots''
      in
      abind (createDirs (de_store env)) (\<lambda>_.
      abind (createDirs (de_store env @ ''/.links'')) (\<lambda>_.
      abind (createDirs profilesDir) (\<lambda>_.
      abind (createDirs (state @ ''/temproots'')) (\<lambda>_.
      abind (createDirs (nixDBPath (de_settings env))) (\<lambda>_.
      abind (pathExists gcRootsDir) (\<lambda>ex.
      abind (if ex then areturn ()
             else abind (createDirs gcRootsDir) (\<lambda>_. fs_createSymlink profilesDir (gcRootsDir @ ''/profiles''))) (\<lambda>_.
      abind (createDirs (profilesDir @ ''/per-user'')) (\<lambda>_. areturn ())))))))))"

definition multi_user :: "daemon_env \<Rightarrow> accounts \<Rightarrow> (unit, file_system) action" where
  "multi_user env acc =
     (if acc_uid acc = 0 \<and> buildUsersGroup (de_settings env) \<noteq> [] then
        abind (or_throw ''could not set permissions'' (sys_chmod (nixStateDir (de_settings env) @ ''/profiles/per-user'') 493)) (\<lambda>_.
        case getgrnam acc (buildUsersGroup (de_settings env)) of
          None \<Rightarrow> athrow (Throw Error ''the group specified in build-users-group does not exist'')
        | Some (gid, _) \<Rightarrow>
            abind (or_throw ''getting attributes of path'' (sys_stat True (de_store env))) (\<lambda>st.
            if st_uid st \<noteq> 0 \<or> st_gid st \<noteq> gid \<or> st_perm st \<noteq> 1021 then
              abind (or_throw ''changing ownership of path'' (sys_chown_group (de_store env) (Some 0) (Some gid))) (\<lambda>_.
              or_throw ''changing permissions on path'' (sys_chmod (de_store env) 1021))
            else areturn ()))
      else areturn ())"

text \<open>
  \<^verbatim>\<open>posix_fallocate\<close> fills a file up with zero bytes.  It returns an error number and never -1, so that what it
  returns makes no difference.
\<close>

definition sys_fallocate :: "nat \<Rightarrow> nat \<Rightarrow> (nat + unit, file_system) action" where
  "sys_fallocate i n =
     sys (\<lambda>fs. case fs_data fs i of
       DReg s \<Rightarrow> Inr ((), fs \<lparr> fs_data := (fs_data fs)(i := DReg (s @ replicate (n - length s) (CHR 0x00))) \<rparr>)
     | _ \<Rightarrow> Inl EBADF)"

definition reserve_space :: "daemon_env \<Rightarrow> bool \<Rightarrow> (unit, file_system) action" where
  "reserve_space env reserveSpace =
     (let reservedPath = nixDBPath (de_settings env) @ ''/reserved'';
          n = nat (reservedSize (de_settings env))
      in acatch
        (if reserveSpace then
           abind (sys_stat True reservedPath) (\<lambda>st.
           if (case st of Inl _ \<Rightarrow> True | Inr st \<Rightarrow> st_size st \<noteq> n) then
             abind (sys_open reservedPath (Some 384) True False) (\<lambda>fd.
             case fd of
               Inl _ \<Rightarrow> areturn ()
             | Inr fd \<Rightarrow> abind (sys_fallocate fd n) (\<lambda>_. areturn ()))
           else areturn ())
         else abind (deletePath reservedPath 1) (\<lambda>_. areturn ()))
        (\<lambda>c msg. case c of SysError _ \<Rightarrow> areturn () | _ \<Rightarrow> athrow (Throw c msg)))"

definition check_schema :: "daemon_env \<Rightarrow> (unit, file_system) action" where
  "check_schema env =
     abind (getSchema env) (\<lambda>curSchema.
     if curSchema > nixSchemaVersion then athrow (Throw Error ''current store schema is too new'')
     else if curSchema = 0 then
       abind (openDB env) (\<lambda>_. writeFile (schemaPath env) (show_nat (nat nixSchemaVersion)))
     else if curSchema < nixSchemaVersion then
       athrow (Throw Error ''Your store database uses an implausibly old schema'')
     else openDB env)"

text \<open>The constructor; the result says whether the store is open for reading only from now on.\<close>

definition LocalStore_open :: "daemon_env \<Rightarrow> accounts \<Rightarrow> bool \<Rightarrow> (bool, local_store) action" where
  "LocalStore_open env acc reserveSpace =
     (if readOnlyMode (de_settings env) then abind (on_fs (openDB env)) (\<lambda>_. areturn True)
      else
        abind (on_fs (state_directories env)) (\<lambda>_.
        abind (on_fs (multi_user env acc)) (\<lambda>_.
        abind (on_fs (checkStoreNotSymlink env)) (\<lambda>_.
        abind (on_fs (reserve_space env reserveSpace)) (\<lambda>_.
        abind (on_fs (acatch (openLockFile (nixDBPath (de_settings env) @ ''/big-lock'') True)
                 (\<lambda>c msg. if c = SysError EACCES then areturn None else athrow (Throw c msg)))) (\<lambda>globalLock.
        case globalLock of
          None \<Rightarrow> abind (on_fs (openDB env)) (\<lambda>_. areturn True)
        | Some fd \<Rightarrow>
            abind (lockFile fd ltRead False) (\<lambda>got.
            abind (if got then areturn True else lockFile fd ltRead True) (\<lambda>_.
            abind (on_fs (check_schema env)) (\<lambda>_. areturn False)))))))))"

text \<open>The destructor.\<close>

definition LocalStore_close :: "(unit, local_store) action" where
  "LocalStore_close =
     abind (aget ls_fdTempRoots) (\<lambda>fd.
     if fd = None then areturn ()
     else
       abind (aget ls_fnTempRoots) (\<lambda>fn.
       abind (on_fs (sys_unlink fn)) (\<lambda>_.
       amodify (\<lambda>s. s \<lparr> ls_fdTempRoots := None \<rparr>))))"

end
