(* ===== verification/Daemon.thy ===== *)
theory Daemon
  imports Open_Store
begin

text \<open>
  The side of the daemon that talks to a client, after \<^verbatim>\<open>src/nix/nix-daemon/nix-daemon.cc\<close> and
  \<^verbatim>\<open>src/nix/libstore/worker-protocol.hh\<close>: the greeting, the loop over operations, and every operation.  What the client sends is the input, all
  of it from the start; what it gets is the output.  The tunnel for log messages, signals, and a client that goes away while
  the daemon works are left out.
\<close>

unbundle bit_operations_syntax

section \<open>The protocol\<close>

datatype WorkerOp =
    wopIsValidPath | wopHasSubstitutes | wopQueryPathHash | wopQueryReferences | wopQueryReferrers | wopAddToStore
  | wopAddTextToStore | wopBuildPaths | wopEnsurePath | wopAddTempRoot | wopAddIndirectRoot | wopSyncWithGC | wopFindRoots
  | wopExportPath | wopQueryDeriver | wopSetOptions | wopCollectGarbage | wopQuerySubstitutablePathInfo
  | wopQueryDerivationOutputs | wopQueryAllValidPaths | wopQueryFailedPaths | wopClearFailedPaths | wopQueryPathInfo
  | wopImportPaths | wopQueryDerivationOutputNames | wopQueryPathFromHashPart | wopQuerySubstitutablePathInfos
  | wopQueryValidPaths | wopQuerySubstitutablePaths | wopQueryValidDerivers | wopOptimiseStore | wopVerifyStore
  | wopBuiltinBuilders | wopSubstituteURLs

definition WorkerOp_of :: "32 word \<Rightarrow> WorkerOp option" where
  "WorkerOp_of = map_of
     [(1, wopIsValidPath), (3, wopHasSubstitutes), (4, wopQueryPathHash), (5, wopQueryReferences), (6, wopQueryReferrers),
      (7, wopAddToStore), (8, wopAddTextToStore), (9, wopBuildPaths), (10, wopEnsurePath), (11, wopAddTempRoot),
      (12, wopAddIndirectRoot), (13, wopSyncWithGC), (14, wopFindRoots), (16, wopExportPath), (18, wopQueryDeriver),
      (19, wopSetOptions), (20, wopCollectGarbage), (21, wopQuerySubstitutablePathInfo), (22, wopQueryDerivationOutputs),
      (23, wopQueryAllValidPaths), (24, wopQueryFailedPaths), (25, wopClearFailedPaths), (26, wopQueryPathInfo),
      (27, wopImportPaths), (28, wopQueryDerivationOutputNames), (29, wopQueryPathFromHashPart),
      (30, wopQuerySubstitutablePathInfos), (31, wopQueryValidPaths), (32, wopQuerySubstitutablePaths),
      (33, wopQueryValidDerivers), (34, wopOptimiseStore), (35, wopVerifyStore), (80, wopBuiltinBuilders),
      (81, wopSubstituteURLs)]"

definition WORKER_MAGIC_1 :: "32 word" where "WORKER_MAGIC_1 = 0x6e697863"
definition WORKER_MAGIC_2 :: "32 word" where "WORKER_MAGIC_2 = 0x6478696f"
definition PROTOCOL_VERSION :: "32 word" where "PROTOCOL_VERSION = 0x164"
definition STDERR_READ :: "32 word" where "STDERR_READ = 0x64617461"
definition STDERR_WRITE :: "32 word" where "STDERR_WRITE = 0x64617416"
definition STDERR_LAST :: "32 word" where "STDERR_LAST = 0x616c7473"
definition STDERR_ERROR :: "32 word" where "STDERR_ERROR = 0x63787470"

definition GET_PROTOCOL_MINOR :: "32 word \<Rightarrow> 32 word" where
  "GET_PROTOCOL_MINOR x = x AND 0x00ff"

section \<open>A connection\<close>

text \<open>
  How the processes of the n-th operation behave, the events for the worker it runs (by the path it is for, in an operation
  that runs several), the status that an exception carries, the bound on the rounds of a worker, and the users by their number.
\<close>

record server =
  sv_env :: "nat \<Rightarrow> build_env"
  sv_events :: "nat \<Rightarrow> Path \<Rightarrow> (int option \<Rightarrow> select_event) list"
  sv_status :: "exn \<Rightarrow> string \<Rightarrow> 32 word"
  sv_fuel :: nat
  sv_getpwuid :: "int \<Rightarrow> passwd option"

record connection =
  cn_settings :: Settings
  cn_world :: world
  cn_in :: source
  cn_out :: sink_calls
  cn_canSendStderr :: bool
  cn_opCount :: nat

definition cn_env :: "server \<Rightarrow> connection \<Rightarrow> build_env" where
  "cn_env sv c =
     (let env = sv_env sv (cn_opCount c) in env \<lparr> be_daemon := (be_daemon env) \<lparr> de_settings := cn_settings c \<rparr> \<rparr>)"

definition recv :: "(source \<Rightarrow> ('a \<times> source) result) \<Rightarrow> ('a, connection) action" where
  "recv f c = (case f (cn_in c) of Inl e \<Rightarrow> (Inl e, c) | Inr (x, rest) \<Rightarrow> (Inr x, c \<lparr> cn_in := rest \<rparr>))"

definition reply :: "sink_calls \<Rightarrow> (unit, connection) action" where
  "reply calls = amodify (\<lambda>c. c \<lparr> cn_out := cn_out c @ calls \<rparr>)"

definition on_cw :: "('a, world) action \<Rightarrow> ('a, connection) action" where
  "on_cw m c = (case m (cn_world c) of (r, w) \<Rightarrow> (r, c \<lparr> cn_world := w \<rparr>))"

definition on_cl :: "('a, local_store) action \<Rightarrow> ('a, connection) action" where
  "on_cl m = on_cw (on_world m)"

definition mod_settings :: "(Settings \<Rightarrow> Settings) \<Rightarrow> (unit, connection) action" where
  "mod_settings f = amodify (\<lambda>c. c \<lparr> cn_settings := f (cn_settings c) \<rparr>)"

definition startWork :: "(unit, connection) action" where
  "startWork = amodify (\<lambda>c. c \<lparr> cn_canSendStderr := True \<rparr>)"

text \<open>\<^verbatim>\<open>stopWork\<close> after success, and with the message and the status of an exception.\<close>

definition stopWork :: "(unit, connection) action" where
  "stopWork = abind (amodify (\<lambda>c. c \<lparr> cn_canSendStderr := False \<rparr>)) (\<lambda>_. reply (writeInt STDERR_LAST))"

definition stopWork_error :: "string \<Rightarrow> 32 word \<Rightarrow> (unit, connection) action" where
  "stopWork_error msg status =
     abind (amodify (\<lambda>c. c \<lparr> cn_canSendStderr := False \<rparr>)) (\<lambda>_.
     reply (writeInt STDERR_ERROR @ writeString msg @ (if status \<noteq> 0 then writeInt status else [])))"

definition working :: "('a, connection) action \<Rightarrow> ('a, connection) action" where
  "working m = abind startWork (\<lambda>_. abind m (\<lambda>x. abind stopWork (\<lambda>_. areturn x)))"

section \<open>Streams inside the protocol\<close>

definition TunnelSink_frames :: "sink_calls \<Rightarrow> sink_calls" where
  "TunnelSink_frames calls =
     concat (map (\<lambda>piece. writeInt STDERR_WRITE @ writeString piece)
       (written (BufferedSink_flush (fold BufferedSink_call calls (new_BufferedSink (64 * 1024))))))"

text \<open>
  A \<^verbatim>\<open>TunnelSource\<close>: the reader \<open>f\<close> gets what has arrived so far, and when it comes to the end of that the client is asked for
  more.  The attempts all start from the same state, and only the last one counts.  While the daemon
  reads from the client it does not send messages; it does again when an empty piece makes it throw.
\<close>

definition read_limit :: nat where "read_limit = 32 * 1024"

primrec with_TunnelSource :: "nat \<Rightarrow> (source \<Rightarrow> ('a \<times> source, world) action) \<Rightarrow> string \<Rightarrow> ('a, connection) action" where
  "with_TunnelSource 0 f got = athrow OutOfFuel"
| "with_TunnelSource (Suc fuel) f got =
     (\<lambda>c. case f got (cn_world c) of (r, w) \<Rightarrow>
        if r = Inl (Throw EndOfFile ''end of string reached'') then
          (let c' = c \<lparr> cn_canSendStderr := False, cn_out := cn_out c @ writeInt STDERR_READ @ writeInt (word_of_nat read_limit) \<rparr>
           in case readString_max read_limit (cn_in c) of
                Inl e \<Rightarrow> (Inl e, c' \<lparr> cn_world := w \<rparr>)
              | Inr (s, rest) \<Rightarrow>
                  if s = [] then
                    (Inl (Throw EndOfFile ''unexpected end-of-file''),
                     c' \<lparr> cn_world := w, cn_in := rest, cn_canSendStderr := True \<rparr>)
                  else with_TunnelSource fuel f (got @ s) (c' \<lparr> cn_in := rest, cn_canSendStderr := True \<rparr>))
        else (rbind r (\<lambda>(x, _). Inr x), c \<lparr> cn_world := w \<rparr>))"

text \<open>The sink that keeps nothing, and the one for the contents of a single file.\<close>

definition null_sink :: "unit parse_sink" where
  "null_sink =
     \<lparr> createDirectory = (\<lambda>_. areturn ()), createRegularFile = (\<lambda>_. areturn ()), isExecutable = areturn (),
       preallocateContents = (\<lambda>_. areturn ()), receiveContents = (\<lambda>_. areturn ()), createSymlink = (\<lambda>_ _. areturn ()) \<rparr>"

record RetrieveRegularNARSink =
  rr_regular :: bool
  rr_s :: string

definition RetrieveRegularNARSink_sink :: "RetrieveRegularNARSink parse_sink" where
  "RetrieveRegularNARSink_sink =
     \<lparr> createDirectory = (\<lambda>_. amodify (\<lambda>k. k \<lparr> rr_regular := False \<rparr>)), createRegularFile = (\<lambda>_. areturn ()),
       isExecutable = areturn (), preallocateContents = (\<lambda>_. areturn ()),
       receiveContents = (\<lambda>data. amodify (\<lambda>k. k \<lparr> rr_s := rr_s k @ data \<rparr>)),
       createSymlink = (\<lambda>_ _. amodify (\<lambda>k. k \<lparr> rr_regular := False \<rparr>)) \<rparr>"

text \<open>Parsing an archive from the client, with the text that was read, which a \<^verbatim>\<open>SavingSourceAdapter\<close> keeps.\<close>

definition parse_saving :: "'s parse_sink \<Rightarrow> 's \<Rightarrow> (string \<times> 's, connection) action" where
  "parse_saving sink k c =
     (case parseDump sink (cn_in c) k of
        (Inl e, _) \<Rightarrow> (Inl e, c)
      | (Inr rest, k') \<Rightarrow> (Inr (take (length (cn_in c) - length rest) (cn_in c), k'), c \<lparr> cn_in := rest \<rparr>))"

section \<open>Operations\<close>

text \<open>Questions about one path whose answer is a set of strings.\<close>

definition query_strings :: "build_env \<Rightarrow> (Path \<Rightarrow> database \<Rightarrow> string oset result) \<Rightarrow> (unit, connection) action" where
  "query_strings env q =
     abind (recv (readStorePath (be_store env))) (\<lambda>path.
     abind (working (on_cl (ask (q path)))) (\<lambda>res.
     reply (writeStrings res)))"

definition op_isValidPath :: "build_env \<Rightarrow> (unit, connection) action" where
  "op_isValidPath env =
     abind (recv readString) (\<lambda>path.
     abind (working (
       abind (alift (assertStorePath (be_store env) path)) (\<lambda>_. on_cl (is_valid path)))) (\<lambda>result.
     reply (writeInt (of_bool result))))"

definition op_addToStore :: "build_env \<Rightarrow> (unit, connection) action" where
  "op_addToStore env =
     abind (recv readString) (\<lambda>baseName.
     abind (recv readInt) (\<lambda>fixed.
     abind (recv readInt) (\<lambda>recursive.
     abind (recv readString) (\<lambda>s.
     let recursive = (fixed \<noteq> 1 \<or> recursive = 1);
         hashAlgo = parseHashType (if fixed \<noteq> 1 then ''sha256'' else s)
     in
     abind (if recursive then abind (parse_saving null_sink ()) (\<lambda>(nar, _). areturn (True, nar))
            else abind (parse_saving RetrieveRegularNARSink_sink \<lparr> rr_regular = True, rr_s = [] \<rparr>) (\<lambda>(_, k).
                 areturn (rr_regular k, rr_s k))) (\<lambda>(regular, contents).
     abind (working (
       if \<not> regular then athrow (Throw Error ''regular file expected'')
       else on_cl (addToStoreFromDump (be_daemon env) contents baseName recursive hashAlgo False))) (\<lambda>path.
     reply (writeString path)))))))"

definition op_addTextToStore :: "build_env \<Rightarrow> (unit, connection) action" where
  "op_addTextToStore env =
     abind (recv readString) (\<lambda>suffix.
     abind (recv readString) (\<lambda>s.
     abind (recv (readStorePaths (be_store env))) (\<lambda>refs.
     abind (working (on_cl (addTextToStore (be_daemon env) suffix s refs False))) (\<lambda>path.
     reply (writeString path)))))"

text \<open>What an export that fails has sent by then is left out.\<close>

definition op_exportPath :: "build_env \<Rightarrow> (unit, connection) action" where
  "op_exportPath env =
     abind (recv (readStorePath (be_store env))) (\<lambda>path.
     abind (recv readInt) (\<lambda>sign.
     abind (working (
       abind (on_cw (exportPath (be_daemon env) (be_agents env) path (sign = 1))) (\<lambda>calls.
       reply (TunnelSink_frames calls)))) (\<lambda>_.
     reply (writeInt 1))))"

definition op_importPaths :: "build_env \<Rightarrow> (unit, connection) action" where
  "op_importPaths env =
     abind (working (
       abind (aget (\<lambda>c. Suc (length (cn_in c)))) (\<lambda>n.
       with_TunnelSource n (importPaths (be_daemon env) (be_agents env) True) []))) (\<lambda>paths.
     reply (writeStrings paths))"

text \<open>A number that is not a build mode stops the run: the language does not say what the conversion gives.\<close>

definition BuildMode_of :: "32 word \<Rightarrow> BuildMode option" where
  "BuildMode_of = map_of [(0, bmNormal), (1, bmRepair), (2, bmCheck)]"

definition GCAction_of :: "32 word \<Rightarrow> GCAction option" where
  "GCAction_of = map_of [(0, gcReturnLive), (1, gcReturnDead), (2, gcDeleteDead), (3, gcDeleteSpecific)]"

definition known :: "'a option \<Rightarrow> ('a, connection) action" where
  "known x = (case x of None \<Rightarrow> athrow (Abort ''not a value of the enumeration'') | Some v \<Rightarrow> areturn v)"

definition op_buildPaths :: "server \<Rightarrow> build_env \<Rightarrow> nat \<Rightarrow> bool \<Rightarrow> 32 word \<Rightarrow> (unit, connection) action" where
  "op_buildPaths sv env n trusted clientVersion =
     abind (recv (readStorePaths (be_store env))) (\<lambda>drvs.
     abind (if GET_PROTOCOL_MINOR clientVersion \<ge> 15 then
              abind (recv readInt) (\<lambda>m. known (BuildMode_of m))
            else areturn bmNormal) (\<lambda>mode.
     if mode = bmRepair \<and> \<not> trusted then athrow (Throw Error ''repairing is a privileged operation'')
     else
       abind (working (on_cw (buildPaths (sv_fuel sv) env (sv_events sv n []) drvs mode))) (\<lambda>_.
       reply (writeInt 1))))"

definition op_findRoots :: "build_env \<Rightarrow> (unit, connection) action" where
  "op_findRoots env =
     abind (working (on_cl (findRoots (be_daemon env)))) (\<lambda>roots.
     reply (writeInt (word_of_nat (length roots)) @ concat (map (\<lambda>(a, b). writeString a @ writeString b) roots)))"

definition collect_results :: "daemon_env \<Rightarrow> GCOptions \<Rightarrow> (GCResults, local_store) action" where
  "collect_results env options s =
     (case collectGarbage env options GCResults_init s of ((r, results), t) \<Rightarrow> (rbind r (\<lambda>_. Inr results), t))"

definition op_collectGarbage :: "build_env \<Rightarrow> bool \<Rightarrow> 32 word \<Rightarrow> (unit, connection) action" where
  "op_collectGarbage env isRemoteConnection clientVersion =
     (if isRemoteConnection then athrow (Throw Error ''Garbage collection is disabled for remote hosts.'')
      else
        abind (recv readInt) (\<lambda>action.
        abind (known (GCAction_of action)) (\<lambda>action.
        abind (recv (readStorePaths (be_store env))) (\<lambda>paths.
        abind (recv readInt) (\<lambda>ignore.
        abind (recv readLongLong) (\<lambda>maxFreed.
        abind (recv readInt) (\<lambda>_.
        abind (if GET_PROTOCOL_MINOR clientVersion \<ge> 5 then
                 abind (recv readInt) (\<lambda>_. abind (recv readInt) (\<lambda>_. areturn ()))
               else areturn ()) (\<lambda>_.
        let options = \<lparr> gc_action = action, ignoreLiveness = (ignore \<noteq> 0), pathsToDelete = paths, maxFreed = maxFreed \<rparr> in
        abind (working (
          if ignoreLiveness options then athrow (Throw Error ''you are not allowed to ignore liveness'')
          else on_cl (collect_results (be_daemon env) options))) (\<lambda>results.
        reply (writeStrings (gc_paths results) @ writeLongLong (bytesFreed results) @ writeLongLong 0))))))))))"

text \<open>One option by name; names that are not known to be harmless are put aside when the client is not trusted.\<close>

definition harmless_options :: "string list" where
  "harmless_options =
     [''build-timeout'', ''build-max-silent-time'', ''build-max-jobs'', ''build-cores'', ''build-repeat'',
      ''multiplexed-build-output'']"

definition set_option :: "build_env \<Rightarrow> bool \<Rightarrow> (unit, connection) action" where
  "set_option env trusted =
     abind (recv readString) (\<lambda>name.
     abind (recv readString) (\<lambda>val.
     abind (aget (\<lambda>c. clientUid (cn_settings c))) (\<lambda>uid.
     if name \<in> set harmless_options then mod_settings (Settings_set name val)
     else if name = ''user-name'' \<and> id_arg uid = None then
       (case getpwnam (be_accounts env) (takeWhile (\<lambda>ch. ch \<noteq> CHR 0x00) val) of
          Some pw \<Rightarrow> on_cl (on_fs (createUser (be_daemon env) val (pw_uid pw)))
        | None \<Rightarrow> areturn ())
     else mod_settings (Settings_set (if trusted then name else ''untrusted-'' @ name) val))))"

definition recv_flag :: "(bool, connection) action" where
  "recv_flag = abind (recv readInt) (\<lambda>n. areturn (n \<noteq> 0))"

definition truth :: "bool \<Rightarrow> string" where
  "truth b = (if b then ''true'' else ''false'')"

text \<open>The verbosity of the daemon and the format of its log are read, and left out of the model.\<close>

definition op_setOptions :: "build_env \<Rightarrow> bool \<Rightarrow> bool \<Rightarrow> 32 word \<Rightarrow> (unit, connection) action" where
  "op_setOptions env trusted isRemoteConnection clientVersion =
     (let minor = GET_PROTOCOL_MINOR clientVersion;
          number = (\<lambda>name. abind (recv readInt) (\<lambda>n. mod_settings (Settings_set name (show_nat (unat n)))))
      in
      abind recv_flag (\<lambda>keep.
      abind (mod_settings (keepFailed_update (\<lambda>_. keep \<and> \<not> isRemoteConnection))) (\<lambda>_.
      abind recv_flag (\<lambda>going.
      abind (mod_settings (keepGoing_update (\<lambda>_. going))) (\<lambda>_.
      abind recv_flag (\<lambda>fallback.
      abind (mod_settings (Settings_set ''build-fallback'' (truth fallback))) (\<lambda>_.
      abind (recv readInt) (\<lambda>_.
      abind (if minor < 0x61 then
               abind (number ''build-max-jobs'') (\<lambda>_. number ''build-max-silent-time'')
             else areturn ()) (\<lambda>_.
      abind (if minor \<ge> 2 then
               abind recv_flag (\<lambda>hook. mod_settings (useBuildHook_update (\<lambda>_. hook)))
             else areturn ()) (\<lambda>_.
      abind (if minor \<ge> 4 then
               abind (recv readInt) (\<lambda>v.
               abind (mod_settings (buildVerbosity_update (\<lambda>_. unat v))) (\<lambda>_.
               abind (recv readInt) (\<lambda>_.
               abind recv_flag (\<lambda>trace. mod_settings (printBuildTrace_update (\<lambda>_. trace))))))
             else areturn ()) (\<lambda>_.
      abind (if minor \<ge> 6 \<and> minor < 0x61 then number ''build-cores'' else areturn ()) (\<lambda>_.
      abind (if minor \<ge> 10 then
               abind (aget (\<lambda>c. useSubstitutes (cn_settings c))) (\<lambda>use.
               abind recv_flag (\<lambda>b.
               if use then mod_settings (Settings_set ''build-use-substitutes'' (truth b)) else areturn ()))
             else areturn ()) (\<lambda>_.
      abind (if minor \<ge> 12 then
               abind (recv readInt) (\<lambda>n. aforeach (replicate (unat n) ()) (\<lambda>_. set_option env trusted))
             else areturn ()) (\<lambda>_.
      abind (\<lambda>c. case Settings_update (cn_settings c) of (r, s) \<Rightarrow> (r, c \<lparr> cn_settings := s \<rparr>)) (\<lambda>_.
      working (areturn ()))))))))))))))))"

definition write_info :: "SubstitutablePathInfo \<Rightarrow> sink_calls" where
  "write_info info =
     writeString (sub_deriver info) @ writeStrings (sub_references info) @ writeLongLong (sub_downloadSize info)"

definition op_querySubstitutablePathInfo :: "build_env \<Rightarrow> 32 word \<Rightarrow> (unit, connection) action" where
  "op_querySubstitutablePathInfo env clientVersion =
     abind (recv readString) (\<lambda>s.
     abind (alift (absPath (Inr ''/'') s [])) (\<lambda>path.
     abind (working (on_cw (querySubstitutablePathInfos (be_daemon env) (be_agents env) [path] []))) (\<lambda>infos.
     reply (case map_of infos path of
              None \<Rightarrow> writeInt 0
            | Some info \<Rightarrow>
                writeInt 1 @ write_info info @
                (if GET_PROTOCOL_MINOR clientVersion \<ge> 7 then writeLongLong (sub_narSize info) else [])))))"

definition op_querySubstitutablePathInfos :: "build_env \<Rightarrow> (unit, connection) action" where
  "op_querySubstitutablePathInfos env =
     abind (recv (readStorePaths (be_store env))) (\<lambda>paths.
     abind (working (on_cw (querySubstitutablePathInfos (be_daemon env) (be_agents env) paths []))) (\<lambda>infos.
     reply (writeInt (word_of_nat (length infos)) @
       concat (map (\<lambda>(p, info). writeString p @ write_info info @ writeLongLong (sub_narSize info)) infos))))"

definition op_queryPathInfo :: "build_env \<Rightarrow> (unit, connection) action" where
  "op_queryPathInfo env =
     abind (recv (readStorePath (be_store env))) (\<lambda>path.
     abind (working (on_cl (ask (queryPathInfo (be_gcrypt env) (be_store env) path)))) (\<lambda>info.
     reply (writeString (vpi_deriver info) @ writeString (printHash (vpi_hash info)) @ writeStrings (vpi_references info) @
       writeInt (word_of_int (vpi_registrationTime info)) @ writeLongLong (vpi_narSize info))))"

definition op_verifyStore :: "server \<Rightarrow> build_env \<Rightarrow> nat \<Rightarrow> bool \<Rightarrow> (unit, connection) action" where
  "op_verifyStore sv env n trusted =
     abind recv_flag (\<lambda>checkContents.
     abind recv_flag (\<lambda>repair.
     abind (working (
       if repair \<and> \<not> trusted then athrow (Throw Error ''you are not privileged to repair paths'')
       else on_cw (verifyStore (be_daemon env) (\<lambda>p. repairPath (sv_fuel sv) env (sv_events sv n p) p) checkContents repair))) (\<lambda>errors.
     reply (writeInt (of_bool errors)))))"

definition builtinBuilderNames :: "string list" where
  "builtinBuilderNames = [''download'', ''git-download'']"

text \<open>The addresses of the client come before those of the daemon.\<close>

definition substitute_urls :: "Settings \<Rightarrow> string list" where
  "substitute_urls s =
     (if Settings_get_string ''build-use-substitutes'' ''false'' s = ''true'' then
        let str = Settings_get_string ''untrusted-substitute-urls'' [] s in
        tokenizeString (if str = [] then Settings_get_string ''substitute-urls'' [] s else str) separators
      else [])"

definition acknowledge :: "('a, connection) action \<Rightarrow> (unit, connection) action" where
  "acknowledge m = abind (working m) (\<lambda>_. reply (writeInt 1))"

definition performOp :: "server \<Rightarrow> bool \<Rightarrow> bool \<Rightarrow> 32 word \<Rightarrow> 32 word \<Rightarrow> (unit, connection) action" where
  "performOp sv trusted isRemoteConnection clientVersion op =
     abind (aget (cn_env sv)) (\<lambda>env.
     abind (aget cn_opCount) (\<lambda>n.
     let g = be_gcrypt env; store = be_store env; denv = be_daemon env; agents = be_agents env;
         readPath = recv (readStorePath store); readPaths = recv (readStorePaths store)
     in case WorkerOp_of op of
       None \<Rightarrow> athrow (Throw Error ''invalid operation'')
     | Some wop \<Rightarrow>
         (case wop of
            wopIsValidPath \<Rightarrow> op_isValidPath env
          | wopQueryValidPaths \<Rightarrow>
              abind readPaths (\<lambda>paths.
              abind (working (on_cl (ask (\<lambda>db. Inr (queryValidPaths paths db))))) (\<lambda>res. reply (writeStrings res)))
          | wopHasSubstitutes \<Rightarrow>
              abind readPath (\<lambda>path.
              abind (working (on_cw (querySubstitutablePaths denv agents [path]))) (\<lambda>res.
              reply (writeInt (of_bool (path \<in> set res)))))
          | wopQuerySubstitutablePaths \<Rightarrow>
              abind readPaths (\<lambda>paths.
              abind (working (on_cw (querySubstitutablePaths denv agents paths))) (\<lambda>res. reply (writeStrings res)))
          | wopQueryPathHash \<Rightarrow>
              abind readPath (\<lambda>path.
              abind (working (on_cl (ask (queryPathHash g store path)))) (\<lambda>h. reply (writeString (printHash h))))
          | wopQueryReferences \<Rightarrow> query_strings env (ls_queryReferences g store)
          | wopQueryReferrers \<Rightarrow> query_strings env (ls_queryReferrers store)
          | wopQueryValidDerivers \<Rightarrow> query_strings env (ls_queryValidDerivers store)
          | wopQueryDerivationOutputs \<Rightarrow> query_strings env ls_queryDerivationOutputs
          | wopQueryDerivationOutputNames \<Rightarrow> query_strings env queryDerivationOutputNames
          | wopQueryDeriver \<Rightarrow>
              abind readPath (\<lambda>path.
              abind (working (on_cl (ask (ls_queryDeriver g store path)))) (\<lambda>deriver. reply (writeString deriver)))
          | wopQueryPathFromHashPart \<Rightarrow>
              abind (recv readString) (\<lambda>hashPart.
              abind (working (on_cl (ask (queryPathFromHashPart store hashPart)))) (\<lambda>path. reply (writeString path)))
          | wopAddToStore \<Rightarrow> op_addToStore env
          | wopAddTextToStore \<Rightarrow> op_addTextToStore env
          | wopExportPath \<Rightarrow> op_exportPath env
          | wopImportPaths \<Rightarrow> op_importPaths env
          | wopBuildPaths \<Rightarrow> op_buildPaths sv env n trusted clientVersion
          | wopEnsurePath \<Rightarrow>
              abind readPath (\<lambda>path. acknowledge (on_cw (ensurePath (sv_fuel sv) env (sv_events sv n path) path)))
          | wopAddTempRoot \<Rightarrow> abind readPath (\<lambda>path. acknowledge (on_cl (addTempRoot denv path)))
          | wopAddIndirectRoot \<Rightarrow>
              abind (recv readString) (\<lambda>s.
              abind (alift (absPath (Inr ''/'') s [])) (\<lambda>path. acknowledge (on_cl (addIndirectRoot denv path))))
          | wopSyncWithGC \<Rightarrow> acknowledge (on_cl (syncWithGC denv))
          | wopFindRoots \<Rightarrow> op_findRoots env
          | wopCollectGarbage \<Rightarrow> op_collectGarbage env isRemoteConnection clientVersion
          | wopSetOptions \<Rightarrow> op_setOptions env trusted isRemoteConnection clientVersion
          | wopQuerySubstitutablePathInfo \<Rightarrow> op_querySubstitutablePathInfo env clientVersion
          | wopQuerySubstitutablePathInfos \<Rightarrow> op_querySubstitutablePathInfos env
          | wopQueryAllValidPaths \<Rightarrow>
              abind (working (on_cl (ask (\<lambda>db. Inr (queryAllValidPaths db))))) (\<lambda>paths. reply (writeStrings paths))
          | wopQueryFailedPaths \<Rightarrow>
              abind (working (on_cl (ask (\<lambda>db. Inr (queryFailedPaths db))))) (\<lambda>paths. reply (writeStrings paths))
          | wopClearFailedPaths \<Rightarrow>
              abind (recv readStringSet) (\<lambda>paths. acknowledge (on_cl (on_store (clearFailedPaths paths))))
          | wopQueryPathInfo \<Rightarrow> op_queryPathInfo env
          | wopOptimiseStore \<Rightarrow> acknowledge (on_cl (optimiseStore denv))
          | wopVerifyStore \<Rightarrow> op_verifyStore sv env n trusted
          | wopBuiltinBuilders \<Rightarrow>
              abind (working (areturn ())) (\<lambda>_. reply (writeStrings builtinBuilderNames))
          | wopSubstituteURLs \<Rightarrow>
              abind (working (aget (\<lambda>c. substitute_urls (cn_settings c)))) (\<lambda>urls. reply (writeStrings urls)))))"

section \<open>The loop of a connection\<close>

definition is_Error :: "exn \<Rightarrow> bool" where
  "is_Error c \<longleftrightarrow> c \<noteq> StdException"

definition status_for :: "server \<Rightarrow> 32 word \<Rightarrow> 32 word \<Rightarrow> 32 word" where
  "status_for sv clientVersion status = (if GET_PROTOCOL_MINOR clientVersion \<ge> 8 then status else 0)"

definition try_op :: "server \<Rightarrow> bool \<Rightarrow> bool \<Rightarrow> 32 word \<Rightarrow> 32 word \<Rightarrow> (unit, connection) action" where
  "try_op sv trusted isRemoteConnection clientVersion op =
     acatch (performOp sv trusted isRemoteConnection clientVersion op)
       (\<lambda>e msg.
          if is_Error e then
            abind (aget cn_canSendStderr) (\<lambda>errorAllowed.
            abind (stopWork_error msg (status_for sv clientVersion (sv_status sv e msg))) (\<lambda>_.
            if \<not> errorAllowed then athrow (Throw e msg) else areturn ()))
          else athrow (Throw e msg))"

definition serve_one :: "server \<Rightarrow> bool \<Rightarrow> bool \<Rightarrow> 32 word \<Rightarrow> 32 word \<Rightarrow> (unit, connection) action" where
  "serve_one sv trusted isRemoteConnection clientVersion op =
     abind (amodify (\<lambda>c. c \<lparr> cn_opCount := Suc (cn_opCount c) \<rparr>)) (\<lambda>_.
     abind (try_op sv trusted isRemoteConnection clientVersion op) (\<lambda>_.
     abind (aget cn_canSendStderr) (\<lambda>can.
     if can then athrow (Abort ''!canSendStderr'') else areturn ())))"

text \<open>Every round reads at least the number of an operation, until the client closes the connection.\<close>

primrec serve :: "nat \<Rightarrow> server \<Rightarrow> bool \<Rightarrow> bool \<Rightarrow> 32 word \<Rightarrow> (unit, connection) action" where
  "serve 0 sv trusted isRemoteConnection clientVersion = athrow OutOfFuel"
| "serve (Suc fuel) sv trusted isRemoteConnection clientVersion =
     abind (acatch (abind (recv readInt) (\<lambda>op. areturn (Some op)))
              (\<lambda>e msg. if e = EndOfFile then areturn None else athrow (Throw e msg))) (\<lambda>r.
     case r of
       None \<Rightarrow> areturn ()
     | Some op \<Rightarrow>
         abind (serve_one sv trusted isRemoteConnection clientVersion op) (\<lambda>_.
         serve fuel sv trusted isRemoteConnection clientVersion))"

definition open_for :: "server \<Rightarrow> bool \<Rightarrow> int \<Rightarrow> (unit, connection) action" where
  "open_for sv reserveSpace userId =
     abind (aget (cn_env sv)) (\<lambda>env.
     abind (on_cl (LocalStore_open (be_daemon env) (be_accounts env) reserveSpace)) (\<lambda>readOnly.
     abind (mod_settings (readOnlyMode_update (\<lambda>r. r \<or> readOnly))) (\<lambda>_.
     abind (if id_arg userId = None then areturn ()
            else
              (case sv_getpwuid sv userId of
                 Some pw \<Rightarrow> on_cl (on_fs (createUser (be_daemon env) (pw_name pw) (nat userId)))
               | None \<Rightarrow> areturn ())) (\<lambda>_.
     stopWork))))"

definition processConnection :: "server \<Rightarrow> bool \<Rightarrow> bool \<Rightarrow> int \<Rightarrow> (unit, connection) action" where
  "processConnection sv trusted isRemoteConnection userId =
     abind (recv readInt) (\<lambda>magic.
     if magic \<noteq> WORKER_MAGIC_1 then athrow (Throw Error ''protocol mismatch'')
     else
       abind (reply (writeInt WORKER_MAGIC_2 @ writeInt PROTOCOL_VERSION)) (\<lambda>_.
       abind (recv readInt) (\<lambda>clientVersion.
       abind (if GET_PROTOCOL_MINOR clientVersion \<ge> 14 then recv_flag else areturn False) (\<lambda>affinity.
       abind (if affinity then abind (recv readInt) (\<lambda>_. areturn ()) else areturn ()) (\<lambda>_.
       abind (if GET_PROTOCOL_MINOR clientVersion \<ge> 11 then recv_flag else areturn True) (\<lambda>reserveSpace.
       abind startWork (\<lambda>_.
       abind (acatch (abind (open_for sv reserveSpace userId) (\<lambda>_. areturn True))
                (\<lambda>e msg.
                   if is_Error e then
                     abind (stopWork_error msg (status_for sv clientVersion 1)) (\<lambda>_. areturn False)
                   else athrow (Throw e msg))) (\<lambda>opened.
       if opened then
         abind (aget (\<lambda>c. Suc (length (cn_in c)))) (\<lambda>n. serve n sv trusted isRemoteConnection clientVersion)
       else areturn ()))))))))"

text \<open>
  The process for one client, who is on the same machine, with a user and a group, or not.  It works on a copy of the settings and, when it
  exits, the store is closed.
\<close>

datatype peer = Local int int | Remote

definition acceptConnection :: "server \<Rightarrow> peer \<Rightarrow> Settings \<Rightarrow> source \<Rightarrow> world \<Rightarrow> sink_calls \<times> world" where
  "acceptConnection sv p settings input w =
     (let (uid, gid, trusted, isRemote) =
            (case p of Local uid gid \<Rightarrow> (uid, gid, uid = 0, False) | Remote \<Rightarrow> (4294967295, 4294967295, False, True));
          c = \<lparr> cn_settings = settings \<lparr> clientUid := uid, clientGid := gid \<rparr>, cn_world = w, cn_in = input, cn_out = [],
                cn_canSendStderr = False, cn_opCount = 0 \<rparr>;
          c' = snd (processConnection sv trusted isRemote uid c)
      in (cn_out c', snd (on_world LocalStore_close (cn_world c'))))"

end
