(* ===== verification/Daemon_Correct.thy ===== *)
theory Daemon_Correct
  imports Daemon Action_Rules Sample_Build
begin

text \<open>
  What a client can do to the daemon: a client that is not trusted cannot change the settings that protect the machine, whatever
  it sends.
\<close>

section \<open>Operations that leave the settings alone\<close>

definition same_settings :: "connection \<Rightarrow> connection \<Rightarrow> bool" where
  "same_settings c d \<longleftrightarrow> cn_settings d = cn_settings c"

lemma same_settings_rel: "reflp same_settings" "transp same_settings"
  by (simp_all add: same_settings_def reflp_def transp_def)

lemmas same_rules = keeps_pure [OF same_settings_rel(1)] keeps_abind [OF same_settings_rel(2)]
  keeps_aforeach [OF same_settings_rel] keeps_acatch [OF same_settings_rel(2)] keeps_cases

lemma same_steps:
  "keeps same_settings (recv f)" "keeps same_settings (reply calls)" "keeps same_settings (on_cw m)"
  "keeps same_settings (on_cl l)" "keeps same_settings startWork" "keeps same_settings stopWork"
  "keeps same_settings (stopWork_error msg status)"
proof -
  show recv: "keeps same_settings (recv f)" for f :: "source \<Rightarrow> ('a \<times> source) result"
    by (rule keepsI) (simp add: recv_def same_settings_def split: sum.split)
  show reply: "keeps same_settings (reply calls)" for calls
    by (rule keepsI) (simp add: reply_def action_run same_settings_def)
  show cw: "keeps same_settings (on_cw m)" for m :: "('b, world) action"
    by (rule keepsI) (simp add: on_cw_def same_settings_def split: prod.split)
  have "keeps same_settings (on_cw m)" for m :: "('c, world) action"
    by (rule keepsI) (simp add: on_cw_def same_settings_def split: prod.split)
  then show "keeps same_settings (on_cl l)" for l :: "('c, local_store) action" by (simp add: on_cl_def)
  have can: "keeps same_settings (amodify (\<lambda>c. c \<lparr> cn_canSendStderr := b \<rparr>))" for b
    by (rule keepsI) (simp add: action_run same_settings_def)
  show "keeps same_settings startWork" "keeps same_settings stopWork" "keeps same_settings (stopWork_error msg status)"
    unfolding startWork_def stopWork_def stopWork_error_def by (intro same_rules can reply)+
qed

lemma same_working: "keeps same_settings m \<Longrightarrow> keeps same_settings (working m)"
  unfolding working_def by (intro same_rules same_steps)

lemma same_acknowledge: "keeps same_settings m \<Longrightarrow> keeps same_settings (acknowledge m)"
  unfolding acknowledge_def by (intro same_rules same_steps same_working)

lemma same_tunnel: "keeps same_settings (with_TunnelSource fuel f got)"
proof (induction fuel arbitrary: got)
  case 0
  show ?case by (simp add: same_rules)
next
  case (Suc fuel)
  show ?case
  proof
    fix c
    have IH: "cn_settings (snd (with_TunnelSource fuel f got' d)) = cn_settings d" for got' d
      using keepsD [OF Suc] by (simp add: same_settings_def)
    show "same_settings c (snd (with_TunnelSource (Suc fuel) f got c))"
      by (simp add: same_settings_def IH Let_def split: prod.split sum.split)
  qed
qed

lemma same_parse: "keeps same_settings (parse_saving sink k)"
  by (rule keepsI) (simp add: parse_saving_def same_settings_def split: prod.split sum.split)

lemma same_known: "keeps same_settings (known x)"
  unfolding known_def by (intro same_rules)

lemma same_flag: "keeps same_settings recv_flag"
  unfolding recv_flag_def by (intro same_rules same_steps)

lemmas same_intros = same_rules same_steps same_working same_acknowledge same_tunnel same_parse same_known same_flag

lemmas op_defs = query_strings_def op_isValidPath_def op_addToStore_def op_addTextToStore_def op_exportPath_def op_importPaths_def
  op_buildPaths_def op_findRoots_def op_collectGarbage_def op_querySubstitutablePathInfo_def
  op_querySubstitutablePathInfos_def op_queryPathInfo_def op_verifyStore_def

lemma same_ops:
  "keeps same_settings (query_strings env q)" "keeps same_settings (op_isValidPath env)" "keeps same_settings (op_addToStore env)"
  "keeps same_settings (op_addTextToStore env)" "keeps same_settings (op_exportPath env)" "keeps same_settings (op_importPaths env)"
  "keeps same_settings (op_buildPaths sv env n trusted v)" "keeps same_settings (op_findRoots env)"
  "keeps same_settings (op_collectGarbage env remote v)" "keeps same_settings (op_querySubstitutablePathInfo env v)"
  "keeps same_settings (op_querySubstitutablePathInfos env)" "keeps same_settings (op_queryPathInfo env)"
  "keeps same_settings (op_verifyStore sv env n trusted)"
  unfolding op_defs Let_def by (intro same_intros)+

section \<open>Settings out of the reach of clients\<close>

definition guarded_options :: "string list" where
  "guarded_options =
     [''system'', ''gc-reserved-space'', ''fsync-metadata'', ''use-sqlite-wal'', ''sync-before-registering'', ''build-users-group'',
      ''build-use-chroot'', ''build-impersonate-linux-26'', ''build-keep-log'', ''build-max-log-size'', ''build-cache-failure'',
      ''build-poll-interval'', ''gc-check-reachability'', ''gc-keep-outputs'', ''gc-keep-derivations'', ''auto-optimise-store'',
      ''env-keep-derivations'']"

definition guarded_settings :: "Settings \<Rightarrow> Settings \<Rightarrow> bool" where
  "guarded_settings s t \<longleftrightarrow>
     nixStore t = nixStore s \<and> nixLogDir t = nixLogDir s \<and> nixStateDir t = nixStateDir s \<and> nixDBPath t = nixDBPath s \<and>
     nixConfDir t = nixConfDir s \<and> nixBinDir t = nixBinDir s \<and> guixProgram t = guixProgram s \<and>
     clientUid t = clientUid s \<and> clientGid t = clientGid s \<and> thisSystem t = thisSystem s \<and>
     reservedSize t = reservedSize s \<and> fsyncMetadata t = fsyncMetadata s \<and> useSQLiteWAL t = useSQLiteWAL s \<and>
     syncBeforeRegistering t = syncBeforeRegistering s \<and> buildUsersGroup t = buildUsersGroup s \<and>
     useChroot t = useChroot s \<and> impersonateLinux26 t = impersonateLinux26 s \<and> keepLog t = keepLog s \<and>
     maxLogSize t = maxLogSize s \<and> cacheFailure t = cacheFailure s \<and> pollInterval t = pollInterval s \<and>
     checkRootReachability t = checkRootReachability s \<and> gcKeepOutputs t = gcKeepOutputs s \<and>
     gcKeepDerivations t = gcKeepDerivations s \<and> autoOptimiseStore t = autoOptimiseStore s \<and>
     envKeepDerivations t = envKeepDerivations s"

text \<open>The settings are what the options by name say, as they are after \<^verbatim>\<open>update\<close>.\<close>

definition in_sync :: "Settings \<Rightarrow> bool" where
  "in_sync s \<longleftrightarrow> list_all (\<lambda>step. step s = (Inr (), s)) update_steps"

definition out_of_reach :: "Settings \<Rightarrow> Settings \<Rightarrow> bool" where
  "out_of_reach s t \<longleftrightarrow>
     guarded_settings s t \<and> (\<forall>n \<in> set guarded_options. map_of (settings_map t) n = map_of (settings_map s) n) \<and>
     (\<not> useSubstitutes s \<longrightarrow> \<not> useSubstitutes t \<and>
        map_of (settings_map t) ''build-use-substitutes'' = map_of (settings_map s) ''build-use-substitutes'')"


definition reads_only :: "'a reader \<Rightarrow> bool" where
  "reads_only rd \<longleftrightarrow> (\<forall>m m' n d. map_of m n = map_of m' n \<longrightarrow> rd m n d = rd m' n d)"

lemma readers_read [simp]: "reads_only read_bool" "reads_only read_string" "reads_only (read_number ty)"
  by (simp_all add: reads_only_def read_bool_def read_string_def read_number_def)

text \<open>An option that clients do not reach, and one that they do.\<close>

lemma reach_guarded:
  assumes "in_sync s" "out_of_reach s t" "assign rd sel upd n \<in> set update_steps" "reads_only rd" "n \<in> set guarded_options"
    and "sel t = sel s" "\<And>x v. sel (upd (\<lambda>_. v) x) = v" "\<And>x. upd (\<lambda>_. sel x) x = x"
  shows "out_of_reach s (snd (assign rd sel upd n t))"
proof -
  have "assign rd sel upd n s = (Inr (), s)" using assms(1,3) by (simp add: in_sync_def list_all_iff)
  moreover have "fst (assign rd sel upd n s) = fst (rd (settings_map s) n (sel s))"
    "sel (snd (assign rd sel upd n s)) = snd (rd (settings_map s) n (sel s))"
    by (simp_all add: assign_def assms(7) split: prod.split)
  ultimately have "rd (settings_map s) n (sel s) = (Inr (), sel s)" by (simp add: prod_eq_iff)
  moreover have "map_of (settings_map t) n = map_of (settings_map s) n" using assms(2,5) by (simp add: out_of_reach_def)
  ultimately have "rd (settings_map t) n (sel t) = (Inr (), sel t)" using assms(4,6) unfolding reads_only_def by metis
  then show ?thesis using assms(2,8) by (simp add: assign_def)
qed

lemma reach_free:
  assumes "out_of_reach s t" "\<And>v. out_of_reach s (upd (\<lambda>_. v) t)"
  shows "out_of_reach s (snd (assign rd sel upd n t))"
  using assms by (simp add: assign_def split: prod.split)

lemma reach_substitutes:
  assumes "in_sync s" "out_of_reach s t"
  shows "out_of_reach s (snd (assign read_bool useSubstitutes useSubstitutes_update ''build-use-substitutes'' t))"
proof (cases "useSubstitutes s")
  case True
  then show ?thesis using assms(2) by (intro reach_free) (simp_all add: out_of_reach_def guarded_settings_def)
next
  case False
  have "assign read_bool useSubstitutes useSubstitutes_update ''build-use-substitutes'' \<in> set update_steps"
    by (simp add: update_steps_def)
  then have "snd (assign read_bool useSubstitutes useSubstitutes_update ''build-use-substitutes'' s) = s"
    using bspec [OF assms(1) [unfolded in_sync_def list_all_iff]] by fastforce
  moreover have "useSubstitutes (snd (assign read_bool useSubstitutes useSubstitutes_update ''build-use-substitutes'' s)) =
      snd (read_bool (settings_map s) ''build-use-substitutes'' (useSubstitutes s))"
    by (simp add: assign_def split: prod.split)
  ultimately have s: "snd (read_bool (settings_map s) ''build-use-substitutes'' False) = False" using False by simp
  have t: "\<not> useSubstitutes t" "map_of (settings_map t) ''build-use-substitutes'' = map_of (settings_map s) ''build-use-substitutes''"
    using assms(2) False by (simp_all add: out_of_reach_def)
  have "snd (read_bool (settings_map t) ''build-use-substitutes'' (useSubstitutes t)) = useSubstitutes t"
    using s t by (simp add: read_bool_def)
  moreover have "useSubstitutes_update (\<lambda>_. useSubstitutes t) t = t" by simp
  moreover have "snd (assign rd sel upd n t) = upd (\<lambda>_. snd (rd (settings_map t) n (sel t))) t" for rd sel n
    and upd :: "(bool \<Rightarrow> bool) \<Rightarrow> Settings \<Rightarrow> Settings"
    by (simp add: assign_def split: prod.split)
  ultimately show ?thesis using assms(2) by simp
qed

lemma reach_step:
  assumes "in_sync s" "out_of_reach s t"
  shows "list_all (\<lambda>step. out_of_reach s (snd (step t))) update_steps"
proof -
  note guarded = reach_guarded [OF assms]
  have g: "guarded_settings s t" using assms(2) by (simp add: out_of_reach_def)
  have free: "out_of_reach s (tryFallback_update (\<lambda>_. b) t)" "out_of_reach s (maxBuildJobs_update (\<lambda>_. i) t)"
    "out_of_reach s (buildCores_update (\<lambda>_. i) t)" "out_of_reach s (multiplexedBuildOutput_update (\<lambda>_. b) t)"
    "out_of_reach s (maxSilentTime_update (\<lambda>_. i) t)" "out_of_reach s (buildTimeout_update (\<lambda>_. i) t)" for b i
    using assms(2) by (simp_all add: out_of_reach_def guarded_settings_def)
  show ?thesis
    unfolding update_steps_def list.pred_inject
    by (intro conjI list.pred_inject(1);
        (rule reach_substitutes [OF assms] | (rule reach_free [OF assms(2)], rule free) |
         (rule guarded; simp add: update_steps_def guarded_options_def g [unfolded guarded_settings_def])))
qed

lemma reach_update:
  assumes "in_sync s" "out_of_reach s t"
  shows "out_of_reach s (snd (Settings_update t))"
proof -
  have "keeps (stays (out_of_reach s)) (aforeach steps (\<lambda>step. step))" if "set steps \<subseteq> set update_steps" for steps
    using that
  proof (induction steps)
    case Nil
    show ?case by (simp add: keeps_def stays_def action_run)
  next
    case (Cons step steps)
    have "keeps (stays (out_of_reach s)) step"
      using reach_step [OF assms(1)] Cons.prems by (auto simp: keeps_def stays_def list_all_iff)
    moreover have "transp (stays (out_of_reach s))" by (auto simp: transp_def stays_def)
    ultimately show ?case using Cons by (simp add: keeps_abind)
  qed
  from keepsD [OF this [of update_steps]] assms(2) show ?thesis by (simp add: Settings_update_def stays_def)
qed

section \<open>A client that is not trusted\<close>

definition keeps_reach :: "Settings \<Rightarrow> connection \<Rightarrow> connection \<Rightarrow> bool" where
  "keeps_reach s c d \<longleftrightarrow> (out_of_reach s (cn_settings c) \<longrightarrow> out_of_reach s (cn_settings d))"

lemma keeps_reach_rel: "reflp (keeps_reach s)" "transp (keeps_reach s)"
  by (auto simp: keeps_reach_def reflp_def transp_def)

lemmas reach_rules = keeps_pure [OF keeps_reach_rel(1)] keeps_abind [OF keeps_reach_rel(2)]
  keeps_aforeach [OF keeps_reach_rel] keeps_acatch [OF keeps_reach_rel(2)] keeps_cases

lemma reach_same: "keeps same_settings m \<Longrightarrow> keeps (keeps_reach s) m"
  by (erule keeps_mono) (simp add: same_settings_def keeps_reach_def)

lemmas reach_steps = same_steps [THEN reach_same] same_flag [THEN reach_same]

lemma reach_mod:
  "(\<And>t. out_of_reach s t \<Longrightarrow> out_of_reach s (f t)) \<Longrightarrow> keeps (keeps_reach s) (mod_settings f)"
  by (rule keepsI) (simp add: mod_settings_def action_run keeps_reach_def)

text \<open>Names that are not guarded.\<close>

lemma reach_set:
  assumes "n \<notin> set guarded_options" "n \<noteq> ''build-use-substitutes''"
  shows "keeps (keeps_reach s) (mod_settings (Settings_set n v))"
  using assms by (intro reach_mod) (auto simp: out_of_reach_def guarded_settings_def Settings_set_def)

lemma reach_set_plain:
  "n \<in> {''build-fallback'', ''build-max-jobs'', ''build-max-silent-time'', ''build-cores'', ''build-timeout'', ''build-repeat'',
     ''multiplexed-build-output''} \<Longrightarrow> keeps (keeps_reach s) (mod_settings (Settings_set n v))"
  by (rule reach_set) (auto simp: guarded_options_def)

lemma reach_set_untrusted: "keeps (keeps_reach s) (mod_settings (Settings_set (''untrusted-'' @ n) v))"
  by (rule reach_set) (simp_all add: guarded_options_def)

lemma reach_fields:
  "keeps (keeps_reach s) (mod_settings (keepFailed_update (\<lambda>_. b)))" "keeps (keeps_reach s) (mod_settings (keepGoing_update (\<lambda>_. b)))"
  "keeps (keeps_reach s) (mod_settings (useBuildHook_update (\<lambda>_. b)))" "keeps (keeps_reach s) (mod_settings (printBuildTrace_update (\<lambda>_. b)))"
  "keeps (keeps_reach s) (mod_settings (buildVerbosity_update (\<lambda>_. i)))" "keeps (keeps_reach s) (mod_settings (readOnlyMode_update (\<lambda>r. f r)))"
  by (rule reach_mod, simp add: out_of_reach_def guarded_settings_def)+

lemma reach_set_substitutes:
  "keeps (keeps_reach s) (abind (aget (\<lambda>c. useSubstitutes (cn_settings c))) (\<lambda>use.
     abind recv_flag (\<lambda>b. if use then mod_settings (Settings_set ''build-use-substitutes'' (truth b)) else areturn ())))"
proof
  fix c :: connection
  let ?go = "\<lambda>use. abind recv_flag (\<lambda>b. if use then mod_settings (Settings_set ''build-use-substitutes'' (truth b)) else areturn ())"
  have "keeps (keeps_reach s) (?go False)" by (simp add: reach_rules reach_steps)
  moreover have "keeps (keeps_reach s) (?go True)" if "useSubstitutes s"
  proof -
    have "keeps (keeps_reach s) (mod_settings (Settings_set ''build-use-substitutes'' v))" for v
      using that by (intro reach_mod) (auto simp: out_of_reach_def guarded_settings_def Settings_set_def guarded_options_def)
    then show ?thesis by (simp add: reach_rules reach_steps)
  qed
  moreover have "useSubstitutes (cn_settings c) \<Longrightarrow> out_of_reach s (cn_settings c) \<Longrightarrow> useSubstitutes s"
    by (auto simp: out_of_reach_def)
  ultimately show "keeps_reach s c (snd (abind (aget (\<lambda>c. useSubstitutes (cn_settings c))) ?go c))"
    by (cases "useSubstitutes (cn_settings c)"; cases "out_of_reach s (cn_settings c)")
      (auto simp: abind_def aget_def keeps_reach_def dest: keepsD)
qed

lemma reach_option: "keeps (keeps_reach s) (set_option env False)"
proof -
  have harmless: "keeps (keeps_reach s) (mod_settings (Settings_set n v))" if "n \<in> set harmless_options" for n v
    using that by (intro reach_set_plain) (auto simp: harmless_options_def)
  show ?thesis
    unfolding set_option_def if_False by (intro reach_rules reach_steps reach_set_untrusted harmless)
qed

lemma reach_setOptions:
  assumes "in_sync s"
  shows "keeps (keeps_reach s) (op_setOptions env False remote v)"
proof -
  have update: "keeps (keeps_reach s) (\<lambda>c. case Settings_update (cn_settings c) of (r, u) \<Rightarrow> (r, c \<lparr> cn_settings := u \<rparr>))"
  proof
    fix c
    show "keeps_reach s c (snd (case Settings_update (cn_settings c) of (r, u) \<Rightarrow> (r, c \<lparr> cn_settings := u \<rparr>)))"
      using reach_update [OF assms, of "cn_settings c"] by (cases "Settings_update (cn_settings c)") (simp add: keeps_reach_def)
  qed
  have work: "keeps (keeps_reach s) (working (areturn ()))" by (intro reach_same same_intros)
  show ?thesis
    unfolding op_setOptions_def Let_def
    by (intro reach_rules reach_steps reach_fields reach_option reach_set_substitutes update work reach_set_plain) simp_all
qed

lemma reach_performOp:
  assumes "in_sync s"
  shows "keeps (keeps_reach s) (performOp sv False remote v op)"
  unfolding performOp_def Let_def
proof (intro reach_rules, goal_cases)
  case (1 env n wop)
  show ?case
    by (cases wop; simp only: WorkerOp.case; (rule reach_setOptions [OF assms] | (rule reach_same, intro same_intros same_ops)))
qed

lemma reach_serve:
  assumes "in_sync s"
  shows "keeps (keeps_reach s) (serve fuel sv False remote v)"
proof (induction fuel)
  case 0
  show ?case by (simp add: reach_rules)
next
  case (Suc fuel)
  have count: "keeps (keeps_reach s) (amodify (\<lambda>c. c \<lparr> cn_opCount := f c \<rparr>))" for f
    by (rule keepsI) (simp add: action_run keeps_reach_def)
  have "keeps (keeps_reach s) (serve_one sv False remote v op)" for op
    unfolding serve_one_def try_op_def by (intro reach_rules reach_steps reach_performOp [OF assms] count)
  then show ?case using Suc unfolding serve.simps by (intro reach_rules reach_steps)
qed

lemma reach_connection:
  assumes "in_sync s"
  shows "keeps (keeps_reach s) (processConnection sv False remote uid)"
proof -
  have "keeps (keeps_reach s) (open_for sv reserve uid)" for reserve
    unfolding open_for_def by (intro reach_rules reach_steps reach_fields)
  then show ?thesis
    unfolding processConnection_def by (intro reach_rules reach_steps reach_serve [OF assms])
qed

text \<open>
  A client that is not trusted does not change the settings that protect the machine, whatever it sends and however the
  connection ends: directories, the group of the build users, the chroot, the system type, what the garbage collector keeps,
  logs, the database.  It can turn substitutes off, and cannot turn them on.
\<close>

theorem untrusted_client_settings:
  assumes "in_sync (cn_settings c)" "processConnection sv False remote uid c = (r, d)"
  shows "guarded_settings (cn_settings c) (cn_settings d) \<and>
    (useSubstitutes (cn_settings d) \<longrightarrow> useSubstitutes (cn_settings c))"
proof -
  have "out_of_reach (cn_settings c) (cn_settings c)" by (simp add: out_of_reach_def guarded_settings_def)
  moreover have "keeps_reach (cn_settings c) c (snd (processConnection sv False remote uid c))"
    by (rule keepsD [OF reach_connection [OF assms(1)]])
  ultimately have "out_of_reach (cn_settings c) (cn_settings d)" using assms(2) by (simp add: keeps_reach_def)
  then show ?thesis by (auto simp: out_of_reach_def)
qed

definition sample_server :: server where
  "sample_server =
     \<lparr> sv_env = (\<lambda>_. sample_build), sv_events = (\<lambda>_ _. []), sv_status = (\<lambda>_ _. 1), sv_fuel = 0, sv_getpwuid = (\<lambda>_. None) \<rparr>"

text \<open>A client that asks for another group of build users.\<close>

definition sample_client :: connection where
  "sample_client =
     \<lparr> cn_settings = de_settings sample_daemon, cn_world = sample_world,
       cn_in = concat (writeInt WORKER_MAGIC_1 @ writeInt 0x163 @ writeInt 0 @ writeInt 0 @ writeInt 19 @ writeInt 0 @ writeInt 0 @
         writeInt 0 @ writeInt 0 @ writeInt 0 @ writeInt 0 @ writeInt 0 @ writeInt 0 @ writeInt 0 @ writeInt 1 @
         writeString ''build-users-group'' @ writeString ''wheel''),
       cn_out = [], cn_canSendStderr = False, cn_opCount = 0 \<rparr>"

theorem untrusted_client_settings_witness:
  "buildUsersGroup (cn_settings (snd (processConnection sample_server False True 4294967295 sample_client))) = [] \<and>
   in_sync (cn_settings sample_client)"
proof -
  have sync: "in_sync (cn_settings sample_client)"
    by (simp add: in_sync_def update_steps_def assign_def read_bool_def read_string_def read_number_def sample_client_def
        sample_daemon_def Settings_init_def)
  obtain r d where d: "processConnection sample_server False True 4294967295 sample_client = (r, d)" by fastforce
  have "buildUsersGroup (cn_settings d) = buildUsersGroup (cn_settings sample_client)"
    using untrusted_client_settings [OF sync d] by (simp add: guarded_settings_def)
  then show ?thesis using sync d by (simp add: sample_client_def sample_daemon_def Settings_init_def)
qed

end
