(* ===== verification/Spec2Isabelle.thy ===== *)
theory Spec2Isabelle
  imports Archive_Correct References GC_Correct Worker_Correct Daemon_Correct
begin

text \<open>
  The build daemon of GNU Guix, \<^verbatim>\<open>src/nix\<close>.  It keeps a store of immutable files, each the output of a
  derivation or a source, with a database that says which are valid and what they refer to; it builds
  derivations, fetches substitutes, collects garbage, and serves clients over a socket.

  \<^bold>\<open>Conventions.\<close>  Pure code is a function.  Code with effects is an action, \<open>'s \<Rightarrow> 'a result \<times> 's\<close> (theory
  \<open>Prelude\<close>): it takes a state and gives a result and a state, also when it throws, so that what is left behind by an
  exception can be stated.  A result is a value or an \<open>error\<close>: an exception with its class (\<open>Throw\<close>, which
  \<open>acatch\<close> catches), a failed assertion (\<open>Abort\<close>, which nothing catches), a call that does not return (\<open>Diverges\<close>), or
  a bound that was too small (\<open>OutOfFuel\<close>).  \<^verbatim>\<open>std::set\<close> and \<^verbatim>\<open>std::map\<close> are sorted lists (\<open>oinsert\<close>, \<open>oput\<close>), so that
  iteration has the order of the program.  Strings are lists of bytes; numbers that can wrap are words.  An action on
  a part of a state is lifted to the whole by functions such as \<open>on_fs\<close>, \<open>on_world\<close> and \<open>on_w\<close>.

  \<^bold>\<open>libutil.\<close>
  \<^item> \<open>Serialise\<close> (\<^verbatim>\<open>serialise.cc\<close>, \<^verbatim>\<open>serialise.hh\<close>): the wire format, buffered sinks and sources over descriptors that transfer
    any number of bytes.  The locales \<open>byte_sink\<close>, \<open>byte_source\<close> and \<open>buffered_over\<close> are the contracts of the
    abstract classes; each class of the program is an interpretation.
  \<^item> \<open>Hash\<close> (\<^verbatim>\<open>hash.cc\<close>, \<^verbatim>\<open>hash.hh\<close>): printing and parsing in base 16 and 32, folding, sinks.  Libgcrypt is a parameter.
  \<^item> \<open>Util\<close> (\<^verbatim>\<open>util.cc\<close>, pure and descriptor-level parts): paths, strings, parsing of streams, whole reads and writes.
  \<^item> \<open>Archive\<close>, \<open>Archive_Correct\<close> (\<^verbatim>\<open>archive.cc\<close>): dumping, parsing into a sink and restoring.  The locales
    \<open>sink_contract\<close> and \<open>total_sink\<close> are what a parse sink promises, interpreted by the one that restores files.
  \<^item> \<open>FileSystem\<close> (file operations of \<^verbatim>\<open>util.cc\<close>): names, inodes, permissions, time, process identity, and a script of faults
    with which any system call can fail; deletion, directories, temporary directories, locks of file descriptors.

  \<^bold>\<open>libstore.\<close>
  \<^item> \<open>Globals\<close> (\<^verbatim>\<open>globals.cc\<close>), \<open>StoreApi\<close> (\<^verbatim>\<open>store-api.cc\<close>), \<open>Derivations\<close> (\<^verbatim>\<open>derivations.cc\<close>), \<open>References\<close>
    (\<^verbatim>\<open>references.cc\<close>), \<open>Misc\<close> (\<^verbatim>\<open>misc.cc\<close>).  The locale \<open>store_provider\<close> of \<open>Misc\<close> is what closure and sorting
    need of a store; \<open>LocalStore\<close> interprets it with the database.
  \<^item> \<open>LocalStore\<close> (\<^verbatim>\<open>local-store.cc\<close>, \<^verbatim>\<open>sqlite.cc\<close>, \<^verbatim>\<open>schema.sql\<close>): the tables, every prepared statement, transactions with rollback,
    registration and invalidation of paths.
  \<^item> \<open>PathLocks\<close> (\<^verbatim>\<open>pathlocks.cc\<close>): lock files in the file system, and the protocol of many processes as a step relation.
  \<^item> \<open>GC\<close>, \<open>GC_Correct\<close> (\<^verbatim>\<open>gc.cc\<close>): roots, temporary roots, the search, deletion, trash, unused links.
  \<^item> \<open>Metadata\<close>, \<open>Content\<close>, \<open>Optimise\<close>, \<open>StoreOps\<close> (\<^verbatim>\<open>local-store.cc\<close>, \<^verbatim>\<open>optimise-store.cc\<close>): canonical metadata, archives of what is on disk,
    deduplication, adding to the store, export and import, queries to the substituter, verification.
  \<^item> \<open>Building\<close>, \<open>Goals\<close>, \<open>Substitution\<close>, \<open>Derivation_Goal\<close>, \<open>Start_Build\<close>, \<open>Finish_Build\<close>, \<open>Worker\<close> (\<^verbatim>\<open>build.cc\<close>): goals are records in
    a heap whose addresses are never used twice; a shared pointer is an address that counts as an owner, a
    weak pointer one that does not, and \<open>release_unowned\<close> runs the destructors of goals that have lost their last owner.
    Each state of a goal is a definition with the name of the method.  Processes are parameters: how one answers, what
    it reports about its set-up, its exit status.  What arrives through \<^verbatim>\<open>select\<close>, and how time passes, is a
    script of events that may change the file system.  \<open>Goal_Steps\<close> splits all methods and the loop into named
    steps, in a locale that takes any relation these steps keep to the whole loop; \<open>Worker_Correct\<close> interprets it.

  \<^bold>\<open>nix-daemon.\<close>
  \<^item> \<open>Open_Store\<close> (constructor and destructor of \<^verbatim>\<open>LocalStore\<close>) and \<open>Daemon\<close> (\<^verbatim>\<open>nix-daemon.cc\<close>, \<^verbatim>\<open>worker-protocol.hh\<close>): the process for one client.
    Its input is all the client sends, its output what it gets; every operation of the protocol reads its arguments, calls the
    store and replies, with the handling of errors that decides whether the connection goes on.  The settings
    belong to the connection, and each operation runs with those of the moment.

  \<^bold>\<open>What the theorems show.\<close>  The collector never deletes a live path, and one that ends normally leaves no dead
  path; registration is atomic and keeps the constraints of the schema; closures and topological orders are exact;
  scanning finds exactly the references in the archive; the hash of a derivation modulo fixed outputs is that of the
  recursive definition; path locks exclude each other; parsing inverts printing for derivations, archives, hashes and
  the wire format; restoring an archive recreates its tree and touches nothing else; deletion and canonicalisation change
  exactly their subtree; the worker keeps to the number of jobs.  Some theorems show a defect: lock files that stay stale,
  archives with unsorted entries that are accepted, a string without end that is read for ever, a derivation that is
  never built.

  \<^bold>\<open>Bounds.\<close>  Walks over a directory tree get the number of names in the file system, which bounds the depth of a tree
  (\<open>fs_depth_bound\<close>); closures, sorting and the collector get the number of valid paths, and their theorems show
  that it is enough.  The methods of a derivation goal, which call each other, and the main loop, which may run for
  ever, take a bound, and the theorems about them hold for every bound and so for every prefix of a run.

  \<^bold>\<open>Not modelled.\<close>  The texts of messages beyond their constant part, logging and progress output; the process side of a
  build (\<^verbatim>\<open>runChild\<close>, namespaces, mounts, personality, network relays), which consists of system calls on another
  process; builtin builders, which only run another program; killing the processes of a user; SQLite itself beyond
  the statements the program prepares, and its retries when busy; signals and interrupts; CPU affinity;
  command line options (\<^verbatim>\<open>guix-daemon.cc\<close>); the sockets of \<^verbatim>\<open>nix-daemon.cc\<close> and its loop that accepts clients; the
  formatting library under \<^verbatim>\<open>src/nix/boost\<close>; the C programs under \<^verbatim>\<open>src/gnu/packages/aux-files\<close>, which are not
  part of the daemon.
\<close>

end
